(* ===== verification/Bundle_Prelude.thy ===== *)
theory Bundle_Prelude
  imports Main "HOL-Library.Word"
begin

text \<open>
  The shared vocabulary of the libbundle development: the machine integers of
  \<^verbatim>\<open>bundle.h\<close> (\<open>u8\<close> to \<open>u64\<close>, with \<open>size_t\<close> as a natural number whose
  additions wrap at \<open>2 ^ 64\<close>), the faults a C++ operation can end in, object
  representations of integers in memory (little endian on the x86-64 target, and the
  big endian order of the wire), and the part of the C and C++ libraries that the sources
  call on text (character classes, \<^verbatim>\<open>std::stol\<close> and its relatives).

  An \<^verbatim>\<open>assert\<close> of the sources is the macro of \<^verbatim>\<open>Easylog.h\<close>: it logs at level
  \<open>PANIC\<close>, and \<^verbatim>\<open>Easylog::log_message\<close> calls \<^verbatim>\<open>abort\<close> at that level. A failed
  assertion is therefore the fault \<open>AssertFailed\<close>, after which nothing runs.
\<close>

unbundle bit_operations_syntax

named_theorems fault_simps \<open>case analysis of operations that may fault\<close>
named_theorems layout_simps \<open>lengths and offsets of object representations\<close>

section \<open>Machine integers and bytes\<close>

type_synonym u8 = "8 word"
type_synonym u16 = "16 word"
type_synonym u32 = "32 word"
type_synonym u64 = "64 word"
type_synonym bytes = "u8 list"
type_synonym SOCKET = int

text \<open>Addition of two \<^verbatim>\<open>size_t\<close> values.\<close>

definition size_add :: "nat \<Rightarrow> nat \<Rightarrow> nat" where
  "size_add a b = (a + b) mod 2 ^ 64"

lemma size_add_exact [simp]: "a + b < 2 ^ 64 \<Longrightarrow> size_add a b = a + b"
  by (simp add: size_add_def)

lemma size_add_less: "size_add a b < 2 ^ 64"
  by (simp add: size_add_def)

text \<open>Sizes that are kept in 32 bits, and read as \<^verbatim>\<open>int\<close>.\<close>

lemma unat_of_nat_u32: "n < 2 ^ 32 \<Longrightarrow> unat (of_nat n :: u32) = n"
  by (simp add: unat_of_nat)

lemma sint_pos_u32: "0 < sint (w :: u32) \<Longrightarrow> nat (sint w) = unat w"
proof -
  assume "0 < sint w"
  moreover have "uint w < 2 ^ 32" "0 \<le> uint w" using unsigned_less [where ?'a = int and w = w] by simp_all
  ultimately have "sint w = uint w"
    unfolding sint_uint signed_take_bit_eq_take_bit_minus
    by (cases "bit (uint w) 31") (simp_all add: take_bit_int_eq_self)
  then show ?thesis by simp
qed

lemma sint_of_nat_u32: "n < 2 ^ 31 \<Longrightarrow> sint (of_nat n :: u32) = int n"
proof -
  assume n: "n < 2 ^ 31"
  then have "uint (of_nat n :: u32) = int n" by (simp add: unsigned_of_nat take_bit_nat_eq_self)
  with n show ?thesis unfolding sint_uint by (simp add: signed_take_bit_int_eq_self)
qed

section \<open>Faults\<close>

text \<open>
  What ends a run abnormally: a failed assertion, an access outside an allocated block,
  a read of a value that was never written or returned, a pointer that is null or whose object
  was deleted, and an overflow of signed integers.
\<close>

datatype fault = AssertFailed | HeapOverrun | UninitRead | NullDeref | UseAfterFree | IntOverflow

type_synonym 'a res = "fault + 'a"

fun bindE :: "'a res \<Rightarrow> ('a \<Rightarrow> 'b res) \<Rightarrow> 'b res" where
  "bindE (Inl e) f = Inl e"
| "bindE (Inr x) f = f x"

definition assertE :: "bool \<Rightarrow> 'a res \<Rightarrow> 'a res" where
  "assertE c k = (if c then k else Inl AssertFailed)"

lemma bindE_Inr_iff [fault_simps]:
  "bindE m f = Inr y \<longleftrightarrow> (\<exists>x. m = Inr x \<and> f x = Inr y)"
  by (cases m) auto

lemma assertE_Inr_iff [fault_simps]: "assertE c k = Inr y \<longleftrightarrow> c \<and> k = Inr y"
  by (simp add: assertE_def)

lemma assertE_simps [simp]: "assertE True k = k" "assertE False k = Inl AssertFailed"
  by (simp_all add: assertE_def)

lemma bindE_assoc: "bindE (bindE m f) g = bindE m (\<lambda>x. bindE (f x) g)"
  by (cases m) auto

text \<open>A sequence of state changes, and a sequence of operations that also return values.\<close>

fun foldE :: "('x \<Rightarrow> 's \<Rightarrow> 's res) \<Rightarrow> 'x list \<Rightarrow> 's \<Rightarrow> 's res" where
  "foldE f [] s = Inr s"
| "foldE f (x # xs) s = bindE (f x s) (foldE f xs)"

fun traverseE :: "('x \<Rightarrow> 's \<Rightarrow> ('y \<times> 's) res) \<Rightarrow> 'x list \<Rightarrow> 's \<Rightarrow> ('y list \<times> 's) res" where
  "traverseE f [] s = Inr ([], s)"
| "traverseE f (x # xs) s =
     bindE (f x s) (\<lambda>(y, s'). bindE (traverseE f xs s') (\<lambda>(ys, s''). Inr (y # ys, s'')))"

lemma foldE_append: "foldE f (xs @ ys) s = bindE (foldE f xs s) (foldE f ys)"
proof (induction xs arbitrary: s)
  case (Cons x xs)
  then show ?case by (cases "f x s") auto
qed simp

lemma foldE_map: "foldE f (map g xs) s = foldE (f \<circ> g) xs s"
proof (induction xs arbitrary: s)
  case (Cons x xs)
  then show ?case by (cases "f (g x) s") auto
qed simp

text \<open>\<open>okE P r\<close>: if the run ends normally, its result satisfies \<open>P\<close>.\<close>

definition okE :: "('a \<Rightarrow> bool) \<Rightarrow> 'a res \<Rightarrow> bool" where
  "okE P r \<longleftrightarrow> (\<forall>x. r = Inr x \<longrightarrow> P x)"

lemma okE_simps [simp]: "okE P (Inl e)" "okE P (Inr x) = P x"
  by (simp_all add: okE_def)

lemma okE_bind: "okE P m \<Longrightarrow> (\<And>x. P x \<Longrightarrow> okE Q (f x)) \<Longrightarrow> okE Q (bindE m f)"
  by (cases m) simp_all

lemma okE_bind_pure: "(\<And>x. m = Inr x \<Longrightarrow> okE Q (f x)) \<Longrightarrow> okE Q (bindE m f)"
  by (cases m) simp_all

lemma okE_assert: "(c \<Longrightarrow> okE Q r) \<Longrightarrow> okE Q (assertE c r)"
  by (simp add: assertE_def)

lemma okE_mono: "okE P r \<Longrightarrow> (\<And>x. P x \<Longrightarrow> Q x) \<Longrightarrow> okE Q r"
  by (simp add: okE_def)

section \<open>Object representations\<close>

text \<open>
  \<open>le_bytes w\<close> is the object representation of \<open>w\<close> on a little endian machine, and
  \<open>le_word\<close> reads one back; \<open>be_bytes\<close> and \<open>be_word\<close> are the network order.
\<close>

definition le_bytes :: "'a::len word \<Rightarrow> bytes" where
  "le_bytes w = map (\<lambda>i. ucast (drop_bit (8 * i) w)) [0..<LENGTH('a) div 8]"

fun le_word :: "bytes \<Rightarrow> 'a::len word" where
  "le_word [] = 0"
| "le_word (b # bs) = ucast b OR push_bit 8 (le_word bs)"

definition be_bytes :: "'a::len word \<Rightarrow> bytes" where
  "be_bytes w = rev (le_bytes w)"

definition be_word :: "bytes \<Rightarrow> 'a::len word" where
  "be_word bs = le_word (rev bs)"

lemma length_le_bytes [simp, layout_simps]:
  "length (le_bytes (w :: 'a::len word)) = LENGTH('a) div 8"
  by (simp add: le_bytes_def)

lemma length_be_bytes [simp, layout_simps]:
  "length (be_bytes (w :: 'a::len word)) = LENGTH('a) div 8"
  by (simp add: be_bytes_def)

lemma bit_le_word:
  "bit (le_word bs :: 'a::len word) n \<longleftrightarrow>
     n < LENGTH('a) \<and> n div 8 < length bs \<and> bit (bs ! (n div 8)) (n mod 8)"
proof (induction bs arbitrary: n)
  case Nil
  then show ?case by simp
next
  case (Cons b bs)
  show ?case
  proof (cases "n < 8")
    case True
    then show ?thesis
      by (auto simp: bit_or_iff bit_push_bit_iff bit_ucast_iff)
  next
    case False
    then obtain m where n: "n = m + 8"
      by (metis le_add_diff_inverse2 not_less)
    have "\<not> bit b n"
      using False by (auto dest: bit_imp_le_length)
    moreover have "n div 8 = Suc (m div 8)" "n mod 8 = m mod 8"
      by (simp_all add: n)
    ultimately show ?thesis
      using Cons.IH [of m] n
      by (auto simp: bit_or_iff bit_push_bit_iff bit_ucast_iff)
  qed
qed

lemma le_word_le_bytes:
  assumes "8 dvd LENGTH('a)"
  shows "le_word (le_bytes w) = (w :: 'a::len word)"
proof (rule bit_word_eqI)
  fix n assume n: "n < LENGTH('a)"
  then have "n div 8 < LENGTH('a) div 8"
    using assms by (auto simp: less_mult_imp_div_less elim!: dvdE)
  then show "bit (le_word (le_bytes w) :: 'a word) n \<longleftrightarrow> bit w n"
    using n by (simp add: bit_le_word le_bytes_def bit_ucast_iff bit_drop_bit_eq)
qed

lemma le_bytes_le_word:
  assumes "8 dvd LENGTH('a)" and "length bs = LENGTH('a) div 8"
  shows "le_bytes (le_word bs :: 'a::len word) = bs"
proof (rule nth_equalityI)
  show "length (le_bytes (le_word bs :: 'a word)) = length bs"
    using assms(2) by simp
next
  fix i assume "i < length (le_bytes (le_word bs :: 'a word))"
  then have i: "i < LENGTH('a) div 8" by simp
  have sum: "8 * i + n < LENGTH('a)" if "n < 8" for n
    using i that assms(1) by (auto elim!: dvdE)
  show "le_bytes (le_word bs :: 'a word) ! i = bs ! i"
  proof (rule bit_word_eqI)
    fix n assume "n < LENGTH(8)"
    then have n: "n < 8" by simp
    then have "bit (le_bytes (le_word bs :: 'a word) ! i) n
        \<longleftrightarrow> bit (le_word bs :: 'a word) (8 * i + n)"
      using i by (simp add: le_bytes_def bit_ucast_iff bit_drop_bit_eq)
    also have "\<dots> \<longleftrightarrow> bit (bs ! i) n"
      using sum [OF n] n i assms(2) by (simp add: bit_le_word)
    finally show "bit (le_bytes (le_word bs :: 'a word) ! i) n \<longleftrightarrow> bit (bs ! i) n" .
  qed
qed

lemma be_word_be_bytes:
  "8 dvd LENGTH('a) \<Longrightarrow> be_word (be_bytes w) = (w :: 'a::len word)"
  by (simp add: be_word_def be_bytes_def le_word_le_bytes)

section \<open>Text\<close>

text \<open>
  A \<^verbatim>\<open>std::string\<close> that holds text is a \<open>string\<close>; its bytes in a buffer are
  \<open>bytes_of_string\<close>.
\<close>

definition bytes_of_string :: "string \<Rightarrow> bytes" where
  "bytes_of_string s = map of_char s"

definition string_of_bytes :: "bytes \<Rightarrow> string" where
  "string_of_bytes bs = map (\<lambda>b. char_of (unat b)) bs"

lemma length_bytes_of_string [simp, layout_simps]: "length (bytes_of_string s) = length s"
  by (simp add: bytes_of_string_def)

lemma length_string_of_bytes [simp, layout_simps]: "length (string_of_bytes bs) = length bs"
  by (simp add: string_of_bytes_def)

lemma unat_of_char [simp]: "unat (of_char c :: u8) = of_char c"
proof -
  have "(of_char c :: u8) = of_nat (of_char c)"
    by (metis of_nat_of_char)
  then show ?thesis
    by (simp add: unat_of_nat)
qed

lemma string_of_bytes_of_string [simp]: "string_of_bytes (bytes_of_string s) = s"
  by (induction s) (simp_all add: string_of_bytes_def bytes_of_string_def)

lemma bytes_of_string_of_bytes [simp]: "bytes_of_string (string_of_bytes bs) = bs"
proof -
  have "(of_char (char_of (unat b)) :: u8) = b" for b :: u8
  proof -
    have "unat (of_char (char_of (unat b)) :: u8) = unat b"
      using unsigned_less [where ?'a = nat and w = b] by simp
    then show ?thesis by (rule word_unat_eq_iff [THEN iffD2])
  qed
  then show ?thesis
    by (induction bs) (simp_all add: string_of_bytes_def bytes_of_string_def)
qed

text \<open>A C string ends before its first NUL character.\<close>

definition cstring :: "string \<Rightarrow> string" where
  "cstring s = takeWhile (\<lambda>c. c \<noteq> CHR 0x00) s"

lemma cstring_id: "CHR 0x00 \<notin> set s \<Longrightarrow> cstring s = s"
  unfolding cstring_def by (subst takeWhile_eq_all_conv) auto

subsection \<open>Numbers in text\<close>

definition isdigit :: "char \<Rightarrow> bool" where
  "isdigit c \<longleftrightarrow> 48 \<le> (of_char c :: nat) \<and> (of_char c :: nat) \<le> 57"

definition isspace :: "char \<Rightarrow> bool" where
  "isspace c \<longleftrightarrow> (of_char c :: nat) = 32 \<or> 9 \<le> (of_char c :: nat) \<and> (of_char c :: nat) \<le> 13"

fun digits_value :: "int \<Rightarrow> string \<Rightarrow> int" where
  "digits_value acc [] = acc"
| "digits_value acc (c # cs) = digits_value (10 * acc + (of_char c - 48)) cs"

text \<open>
  What \<^verbatim>\<open>strtol\<close> accepts in base ten: white space, an optional sign, digits; the rest
  of the text is ignored, and no digit at all is no number.
\<close>

definition number_prefix :: "string \<Rightarrow> int option" where
  "number_prefix s =
     (let t = dropWhile isspace s;
          neg = (case t of c # _ \<Rightarrow> c = CHR ''-'' | [] \<Rightarrow> False);
          u = (case t of c # cs \<Rightarrow> if c = CHR ''-'' \<or> c = CHR ''+'' then cs else t | [] \<Rightarrow> []);
          ds = takeWhile isdigit u
      in if ds = [] then None
         else Some (if neg then - digits_value 0 ds else digits_value 0 ds))"

text \<open>
  \<^verbatim>\<open>std::stoi\<close> throws \<open>invalid_argument\<close> or \<open>out_of_range\<close>; either is \<open>None\<close>.
  \<^verbatim>\<open>long\<close> and \<^verbatim>\<open>long long\<close> have 64 bits on the target.
\<close>

definition std_stoi :: "string \<Rightarrow> int option" where
  "std_stoi s = (case number_prefix s of None \<Rightarrow> None
     | Some v \<Rightarrow> if - (2 ^ 31) \<le> v \<and> v < 2 ^ 31 then Some v else None)"

definition std_stol :: "string \<Rightarrow> int option" where
  "std_stol s = (case number_prefix s of None \<Rightarrow> None
     | Some v \<Rightarrow> if - (2 ^ 63) \<le> v \<and> v < 2 ^ 63 then Some v else None)"

section \<open>Lists\<close>

lemma drop_eq_take_append: "n \<le> m \<Longrightarrow> drop n xs = take (m - n) (drop n xs) @ drop m xs"
  by (metis append_take_drop_id drop_drop le_add_diff_inverse2)

text \<open>The elements of \<open>xs\<close> from position \<open>r\<close> up to, not including, position \<open>w\<close>.\<close>

definition window :: "nat \<Rightarrow> nat \<Rightarrow> 'a list \<Rightarrow> 'a list" where
  "window r w xs = take (w - r) (drop r xs)"

lemma length_window [simp]: "r \<le> w \<Longrightarrow> w \<le> length xs \<Longrightarrow> length (window r w xs) = w - r"
  by (simp add: window_def)

lemma window_empty [simp]: "window r r xs = []" "window r w [] = []"
  by (simp_all add: window_def)

lemma window_append1: "w \<le> length xs \<Longrightarrow> window r w (xs @ ys) = window r w xs"
  by (simp add: window_def)

lemma take_window: "take n (window r w xs) = window r (min (r + n) w) xs"
  by (cases "r \<le> w") (auto simp: window_def min_def)

lemma drop_window: "drop n (window r w xs) = window (r + n) w xs"
  by (simp add: window_def drop_take add.commute)

lemma set_window_take: "set (window r v xs) \<subseteq> set (window r w xs)" if "v \<le> w"
proof -
  have "window r v xs = take (v - r) (window r w xs)"
    using that by (simp add: window_def min_def)
  then show ?thesis by (metis set_take_subset)
qed

text \<open>Writing \<open>ys\<close> at position \<open>w\<close> extends the window from \<open>r\<close> to \<open>w\<close> by \<open>ys\<close>.\<close>

lemma window_overwrite:
  assumes "r \<le> w" and "w \<le> length xs"
  shows "window r (w + length ys) (take w xs @ ys @ zs) = window r w xs @ ys"
proof -
  have "drop r (take w xs @ ys @ zs) = window r w xs @ ys @ zs"
    using assms by (simp add: drop_take window_def)
  moreover have "w + length ys - r = length (window r w xs) + length ys"
    using assms by simp
  ultimately show ?thesis
    by (simp add: window_def [of r "w + length ys"] del: length_window)
qed

text \<open>Copying \<open>xs\<close> into a block, as \<^verbatim>\<open>memcpy\<close> does; the rest of the block stays.\<close>

definition put_at :: "nat \<Rightarrow> 'a list \<Rightarrow> 'a list \<Rightarrow> 'a list" where
  "put_at i xs buf = take i buf @ xs @ drop (i + length xs) buf"

lemma length_put_at [simp]: "i + length xs \<le> length buf \<Longrightarrow> length (put_at i xs buf) = length buf"
  by (simp add: put_at_def)

lemma window_put_at_same: "i + length xs \<le> length buf \<Longrightarrow> window i (i + length xs) (put_at i xs buf) = xs"
  by (simp add: put_at_def window_def)

lemma window_put_at_before: "w \<le> i \<Longrightarrow> i \<le> length buf \<Longrightarrow> window r w (put_at i xs buf) = window r w buf"
  by (simp add: put_at_def window_append1 window_def take_drop min_def)

lemma window_put_at_after: "i + length xs \<le> r \<Longrightarrow> i + length xs \<le> length buf \<Longrightarrow> window r w (put_at i xs buf) = window r w buf"
  by (simp add: put_at_def window_def)

end
