(* ===== verification/Tools_Text.thy ===== *)
theory Tools_Text
  imports Bundle_Prelude
begin

text \<open>
  The text routines of \<^verbatim>\<open>src/tools/Tools.cpp\<close>: the string hash, the four overloads of
  \<^verbatim>\<open>splitString\<close>, the UTF-8 test, the file name helpers, signal names, random strings and
  the packing of network endpoints. Each is stated against a reference (the ELF hash, the
  field structure of the text, the RFC 3629 encoder, decimal notation).
\<close>

section \<open>Decimal notation\<close>

definition digit_char :: "nat \<Rightarrow> char" where
  "digit_char n = char_of (48 + n)"

fun dec_nat :: "nat \<Rightarrow> string" where
  "dec_nat n = (if n < 10 then [digit_char n] else dec_nat (n div 10) @ [digit_char (n mod 10)])"

definition dec_int :: "int \<Rightarrow> string" where
  "dec_int i = (if i < 0 then CHR ''-'' # dec_nat (nat (- i)) else dec_nat (nat i))"

declare dec_nat.simps [simp del]

lemma of_digit_char [simp]: "n < 10 \<Longrightarrow> of_char (digit_char n) = 48 + n"
  by (simp add: digit_char_def)

lemma int_of_digit_char [simp]: "n < 10 \<Longrightarrow> (of_char (digit_char n) :: int) = 48 + int n"
  by (metis of_digit_char of_nat_add of_nat_numeral of_nat_of_char)

lemma digits_value_append: "digits_value a (xs @ ys) = digits_value (digits_value a xs) ys"
  by (induction xs arbitrary: a) simp_all

lemma isdigit_dec_nat: "c \<in> set (dec_nat n) \<Longrightarrow> isdigit c"
proof (induction n rule: dec_nat.induct)
  case (1 n)
  from 1(2) show ?case
    by (subst (asm) dec_nat.simps) (auto simp: isdigit_def dest: 1(1) split: if_splits)
qed

lemma dec_nat_nonempty [simp]: "dec_nat n \<noteq> []"
  by (subst dec_nat.simps) simp

lemma length_dec_nat: "n < 10 ^ k \<Longrightarrow> 0 < k \<Longrightarrow> length (dec_nat n) \<le> k"
proof (induction n arbitrary: k rule: dec_nat.induct)
  case (1 n)
  show ?case
  proof (cases "n < 10")
    case True
    then show ?thesis using 1 by (subst dec_nat.simps) simp
  next
    case False
    then obtain j where k: "k = Suc j" using 1 by (cases k) auto
    then have "0 < j" using False 1(2) by (cases j) auto
    moreover have "n div 10 < 10 ^ j" using 1(2) k by (simp add: less_mult_imp_div_less mult.commute)
    ultimately show ?thesis using 1(1) [OF False, of j] False k by (subst dec_nat.simps) simp
  qed
qed

lemma digits_value_dec_nat: "digits_value 0 (dec_nat n) = int n"
proof (induction n rule: dec_nat.induct)
  case (1 n)
  then show ?case
    by (subst dec_nat.simps) (auto simp: digits_value_append zdiv_int zmod_int)
qed

lemma takeWhile_isdigit_dec: "takeWhile isdigit (dec_nat n) = dec_nat n"
  by (simp add: takeWhile_eq_all_conv isdigit_dec_nat)

lemma number_prefix_dec_int: "number_prefix (dec_int i) = Some i"
proof -
  obtain c cs where c: "dec_nat (nat \<bar>i\<bar>) = c # cs" by (cases "dec_nat (nat \<bar>i\<bar>)") simp_all
  then have "isdigit c" using isdigit_dec_nat [of c "nat \<bar>i\<bar>"] by simp
  then have n: "\<not> isspace c" "c \<noteq> CHR ''-''" "c \<noteq> CHR ''+''"
    by (auto simp: isdigit_def isspace_def)
  have m: "\<not> isspace CHR ''-''" by (simp add: isspace_def)
  show ?thesis
  proof (cases "i < 0")
    case True
    then have "dec_nat (nat (- i)) = c # cs" using c by simp
    with True n m show ?thesis
      using takeWhile_isdigit_dec [of "nat (- i)"] digits_value_dec_nat [of "nat (- i)"]
      by (simp add: number_prefix_def dec_int_def Let_def)
  next
    case False
    then have "dec_nat (nat i) = c # cs" using c by simp
    with False n show ?thesis
      using takeWhile_isdigit_dec [of "nat i"] digits_value_dec_nat [of "nat i"]
      by (simp add: number_prefix_def dec_int_def Let_def)
  qed
qed

section \<open>The string hash\<close>

text \<open>\<^verbatim>\<open>*s\<close> is a signed \<^verbatim>\<open>char\<close>: it is sign extended before the addition.\<close>

definition hash_step :: "u32 \<Rightarrow> u8 \<Rightarrow> u32" where
  "hash_step h c =
     (let h1 = push_bit 4 h + scast c; g = h1 AND 0xF0000000
      in if g \<noteq> 0 then (let h2 = h1 XOR drop_bit 24 g in h2 XOR g) else h1)"

definition hashString :: "bytes \<Rightarrow> u32" where
  "hashString s = foldl hash_step 0 s"

text \<open>The ELF hash of the System V ABI, on unsigned characters.\<close>

definition elf_step :: "u32 \<Rightarrow> u8 \<Rightarrow> u32" where
  "elf_step h c =
     (let h1 = push_bit 4 h + ucast c; g = h1 AND 0xF0000000
      in (h1 XOR drop_bit 24 g) AND NOT g)"

definition elf_hash :: "bytes \<Rightarrow> u32" where
  "elf_hash s = foldl elf_step 0 s"

lemma top_nibble: "bit (0xF0000000 :: u32) i \<longleftrightarrow> 28 \<le> i \<and> i < 32"
proof -
  have "(0xF0000000 :: u32) = push_bit 28 (mask 4)" by (simp add: mask_eq_exp_minus_1)
  then show ?thesis by (simp only: bit_push_bit_iff bit_mask_iff) auto
qed

lemma ascii_bits: "c < 128 \<Longrightarrow> 7 \<le> n \<Longrightarrow> \<not> bit (c :: u8) n"
proof
  assume c: "c < 128" and n: "7 \<le> n" and "bit c n"
  then have "n = 7" using bit_imp_le_length [of c n] by simp
  with \<open>bit c n\<close> have "bit (unat c) 7" by (simp add: bit_unsigned_iff)
  moreover have "unat c < 128" using c by (simp add: word_less_nat_alt)
  ultimately show False by (simp add: bit_iff_odd)
qed

lemma scast_ascii: "c < 128 \<Longrightarrow> (scast c :: u32) = ucast (c :: u8)"
  by (intro bit_word_eqI) (auto simp: bit_simps ascii_bits min_def)

lemma bit_top_nibble: "bit (h AND 0xF0000000 :: u32) i \<longleftrightarrow> bit h i \<and> 28 \<le> i"
  by (simp only: bit_and_iff top_nibble) (auto dest: bit_imp_le_length)

lemma clear_nibble:
  fixes h g :: u32
  assumes g: "\<And>i. bit g i \<longleftrightarrow> bit h i \<and> 28 \<le> i"
  shows "(h XOR drop_bit 24 g) XOR g = (h XOR drop_bit 24 g) AND NOT g"
    and "bit ((h XOR drop_bit 24 g) AND NOT g) i \<Longrightarrow> i < 28"
proof -
  have far: "\<not> bit h (24 + n)" if "28 \<le> n" for n
    using that by (auto dest: bit_imp_le_length)
  show "(h XOR drop_bit 24 g) XOR g = (h XOR drop_bit 24 g) AND NOT g"
    "bit ((h XOR drop_bit 24 g) AND NOT g) i \<Longrightarrow> i < 28"
    by (auto intro!: bit_word_eqI simp: far
        bit_xor_iff bit_and_iff bit_not_iff bit_drop_bit_eq g dest: bit_imp_le_length)
qed

lemmas hash_clear_nibble = clear_nibble [OF bit_top_nibble]

lemma below_28: "(\<And>i. bit w i \<Longrightarrow> i < 28) \<Longrightarrow> unat (w :: u32) < 2 ^ 28"
proof -
  assume "\<And>i. bit w i \<Longrightarrow> i < 28"
  then have "take_bit 28 w = w" by (intro bit_word_eqI) (auto simp: bit_take_bit_iff)
  then show ?thesis by (metis unsigned_take_bit_eq take_bit_nat_less_exp)
qed

lemma hash_step_eq:
  "hash_step h c = (let w = push_bit 4 h + scast c; g = w AND 0xF0000000
     in (w XOR drop_bit 24 g) AND NOT g)"
  using hash_clear_nibble(1) [of "push_bit 4 h + scast c"] unfolding hash_step_def Let_def
  by (metis and.right_neutral bit.compl_zero drop_bit_of_0 xor.right_neutral)

lemma hash_step_elf: "c < 128 \<Longrightarrow> hash_step h c = elf_step h c"
  by (simp only: hash_step_eq elf_step_def scast_ascii)

lemma hash_step_small: "unat (hash_step h c) < 2 ^ 28"
  unfolding hash_step_eq Let_def by (rule below_28) (erule hash_clear_nibble(2))

section \<open>Splitting\<close>

text \<open>
  The loop over \<^verbatim>\<open>strchr\<close>: a field ends at the separator, is converted and pushed; a
  conversion that throws ends the loop with \<^verbatim>\<open>false\<close> and what was pushed so far. What
  follows the last separator is a field only when it is not empty.
\<close>

function split_loop :: "(string \<Rightarrow> 'v option) \<Rightarrow> char \<Rightarrow> string \<Rightarrow> 'v list \<Rightarrow> bool \<times> 'v list" where
  "split_loop conv sc s v =
     (case dropWhile (\<lambda>c. c \<noteq> sc) s of
        _ # p \<Rightarrow> (case conv (takeWhile (\<lambda>c. c \<noteq> sc) s) of
                   None \<Rightarrow> (False, v)
                 | Some value \<Rightarrow> split_loop conv sc p (v @ [value]))
      | [] \<Rightarrow> if s \<noteq> []
              then (case conv s of None \<Rightarrow> (False, v) | Some value \<Rightarrow> (True, v @ [value]))
              else (True, v))"
  by auto
termination
proof (relation "measure (\<lambda>(conv, sc, s, v). length s)")
  fix conv :: "string \<Rightarrow> 'v option" and sc s c p and v :: "'v list" and x
  assume "dropWhile (\<lambda>c. c \<noteq> sc) s = c # p"
  then have "length (c # p) \<le> length s" by (metis length_dropWhile_le)
  then show "((conv, sc, p, v @ [x]), (conv, sc, s, v)) \<in> measure (\<lambda>(conv, sc, s, v). length s)"
    by simp
qed simp

text \<open>The result of \<^verbatim>\<open>stol\<close> and \<^verbatim>\<open>stoll\<close> goes through a variable of type \<^verbatim>\<open>int\<close>.\<close>

definition to_int :: "int \<Rightarrow> int" where
  "to_int v = sint (word_of_int v :: u32)"

definition splitString_int :: "string \<Rightarrow> char \<Rightarrow> int list \<Rightarrow> bool \<times> int list" where
  "splitString_int cstr sc v = split_loop std_stoi sc (cstring cstr) v"

definition splitString_long :: "string \<Rightarrow> char \<Rightarrow> int list \<Rightarrow> bool \<times> int list" where
  "splitString_long cstr sc v = split_loop (\<lambda>s. map_option to_int (std_stol s)) sc (cstring cstr) v"

definition splitString_longlong :: "string \<Rightarrow> char \<Rightarrow> int list \<Rightarrow> bool \<times> int list" where
  "splitString_longlong cstr sc v = split_loop (\<lambda>s. map_option to_int (std_stol s)) sc (cstring cstr) v"

function split_strings :: "char \<Rightarrow> string \<Rightarrow> string list \<Rightarrow> string list" where
  "split_strings sc s v =
     (case dropWhile (\<lambda>c. c \<noteq> sc) s of
        _ # p \<Rightarrow> split_strings sc p (v @ [takeWhile (\<lambda>c. c \<noteq> sc) s])
      | [] \<Rightarrow> if s \<noteq> [] then v @ [s] else v @ [[]])"
  by auto
termination
proof (relation "measure (\<lambda>(sc, s, v). length s)")
  fix sc :: char and s c p and v :: "string list"
  assume "dropWhile (\<lambda>c. c \<noteq> sc) s = c # p"
  then have "length (c # p) \<le> length s" by (metis length_dropWhile_le)
  then show "((sc, p, v @ [takeWhile (\<lambda>c. c \<noteq> sc) s]), (sc, s, v)) \<in> measure (\<lambda>(sc, s, v). length s)"
    by simp
qed simp

definition splitString :: "string \<Rightarrow> char \<Rightarrow> string list \<Rightarrow> bool \<times> string list" where
  "splitString cstr sc v = (True, split_strings sc (cstring cstr) v)"

declare split_loop.simps [simp del] split_strings.simps [simp del]

subsection \<open>Fields and their join\<close>

fun fields :: "char \<Rightarrow> string \<Rightarrow> string list" where
  "fields sc [] = [[]]"
| "fields sc (c # cs) =
     (if c = sc then [] # fields sc cs
      else (case fields sc cs of f # fs \<Rightarrow> (c # f) # fs | [] \<Rightarrow> [[c]]))"

fun join :: "char \<Rightarrow> string list \<Rightarrow> string" where
  "join sc [] = []"
| "join sc [f] = f"
| "join sc (f # fs) = f @ sc # join sc fs"

lemma fields_nonempty [simp]: "fields sc s \<noteq> []"
  by (induction s) (auto split: list.splits)

lemma fields_step:
  "fields sc s = takeWhile (\<lambda>c. c \<noteq> sc) s #
     (case dropWhile (\<lambda>c. c \<noteq> sc) s of [] \<Rightarrow> [] | _ # p \<Rightarrow> fields sc p)"
  by (induction s) auto

lemma join_Cons: "fs \<noteq> [] \<Longrightarrow> join sc (f # fs) = f @ sc # join sc fs"
  by (cases fs) simp_all

lemma join_fields: "join sc (fields sc s) = s"
proof (induction s)
  case (Cons c cs)
  obtain f fs where f: "fields sc cs = f # fs" by (cases "fields sc cs") simp_all
  with Cons show ?case by (cases fs) auto
qed simp

lemma fields_append: "sc \<notin> set f \<Longrightarrow> fields sc (f @ sc # s) = f # fields sc s"
  by (induction f) auto

lemma fields_single: "sc \<notin> set f \<Longrightarrow> fields sc f = [f]"
  by (induction f) auto

lemma fields_join: "fs \<noteq> [] \<Longrightarrow> sc \<notin> (\<Union>f\<in>set fs. set f) \<Longrightarrow> fields sc (join sc fs) = fs"
  by (induction sc fs rule: join.induct) (simp_all add: fields_append fields_single)

lemma fields_last:
  assumes "dropWhile (\<lambda>c. c \<noteq> sc) s = []"
  shows "fields sc s = [s]"
proof -
  have "takeWhile (\<lambda>c. c \<noteq> sc) s = s"
    using assms by (metis append_Nil2 takeWhile_dropWhile_id)
  with assms show ?thesis
    by (subst fields_step) (simp del: dropWhile_eq_Nil_conv)
qed

lemma split_strings_fields: "split_strings sc s v = v @ fields sc s"
proof (induction sc s v rule: split_strings.induct)
  case (1 sc s v)
  show ?case
  proof (cases "dropWhile (\<lambda>c. c \<noteq> sc) s")
    case Nil
    then show ?thesis
      by (subst split_strings.simps) (simp add: fields_last del: dropWhile_eq_Nil_conv)
  next
    case (Cons c p)
    with 1 show ?thesis
      by (subst split_strings.simps, subst fields_step) simp
  qed
qed

text \<open>Conversion field by field, keeping what was converted before a failure.\<close>

fun convert_all :: "(string \<Rightarrow> 'v option) \<Rightarrow> string list \<Rightarrow> 'v list \<Rightarrow> bool \<times> 'v list" where
  "convert_all conv [] v = (True, v)"
| "convert_all conv (f # fs) v =
     (case conv f of None \<Rightarrow> (False, v) | Some x \<Rightarrow> convert_all conv fs (v @ [x]))"

definition numeric_fields :: "char \<Rightarrow> string \<Rightarrow> string list" where
  "numeric_fields sc s = (let fs = fields sc s in if last fs = [] then butlast fs else fs)"

lemma split_loop_fields: "split_loop conv sc s v = convert_all conv (numeric_fields sc s) v"
proof (induction conv sc s v rule: split_loop.induct)
  case (1 conv sc s v)
  show ?case
  proof (cases "dropWhile (\<lambda>c. c \<noteq> sc) s")
    case Nil
    then show ?thesis
      by (subst split_loop.simps)
        (simp add: numeric_fields_def fields_last del: dropWhile_eq_Nil_conv split: option.splits)
  next
    case (Cons c p)
    then have "fields sc s = takeWhile (\<lambda>c. c \<noteq> sc) s # fields sc p"
      by (subst fields_step) simp
    then have "numeric_fields sc s = takeWhile (\<lambda>c. c \<noteq> sc) s # numeric_fields sc p"
      by (simp add: numeric_fields_def Let_def)
    with Cons 1 show ?thesis
      by (subst split_loop.simps) (simp split: option.splits)
  qed
qed

lemma convert_all_map:
  "(\<And>x. x \<in> set xs \<Longrightarrow> conv (show x) = Some (g x)) \<Longrightarrow> convert_all conv (map show xs) v = (True, v @ map g xs)"
  by (induction xs arbitrary: v) simp_all

lemma dec_int_chars: "c \<in> set (dec_int i) \<Longrightarrow> isdigit c \<or> c = CHR ''-''"
  by (auto simp: dec_int_def isdigit_dec_nat split: if_splits)

lemma numeric_fields_join:
  assumes "\<not> isdigit sc" and "sc \<noteq> CHR ''-''"
  shows "numeric_fields sc (join sc (map dec_int xs)) = map dec_int xs"
proof (cases "xs = []")
  case False
  have "sc \<notin> set (dec_int x)" for x using assms dec_int_chars [of sc x] by auto
  then have "fields sc (join sc (map dec_int xs)) = map dec_int xs"
    using False by (intro fields_join) auto
  moreover have "dec_int (last xs) \<noteq> []" by (simp add: dec_int_def)
  ultimately show ?thesis using False by (simp add: numeric_fields_def last_map)
qed (simp add: numeric_fields_def)

lemma cstring_join:
  assumes "sc \<noteq> CHR 0x00"
  shows "cstring (join sc (map dec_int xs)) = join sc (map dec_int xs)"
proof -
  have "CHR 0x00 \<notin> set (dec_int x)" for x
    using dec_int_chars [of "CHR 0x00" x] by (auto simp: isdigit_def)
  then have "CHR 0x00 \<notin> set (join sc (map dec_int xs))"
    using assms by (induction xs rule: induct_list012) auto
  then show ?thesis by (rule cstring_id)
qed

lemmas split_numbers = split_loop_fields numeric_fields_join cstring_join

section \<open>UTF-8\<close>

text \<open>The inner loop over the \<open>n\<close> bytes that must follow a lead byte.\<close>

fun utf8_follow :: "nat \<Rightarrow> bytes \<Rightarrow> bytes option" where
  "utf8_follow 0 s = Some s"
| "utf8_follow (Suc n) [] = None"
| "utf8_follow (Suc n) (b # s) = (if b AND 0xC0 \<noteq> 0x80 then None else utf8_follow n s)"

lemma utf8_follow_shorter: "utf8_follow n s = Some r \<Longrightarrow> length r \<le> length s"
  by (induction n s rule: utf8_follow.induct) (auto split: if_splits)

text \<open>How many bytes follow the lead byte \<open>c\<close>, looking at the rest of the string.\<close>

definition utf8_lead :: "u8 \<Rightarrow> bytes \<Rightarrow> nat option" where
  "utf8_lead c rest =
     (if c \<le> 0x7f then Some 0
      else if c AND 0xE0 = 0xC0 then Some 1
      else if c = 0xed \<and> rest \<noteq> [] \<and> hd rest AND 0xa0 = 0xa0 then None
      else if c AND 0xF0 = 0xE0 then Some 2
      else if c AND 0xF8 = 0xF0 then Some 3
      else None)"

function isUTF8String :: "bytes \<Rightarrow> bool" where
  "isUTF8String [] = True"
| "isUTF8String (c # rest) =
     (case utf8_lead c rest of
        None \<Rightarrow> False
      | Some n \<Rightarrow> (case utf8_follow n rest of None \<Rightarrow> False | Some s \<Rightarrow> isUTF8String s))"
  by pat_completeness auto
termination
  by (relation "measure length") (auto dest: utf8_follow_shorter)

text \<open>The encoder of RFC 3629, on scalar values.\<close>

definition utf8_encode :: "nat \<Rightarrow> bytes" where
  "utf8_encode u =
     (if u < 0x80 then [of_nat u]
      else if u < 0x800 then [of_nat (0xC0 + u div 64), of_nat (0x80 + u mod 64)]
      else if u < 0x10000 then
        [of_nat (0xE0 + u div 4096), of_nat (0x80 + u div 64 mod 64), of_nat (0x80 + u mod 64)]
      else [of_nat (0xF0 + u div 262144), of_nat (0x80 + u div 4096 mod 64),
            of_nat (0x80 + u div 64 mod 64), of_nat (0x80 + u mod 64)])"

definition unicode_scalar :: "nat \<Rightarrow> bool" where
  "unicode_scalar u \<longleftrightarrow> u < 0x110000 \<and> \<not> (0xD800 \<le> u \<and> u < 0xE000)"

lemma utf8_cont: "x < 64 \<Longrightarrow> (of_nat (0x80 + x) :: u8) AND 0xC0 = 0x80"
proof -
  have "\<forall>x\<in>set [0..<64]. (of_nat (0x80 + x) :: u8) AND 0xC0 = 0x80" by code_simp
  then show "x < 64 \<Longrightarrow> ?thesis" by (simp del: upt_rec_numeral)
qed

lemma utf8_leads:
  "x < 128 \<Longrightarrow> utf8_lead (of_nat x) r = Some 0"
  "x < 32 \<Longrightarrow> utf8_lead (of_nat (0xC0 + x)) r = Some 1"
  "x < 16 \<Longrightarrow> x \<noteq> 13 \<or> y < 32 \<Longrightarrow> utf8_lead (of_nat (0xE0 + x)) (of_nat (0x80 + y) # r) = Some 2"
  "x < 8 \<Longrightarrow> utf8_lead (of_nat (0xF0 + x)) r = Some 3"
proof -
  have 1: "\<forall>x\<in>set [0..<128]. (of_nat x :: u8) \<le> 0x7f" by code_simp
  have 2: "\<forall>x\<in>set [0..<32]. \<not> (of_nat (0xC0 + x) :: u8) \<le> 0x7f \<and> (of_nat (0xC0 + x) :: u8) AND 0xE0 = 0xC0"
    by code_simp
  have 3: "\<forall>x\<in>set [0..<16]. \<not> (of_nat (0xE0 + x) :: u8) \<le> 0x7f \<and> (of_nat (0xE0 + x) :: u8) AND 0xE0 \<noteq> 0xC0
      \<and> (of_nat (0xE0 + x) :: u8) AND 0xF0 = 0xE0 \<and> ((of_nat (0xE0 + x) :: u8) = 0xed \<longrightarrow> x = 13)" by code_simp
  have 4: "\<forall>x\<in>set [0..<8]. \<not> (of_nat (0xF0 + x) :: u8) \<le> 0x7f \<and> (of_nat (0xF0 + x) :: u8) AND 0xE0 \<noteq> 0xC0
      \<and> (of_nat (0xF0 + x) :: u8) AND 0xF0 \<noteq> 0xE0 \<and> (of_nat (0xF0 + x) :: u8) \<noteq> 0xed
      \<and> (of_nat (0xF0 + x) :: u8) AND 0xF8 = 0xF0" by code_simp
  have 5: "\<forall>y\<in>set [0..<32]. (of_nat (0x80 + y) :: u8) AND 0xa0 \<noteq> 0xa0" by code_simp
  note upto = set_upt atLeastLessThan_iff
  show "x < 128 \<Longrightarrow> utf8_lead (of_nat x) r = Some 0"
    using bspec [OF 1, of x] unfolding utf8_lead_def upto by auto
  show "x < 32 \<Longrightarrow> utf8_lead (of_nat (0xC0 + x)) r = Some 1"
    using bspec [OF 2, of x] unfolding utf8_lead_def upto by auto
  show "x < 16 \<Longrightarrow> x \<noteq> 13 \<or> y < 32 \<Longrightarrow> utf8_lead (of_nat (0xE0 + x)) (of_nat (0x80 + y) # r) = Some 2"
    using bspec [OF 3, of x] bspec [OF 5, of y] unfolding utf8_lead_def upto list.sel by auto
  show "x < 8 \<Longrightarrow> utf8_lead (of_nat (0xF0 + x)) r = Some 3"
    using bspec [OF 4, of x] unfolding utf8_lead_def upto by auto
qed

lemma mod_low_half: "832 \<le> x \<Longrightarrow> x < 864 \<Longrightarrow> x mod 64 < (32 :: nat)"
  by presburger

lemma scalar_not_surrogate:
  assumes "unicode_scalar u"
  shows "u div 4096 \<noteq> 13 \<or> u div 64 mod 64 < 32"
proof (cases "u div 4096 = 13")
  case True
  then have "53248 \<le> u" "u < 57344" by linarith+
  then have "u < 55296" using assms by (simp add: unicode_scalar_def)
  with \<open>53248 \<le> u\<close> have "832 \<le> u div 64" "u div 64 < 864" by linarith+
  then show ?thesis by (simp add: mod_low_half)
qed simp

lemma isUTF8_encode:
  assumes "unicode_scalar u"
  shows "isUTF8String (utf8_encode u @ s) = isUTF8String s"
proof -
  have m: "u mod 64 < 64" "u div 64 mod 64 < 64" "u div 4096 mod 64 < 64" by simp_all
  consider "u < 0x80" | "0x80 \<le> u" "u < 0x800" | "0x800 \<le> u" "u < 0x10000" | "0x10000 \<le> u" by linarith
  then show ?thesis
  proof cases
    case 1
    then show ?thesis by (simp add: utf8_encode_def utf8_leads)
  next
    case 2
    then have "u div 64 < 32" by simp
    with 2 show ?thesis
      using utf8_leads(2) [of "u div 64"] utf8_cont [OF m(1)]
      by (simp add: utf8_encode_def del: of_nat_add)
  next
    case 3
    then have "u div 4096 < 16" by simp
    moreover have "u div 4096 \<noteq> 13 \<or> u div 64 mod 64 < 32"
      using assms by (rule scalar_not_surrogate)
    ultimately show ?thesis
      using 3 utf8_leads(3) [of "u div 4096" "u div 64 mod 64"] utf8_cont [OF m(1)] utf8_cont [OF m(2)]
      by (simp add: utf8_encode_def numeral_2_eq_2 del: of_nat_add)
  next
    case 4
    then have "u div 262144 < 8" using assms by (simp add: unicode_scalar_def)
    with 4 show ?thesis
      using utf8_leads(4) [of "u div 262144"] utf8_cont [OF m(1)] utf8_cont [OF m(2)] utf8_cont [OF m(3)]
      by (simp add: utf8_encode_def numeral_3_eq_3 del: of_nat_add)
  qed
qed

text \<open>What the code accepts: sequences of units, with no surrogate in a three byte unit.\<close>

definition utf8_unit :: "bytes \<Rightarrow> bool" where
  "utf8_unit u = (case u of
     [] \<Rightarrow> False
   | c # cs \<Rightarrow> (\<forall>b\<in>set cs. b AND 0xC0 = 0x80) \<and>
      (c \<le> 0x7f \<and> cs = [] \<or> c AND 0xE0 = 0xC0 \<and> length cs = 1
       \<or> c AND 0xF0 = 0xE0 \<and> length cs = 2 \<and> \<not> (c = 0xed \<and> hd cs AND 0xa0 = 0xa0)
       \<or> c AND 0xF8 = 0xF0 \<and> length cs = 3))"

lemma utf8_follow_iff:
  "utf8_follow n s = Some r \<longleftrightarrow> (\<exists>cs. s = cs @ r \<and> length cs = n \<and> (\<forall>b\<in>set cs. b AND 0xC0 = 0x80))"
proof (induction n s rule: utf8_follow.induct)
  case (3 n b s)
  show ?case
  proof
    assume "utf8_follow (Suc n) (b # s) = Some r"
    with 3 obtain cs where "s = cs @ r" "length cs = n" "\<forall>b\<in>set cs. b AND 0xC0 = 0x80"
      and "b AND 0xC0 = 0x80" by (auto split: if_splits)
    then show "\<exists>cs. b # s = cs @ r \<and> length cs = Suc n \<and> (\<forall>b\<in>set cs. b AND 0xC0 = 0x80)"
      by (intro exI [of _ "b # cs"]) auto
  next
    assume "\<exists>cs. b # s = cs @ r \<and> length cs = Suc n \<and> (\<forall>b\<in>set cs. b AND 0xC0 = 0x80)"
    with 3 show "utf8_follow (Suc n) (b # s) = Some r"
      by (auto simp: length_Suc_conv)
  qed
qed auto

lemma lead_bits:
  "c \<le> (0x7f :: u8) \<Longrightarrow> \<not> bit c 7"
  "c AND 0xE0 = (0xC0 :: u8) \<Longrightarrow> bit c 7 \<and> \<not> bit c 5"
  "c AND 0xF0 = (0xE0 :: u8) \<Longrightarrow> bit c 7 \<and> bit c 5 \<and> \<not> bit c 4"
  "c AND 0xF8 = (0xF0 :: u8) \<Longrightarrow> bit c 7 \<and> bit c 5 \<and> bit c 4"
proof -
  have b: "a AND m = v \<Longrightarrow> bit m n \<Longrightarrow> bit a n = bit v n" for a m v :: u8 and n
    by (auto simp: bit_and_iff)
  show "c \<le> (0x7f :: u8) \<Longrightarrow> \<not> bit c 7"
    by (rule ascii_bits) (simp_all add: word_le_nat_alt word_less_nat_alt)
  show "c AND 0xE0 = (0xC0 :: u8) \<Longrightarrow> bit c 7 \<and> \<not> bit c 5"
    using b [of c "0xE0" "0xC0" 7] b [of c "0xE0" "0xC0" 5] by simp
  show "c AND 0xF0 = (0xE0 :: u8) \<Longrightarrow> bit c 7 \<and> bit c 5 \<and> \<not> bit c 4"
    using b [of c "0xF0" "0xE0" 7] b [of c "0xF0" "0xE0" 5] b [of c "0xF0" "0xE0" 4] by simp
  show "c AND 0xF8 = (0xF0 :: u8) \<Longrightarrow> bit c 7 \<and> bit c 5 \<and> bit c 4"
    using b [of c "0xF8" "0xF0" 7] b [of c "0xF8" "0xF0" 5] b [of c "0xF8" "0xF0" 4] by simp
qed

lemma utf8_lead_unit:
  "(\<forall>b\<in>set cs. b AND 0xC0 = 0x80) \<and> utf8_lead c (cs @ s) = Some (length cs) \<longleftrightarrow> utf8_unit (c # cs)"
proof -
  have "(0xed :: u8) AND 0xF8 \<noteq> 0xF0" by simp
  with lead_bits [of c] show ?thesis
    by (cases cs) (auto simp: utf8_unit_def utf8_lead_def)
qed

lemma isUTF8_unit_append: "utf8_unit u \<Longrightarrow> isUTF8String (u @ s) = isUTF8String s"
proof (cases u)
  case (Cons c cs)
  assume "utf8_unit u"
  then have c: "\<forall>b\<in>set cs. b AND 0xC0 = 0x80" "utf8_lead c (cs @ s) = Some (length cs)"
    using utf8_lead_unit [of cs c s] Cons by blast+
  moreover have "utf8_follow (length cs) (cs @ s) = Some s"
    using c(1) unfolding utf8_follow_iff by blast
  ultimately show ?thesis by (simp add: Cons)
qed (simp add: utf8_unit_def)

lemma isUTF8_units: "isUTF8String s \<Longrightarrow> \<exists>us. s = concat us \<and> (\<forall>u\<in>set us. utf8_unit u)"
proof (induction s rule: isUTF8String.induct)
  case 1
  then show ?case by (intro exI [of _ "[]"]) simp
next
  case (2 c rest)
  then obtain n r where n: "utf8_lead c rest = Some n" "utf8_follow n rest = Some r" "isUTF8String r"
    by (auto split: option.splits)
  from n(2) obtain cs where cs: "rest = cs @ r" "length cs = n" "\<forall>b\<in>set cs. b AND 0xC0 = 0x80"
    unfolding utf8_follow_iff by blast
  with n(1) have "utf8_unit (c # cs)"
    using utf8_lead_unit [of cs c r] by blast
  moreover obtain us where "r = concat us" "\<forall>u\<in>set us. utf8_unit u"
    using 2(1) [OF n] by blast
  ultimately show ?case
    using cs(1) by (intro exI [of _ "(c # cs) # us"]) simp
qed

lemma isUTF8_concat: "(\<forall>u\<in>set us. utf8_unit u) \<Longrightarrow> isUTF8String (concat us)"
  by (induction us) (simp_all add: isUTF8_unit_append)

section \<open>Character tests and file names\<close>

definition isDigit :: "string \<Rightarrow> bool" where
  "isDigit s \<longleftrightarrow> s \<noteq> [] \<and> find (\<lambda>c. \<not> isdigit c) s = None"

text \<open>
  The file name is copied with \<^verbatim>\<open>strncpy\<close> into a zeroed static buffer of \<open>PATH_MAX\<close>
  bytes. A name that fills the buffer leaves no terminator in it, and \<^verbatim>\<open>strchr\<close> then runs
  past its end unless it meets a dot first.
\<close>

definition PATH_MAX :: nat where
  "PATH_MAX = 4096"

definition filename_buffer :: "string \<Rightarrow> string res" where
  "filename_buffer name =
     (if length (cstring name) < PATH_MAX then Inr (cstring name)
      else if CHR ''.'' \<in> set (take PATH_MAX (cstring name)) then Inr (take PATH_MAX (cstring name))
      else Inl HeapOverrun)"

text \<open>
  \<^verbatim>\<open>getFilenameExtension\<close> returns a pointer behind the first dot; what it points at reads
  to the terminator, so a name that fills the buffer is a fault there too.
\<close>

definition getFilenameExtension :: "string \<Rightarrow> (string option) res" where
  "getFilenameExtension name = bindE (filename_buffer name) (\<lambda>buf.
     case dropWhile (\<lambda>c. c \<noteq> CHR ''.'') buf of
       [] \<Rightarrow> Inr None
     | _ # p \<Rightarrow> if length buf < PATH_MAX then Inr (Some p) else Inl HeapOverrun)"

definition getFilenamePrefix :: "string \<Rightarrow> string res" where
  "getFilenamePrefix name = bindE (filename_buffer name) (\<lambda>buf.
     Inr (takeWhile (\<lambda>c. c \<noteq> CHR ''.'') buf))"

section \<open>Random strings\<close>

text \<open>
  The random engine is the list of values its distribution will deliver; a run that needs
  more values than it is given has not finished, which is \<open>None\<close>.
\<close>

definition alphabet62 :: string where
  "alphabet62 = ''0123456789'' @ ''abcdefghijklmnopqrstuvwxyz'' @ ''ABCDEFGHIJKLMNOPQRSTUVWXYZ''"

definition islower :: "char \<Rightarrow> bool" where
  "islower c \<longleftrightarrow> 97 \<le> (of_char c :: nat) \<and> (of_char c :: nat) \<le> 122"

definition isupper :: "char \<Rightarrow> bool" where
  "isupper c \<longleftrightarrow> 65 \<le> (of_char c :: nat) \<and> (of_char c :: nat) \<le> 90"

definition wanted :: "bool \<Rightarrow> bool \<Rightarrow> bool \<Rightarrow> char \<Rightarrow> bool" where
  "wanted has_digit has_lowercase has_uppercase c \<longleftrightarrow>
     has_digit \<and> isdigit c \<or> has_lowercase \<and> islower c \<or> has_uppercase \<and> isupper c"

fun randomString :: "int list \<Rightarrow> string \<Rightarrow> nat \<Rightarrow> bool \<Rightarrow> bool \<Rightarrow> bool \<Rightarrow> (string res) option" where
  "randomString draws result n d l u =
     (if n > 0 \<and> (d \<or> l \<or> u) then
        (case draws of
           [] \<Rightarrow> None
         | i # draws' \<Rightarrow>
             if \<not> (i \<ge> 0 \<and> i < int (length alphabet62)) then Some (Inl AssertFailed)
             else let c = alphabet62 ! nat i
                  in if wanted d l u c then randomString draws' (result @ [c]) (n - 1) d l u
                     else randomString draws' result n d l u)
      else Some (Inr result))"

declare randomString.simps [simp del]

text \<open>The draws that give a wanted character.\<close>

definition good_draws :: "int list \<Rightarrow> bool \<Rightarrow> bool \<Rightarrow> bool \<Rightarrow> int list" where
  "good_draws draws d l u = filter (\<lambda>i. wanted d l u (alphabet62 ! nat i)) draws"

lemma randomString_spec:
  assumes "d \<or> l \<or> u" and "\<forall>i\<in>set draws. 0 \<le> i \<and> i < 62" and "n \<le> length (good_draws draws d l u)"
  shows "randomString draws result n d l u =
    Some (Inr (result @ map (\<lambda>i. alphabet62 ! nat i) (take n (good_draws draws d l u))))"
  using assms(2,3)
proof (induction draws arbitrary: result n)
  case Nil
  then show ?case by (simp add: randomString.simps good_draws_def)
next
  case (Cons i draws)
  have "length alphabet62 = 62" by (simp add: alphabet62_def)
  with Cons assms(1) show ?case
    by (cases n) (auto simp: randomString.simps [of "i # draws"] good_draws_def Let_def split: if_splits)
qed

section \<open>Properties\<close>

text \<open>
  every result of \<^verbatim>\<open>hashString\<close> fits in 28 bits, and on ASCII text it is the ELF
  hash.
\<close>

theorem hashString_is_elf_hash:
  "unat (hashString s) < 2 ^ 28 \<and> ((\<forall>c\<in>set s. c < 128) \<longrightarrow> hashString s = elf_hash s)"
proof -
  have "unat (foldl hash_step h s) < 2 ^ 28" if "unat h < 2 ^ 28" for h
    using that hash_step_small by (induction s arbitrary: h) auto
  moreover have "foldl hash_step h s = foldl elf_step h s" if "\<forall>c\<in>set s. c < 128" for h
    using that by (induction s arbitrary: h) (auto simp: hash_step_elf)
  ultimately show ?thesis by (simp add: hashString_def elf_hash_def)
qed

theorem hashString_is_elf_hash_witness: "hashString [0x61, 0x62] = elf_hash [0x61, 0x62]"
  using hashString_is_elf_hash [of "[0x61, 0x62]"] by simp

text \<open>
  the string overload of \<^verbatim>\<open>splitString\<close> appends the fields of the text: their join is
  the text. Conversely, fields joined by a separator that occurs in none of them are
  returned as they were.
\<close>

theorem splitString_inverts_join:
  "(\<exists>gs. splitString cstr sc v = (True, v @ gs) \<and> join sc gs = cstring cstr) \<and>
   (fs \<noteq> [] \<and> (\<forall>f\<in>set fs. sc \<notin> set f) \<and> CHR 0x00 \<notin> set (join sc fs) \<longrightarrow>
      splitString (join sc fs) sc v = (True, v @ fs))"
  by (auto simp: splitString_def split_strings_fields join_fields cstring_id fields_join)

theorem splitString_inverts_join_witness:
  "splitString (join (CHR '','') [''ab'', '''', ''c'']) (CHR '','') [''x''] = (True, [''x'', ''ab'', '''', ''c''])"
  using splitString_inverts_join [where sc = "CHR '',''" and v = "[''x'']" and fs = "[''ab'', '''', ''c'']"]
  by simp

text \<open>
  integers printed in decimal and joined by a separator are read back by the \<^verbatim>\<open>int\<close>
  overload of \<^verbatim>\<open>splitString\<close>.
\<close>

theorem splitString_int_roundtrip:
  assumes "\<forall>x\<in>set xs. - (2 ^ 31) \<le> x \<and> x < 2 ^ 31"
    and "\<not> isdigit sc" and "sc \<noteq> CHR ''-''" and "sc \<noteq> CHR 0x00"
  shows "splitString_int (join sc (map dec_int xs)) sc v = (True, v @ xs)"
  using convert_all_map [of xs std_stoi dec_int "\<lambda>x. x" v] assms
  by (simp add: splitString_int_def split_numbers std_stoi_def number_prefix_dec_int)

theorem splitString_int_roundtrip_witness:
  "splitString_int (join (CHR '','') (map dec_int [12, - 7, 0])) (CHR '','') [] = (True, [12, - 7, 0])"
  using splitString_int_roundtrip [of "[12, - 7, 0]" "CHR '',''" "[]"] by (simp add: isdigit_def)

text \<open>
  the \<^verbatim>\<open>long\<close> and \<^verbatim>\<open>long long\<close> overloads accept every 64-bit number and return its
  low 32 bits as a signed number: the converted value passes through an \<^verbatim>\<open>int\<close>.
\<close>

theorem splitString_long_truncates:
  assumes "\<forall>x\<in>set xs. - (2 ^ 63) \<le> x \<and> x < 2 ^ 63"
    and "\<not> isdigit sc" and "sc \<noteq> CHR ''-''" and "sc \<noteq> CHR 0x00"
  shows "splitString_long (join sc (map dec_int xs)) sc v = (True, v @ map to_int xs) \<and>
    splitString_longlong (join sc (map dec_int xs)) sc v = (True, v @ map to_int xs)"
  using convert_all_map [of xs "\<lambda>s. map_option to_int (std_stol s)" dec_int to_int v] assms
  by (simp add: splitString_long_def splitString_longlong_def split_numbers std_stol_def number_prefix_dec_int)

theorem splitString_long_truncates_witness:
  "splitString_long (join (CHR '','') (map dec_int [5, 2 ^ 32 + 1])) (CHR '','') [] = (True, [5, 1])"
  using splitString_long_truncates [of "[5, 2 ^ 32 + 1]" "CHR '',''" "[]"]
  by (simp add: isdigit_def to_int_def)

text \<open>
  \<^verbatim>\<open>isUTF8String\<close> accepts exactly the concatenations of byte units made of a lead
  byte and the continuation bytes it announces, with no surrogate; every RFC 3629 encoding
  of Unicode scalar values is accepted.
\<close>

theorem isUTF8String_accepts:
  "(isUTF8String s \<longleftrightarrow> (\<exists>us. s = concat us \<and> list_all utf8_unit us)) \<and>
   (list_all unicode_scalar cps \<longrightarrow> isUTF8String (concat (map utf8_encode cps)))"
proof -
  have "list_all unicode_scalar cps \<Longrightarrow> isUTF8String (concat (map utf8_encode cps))"
    by (induction cps) (simp_all add: isUTF8_encode)
  then show ?thesis
    using isUTF8_units [of s] isUTF8_concat by (auto simp: list_all_iff)
qed

theorem isUTF8String_accepts_witness:
  "isUTF8String (utf8_encode 0x20AC @ utf8_encode 0x41)"
  using isUTF8String_accepts [where s = "[]" and cps = "[0x20AC, 0x41]", THEN conjunct2]
  by (simp add: unicode_scalar_def)

text \<open>
  a random string gets exactly the characters of the first \<open>n\<close> draws that fall in a
  requested class, once that many such draws have been made.
\<close>

theorem randomString_takes_wanted:
  assumes "d \<or> l \<or> u" and "\<forall>i\<in>set draws. 0 \<le> i \<and> i < 62" and "n \<le> length (good_draws draws d l u)"
  shows "\<exists>s. randomString draws result n d l u = Some (Inr (result @ s)) \<and> length s = n \<and>
    (\<forall>c\<in>set s. wanted d l u c)"
  using randomString_spec [OF assms] assms(3)
  by (auto simp: good_draws_def dest!: in_set_takeD)

theorem randomString_takes_wanted_witness:
  "\<exists>s. randomString [3, 20, 61, 9] [] 2 True False False = Some (Inr s) \<and> length s = 2"
  using randomString_takes_wanted [of True False False "[3, 20, 61, 9]" 2 "[]"]
  by (auto simp: good_draws_def wanted_def isdigit_def alphabet62_def)

end
