(* ===== verification/Tools_System.thy ===== *)
theory Tools_System
  imports Tools_Text
begin

text \<open>
  The part of \<^verbatim>\<open>src/tools/Tools.cpp\<close> that works with the system or with third-party
  code: network endpoints, signal names, directory creation and traversal, the DES wrapper
  and the answer of the WeChat login service. What is not in the repository (\<^verbatim>\<open>inet_aton\<close>,
  \<^verbatim>\<open>mkdir\<close>, the DES block function, the JSON parser) is an argument of the definitions.
\<close>

section \<open>Network endpoints\<close>

text \<open>\<^verbatim>\<open>union NetworkEndpoint\<close>: the address in the low half of the value, the port in the high.\<close>

definition endpoint_value :: "u32 \<Rightarrow> u32 \<Rightarrow> u64" where
  "endpoint_value address port = ucast address OR push_bit 32 (ucast port)"

definition endpoint_address :: "u64 \<Rightarrow> u32" where
  "endpoint_address v = ucast v"

definition endpoint_port :: "u64 \<Rightarrow> u32" where
  "endpoint_port v = ucast (drop_bit 32 v)"

text \<open>\<^verbatim>\<open>htons\<close> and \<^verbatim>\<open>ntohs\<close> on a little endian machine.\<close>

definition swap16 :: "u16 \<Rightarrow> u16" where
  "swap16 w = push_bit 8 w OR drop_bit 8 w"

definition combineNetworkEndpoint :: "(string \<Rightarrow> u32 option) \<Rightarrow> string \<Rightarrow> int \<Rightarrow> u64" where
  "combineNetworkEndpoint inet_aton address port =
     (case inet_aton address of
        None \<Rightarrow> 0
      | Some s_addr \<Rightarrow> endpoint_value s_addr (ucast (swap16 (word_of_int port))))"

definition splitNetworkEndpoint :: "(u32 \<Rightarrow> string) \<Rightarrow> u64 \<Rightarrow> string \<times> int" where
  "splitNetworkEndpoint inet_ntoa v =
     (inet_ntoa (endpoint_address v), uint (swap16 (ucast (endpoint_port v))))"

lemma swap16_swap16 [simp]: "swap16 (swap16 w) = w"
proof (rule bit_word_eqI)
  fix n assume "n < LENGTH(16)"
  then show "bit (swap16 (swap16 w)) n \<longleftrightarrow> bit w n"
    by (cases "n < 8") (auto simp: swap16_def bit_simps dest: bit_imp_le_length)
qed

lemma endpoint_fields [simp]:
  "endpoint_address (endpoint_value a p) = a" "endpoint_port (endpoint_value a p) = p"
proof -
  have "\<not> bit a (32 + n)" for n by (auto dest: bit_imp_le_length)
  then show "endpoint_address (endpoint_value a p) = a" "endpoint_port (endpoint_value a p) = p"
    by (auto intro!: bit_word_eqI
        simp: endpoint_address_def endpoint_port_def endpoint_value_def bit_simps)
qed

section \<open>Signals\<close>

definition sig_strings :: "string list" where
  "sig_strings = [''NULL'', ''SIGHUP'', ''SIGINT'', ''SIGQUIT'', ''SIGILL'', ''SIGTRAP'',
     ''SIGABRT'', ''SIGBUS'', ''SIGFPE'', ''SIGKILL'', ''SIGUSR1'',
     ''SIGSEGV'', ''SIGUSR2'', ''SIGPIPE'', ''SIGALRM'', ''SIGTERM'',
     ''SIGSTKFLT'', ''SIGCHLD'', ''SIGCONT'', ''SIGSTOP'', ''SIGTSTP'',
     ''SIGTTIN'', ''SIGTTOU'', ''SIGURG'', ''SIGXCPU'', ''SIGXFSZ'',
     ''SIGVTALRM'', ''SIGPROF'', ''SIGWINCH'', ''SIGIO'', ''SIGPWR'', ''SIGSYS'']"

definition signalString :: "int \<Rightarrow> string" where
  "signalString sig =
     (if sig > 0 \<and> sig < int (length sig_strings) then sig_strings ! nat sig else ''null'')"

section \<open>Directories\<close>

text \<open>
  The loop of \<^verbatim>\<open>createDirectory\<close> over the path: \<open>pre\<close> is what was passed with its slash,
  \<open>rest\<close> what follows. \<open>mkdir\<close> tells whether the call succeeded or the directory existed.
\<close>

function createDirectory_loop ::
    "(string \<Rightarrow> 'fs \<Rightarrow> bool \<times> 'fs) \<Rightarrow> string \<Rightarrow> string \<Rightarrow> 'fs \<Rightarrow> bool \<times> 'fs" where
  "createDirectory_loop mkdir pre rest fs =
     (if rest = [] then (True, fs)
      else let dir = pre @ takeWhile (\<lambda>c. c \<noteq> CHR ''/'') rest;
               (ok, fs1) = (if dir \<noteq> [] then mkdir dir fs else (True, fs))
           in if \<not> ok then (False, fs1)
              else case dropWhile (\<lambda>c. c \<noteq> CHR ''/'') rest of
                     [] \<Rightarrow> (True, fs1)
                   | _ # rest' \<Rightarrow> createDirectory_loop mkdir (dir @ ''/'') rest' fs1)"
  by auto
termination
proof (relation "measure (\<lambda>(mkdir, pre, rest, fs). length rest)", goal_cases)
  case (2 mkdir pre rest fs dir p ok fs1 c rest')
  then have "length (c # rest') \<le> length rest" by (metis length_dropWhile_le)
  then show ?case by simp
qed simp

definition createDirectory ::
    "(string \<Rightarrow> string) \<Rightarrow> (string \<Rightarrow> 'fs \<Rightarrow> bool \<times> 'fs) \<Rightarrow> string \<Rightarrow> 'fs \<Rightarrow> bool \<times> 'fs" where
  "createDirectory absoluteDirectory mkdir path fs =
     createDirectory_loop mkdir [] (absoluteDirectory path) fs"

declare createDirectory_loop.simps [simp del]

text \<open>
  A directory as \<^verbatim>\<open>readdir\<close> delivers it: names with the type of the entry and, for a
  directory, what is in it. The callback threads a state of its own.
\<close>

datatype node = File | Dir "(string \<times> nat \<times> node) list"

definition DT_DIR :: nat where
  "DT_DIR = 4"

definition tolower :: "char \<Rightarrow> char" where
  "tolower c = (if 65 \<le> (of_char c :: nat) \<and> (of_char c :: nat) \<le> 90 then char_of ((of_char c :: nat) + 32) else c)"

definition strcaseeq :: "string \<Rightarrow> string \<Rightarrow> bool" where
  "strcaseeq a b \<longleftrightarrow> map tolower a = map tolower b"

text \<open>\<^verbatim>\<open>strrchr\<close>: the text from the last dot on.\<close>

definition last_suffix :: "string \<Rightarrow> string option" where
  "last_suffix name =
     (if CHR ''.'' \<in> set name
      then Some (CHR ''.'' # rev (takeWhile (\<lambda>c. c \<noteq> CHR ''.'') (rev name))) else None)"

definition entry_skipped :: "string option \<Rightarrow> string \<Rightarrow> bool" where
  "entry_skipped filter_suffix name \<longleftrightarrow>
     (name \<noteq> [] \<and> hd name = CHR ''.'') \<or>
     (case filter_suffix of None \<Rightarrow> False
      | Some f \<Rightarrow> (case last_suffix name of None \<Rightarrow> True | Some suffix \<Rightarrow> \<not> strcaseeq suffix f))"

fun traverseDirectory ::
    "string option \<Rightarrow> (string \<Rightarrow> 's \<Rightarrow> bool \<times> 's) \<Rightarrow> string \<Rightarrow> node \<Rightarrow> 's \<Rightarrow> bool \<times> 's"
  and traverse_entries ::
    "string option \<Rightarrow> (string \<Rightarrow> 's \<Rightarrow> bool \<times> 's) \<Rightarrow> string \<Rightarrow> (string \<times> nat \<times> node) list \<Rightarrow> 's \<Rightarrow> bool \<times> 's" where
  "traverseDirectory filter_suffix callback folder File s = callback folder s"
| "traverseDirectory filter_suffix callback folder (Dir entries) s =
     traverse_entries filter_suffix callback folder entries s"
| "traverse_entries filter_suffix callback folder [] s = (True, s)"
| "traverse_entries filter_suffix callback folder ((d_name, d_type, child) # entries) s =
     (if entry_skipped filter_suffix d_name
      then traverse_entries filter_suffix callback folder entries s
      else let fullname = take (PATH_MAX - 1) (folder @ ''/'' @ d_name)
           in if d_type AND DT_DIR \<noteq> 0
              then traverseDirectory filter_suffix callback fullname child s
              else let (ok, s1) = callback fullname s
                   in if \<not> ok then (False, s1)
                      else traverse_entries filter_suffix callback folder entries s1)"

text \<open>The calls of \<^verbatim>\<open>mkdir\<close>: the growing prefixes of the path, up to the first refusal.\<close>

fun seg_paths :: "string \<Rightarrow> string list \<Rightarrow> string list" where
  "seg_paths pre [] = []"
| "seg_paths pre (f # fs) = (pre @ f) # seg_paths (pre @ f @ ''/'') fs"

fun until_refused :: "('a \<Rightarrow> bool) \<Rightarrow> 'a list \<Rightarrow> 'a list" where
  "until_refused ok [] = []"
| "until_refused ok (d # ds) = d # (if ok d then until_refused ok ds else [])"

lemma numeric_fields_step:
  "numeric_fields sc s =
     (case dropWhile (\<lambda>c. c \<noteq> sc) s of
        [] \<Rightarrow> if s = [] then [] else [s]
      | _ # p \<Rightarrow> takeWhile (\<lambda>c. c \<noteq> sc) s # numeric_fields sc p)"
proof (cases "dropWhile (\<lambda>c. c \<noteq> sc) s")
  case Nil
  then show ?thesis by (simp add: numeric_fields_def fields_last del: dropWhile_eq_Nil_conv)
next
  case (Cons c p)
  then have "fields sc s = takeWhile (\<lambda>c. c \<noteq> sc) s # fields sc p"
    by (subst fields_step) simp
  with Cons show ?thesis by (simp add: numeric_fields_def Let_def)
qed

lemma createDirectory_loop_calls:
  fixes ok :: "string \<Rightarrow> bool" and log :: "string list"
  defines "mk \<equiv> \<lambda>d log. (ok d, log @ [d])"
  shows "createDirectory_loop mk pre rest log =
    (let ds = filter (\<lambda>d. d \<noteq> []) (seg_paths pre (numeric_fields (CHR ''/'') rest))
     in (list_all ok ds, log @ until_refused ok ds))"
proof (induction "length rest" arbitrary: pre rest log rule: less_induct)
  case less
  show ?case
  proof (cases "rest = []")
    case True
    then show ?thesis by (simp add: createDirectory_loop.simps numeric_fields_def)
  next
    case False
    show ?thesis
    proof (cases "dropWhile (\<lambda>c. c \<noteq> CHR ''/'') rest")
      case Nil
      then have "takeWhile (\<lambda>c. c \<noteq> CHR ''/'') rest = rest"
        by (metis append_Nil2 takeWhile_dropWhile_id)
      with Nil False show ?thesis
        by (subst createDirectory_loop.simps, subst numeric_fields_step)
          (simp add: mk_def Let_def del: dropWhile_eq_Nil_conv takeWhile_eq_all_conv)
    next
      case (Cons c p)
      then have "length p < length rest"
        by (metis Suc_le_eq length_Cons length_dropWhile_le)
      from less [OF this] Cons False show ?thesis
        by (subst createDirectory_loop.simps, subst numeric_fields_step)
          (simp add: mk_def Let_def)
    qed
  qed
qed

lemma seg_paths_join:
  "seg_paths pre fs = map (\<lambda>k. pre @ join (CHR ''/'') (take (Suc k) fs)) [0..<length fs]"
proof (induction fs arbitrary: pre)
  case (Cons f fs)
  have "join (CHR ''/'') (take (Suc (Suc k)) (f # fs)) = f @ CHR ''/'' # join (CHR ''/'') (take (Suc k) fs)"
    if "k < length fs" for k
    using that by (simp add: join_Cons take_Suc_conv_app_nth)
  with Cons show ?case
    by (simp add: upt_conv_Cons map_Suc_upt [symmetric] del: upt_Suc take_Suc_Cons) (simp add: comp_def)
qed simp

section \<open>DES in ECB mode\<close>

text \<open>
  \<open>des key block\<close> is the block function of OpenSSL in one direction, on eight bytes. The key
  is cut to eight bytes or filled with zeros; the last incomplete block is filled with
  zeros.
\<close>

definition des_key :: "bytes \<Rightarrow> bytes" where
  "des_key deskey =
     (if length deskey \<le> 8 then deskey @ replicate (8 - length deskey) 0 else take 8 deskey)"

fun des_blocks :: "(bytes \<Rightarrow> bytes) \<Rightarrow> bytes \<Rightarrow> nat \<Rightarrow> bytes" where
  "des_blocks ecb text 0 = []"
| "des_blocks ecb text (Suc n) = des_blocks ecb text n @ ecb (take 8 (drop (n * 8) text))"

definition des_crypt :: "(bytes \<Rightarrow> bytes) \<Rightarrow> bytes \<Rightarrow> bytes" where
  "des_crypt ecb text =
     (let whole = des_blocks ecb text (length text div 8)
      in if length text mod 8 \<noteq> 0
         then let tmp1 = length text div 8 * 8; tmp2 = length text - tmp1
              in whole @ ecb (take tmp2 (drop tmp1 text) @ replicate (8 - tmp2) 0)
         else whole)"

definition openssl_des_encrypt :: "(bytes \<Rightarrow> bytes \<Rightarrow> bytes) \<Rightarrow> bytes \<Rightarrow> bytes \<Rightarrow> bytes" where
  "openssl_des_encrypt des_enc plain deskey = des_crypt (des_enc (des_key deskey)) plain"

definition openssl_des_decrypt :: "(bytes \<Rightarrow> bytes \<Rightarrow> bytes) \<Rightarrow> bytes \<Rightarrow> bytes \<Rightarrow> bytes" where
  "openssl_des_decrypt des_dec cipher deskey = des_crypt (des_dec (des_key deskey)) cipher"

definition des_pad :: "bytes \<Rightarrow> bytes" where
  "des_pad text = text @ replicate ((8 - length text mod 8) mod 8) 0"

function chunks8 :: "bytes \<Rightarrow> bytes list" where
  "chunks8 xs = (if xs = [] then [] else take 8 xs # chunks8 (drop 8 xs))"
  by auto
termination by (relation "measure length") auto

declare chunks8.simps [simp del]

lemma chunks8_Nil [simp]: "chunks8 [] = []"
  by (simp add: chunks8.simps)

lemma chunks8_block: "length b = 8 \<Longrightarrow> chunks8 (b @ xs) = b # chunks8 xs"
  by (subst chunks8.simps) auto

lemma chunks8_concat: "\<forall>b\<in>set bs. length b = 8 \<Longrightarrow> chunks8 (concat bs) = bs"
  by (induction bs) (simp_all add: chunks8_block)

lemma concat_chunks8: "concat (chunks8 xs) = xs"
proof (induction xs rule: chunks8.induct)
  case (1 xs)
  then show ?case by (subst chunks8.simps) simp
qed

lemma length_chunks8: "8 dvd length xs \<Longrightarrow> b \<in> set (chunks8 xs) \<Longrightarrow> length b = 8"
proof (induction xs rule: chunks8.induct)
  case (1 xs)
  show ?case
  proof (cases "xs = []")
    case False
    then have "8 \<le> length xs" using 1(2) by (simp add: dvd_imp_le)
    with False 1 show ?thesis
      by (subst (asm) (2) chunks8.simps) (auto simp: dvd_diff_nat)
  qed (use 1(3) in simp)
qed

lemma chunks8_append: "8 dvd length xs \<Longrightarrow> chunks8 (xs @ ys) = chunks8 xs @ chunks8 ys"
proof (induction xs rule: chunks8.induct)
  case (1 xs)
  show ?case
  proof (cases "xs = []")
    case False
    then have "8 \<le> length xs" using 1(2) by (simp add: dvd_imp_le)
    moreover have "chunks8 (drop 8 xs @ ys) = chunks8 (drop 8 xs) @ chunks8 ys"
      using 1 False by (simp add: dvd_diff_nat)
    ultimately show ?thesis
      using False chunks8_block [of "take 8 xs" "drop 8 xs @ ys"] chunks8_block [of "take 8 xs" "drop 8 xs"]
      by (simp add: append_assoc [symmetric] del: append_assoc)
  qed simp
qed

lemma pad8_dvd: "8 dvd n + (8 - n mod 8) mod (8 :: nat)"
proof (cases "n mod 8 = 0")
  case False
  then have "n + (8 - n mod 8) mod 8 = n - n mod 8 + 8"
    by (simp add: mod_le_divisor)
  also have "\<dots> = 8 * (n div 8) + 8" by (simp only: minus_mod_eq_mult_div)
  finally show ?thesis by simp
qed auto

lemma des_blocks_chunks:
  "n * 8 \<le> length text \<Longrightarrow> des_blocks ecb text n = concat (map ecb (chunks8 (take (n * 8) text)))"
proof (induction n)
  case (Suc n)
  have "take (Suc n * 8) text = take (n * 8) text @ take 8 (drop (n * 8) text)"
    using take_add [of "n * 8" 8 "text"] by (simp only: mult_Suc add.commute)
  moreover have "chunks8 (take 8 (drop (n * 8) text) @ []) = [take 8 (drop (n * 8) text)]"
    using Suc.prems by (subst chunks8_block) simp_all
  ultimately show ?case
    using Suc by (simp add: chunks8_append min_def)
qed simp

lemma des_crypt_chunks: "des_crypt ecb text = concat (map ecb (chunks8 (des_pad text)))"
proof -
  let ?n = "length text div 8 * 8"
  have n: "?n \<le> length text" by simp
  have split: "text = take ?n text @ drop ?n text" by simp
  show ?thesis
  proof (cases "length text mod 8 = 0")
    case True
    then have "?n = length text" by (simp only: minus_mod_eq_div_mult [symmetric])
    with True des_blocks_chunks [OF n, of ecb] show ?thesis by (simp add: des_crypt_def des_pad_def)
  next
    case False
    let ?t = "drop ?n text @ replicate (8 - length text mod 8) 0"
    have len: "length (drop ?n text) = length text mod 8"
      by (simp add: minus_div_mult_eq_mod)
    have "des_pad text = take ?n text @ ?t"
      using False by (simp add: des_pad_def)
    moreover have "length ?t = 8" using len by (simp add: order_less_imp_le)
    then have "chunks8 (?t @ []) = [?t]" by (subst chunks8_block) simp_all
    moreover have "8 dvd length (take ?n text)" using n by (simp add: min_absorb2)
    ultimately have "chunks8 (des_pad text) = chunks8 (take ?n text) @ [?t]"
      by (simp add: chunks8_append)
    with False des_blocks_chunks [OF n, of ecb] len show ?thesis
      by (simp add: des_crypt_def Let_def minus_div_mult_eq_mod)
  qed
qed

lemma length_concat_blocks: "\<forall>x\<in>set xs. length (f x) = n \<Longrightarrow> length (concat (map f xs)) = n * length xs"
  by (induction xs) simp_all

lemma des_crypt_inverse:
  assumes inv: "\<And>b. length b = 8 \<Longrightarrow> dec (enc b) = b" and len: "\<And>b. length b = 8 \<Longrightarrow> length (enc b) = 8"
  shows "des_crypt dec (des_crypt enc text) = des_pad text"
proof -
  have "8 dvd length (des_pad text)"
    using pad8_dvd [of "length text"] by (simp add: des_pad_def)
  note b = length_chunks8 [OF this]
  let ?c = "des_crypt enc text"
  have "length ?c = 8 * length (chunks8 (des_pad text))"
    unfolding des_crypt_chunks using len b by (intro length_concat_blocks) auto
  then have "des_pad ?c = ?c" by (simp add: des_pad_def)
  moreover have "chunks8 ?c = map enc (chunks8 (des_pad text))"
    unfolding des_crypt_chunks using len b by (intro chunks8_concat) auto
  ultimately have "des_crypt dec ?c = concat (map (dec \<circ> enc) (chunks8 (des_pad text)))"
    by (simp add: des_crypt_chunks [of dec])
  also have "map (dec \<circ> enc) (chunks8 (des_pad text)) = chunks8 (des_pad text)"
    using inv b by (intro map_idI) auto
  finally show ?thesis by (simp add: concat_chunks8)
qed

section \<open>The answer of the login service\<close>

text \<open>
  What the JSON parser returns for a document, as far as the callback looks at it: a parse
  error, a value that is no object (on which \<^verbatim>\<open>HasMember\<close> asserts), or an object whose
  members are strings or something else (on which \<^verbatim>\<open>GetString\<close> asserts).
\<close>

datatype json_value = JString string | JOther

datatype json_doc = JParseError | JNotObject | JObject "string \<rightharpoonup> json_value"

fun json_string :: "json_value option \<Rightarrow> string res" where
  "json_string (Some (JString s)) = Inr s"
| "json_string _ = Inl AssertFailed"

fun is_json_string :: "json_value option \<Rightarrow> bool" where
  "is_json_string (Some (JString s)) = True"
| "is_json_string _ = False"

text \<open>The arguments the callback passes on: success, and two texts.\<close>

definition curlWriteCallback :: "(string \<Rightarrow> json_doc) \<Rightarrow> string \<Rightarrow> (bool \<times> string \<times> string) res" where
  "curlWriteCallback parse ptr =
     (case parse ptr of
        JParseError \<Rightarrow> Inr (False, ''ParseCallbackError'', ptr)
      | JNotObject \<Rightarrow> Inl AssertFailed
      | JObject m \<Rightarrow>
          if m ''errcode'' \<noteq> None then
            (let errmsg = (case m ''errmsg'' of Some (JString e) \<Rightarrow> e | _ \<Rightarrow> ptr)
             in Inr (False, ''errcode'', errmsg))
          else if m ''session_key'' = None \<or> is_json_string (m ''session_key'')
          then Inr (False, ''not found `session_key`'', ptr)
          else if m ''openid'' = None \<or> \<not> is_json_string (m ''openid'')
          then Inr (False, ''not found `openid`'', ptr)
          else bindE (json_string (m ''session_key'')) (\<lambda>session_key.
                 bindE (json_string (m ''openid'')) (\<lambda>openid. Inr (True, session_key, openid))))"

lemma callback_reports_failure: "curlWriteCallback parse ptr \<noteq> Inr (True, session_key, openid)"
proof (cases "parse ptr")
  case (JObject m)
  show ?thesis
  proof (cases "m ''session_key''")
    case (Some v)
    with JObject show ?thesis
      by (cases v) (auto simp: curlWriteCallback_def Let_def split: option.splits)
  qed (simp add: JObject curlWriteCallback_def Let_def)
qed (simp_all add: curlWriteCallback_def)

section \<open>Properties\<close>

text \<open>
  packing an address and a port into an endpoint and splitting it returns both, for
  every port of 16 bits, given that \<^verbatim>\<open>inet_aton\<close> reads what \<^verbatim>\<open>inet_ntoa\<close> prints.
\<close>

theorem networkEndpoint_roundtrip:
  assumes "\<And>a. inet_aton (inet_ntoa a) = Some a" and "0 \<le> port" and "port < 65536"
  shows "splitNetworkEndpoint inet_ntoa (combineNetworkEndpoint inet_aton (inet_ntoa a) port)
    = (inet_ntoa a, port)"
proof -
  have "ucast (ucast w :: u32) = w" for w :: u16
    by (intro bit_word_eqI) (simp add: bit_simps)
  moreover have "uint (word_of_int port :: u16) = port"
    using assms(2,3) by (simp add: uint_word_of_int_eq take_bit_eq_mod)
  ultimately show ?thesis
    by (simp add: splitNetworkEndpoint_def combineNetworkEndpoint_def assms(1))
qed

text \<open>An instance of the address notation: one character per byte.\<close>

definition raw_ntoa :: "u32 \<Rightarrow> string" where
  "raw_ntoa a = string_of_bytes (be_bytes a)"

definition raw_aton :: "string \<Rightarrow> u32 option" where
  "raw_aton s = (if length s = 4 then Some (be_word (bytes_of_string s)) else None)"

theorem networkEndpoint_roundtrip_witness:
  "splitNetworkEndpoint raw_ntoa (combineNetworkEndpoint raw_aton (raw_ntoa 0x7F000001) 8080)
     = (raw_ntoa 0x7F000001, 8080)"
  by (rule networkEndpoint_roundtrip) (simp_all add: raw_ntoa_def raw_aton_def be_word_be_bytes)

text \<open>
  \<^verbatim>\<open>createDirectory\<close> calls \<^verbatim>\<open>mkdir\<close> on the growing prefixes of the path, one per
  component and in order, stops at the first refusal, and returns true exactly when no call
  was refused.
\<close>

theorem createDirectory_makes_prefixes:
  "createDirectory absoluteDirectory (\<lambda>d log. (ok d, log @ [d])) path [] =
     (let fs = numeric_fields (CHR ''/'') (absoluteDirectory path);
          ds = filter (\<lambda>d. d \<noteq> []) (map (\<lambda>k. join (CHR ''/'') (take (Suc k) fs)) [0..<length fs])
      in (list_all ok ds, until_refused ok ds))"
  by (simp add: createDirectory_def createDirectory_loop_calls seg_paths_join Let_def)

text \<open>
  the traversal of a directory ends with the first subdirectory that passes the filter:
  what comes after it is never visited, whatever the callback answers.
\<close>

theorem traverseDirectory_stops_at_subdirectory:
  assumes "\<not> entry_skipped f d" and "t AND DT_DIR \<noteq> 0"
  shows "traverseDirectory f callback folder (Dir (pre @ (d, t, child) # post)) s =
    traverseDirectory f callback folder (Dir (pre @ [(d, t, child)])) s"
  using assms
  by (induction pre arbitrary: s) (auto simp: Let_def split: prod.splits)

theorem traverseDirectory_stops_at_subdirectory_witness:
  "traverseDirectory None (\<lambda>n log. (True, log @ [n])) ''r''
     (Dir [(''a'', 8, File), (''sub'', 4, Dir []), (''b'', 8, File)]) [] = (True, [''r/a''])"
  using traverseDirectory_stops_at_subdirectory
    [of None "''sub''" 4 "\<lambda>n log. (True, log @ [n])" "''r''" "[(''a'', 8, File)]" "Dir []" "[(''b'', 8, File)]" "[]"]
  by (simp add: entry_skipped_def DT_DIR_def PATH_MAX_def Let_def)

text \<open>
  decrypting what \<^verbatim>\<open>openssl_des_encrypt\<close> returns gives the plain text filled with
  zero bytes to whole blocks, given a block function that keeps eight bytes and is inverted
  by the one used for decryption.
\<close>

theorem openssl_des_roundtrip:
  assumes "\<And>k b. length b = 8 \<Longrightarrow> length (des_enc k b) = 8"
    and "\<And>k b. length b = 8 \<Longrightarrow> des_dec k (des_enc k b) = b"
  shows "openssl_des_decrypt des_dec (openssl_des_encrypt des_enc plain deskey) deskey = des_pad plain"
  unfolding openssl_des_decrypt_def openssl_des_encrypt_def
  using assms by (intro des_crypt_inverse) auto

theorem openssl_des_roundtrip_witness:
  "openssl_des_decrypt (\<lambda>k. rev) (openssl_des_encrypt (\<lambda>k. rev) [1, 2, 3] [9]) [9]
   = [1, 2, 3] @ replicate 5 0"
  using openssl_des_roundtrip [of "\<lambda>k. rev" "\<lambda>k. rev" "[1, 2, 3]" "[9]"]
  by (simp add: des_pad_def)

text \<open>
  the login callback never reports success: a session key that is a string is
  rejected by the test in front, and one that is not makes \<^verbatim>\<open>GetString\<close> assert.
\<close>

theorem curlWriteCallback_never_succeeds: "curlWriteCallback parse ptr \<noteq> Inr (True, session_key, openid)"
  by (rule callback_reports_failure)

end
