(* ===== verification/Registry_Config.thy ===== *)
theory Registry_Config
  imports Tools_Text
begin

text \<open>
  \<^verbatim>\<open>src/tools/Registry.cpp\<close>, \<^verbatim>\<open>src/xml/XmlParser.cpp\<close>, \<^verbatim>\<open>src/config/Config.cpp\<close> and
  the signal handler of \<^verbatim>\<open>init_runtime_environment\<close>: typed values kept as text under dotted
  keys, filled from an XML file, and the flags the rest of the program polls.

  The typed overloads of \<^verbatim>\<open>set\<close> and \<^verbatim>\<open>get\<close> differ in how a value is printed and read
  back; the interface \<open>registry_codec\<close> states what they owe each other, and what a sequence of
  \<^verbatim>\<open>set\<close> calls means for \<^verbatim>\<open>get\<close> is proved once from it. It is interpreted for the
  unsigned and the signed integers of every width and for booleans.
\<close>

section \<open>The registry\<close>

type_synonym registry = "string \<rightharpoonup> string"

definition reg_setValue :: "string \<Rightarrow> string \<Rightarrow> registry \<Rightarrow> bool \<times> registry" where
  "reg_setValue key v m = (if m key = None then (True, m(key \<mapsto> v)) else (False, m))"

definition reg_getValue :: "string \<Rightarrow> registry \<Rightarrow> string option" where
  "reg_getValue key m = m key"

text \<open>\<open>SET_VALUE\<close>: printed with \<^verbatim>\<open>snprintf\<close> into a buffer of 1024 characters.\<close>

definition snprintf_1024 :: "string \<Rightarrow> string" where
  "snprintf_1024 s = take 1023 s"

definition reg_set :: "('v \<Rightarrow> string) \<Rightarrow> string \<Rightarrow> 'v \<Rightarrow> registry \<Rightarrow> bool \<times> registry" where
  "reg_set fmt key v m = reg_setValue key (snprintf_1024 (fmt v)) m"

definition reg_get :: "(string \<Rightarrow> 'v) \<Rightarrow> string \<Rightarrow> 'v \<Rightarrow> registry \<Rightarrow> 'v" where
  "reg_get read key defaultValue m =
     (case reg_getValue key m of None \<Rightarrow> defaultValue | Some v \<Rightarrow> read v)"

subsection \<open>The overloads\<close>

definition fmt_bool :: "bool \<Rightarrow> string" where
  "fmt_bool v = (if v then ''true'' else ''false'')"

definition ascii_lower :: "char \<Rightarrow> char" where
  "ascii_lower c = (if isupper c then char_of ((of_char c :: nat) + 32) else c)"

definition read_bool :: "string \<Rightarrow> bool" where
  "read_bool s \<longleftrightarrow> map ascii_lower s = ''true''"

definition fmt_unsigned :: "'a::len word \<Rightarrow> string" where
  "fmt_unsigned w = dec_nat (unat w)"

definition fmt_signed :: "'a::len word \<Rightarrow> string" where
  "fmt_signed w = dec_int (sint w)"

text \<open>\<^verbatim>\<open>strtoul\<close> and \<^verbatim>\<open>strtol\<close>: 64-bit results that saturate; a minus sign negates modulo
  \<open>2 ^ 64\<close>; no digits give zero. The result is then converted to the type of the overload.\<close>

definition strtoul :: "string \<Rightarrow> u64" where
  "strtoul s = (case number_prefix s of None \<Rightarrow> 0
     | Some v \<Rightarrow> if \<bar>v\<bar> < 2 ^ 64 then word_of_int v else - 1)"

definition strtol :: "string \<Rightarrow> int" where
  "strtol s = (case number_prefix s of None \<Rightarrow> 0
     | Some v \<Rightarrow> if v < - (2 ^ 63) then - (2 ^ 63) else if v \<ge> 2 ^ 63 then 2 ^ 63 - 1 else v)"

definition read_unsigned :: "string \<Rightarrow> 'a::len word" where
  "read_unsigned s = ucast (strtoul s)"

definition read_signed :: "string \<Rightarrow> 'a::len word" where
  "read_signed s = word_of_int (strtol s)"

definition reg_findKey :: "string \<Rightarrow> registry \<Rightarrow> bool" where
  "reg_findKey key m \<longleftrightarrow> m key \<noteq> None"

definition reg_removeKey :: "string \<Rightarrow> registry \<Rightarrow> registry" where
  "reg_removeKey key m = (if m key \<noteq> None then m(key := None) else m)"

definition reg_clear :: "registry \<Rightarrow> registry" where
  "reg_clear m = Map.empty"

subsection \<open>The contract of a pair of overloads\<close>

locale registry_codec =
  fixes fmt :: "'v \<Rightarrow> string" and read :: "string \<Rightarrow> 'v"
  assumes read_fmt: "read (fmt v) = v"
    and fits: "length (fmt v) \<le> 1023"
begin

lemma get_set:
  "reg_get read key d (snd (reg_set fmt key' v m)) =
     (if key = key' \<and> m key = None then v else reg_get read key d m)"
  using fits [of v]
  by (auto simp: reg_get_def reg_set_def reg_setValue_def reg_getValue_def snprintf_1024_def read_fmt)

lemma set_first_wins:
  "reg_get read key d (fold (\<lambda>(k, v) m. snd (reg_set fmt k v m)) kvs m) =
     (if m key = None then case map_of kvs key of None \<Rightarrow> d | Some v \<Rightarrow> v else reg_get read key d m)"
proof (induction kvs arbitrary: m)
  case Nil
  then show ?case by (simp add: reg_get_def reg_getValue_def)
next
  case (Cons kv kvs)
  obtain k v where kv: "kv = (k, v)" by (cases kv)
  have "snd (reg_set fmt k v m) key = None \<longleftrightarrow> m key = None \<and> key \<noteq> k"
    by (simp add: reg_set_def reg_setValue_def)
  with Cons.IH [of "snd (reg_set fmt k v m)"] show ?case
    by (simp add: kv get_set)
qed

end

lemma number_prefix_dec_nat: "number_prefix (dec_nat n) = Some (int n)"
  using number_prefix_dec_int [of "int n"] by (simp add: dec_int_def)

interpretation rb: registry_codec fmt_bool read_bool
  by unfold_locales (auto simp: fmt_bool_def read_bool_def ascii_lower_def isupper_def)

lemma strtoul_dec_nat: "n < 2 ^ 64 \<Longrightarrow> strtoul (dec_nat n) = of_nat n"
proof -
  assume "n < 2 ^ 64"
  then have "int n < 2 ^ 64" by (metis of_nat_less_iff of_nat_numeral of_nat_power)
  then show ?thesis by (simp add: strtoul_def number_prefix_dec_nat)
qed

lemma unsigned_roundtrip:
  assumes "LENGTH('a) \<le> 64"
  shows "read_unsigned (fmt_unsigned (w :: 'a::len word)) = w"
    and "length (fmt_unsigned w) \<le> 1023"
proof -
  have "unat w < 2 ^ LENGTH('a)" using unsigned_less [where ?'a = nat and w = w] by simp
  also have "\<dots> \<le> 2 ^ 64" using assms by (intro power_increasing) auto
  finally have w: "unat w < 2 ^ 64" .
  then have "strtoul (dec_nat (unat w)) = of_nat (unat w)" by (rule strtoul_dec_nat)
  then show "read_unsigned (fmt_unsigned w) = w"
    using assms by (intro bit_word_eqI) (simp add: read_unsigned_def fmt_unsigned_def bit_ucast_iff)
  have "unat w < 10 ^ 20" using w by simp
  then have "length (fmt_unsigned w) \<le> 20" by (simp only: fmt_unsigned_def length_dec_nat)
  then show "length (fmt_unsigned w) \<le> 1023" by simp
qed

lemma signed_roundtrip:
  assumes "LENGTH('a) \<le> 64"
  shows "read_signed (fmt_signed (w :: 'a::len word)) = w"
    and "length (fmt_signed w) \<le> 1023"
proof -
  have "(2 :: int) ^ (LENGTH('a) - Suc 0) \<le> 2 ^ 63" using assms by (intro power_increasing) auto
  then have w: "- (2 ^ 63) \<le> sint w" "sint w < 2 ^ 63"
    using sint_greater_eq [of w] sint_less [of w] by linarith+
  then show "read_signed (fmt_signed w) = w"
    by (simp add: read_signed_def fmt_signed_def strtol_def number_prefix_dec_int)
  have "nat \<bar>sint w\<bar> < 10 ^ 20" using w by simp
  then have "length (dec_nat (nat \<bar>sint w\<bar>)) \<le> 20" by (simp only: length_dec_nat)
  then show "length (fmt_signed w) \<le> 1023" by (auto simp: fmt_signed_def dec_int_def)
qed

lemma codec_unsigned: "LENGTH('a::len) \<le> 64 \<Longrightarrow> registry_codec (fmt_unsigned :: 'a word \<Rightarrow> string) read_unsigned"
  by unfold_locales (simp_all add: unsigned_roundtrip)

lemma codec_signed: "LENGTH('a::len) \<le> 64 \<Longrightarrow> registry_codec (fmt_signed :: 'a word \<Rightarrow> string) read_signed"
  by unfold_locales (simp_all add: signed_roundtrip)

interpretation ru8: registry_codec "fmt_unsigned :: u8 \<Rightarrow> string" read_unsigned by (rule codec_unsigned) simp
interpretation ru16: registry_codec "fmt_unsigned :: u16 \<Rightarrow> string" read_unsigned by (rule codec_unsigned) simp
interpretation ru32: registry_codec "fmt_unsigned :: u32 \<Rightarrow> string" read_unsigned by (rule codec_unsigned) simp
interpretation ru64: registry_codec "fmt_unsigned :: u64 \<Rightarrow> string" read_unsigned by (rule codec_unsigned) simp
interpretation rs8: registry_codec "fmt_signed :: u8 \<Rightarrow> string" read_signed by (rule codec_signed) simp
interpretation rs16: registry_codec "fmt_signed :: u16 \<Rightarrow> string" read_signed by (rule codec_signed) simp
interpretation rs32: registry_codec "fmt_signed :: u32 \<Rightarrow> string" read_signed by (rule codec_signed) simp
interpretation rs64: registry_codec "fmt_signed :: u64 \<Rightarrow> string" read_signed by (rule codec_signed) simp

section \<open>From XML to the registry\<close>

text \<open>
  A document as its parser delivers it: a list of sibling nodes with names, attributes and
  children. \<open>root\<close> tells that the first of the siblings is the root node of the document.
\<close>

datatype xml_node = XmlNode (xml_name: string) (xml_attrs: "(string \<times> string) list") (xml_children: "xml_node list")

definition xml_key :: "string \<Rightarrow> string \<Rightarrow> string \<Rightarrow> string" where
  "xml_key name node attr =
     snprintf_1024 (if length name > 0 then name @ ''.'' @ node @ ''.'' @ attr else node @ ''.'' @ attr)"

definition set_attrs :: "string \<Rightarrow> string \<Rightarrow> (string \<times> string) list \<Rightarrow> registry \<Rightarrow> registry" where
  "set_attrs name node attrs m =
     fold (\<lambda>(attr, v) m. snd (reg_set (\<lambda>v. v) (xml_key name node attr) v m)) attrs m"

definition child_prefix :: "bool \<Rightarrow> string \<Rightarrow> string \<Rightarrow> string" where
  "child_prefix root name node =
     (if root then [] else if length name > 0 then name @ ''.'' @ node else node)"

fun makeRegistry :: "bool \<Rightarrow> xml_node list \<Rightarrow> string \<Rightarrow> registry \<Rightarrow> registry" where
  "makeRegistry root [] name m = m"
| "makeRegistry root (XmlNode node attrs children # siblings) name m =
     makeRegistry False siblings name
       (makeRegistry False children (child_prefix root name node) (set_attrs name node attrs m))"

text \<open>The entries of a document in the order in which they are read.\<close>

fun xml_entries :: "bool \<Rightarrow> xml_node list \<Rightarrow> string \<Rightarrow> (string \<times> string) list" where
  "xml_entries root [] name = []"
| "xml_entries root (XmlNode node attrs children # siblings) name =
     map (\<lambda>(attr, v). (xml_key name node attr, snprintf_1024 v)) attrs
     @ xml_entries False children (child_prefix root name node)
     @ xml_entries False siblings name"

lemma reg_set_lookup:
  "snd (reg_set fmt k v m) key =
     (case m key of Some x \<Rightarrow> Some x | None \<Rightarrow> if key = k then Some (snprintf_1024 (fmt v)) else None)"
  by (auto simp: reg_set_def reg_setValue_def split: option.splits)

lemma set_attrs_lookup:
  "set_attrs name node attrs m key =
     (case m key of Some v \<Rightarrow> Some v
      | None \<Rightarrow> map_of (map (\<lambda>(attr, v). (xml_key name node attr, snprintf_1024 v)) attrs) key)"
  unfolding set_attrs_def
proof (induction attrs arbitrary: m)
  case (Cons a attrs)
  then show ?case by (cases a) (simp add: reg_set_lookup split: option.split)
qed (simp split: option.split)

lemma makeRegistry_lookup:
  "makeRegistry root nodes name m key =
     (case m key of Some v \<Rightarrow> Some v | None \<Rightarrow> map_of (xml_entries root nodes name) key)"
proof (induction root nodes name m rule: makeRegistry.induct)
  case (2 root node attrs children siblings name m)
  then show ?case
    using set_attrs_lookup [of name node attrs m key]
    by (auto simp: map_add_def split: option.splits)
qed (simp split: option.split)

section \<open>Configuration and signals\<close>

record config =
  cf_halt :: bool
  cf_runasdaemon :: bool
  cf_reload :: bool
  cf_terminate_reason :: int
  cf_confile :: string
  cf_guard :: bool
  cf_values :: registry

definition cf_syshalt :: "int \<Rightarrow> config \<Rightarrow> config" where
  "cf_syshalt reason c =
     (if \<not> cf_halt c then c\<lparr>cf_terminate_reason := reason, cf_halt := True\<rparr> else c)"

text \<open>\<open>open\<close> is what the parser makes of a file: \<open>None\<close> when it throws.\<close>

definition cf_loadconf :: "(string \<Rightarrow> xml_node list option) \<Rightarrow> string \<Rightarrow> config \<Rightarrow> bool \<times> config" where
  "cf_loadconf open xmlfile c =
     (case open xmlfile of
        None \<Rightarrow> (False, c)
      | Some doc \<Rightarrow> (True, c\<lparr>cf_values := makeRegistry True doc [] (reg_clear (cf_values c))\<rparr>))"

text \<open>The options \<^verbatim>\<open>getopt\<close> returns one by one, with their argument.\<close>

fun cf_options :: "(char \<times> string) list \<Rightarrow> config \<Rightarrow> bool \<times> config" where
  "cf_options [] c = (True, c)"
| "cf_options ((opt, optarg) # opts) c =
     (if opt = CHR ''d'' \<or> opt = CHR ''D'' then cf_options opts (c\<lparr>cf_runasdaemon := True\<rparr>)
      else if opt = CHR ''c'' then cf_options opts (c\<lparr>cf_confile := optarg\<rparr>)
      else if opt = CHR ''g'' then cf_options opts (c\<lparr>cf_guard := True\<rparr>)
      else (False, c))"

text \<open>The handler installed for the signals; the case of \<open>SIGHUP\<close> falls through.\<close>

definition on_signal :: "int \<Rightarrow> config \<Rightarrow> config" where
  "on_signal sig c =
     (if sig = 34 then c
      else if sig = 28 then c
      else if sig = 1 then c\<lparr>cf_reload := True\<rparr>
      else if sig = 14 then c
      else cf_syshalt sig c)"

definition terminating :: "int \<Rightarrow> bool" where
  "terminating sig \<longleftrightarrow> sig \<notin> {34, 28, 1, 14}"

lemma on_signals:
  "cf_halt (fold on_signal sigs c) = (cf_halt c \<or> list_ex terminating sigs) \<and>
   cf_terminate_reason (fold on_signal sigs c) =
     (if cf_halt c then cf_terminate_reason c
      else case find terminating sigs of None \<Rightarrow> cf_terminate_reason c | Some sig \<Rightarrow> sig) \<and>
   cf_reload (fold on_signal sigs c) = (cf_reload c \<or> 1 \<in> set sigs)"
  by (induction sigs arbitrary: c)
    (auto simp: on_signal_def terminating_def cf_syshalt_def split: option.splits)

section \<open>Properties\<close>

text \<open>
  integers of every width up to 64 bits, signed or not, are read back from the registry
  as they were stored; of several values stored under one key the first remains, a key that
  was set before keeps its old value, and a key that was never set gives the default.
\<close>

theorem registry_first_value_wins:
  fixes us :: "(string \<times> 'a::len word) list"
  assumes "LENGTH('a) \<le> 64" and "m key = None"
  shows "reg_get read_unsigned key d (fold (\<lambda>(k, v) m. snd (reg_set fmt_unsigned k v m)) us m)
      = (case map_of us key of None \<Rightarrow> d | Some v \<Rightarrow> v) \<and>
    reg_get read_signed key d (fold (\<lambda>(k, v) m. snd (reg_set fmt_signed k v m)) us m)
      = (case map_of us key of None \<Rightarrow> d | Some v \<Rightarrow> v)"
  using assms(2) registry_codec.set_first_wins [OF codec_unsigned [OF assms(1)], of key d us m]
    registry_codec.set_first_wins [OF codec_signed [OF assms(1)], of key d us m] by simp

theorem registry_first_value_wins_witness:
  "reg_get read_unsigned ''k'' (9 :: u16)
     (fold (\<lambda>(k, v) m. snd (reg_set fmt_unsigned k v m)) [(''j'', 1), (''k'', 515), (''k'', 7 :: u16)] Map.empty) = 515"
  using registry_first_value_wins [where us = "[(''j'', 1), (''k'', 515), (''k'', 7 :: u16)]"
      and key = "''k''" and d = 9 and m = Map.empty] by simp

text \<open>
  after a configuration file was read, the registry holds exactly its attributes under
  their dotted names, the first occurrence of a name winning; nothing of an earlier
  configuration remains, and a file that cannot be read changes nothing.
\<close>

theorem loadconf_reads_document:
  "cf_loadconf open xmlfile c =
     (case open xmlfile of
        None \<Rightarrow> (False, c)
      | Some doc \<Rightarrow> (True, c\<lparr>cf_values := map_of (xml_entries True doc [])\<rparr>))"
proof -
  have "makeRegistry True doc [] (reg_clear (cf_values c)) = map_of (xml_entries True doc [])" for doc
    by (rule ext) (simp add: makeRegistry_lookup reg_clear_def)
  then show ?thesis by (simp add: cf_loadconf_def split: option.split)
qed

text \<open>
  after any sequence of signals the program is halted exactly when it was halted before
  or one of them terminates it; the recorded reason is the first terminating signal and is
  never overwritten, and a reload is requested exactly by \<open>SIGHUP\<close>.
\<close>

theorem signals_record_first_reason:
  assumes "\<not> cf_halt c"
  shows "cf_halt (fold on_signal sigs c) = list_ex terminating sigs \<and>
    cf_terminate_reason (fold on_signal sigs c) =
      (case find terminating sigs of None \<Rightarrow> cf_terminate_reason c | Some sig \<Rightarrow> sig) \<and>
    cf_reload (fold on_signal sigs c) = (cf_reload c \<or> 1 \<in> set sigs)"
  using on_signals [of sigs c] assms by simp

definition config_zero :: config where
  "config_zero = \<lparr>cf_halt = False, cf_runasdaemon = False, cf_reload = False, cf_terminate_reason = 0,
     cf_confile = [], cf_guard = False, cf_values = Map.empty\<rparr>"

theorem signals_record_first_reason_witness:
  "cf_terminate_reason (fold on_signal [28, 1, 15, 2] config_zero) = 15 \<and>
   cf_reload (fold on_signal [28, 1, 15, 2] config_zero)"
  using signals_record_first_reason [of config_zero "[28, 1, 15, 2]"]
  by (simp add: config_zero_def terminating_def)

end
