(* ===== verification/Http_Parser.thy ===== *)
theory Http_Parser
  imports Tools_Text
begin

text \<open>
  \<^verbatim>\<open>src/tools/HttpParser.cpp\<close>: the request parser of the WebSocket handshake and of the
  web services. The two loops are translated over the rest of the data; the text between
  \<^verbatim>\<open>prevread\<close> and \<^verbatim>\<open>nread\<close> is carried along. The result is a \<^verbatim>\<open>size_t\<close>: zero asks
  for more data, \<open>2 ^ 64 - 1\<close> (the \<^verbatim>\<open>-1\<close> of the source) is an error, anything else is
  the length of the request.
\<close>

section \<open>The code\<close>

datatype PARSER_STATE =
    s_request_start
  | s_request_method | s_request_url | s_request_version | s_request_line_done
  | s_request_field_name | s_request_field_value | s_request_header_done

record http_parser =
  req_method :: string
  req_url :: string
  req_version :: string
  req_headers :: "string \<rightharpoonup> string"

definition http_clear :: "http_parser \<Rightarrow> http_parser" where
  "http_clear h = h\<lparr>req_method := [], req_url := [], req_version := [], req_headers := Map.empty\<rparr>"

definition http_header :: "string \<Rightarrow> http_parser \<Rightarrow> string option" where
  "http_header name h = req_headers h name"

definition http_error :: nat where
  "http_error = 2 ^ 64 - 1"

text \<open>
  \<open>line_loop rest ps c acc nread h\<close>: the state \<open>ps\<close>, the last character \<open>c\<close> read, the text \<open>acc\<close>
  since \<^verbatim>\<open>prevread\<close>, and the number of characters read. \<open>None\<close> is the return from the
  middle of the loop.
\<close>

type_synonym http_loop = "string \<times> PARSER_STATE \<times> char \<times> string \<times> nat \<times> http_parser"

fun line_loop :: "string \<Rightarrow> PARSER_STATE \<Rightarrow> char \<Rightarrow> string \<Rightarrow> nat \<Rightarrow> http_parser \<Rightarrow> http_loop option" where
  "line_loop [] ps c acc nread h = Some ([], ps, c, acc, nread, h)"
| "line_loop (x # xs) ps prevc acc nread h =
     (if ps = s_request_line_done then Some (x # xs, ps, prevc, acc, nread, h)
      else case ps of
        s_request_method \<Rightarrow>
          if x = CHR '' '' then line_loop xs s_request_url x [] (nread + 1) (h\<lparr>req_method := acc\<rparr>)
          else line_loop xs ps x (acc @ [x]) (nread + 1) h
      | s_request_url \<Rightarrow>
          if x = CHR '' '' then line_loop xs s_request_version x [] (nread + 1) (h\<lparr>req_url := acc\<rparr>)
          else line_loop xs ps x (acc @ [x]) (nread + 1) h
      | s_request_version \<Rightarrow>
          if x = CHR 0x0A \<and> prevc = CHR 0x0D
          then line_loop xs s_request_line_done x (acc @ [x]) (nread + 1) (h\<lparr>req_version := butlast acc\<rparr>)
          else line_loop xs ps x (acc @ [x]) (nread + 1) h
      | _ \<Rightarrow> None)"

text \<open>Linear white space at both ends of a value.\<close>

definition trim_spaces :: "string \<Rightarrow> string" where
  "trim_spaces v = rev (dropWhile (\<lambda>c. c = CHR '' '') (rev (dropWhile (\<lambda>c. c = CHR '' '') v)))"

text \<open>The result on the left is the early return with an error.\<close>

fun header_loop :: "string \<Rightarrow> PARSER_STATE \<Rightarrow> char \<Rightarrow> string \<Rightarrow> nat \<Rightarrow> string \<Rightarrow> http_parser
    \<Rightarrow> http_parser + http_loop" where
  "header_loop [] ps c acc nread name h = Inr ([], ps, c, acc, nread, h)"
| "header_loop (x # xs) ps prevc acc nread name h =
     (if ps = s_request_header_done then Inr (x # xs, ps, prevc, acc, nread, h)
      else case ps of
        s_request_field_name \<Rightarrow>
          if x = CHR 0x0A \<and> prevc = CHR 0x0D
          then header_loop xs s_request_header_done x (acc @ [x]) (nread + 1) name h
          else if x = CHR '':'' then header_loop xs s_request_field_value x [] (nread + 1) acc h
          else header_loop xs ps x (acc @ [x]) (nread + 1) name h
      | s_request_field_value \<Rightarrow>
          if x = CHR 0x0A \<and> prevc = CHR 0x0D
          then let v = (if butlast acc \<noteq> [] then trim_spaces (butlast acc) else butlast acc)
               in if req_headers h name = None
                  then header_loop xs s_request_field_name x [] (nread + 1) name
                         (h\<lparr>req_headers := (req_headers h)(name \<mapsto> v)\<rparr>)
                  else Inl h
          else header_loop xs ps x (acc @ [x]) (nread + 1) name h
      | _ \<Rightarrow> Inl h)"

definition http_body :: "nat \<Rightarrow> nat \<Rightarrow> http_parser \<Rightarrow> nat" where
  "http_body len nread h =
     (case http_header ''Content-Length'' h of
        None \<Rightarrow> nread
      | Some v \<Rightarrow> (case std_stol v of
            None \<Rightarrow> http_error
          | Some content_length \<Rightarrow>
              let nread' = size_add nread (nat (content_length mod 2 ^ 64))
              in if len < nread' then 0 else nread'))"

definition http_parse :: "string \<Rightarrow> http_parser \<Rightarrow> nat \<times> http_parser" where
  "http_parse data h0 =
     (if length data = 0 then (0, h0)
      else case line_loop data s_request_method (CHR 0x00) [] 0 (http_clear h0) of
        None \<Rightarrow> (http_error, http_clear h0)
      | Some (rest, ps, c, _, nread, h) \<Rightarrow>
          if ps \<noteq> s_request_line_done then (0, h)
          else case header_loop rest s_request_field_name c [] nread [] h of
            Inl h' \<Rightarrow> (http_error, h')
          | Inr (_, ps', _, _, nread', h') \<Rightarrow>
              if ps' \<noteq> s_request_header_done then (0, h')
              else (http_body (length data) nread' h', h'))"

section \<open>More data\<close>

lemma line_loop_done [simp]:
  "line_loop xs s_request_line_done c acc n h = Some (xs, s_request_line_done, c, acc, n, h)"
  by (cases xs) simp_all

lemma header_loop_done [simp]:
  "header_loop xs s_request_header_done c acc n name h = Inr (xs, s_request_header_done, c, acc, n, h)"
  by (cases xs) simp_all

lemma line_loop_append:
  "line_loop xs ps c acc n h = Some (rest, s_request_line_done, c', acc', n', h') \<Longrightarrow>
     line_loop (xs @ ys) ps c acc n h = Some (rest @ ys, s_request_line_done, c', acc', n', h')"
  by (induction xs ps c acc n h rule: line_loop.induct)
    (auto split: if_splits PARSER_STATE.splits)

lemma header_loop_append:
  "header_loop xs ps c acc n name h = Inr (rest, s_request_header_done, c', acc', n', h') \<Longrightarrow>
     header_loop (xs @ ys) ps c acc n name h = Inr (rest @ ys, s_request_header_done, c', acc', n', h')"
  "header_loop xs ps c acc n name h = Inl e \<Longrightarrow> header_loop (xs @ ys) ps c acc n name h = Inl e"
  by (induction xs ps c acc n name h rule: header_loop.induct)
    (auto simp: Let_def split: if_splits PARSER_STATE.splits)

lemma line_loop_no_error: 
  "ps \<in> {s_request_method, s_request_url, s_request_version, s_request_line_done} \<Longrightarrow>
     line_loop xs ps c acc n h \<noteq> None"
  by (induction xs ps c acc n h rule: line_loop.induct) auto

lemma line_loop_count: "line_loop xs ps c acc n h = Some (rest, ps', c', acc', n', h') \<Longrightarrow>
    n' + length rest = n + length xs"
  by (induction xs ps c acc n h rule: line_loop.induct)
    (auto split: if_splits PARSER_STATE.splits)

lemma header_loop_count: "header_loop xs ps c acc n name h = Inr (rest, ps', c', acc', n', h') \<Longrightarrow>
    n' + length rest = n + length xs"
  by (induction xs ps c acc n name h rule: header_loop.induct)
    (auto simp: Let_def split: if_splits PARSER_STATE.splits)

lemma http_body_more: "http_body len nread h \<noteq> 0 \<Longrightarrow> http_body (len + k) nread h = http_body len nread h"
  by (auto simp: http_body_def Let_def split: option.splits if_splits)

lemma http_parse_more:
  assumes "fst (http_parse p h0) \<noteq> 0"
  shows "http_parse (p @ q) h0 = http_parse p h0"
proof -
  have p: "p \<noteq> []" using assms by (auto simp: http_parse_def)
  then obtain rest ps c acc n h where
    l: "line_loop p s_request_method (CHR 0x00) [] 0 (http_clear h0) = Some (rest, ps, c, acc, n, h)"
    using line_loop_no_error [of s_request_method p] by (metis insertI1 option.exhaust prod_cases6)
  then have ps: "ps = s_request_line_done"
    using assms p by (auto simp: http_parse_def split: if_splits)
  note l' = line_loop_append [OF l [unfolded ps], of q]
  show ?thesis
  proof (cases "header_loop rest s_request_field_name c [] n [] h")
    case (Inl e)
    with header_loop_append(2) [OF Inl, of q] show ?thesis
      using l l' p by (simp add: http_parse_def ps)
  next
    case (Inr r)
    then obtain rest' ps' c' acc' n' h' where
      r: "header_loop rest s_request_field_name c [] n [] h = Inr (rest', ps', c', acc', n', h')"
      by (cases r) auto
    then have ps': "ps' = s_request_header_done" and b: "http_body (length p) n' h' \<noteq> 0"
      using assms p l by (auto simp: http_parse_def ps split: if_splits)
    from header_loop_append(1) [OF r [unfolded ps'], of q] show ?thesis
      using l l' p r http_body_more [OF b, of "length q"] by (simp add: http_parse_def ps ps')
  qed
qed

lemma http_body_bound: "n \<le> len \<Longrightarrow> http_body len n h \<noteq> http_error \<Longrightarrow> http_body len n h \<le> len"
  by (auto simp: http_body_def Let_def split: option.splits if_splits)

lemma http_parse_bound:
  assumes "fst (http_parse p h0) \<noteq> http_error"
  shows "fst (http_parse p h0) \<le> length p"
proof (cases "p = []")
  case False
  then obtain rest ps c acc n h where
    l: "line_loop p s_request_method (CHR 0x00) [] 0 (http_clear h0) = Some (rest, ps, c, acc, n, h)"
    using line_loop_no_error [of s_request_method p] by (metis insertI1 option.exhaust prod_cases6)
  show ?thesis
  proof (cases "header_loop rest s_request_field_name c [] n [] h")
    case (Inl e)
    with l assms False show ?thesis by (simp add: http_parse_def split: if_splits)
  next
    case (Inr r)
    then obtain rest' ps' c' acc' n' h' where
      r: "header_loop rest s_request_field_name c [] n [] h = Inr (rest', ps', c', acc', n', h')"
      by (cases r) auto
    then have "n' \<le> length p"
      using line_loop_count [OF l] header_loop_count [OF r] by simp
    with l r assms False show ?thesis
      by (simp add: http_parse_def http_body_bound split: if_splits)
  qed
qed (simp add: http_parse_def)

section \<open>Requests\<close>

record http_request =
  rq_method :: string
  rq_url :: string
  rq_version :: string
  rq_headers :: "(string \<times> string) list"

definition CRLF :: string where
  "CRLF = [CHR 0x0D, CHR 0x0A]"

definition print_headers :: "(string \<times> string) list \<Rightarrow> string" where
  "print_headers hs = concat (map (\<lambda>(n, v). n @ CHR '':'' # v @ CRLF) hs)"

definition print_request :: "http_request \<Rightarrow> string" where
  "print_request r = rq_method r @ CHR '' '' # rq_url r @ CHR '' '' # rq_version r @ CRLF
     @ print_headers (rq_headers r) @ CRLF"

text \<open>
  The parts of a request do not contain the character that ends them, header names are
  different, and a \<open>Content-Length\<close>, when there is one, is the length of the body.
\<close>

definition request_ok :: "http_request \<Rightarrow> string \<Rightarrow> bool" where
  "request_ok r body \<longleftrightarrow>
     CHR '' '' \<notin> set (rq_method r) \<and> CHR '' '' \<notin> set (rq_url r) \<and> CHR 0x0A \<notin> set (rq_version r) \<and>
     list_all (\<lambda>(n, v). CHR '':'' \<notin> set n \<and> CHR 0x0A \<notin> set n \<and> CHR 0x0A \<notin> set v) (rq_headers r) \<and>
     distinct (map fst (rq_headers r)) \<and>
     (case map_of (rq_headers r) ''Content-Length'' of
        None \<Rightarrow> body = []
      | Some v \<Rightarrow> std_stol (trim_spaces v) = Some (int (length body))) \<and>
     length (print_request r) + length body < http_error"

definition parsed_request :: "http_request \<Rightarrow> http_parser" where
  "parsed_request r = \<lparr>req_method = rq_method r, req_url = rq_url r, req_version = rq_version r,
     req_headers = map_of (map (\<lambda>(n, v). (n, trim_spaces v)) (rq_headers r))\<rparr>"

lemma line_loop_method:
  "CHR '' '' \<notin> set m \<Longrightarrow> line_loop (m @ CHR '' '' # xs) s_request_method c acc n h =
     line_loop xs s_request_url (CHR '' '') [] (n + length m + 1) (h\<lparr>req_method := acc @ m\<rparr>)"
  by (induction m arbitrary: c acc n) auto

lemma line_loop_url:
  "CHR '' '' \<notin> set m \<Longrightarrow> line_loop (m @ CHR '' '' # xs) s_request_url c acc n h =
     line_loop xs s_request_version (CHR '' '') [] (n + length m + 1) (h\<lparr>req_url := acc @ m\<rparr>)"
  by (induction m arbitrary: c acc n) auto

lemma line_loop_version:
  "CHR 0x0A \<notin> set m \<Longrightarrow> \<exists>acc'. line_loop (m @ CRLF @ xs) s_request_version c acc n h =
     Some (xs, s_request_line_done, CHR 0x0A, acc', n + length m + 2, h\<lparr>req_version := acc @ m\<rparr>)"
proof (induction m arbitrary: c acc n)
  case (Cons a m)
  from Cons.IH [of a "acc @ [a]" "n + 1"] Cons.prems show ?case by auto
qed (simp add: CRLF_def)

lemma header_loop_name:
  "CHR '':'' \<notin> set m \<Longrightarrow> CHR 0x0A \<notin> set m \<Longrightarrow>
     header_loop (m @ CHR '':'' # xs) s_request_field_name c acc n name h =
     header_loop xs s_request_field_value (CHR '':'') [] (n + length m + 1) (acc @ m) h"
  by (induction m arbitrary: c acc n) auto

lemma trim_spaces_Nil [simp]: "trim_spaces [] = []"
  by (simp add: trim_spaces_def)

lemma header_loop_value:
  "CHR 0x0A \<notin> set m \<Longrightarrow> req_headers h name = None \<Longrightarrow>
     header_loop (m @ CRLF @ xs) s_request_field_value c acc n name h =
     header_loop xs s_request_field_name (CHR 0x0A) [] (n + length m + 2) name
       (h\<lparr>req_headers := (req_headers h)(name \<mapsto> trim_spaces (acc @ m))\<rparr>)"
proof (induction m arbitrary: c acc n)
  case Nil
  then show ?case by (cases "acc = []") (simp_all add: CRLF_def fun_upd_def)
qed auto

lemma map_add_headers:
  "n \<notin> set (map fst hs) \<Longrightarrow> m(n \<mapsto> t) ++ map_of hs = m ++ map_of ((n, t) # hs)"
  by (rule ext) (auto simp: map_add_def map_of_eq_None_iff [symmetric] split: option.splits)

lemma header_loop_headers:
  assumes "list_all (\<lambda>(n, v). CHR '':'' \<notin> set n \<and> CHR 0x0A \<notin> set n \<and> CHR 0x0A \<notin> set v) hs"
    and "distinct (map fst hs)" and "\<forall>n\<in>set (map fst hs). req_headers h n = None" and "c \<noteq> CHR 0x0D"
  shows "\<exists>c' acc'. header_loop (print_headers hs @ CRLF @ xs) s_request_field_name c [] n name h =
    Inr (xs, s_request_header_done, c', acc', n + length (print_headers hs) + 2,
      h\<lparr>req_headers := req_headers h ++ map_of (map (\<lambda>(n, v). (n, trim_spaces v)) hs)\<rparr>)"
  using assms
proof (induction hs arbitrary: h c n name)
  case Nil
  then show ?case by (simp add: print_headers_def CRLF_def)
next
  case (Cons kv hs)
  obtain k v where kv: "kv = (k, v)" by (cases kv)
  let ?h = "h\<lparr>req_headers := (req_headers h)(k \<mapsto> trim_spaces v)\<rparr>"
  have "header_loop (print_headers (kv # hs) @ CRLF @ xs) s_request_field_name c [] n name h =
      header_loop (print_headers hs @ CRLF @ xs) s_request_field_name (CHR 0x0A) []
        (n + length k + 1 + length v + 2) k ?h"
    using Cons.prems header_loop_value [of v h k]
    by (simp add: kv print_headers_def header_loop_name)
  moreover
  have none: "\<forall>n\<in>set (map fst hs). req_headers ?h n = None"
    using Cons.prems(2,3) by (auto simp: kv)
  have hs: "list_all (\<lambda>(n, v). CHR '':'' \<notin> set n \<and> CHR 0x0A \<notin> set n \<and> CHR 0x0A \<notin> set v) hs"
    "distinct (map fst hs)" and ne: "CHR 0x0A \<noteq> CHR 0x0D"
    using Cons.prems(1,2) by simp_all
  from Cons.IH [OF hs none ne, of "n + length k + 1 + length v + 2" k]
  obtain c' acc' where
    "header_loop (print_headers hs @ CRLF @ xs) s_request_field_name (CHR 0x0A) []
        (n + length k + 1 + length v + 2) k ?h =
      Inr (xs, s_request_header_done, c', acc', n + length k + 1 + length v + 2 + length (print_headers hs) + 2,
        ?h\<lparr>req_headers := req_headers ?h ++ map_of (map (\<lambda>(n, v). (n, trim_spaces v)) hs)\<rparr>)"
    by blast
  moreover have "?h\<lparr>req_headers := req_headers ?h ++ map_of (map (\<lambda>(n, v). (n, trim_spaces v)) hs)\<rparr>
      = h\<lparr>req_headers := req_headers h ++ map_of (map (\<lambda>(n, v). (n, trim_spaces v)) (kv # hs))\<rparr>"
    using Cons.prems(2) map_add_headers [of k "map (\<lambda>(n, v). (n, trim_spaces v)) hs" "req_headers h" "trim_spaces v"]
    by (simp add: kv comp_def split_beta)
  moreover have "n + length k + 1 + length v + 2 + length (print_headers hs) + 2
      = n + length (print_headers (kv # hs)) + 2"
    by (simp add: kv print_headers_def CRLF_def)
  ultimately show ?case by metis
qed

lemma http_body_length:
  assumes "http_header ''Content-Length'' h = map_option trim_spaces l"
    and l: "case l of None \<Rightarrow> body = [] | Some v \<Rightarrow> std_stol (trim_spaces v) = Some (int (length body))"
    and "n + length body < 2 ^ 64" and "n + length body \<le> len"
  shows "http_body len n h = n + length body"
proof (cases l)
  case (Some v)
  moreover have "nat (int (length body) mod 2 ^ 64) = length body"
    using assms(3) by simp
  ultimately show ?thesis
    using assms by (simp add: http_body_def)
qed (use assms in \<open>simp add: http_body_def\<close>)

lemma http_parse_request:
  assumes "request_ok r body"
  shows "http_parse (print_request r @ body @ tl0) h0 = (length (print_request r) + length body, parsed_request r)"
proof -
  let ?data = "print_request r @ body @ tl0"
  let ?h = "http_clear h0\<lparr>req_method := rq_method r, req_url := rq_url r, req_version := rq_version r\<rparr>"
  note ok = assms [unfolded request_ok_def]
  let ?n = "length (rq_method r) + 1 + length (rq_url r) + 1"
  have "CHR 0x0A \<notin> set (rq_version r)" using ok by simp
  from line_loop_version [OF this, of "print_headers (rq_headers r) @ CRLF @ body @ tl0" "CHR '' ''" "[]" ?n
      "http_clear h0\<lparr>req_method := rq_method r, req_url := rq_url r\<rparr>"]
  obtain acc where "line_loop (rq_version r @ CRLF @ print_headers (rq_headers r) @ CRLF @ body @ tl0)
      s_request_version (CHR '' '') [] ?n (http_clear h0\<lparr>req_method := rq_method r, req_url := rq_url r\<rparr>) =
      Some (print_headers (rq_headers r) @ CRLF @ body @ tl0, s_request_line_done, CHR 0x0A, acc,
        ?n + length (rq_version r) + 2, ?h)"
    by (auto simp only: append_Nil)
  then have line: "line_loop ?data s_request_method (CHR 0x00) [] 0 (http_clear h0) =
      Some (print_headers (rq_headers r) @ CRLF @ body @ tl0, s_request_line_done, CHR 0x0A, acc,
        ?n + length (rq_version r) + 2, ?h)"
    using ok by (simp add: print_request_def line_loop_method line_loop_url)
  from header_loop_headers [of "rq_headers r" ?h "CHR 0x0A" "body @ tl0"
      "length (rq_method r) + 1 + length (rq_url r) + 1 + length (rq_version r) + 2" "[]"] ok
  obtain c' acc' where
    head: "header_loop (print_headers (rq_headers r) @ CRLF @ body @ tl0) s_request_field_name (CHR 0x0A) []
        (length (rq_method r) + 1 + length (rq_url r) + 1 + length (rq_version r) + 2) [] ?h =
      Inr (body @ tl0, s_request_header_done, c', acc', length (print_request r), parsed_request r)"
    by (auto simp: http_clear_def parsed_request_def print_request_def CRLF_def)
  have "http_body (length ?data) (length (print_request r)) (parsed_request r)
      = length (print_request r) + length body"
  proof (rule http_body_length)
    show "http_header ''Content-Length'' (parsed_request r)
        = map_option trim_spaces (map_of (rq_headers r) ''Content-Length'')"
      by (simp add: http_header_def parsed_request_def map_of_map)
  qed (use ok in \<open>simp_all add: http_error_def\<close>)
  moreover have "print_request r \<noteq> []" by (simp add: print_request_def)
  ultimately show ?thesis
    using line head by (simp add: http_parse_def)
qed

section \<open>Properties\<close>

text \<open>
  C31: a request that is written out and followed by its body and by any further data is
  parsed into its method, URL, version and trimmed headers, and the returned length is that
  of the request with its body.
\<close>

theorem http_parse_roundtrip:
  assumes "request_ok r body"
  shows "http_parse (print_request r @ body @ rest) h0
    = (length (print_request r) + length body, parsed_request r)"
  using assms by (rule http_parse_request)

definition http_fresh :: http_parser where
  "http_fresh = \<lparr>req_method = [], req_url = [], req_version = [], req_headers = Map.empty\<rparr>"

definition http_example :: http_request where
  "http_example = \<lparr>rq_method = ''PUT'', rq_url = ''/a'', rq_version = ''HTTP/1.1'',
     rq_headers = [(''Host'', '' x ''), (''Content-Length'', '' 2'')]\<rparr>"

lemma http_example_ok: "request_ok http_example ''hi''"
  by (simp add: request_ok_def http_example_def print_request_def print_headers_def CRLF_def
      http_error_def trim_spaces_def std_stol_def number_prefix_def isspace_def isdigit_def)

theorem http_parse_roundtrip_witness:
  "fst (http_parse (print_request http_example @ ''hi'' @ ''GET /'') http_fresh) = length (print_request http_example) + 2"
  using http_parse_roundtrip [OF http_example_ok, of "''GET /''" http_fresh] by simp

text \<open>
  a result other than "more data" is final. Whatever arrives behind the data, the
  parser returns the same length or error and the same fields; and a length never exceeds
  the data it was computed from.
\<close>

theorem http_parse_stable:
  assumes "fst (http_parse p h0) \<noteq> 0"
  shows "http_parse (p @ q) h0 = http_parse p h0 \<and>
    (fst (http_parse p h0) = http_error \<or> fst (http_parse p h0) \<le> length p)"
  using http_parse_more [OF assms] http_parse_bound by blast

theorem http_parse_stable_witness:
  "http_parse ((print_request http_example @ ''hi'') @ ''trailing'') http_fresh
     = http_parse (print_request http_example @ ''hi'') http_fresh"
  using http_parse_stable [of "print_request http_example @ ''hi''" http_fresh "''trailing''"]
    http_parse_request [OF http_example_ok, of "[]" http_fresh] by simp

text \<open>
  every strict prefix of a well-formed request with its body asks for more data: the
  parser never reports a request before all of it has arrived.
\<close>

theorem http_parse_waits:
  assumes "request_ok r body" and "p @ q = print_request r @ body" and "q \<noteq> []"
  shows "fst (http_parse p h0) = 0"
proof (rule ccontr)
  assume n: "fst (http_parse p h0) \<noteq> 0"
  have "http_parse (p @ q) h0 = http_parse p h0"
    using n by (rule http_parse_more)
  then have e: "fst (http_parse p h0) = length (p @ q)"
    using http_parse_request [OF assms(1), of "[]" h0] assms(2) by simp
  moreover have "length (p @ q) < http_error"
    using assms(1,2) by (simp add: request_ok_def)
  ultimately show False
    using http_parse_bound [of p h0] assms(3) by simp
qed

theorem http_parse_waits_witness:
  "fst (http_parse (print_request http_example @ ''h'') http_fresh) = 0"
  using http_parse_waits [OF http_example_ok, of "print_request http_example @ ''h''" "''i''"] by simp

text \<open>
  a negative \<open>Content-Length\<close> is not refused. Converted to \<^verbatim>\<open>size_t\<close> it moves the
  end of the request backwards into the part that was already read.
\<close>

theorem http_negative_length:
  assumes "http_header ''Content-Length'' h = Some v" and "std_stol v = Some (- int k)"
    and "k \<le> nread" and "nread \<le> len" and "nread < 2 ^ 64"
  shows "http_body len nread h = nread - k"
proof (cases "k = 0")
  case True
  with assms show ?thesis by (simp add: http_body_def)
next
  case False
  then have "- int k mod 2 ^ 64 = 2 ^ 64 - int k"
    using assms(3,5) by (simp add: zmod_zminus1_eq_if)
  then have "nat (- int k mod 2 ^ 64) = 2 ^ 64 - k" by (simp add: nat_diff_distrib')
  moreover have "nread + (2 ^ 64 - k) = (nread - k) + 2 ^ 64" using assms(3,5) by simp
  ultimately have "size_add nread (nat (- int k mod 2 ^ 64)) = nread - k"
    unfolding size_add_def using assms(5) by (simp only: mod_add_self2) simp
  with assms show ?thesis by (simp add: http_body_def Let_def)
qed

theorem http_negative_length_witness:
  "http_body 100 50 \<lparr>req_method = [], req_url = [], req_version = [],
     req_headers = [''Content-Length'' \<mapsto> ''-20'']\<rparr> = 30"
  using http_negative_length [of "\<lparr>req_method = [], req_url = [], req_version = [],
     req_headers = [''Content-Length'' \<mapsto> ''-20'']\<rparr>" "''-20''" 20 50 100]
  by (simp add: http_header_def std_stol_def number_prefix_def isspace_def isdigit_def)

end
