(* ===== verification/Byte_Buffer.thy ===== *)
theory Byte_Buffer
  imports Bundle_Prelude
begin

text \<open>
  \<^verbatim>\<open>src/tools/ByteBuffer.cpp\<close>: the growing byte buffer every socket reads into and
  writes from. The record has the members of the class; a cell of the allocation that no
  one has written yet is \<open>None\<close>, so that a read of it is a fault and no theorem can
  depend on what \<^verbatim>\<open>realloc\<close> leaves in fresh memory. Allocation itself does not fail
  in the model.

  The buffer is shown to implement a first-in first-out queue of bytes: the interface
  \<open>byte_fifo\<close> states the contract, its clients' lemmas are proved from the contract
  alone, and the interpretation \<open>bb\<close> discharges it for the operations of the class.
\<close>

section \<open>State\<close>

record bytebuf =
  bb_buf :: "u8 option list"
  bb_capacity :: nat
  bb_rindex :: nat
  bb_windex :: nat

definition BUFFER_CHUNK_SIZE :: nat where
  "BUFFER_CHUNK_SIZE = 0x200"

definition bb_zero :: bytebuf where
  "bb_zero = \<lparr>bb_buf = [], bb_capacity = 0, bb_rindex = 0, bb_windex = 0\<rparr>"

section \<open>Operations\<close>

definition bb_size :: "bytebuf \<Rightarrow> nat res" where
  "bb_size b = assertE (bb_windex b \<ge> bb_rindex b) (Inr (bb_windex b - bb_rindex b))"

definition bb_clear :: "bytebuf \<Rightarrow> bytebuf" where
  "bb_clear b = b\<lparr>bb_buf := [], bb_capacity := 0, bb_rindex := 0, bb_windex := 0\<rparr>"

definition bb_reset :: "bytebuf \<Rightarrow> bytebuf" where
  "bb_reset b = b\<lparr>bb_rindex := 0, bb_windex := 0\<rparr>"

definition bb_blank :: "bytebuf \<Rightarrow> nat" where
  "bb_blank b = (if bb_windex b \<ge> bb_capacity b then 0 else bb_capacity b - bb_windex b)"

text \<open>\<^verbatim>\<open>::realloc\<close> keeps the old bytes that still fit; the others are indeterminate.\<close>

definition realloc :: "'a option list \<Rightarrow> nat \<Rightarrow> 'a option list" where
  "realloc xs n = take n xs @ replicate (n - length xs) None"

definition bb_reserve :: "nat \<Rightarrow> bytebuf \<Rightarrow> bytebuf" where
  "bb_reserve newsize b =
     (if bb_blank b > newsize then b
      else let newsize1 = (if newsize < BUFFER_CHUNK_SIZE then BUFFER_CHUNK_SIZE else newsize);
               newsize2 = size_add newsize1 (bb_capacity b)
           in b\<lparr>bb_buf := realloc (bb_buf b) newsize2, bb_capacity := newsize2\<rparr>)"

definition bb_new :: "nat \<Rightarrow> bytebuf" where
  "bb_new n = bb_reserve n bb_zero"

definition bb_shrink :: "bytebuf \<Rightarrow> bytebuf res" where
  "bb_shrink b = bindE (bb_size b) (\<lambda>n. Inr (if n = 0 then bb_reset b else b))"

definition bb_rlength :: "nat \<Rightarrow> bytebuf \<Rightarrow> bytebuf res" where
  "bb_rlength len b =
     (let b1 = b\<lparr>bb_rindex := size_add (bb_rindex b) len\<rparr>
      in assertE (bb_rindex b1 \<le> bb_windex b1) (bb_shrink b1))"

definition bb_wlength :: "nat \<Rightarrow> bytebuf \<Rightarrow> bytebuf res" where
  "bb_wlength len b =
     (let b1 = b\<lparr>bb_windex := size_add (bb_windex b) len\<rparr>
      in assertE (bb_windex b1 \<le> bb_capacity b1) (Inr b1))"

text \<open>
  \<^verbatim>\<open>rbuffer()\<close> and \<^verbatim>\<open>wbuffer(n)\<close> return pointers into the block; what the sources do
  with them is to copy \<open>n\<close> bytes out of the first and to copy bytes into the second.
\<close>

definition bb_rbuffer :: "nat \<Rightarrow> bytebuf \<Rightarrow> bytes res" where
  "bb_rbuffer n b =
     (if bb_rindex b + n > length (bb_buf b) then Inl HeapOverrun
      else let cells = window (bb_rindex b) (bb_rindex b + n) (bb_buf b)
           in if None \<in> set cells then Inl UninitRead else Inr (map the cells))"

definition bb_copy_in :: "bytes \<Rightarrow> bytebuf \<Rightarrow> bytebuf res" where
  "bb_copy_in s b =
     (if bb_windex b + length s > length (bb_buf b) then Inl HeapOverrun
      else Inr (b\<lparr>bb_buf := take (bb_windex b) (bb_buf b) @ map Some s
                              @ drop (bb_windex b + length s) (bb_buf b)\<rparr>))"

definition bb_wbuffer :: "nat \<Rightarrow> bytes \<Rightarrow> bytebuf \<Rightarrow> bytebuf res" where
  "bb_wbuffer reserve_size s b = bb_copy_in s (bb_reserve reserve_size b)"

definition bb_append :: "bytes \<Rightarrow> bytebuf \<Rightarrow> bytebuf res" where
  "bb_append s b = bindE (bb_wbuffer (length s) s b) (bb_wlength (length s))"

definition bb_read :: "nat \<Rightarrow> bytebuf \<Rightarrow> (bytes \<times> bytebuf) res" where
  "bb_read len b = bindE (bb_rbuffer len b) (\<lambda>out. bindE (bb_rlength len b) (\<lambda>b'. Inr (out, b')))"

subsection \<open>The stream operators\<close>

text \<open>
  One constructor per overload of \<^verbatim>\<open>operator <<\<close>. Signed integers and floating point
  numbers are kept as the bit pattern of their object representation.
\<close>

datatype scalar =
    V_bool bool
  | V_u8 u8 | V_u16 u16 | V_u32 u32 | V_u64 u64
  | V_s8 u8 | V_s16 u16 | V_s32 u32 | V_s64 u64
  | V_float u32 | V_double u64

datatype scalar_type =
    T_bool | T_u8 | T_u16 | T_u32 | T_u64 | T_s8 | T_s16 | T_s32 | T_s64 | T_float | T_double

fun scalar_bytes :: "scalar \<Rightarrow> bytes" where
  "scalar_bytes (V_bool v) = [if v then 1 else 0]"
| "scalar_bytes (V_u8 v) = le_bytes v"
| "scalar_bytes (V_u16 v) = le_bytes v"
| "scalar_bytes (V_u32 v) = le_bytes v"
| "scalar_bytes (V_u64 v) = le_bytes v"
| "scalar_bytes (V_s8 v) = le_bytes v"
| "scalar_bytes (V_s16 v) = le_bytes v"
| "scalar_bytes (V_s32 v) = le_bytes v"
| "scalar_bytes (V_s64 v) = le_bytes v"
| "scalar_bytes (V_float v) = le_bytes v"
| "scalar_bytes (V_double v) = le_bytes v"

fun scalar_type_of :: "scalar \<Rightarrow> scalar_type" where
  "scalar_type_of (V_bool v) = T_bool"
| "scalar_type_of (V_u8 v) = T_u8"
| "scalar_type_of (V_u16 v) = T_u16"
| "scalar_type_of (V_u32 v) = T_u32"
| "scalar_type_of (V_u64 v) = T_u64"
| "scalar_type_of (V_s8 v) = T_s8"
| "scalar_type_of (V_s16 v) = T_s16"
| "scalar_type_of (V_s32 v) = T_s32"
| "scalar_type_of (V_s64 v) = T_s64"
| "scalar_type_of (V_float v) = T_float"
| "scalar_type_of (V_double v) = T_double"

fun scalar_size :: "scalar_type \<Rightarrow> nat" where
  "scalar_size T_bool = 1"
| "scalar_size T_u8 = 1"
| "scalar_size T_u16 = 2"
| "scalar_size T_u32 = 4"
| "scalar_size T_u64 = 8"
| "scalar_size T_s8 = 1"
| "scalar_size T_s16 = 2"
| "scalar_size T_s32 = 4"
| "scalar_size T_s64 = 8"
| "scalar_size T_float = 4"
| "scalar_size T_double = 8"

fun scalar_load :: "scalar_type \<Rightarrow> bytes \<Rightarrow> scalar" where
  "scalar_load T_bool bs = V_bool (le_word bs \<noteq> (0 :: u8))"
| "scalar_load T_u8 bs = V_u8 (le_word bs)"
| "scalar_load T_u16 bs = V_u16 (le_word bs)"
| "scalar_load T_u32 bs = V_u32 (le_word bs)"
| "scalar_load T_u64 bs = V_u64 (le_word bs)"
| "scalar_load T_s8 bs = V_s8 (le_word bs)"
| "scalar_load T_s16 bs = V_s16 (le_word bs)"
| "scalar_load T_s32 bs = V_s32 (le_word bs)"
| "scalar_load T_s64 bs = V_s64 (le_word bs)"
| "scalar_load T_float bs = V_float (le_word bs)"
| "scalar_load T_double bs = V_double (le_word bs)"

definition bb_put_scalar :: "scalar \<Rightarrow> bytebuf \<Rightarrow> bytebuf res" where
  "bb_put_scalar v b = bb_append (scalar_bytes v) b"

definition bb_get_scalar :: "scalar_type \<Rightarrow> bytebuf \<Rightarrow> (scalar \<times> bytebuf) res" where
  "bb_get_scalar t b =
     bindE (bb_rbuffer (scalar_size t) b) (\<lambda>cells.
       bindE (bb_rlength (scalar_size t) b) (\<lambda>b'. Inr (scalar_load t cells, b')))"

text \<open>
  The overloads for text: a \<^verbatim>\<open>std::string\<close> contributes its bytes with no length or
  terminator; a null \<^verbatim>\<open>char*\<close> contributes nothing.
\<close>

definition bb_put_string :: "string \<Rightarrow> bytebuf \<Rightarrow> bytebuf res" where
  "bb_put_string value b = bb_append (bytes_of_string value) b"

definition bb_put_cstring :: "string option \<Rightarrow> bytebuf \<Rightarrow> bytebuf res" where
  "bb_put_cstring value b =
     (case value of None \<Rightarrow> Inr b | Some s \<Rightarrow> bb_append (bytes_of_string (cstring s)) b)"

subsection \<open>Protobuf messages\<close>

text \<open>
  \<open>ByteSize\<close>, \<open>SerializeToArray\<close> and \<open>ParseFromArray\<close> are the protobuf runtime's: a
  message type \<open>'m\<close> with the size it announces, the bytes it writes into an array of the
  size it is given (\<open>None\<close> for the return value \<open>false\<close>), and its parser.
\<close>

definition bb_CopyFrom ::
    "('m \<Rightarrow> nat) \<Rightarrow> ('m \<Rightarrow> nat \<Rightarrow> bytes option) \<Rightarrow> 'm \<Rightarrow> bytebuf \<Rightarrow> (bool \<times> bytebuf) res" where
  "bb_CopyFrom ByteSize SerializeToArray msg b =
     (let sz = ByteSize msg; b1 = bb_reserve sz b
      in case SerializeToArray msg sz of
           None \<Rightarrow> Inr (False, b1)
         | Some out \<Rightarrow>
             bindE (bb_copy_in out b1) (\<lambda>b2. bindE (bb_wlength sz b2) (\<lambda>b3. Inr (True, b3))))"

definition bb_CopyTo :: "(bytes \<Rightarrow> 'm option) \<Rightarrow> bytebuf \<Rightarrow> ('m option) res" where
  "bb_CopyTo ParseFromArray b =
     bindE (bb_size b) (\<lambda>n. bindE (bb_rbuffer n b) (\<lambda>bs. Inr (ParseFromArray bs)))"

section \<open>Invariant and contents\<close>

definition bb_inv :: "bytebuf \<Rightarrow> bool" where
  "bb_inv b \<longleftrightarrow>
     length (bb_buf b) = bb_capacity b \<and> bb_capacity b < 2 ^ 64 \<and>
     bb_rindex b \<le> bb_windex b \<and> bb_windex b \<le> bb_capacity b \<and>
     None \<notin> set (window (bb_rindex b) (bb_windex b) (bb_buf b))"

definition bb_content :: "bytebuf \<Rightarrow> bytes" where
  "bb_content b = map the (window (bb_rindex b) (bb_windex b) (bb_buf b))"

text \<open>
  \<open>bb_room k b\<close>: the capacity can still grow by \<open>k\<close> bytes within a \<^verbatim>\<open>size_t\<close>; one
  append of \<open>n\<close> bytes costs at most \<open>bb_cost n\<close> of it.
\<close>

definition bb_room :: "nat \<Rightarrow> bytebuf \<Rightarrow> bool" where
  "bb_room k b \<longleftrightarrow> bb_capacity b + k < 2 ^ 64"

definition bb_cost :: "nat \<Rightarrow> nat" where
  "bb_cost n = max n BUFFER_CHUNK_SIZE"

lemmas bb_state_defs = bb_inv_def bb_content_def bb_room_def bb_cost_def

lemma length_bb_content: "bb_inv b \<Longrightarrow> length (bb_content b) = bb_windex b - bb_rindex b"
  by (auto simp: bb_state_defs min_def)

lemma bb_size_content: "bb_inv b \<Longrightarrow> bb_size b = Inr (length (bb_content b))"
  by (simp add: bb_size_def length_bb_content) (simp add: bb_inv_def)

lemma bb_zero_inv [simp]: "bb_inv bb_zero" and bb_content_zero [simp]: "bb_content bb_zero = []"
  by (simp_all add: bb_state_defs bb_zero_def)

lemma bb_reset_inv: "bb_inv b \<Longrightarrow> bb_inv (bb_reset b)" and bb_content_reset [simp]: "bb_content (bb_reset b) = []"
  by (simp_all add: bb_state_defs bb_reset_def)

lemma bb_clear_inv [simp]: "bb_inv (bb_clear b)" and bb_content_clear [simp]: "bb_content (bb_clear b) = []"
  by (simp_all add: bb_state_defs bb_clear_def)

subsection \<open>Growing\<close>

lemma window_realloc:
  "w \<le> length xs \<Longrightarrow> length xs \<le> n \<Longrightarrow> window r w (realloc xs n) = window r w xs"
  by (simp add: realloc_def window_append1)

lemma bb_grow:
  assumes "bb_inv b" and "bb_capacity b \<le> c" and "c < 2 ^ 64"
  defines "b' \<equiv> b\<lparr>bb_buf := realloc (bb_buf b) c, bb_capacity := c\<rparr>"
  shows "bb_inv b'" and "bb_content b' = bb_content b"
  using assms by (simp_all add: bb_inv_def bb_content_def window_realloc) (simp add: realloc_def)

lemma bb_reserve_eq:
  assumes "bb_room (bb_cost n + k) b"
  shows "bb_reserve n b =
    (if n < bb_blank b then b
     else b\<lparr>bb_buf := realloc (bb_buf b) (bb_capacity b + bb_cost n),
            bb_capacity := bb_capacity b + bb_cost n\<rparr>)"
proof -
  have "(if n < BUFFER_CHUNK_SIZE then BUFFER_CHUNK_SIZE else n) = bb_cost n"
    by (simp add: bb_cost_def max_def)
  moreover have "size_add (bb_cost n) (bb_capacity b) = bb_capacity b + bb_cost n"
    using assms by (simp add: bb_room_def add.commute)
  ultimately show ?thesis
    by (simp add: bb_reserve_def Let_def)
qed

lemma bb_reserve_spec:
  assumes "bb_inv b" and "bb_room (bb_cost n + k) b"
  shows "bb_inv (bb_reserve n b)" and "bb_content (bb_reserve n b) = bb_content b"
    and "bb_windex (bb_reserve n b) + n \<le> bb_capacity (bb_reserve n b)"
    and "bb_room k (bb_reserve n b)"
proof -
  note eq = bb_reserve_eq [OF assms(2)]
  have c: "bb_capacity b + bb_cost n < 2 ^ 64" and w: "bb_windex b \<le> bb_capacity b"
    and n: "n \<le> bb_cost n"
    using assms by (simp_all add: bb_room_def bb_inv_def bb_cost_def)
  show "bb_inv (bb_reserve n b)" "bb_content (bb_reserve n b) = bb_content b"
    using bb_grow [OF assms(1) _ c] assms(1) by (simp_all add: eq)
  show "bb_room k (bb_reserve n b)"
    using assms(2) by (simp add: eq bb_room_def)
  show "bb_windex (bb_reserve n b) + n \<le> bb_capacity (bb_reserve n b)"
    using w n by (auto simp: eq bb_blank_def split: if_splits)
qed

subsection \<open>Writing\<close>

lemma bb_copy_in_spec:
  assumes "bb_inv b" and "bb_windex b + length s \<le> bb_capacity b" and "bb_room k b"
  obtains b1 b2 where "bb_copy_in s b = Inr b1" and "bb_wlength (length s) b1 = Inr b2"
    and "bb_inv b2" and "bb_room k b2" and "bb_content b2 = bb_content b @ s"
proof -
  define b1 where "b1 = b\<lparr>bb_buf := take (bb_windex b) (bb_buf b) @ map Some s
                                      @ drop (bb_windex b + length s) (bb_buf b)\<rparr>"
  define b2 where "b2 = b1\<lparr>bb_windex := bb_windex b + length s\<rparr>"
  have win: "window (bb_rindex b2) (bb_windex b2) (bb_buf b2)
      = window (bb_rindex b) (bb_windex b) (bb_buf b) @ map Some s"
    using assms window_overwrite [of "bb_rindex b" "bb_windex b" "bb_buf b" "map Some s"]
    by (simp add: b1_def b2_def bb_inv_def)
  have "bb_copy_in s b = Inr b1"
    using assms(1,2) by (simp add: bb_copy_in_def b1_def bb_inv_def)
  moreover have "bb_wlength (length s) b1 = Inr b2"
    using assms(1,2) by (simp add: bb_wlength_def b1_def b2_def bb_inv_def)
  moreover have "bb_inv b2"
    using assms(1,2) win by (auto simp: bb_inv_def b1_def b2_def)
  moreover have "bb_room k b2"
    using assms(3) by (simp add: b1_def b2_def bb_room_def)
  moreover have "bb_content b2 = bb_content b @ s"
    by (simp add: bb_content_def win comp_def)
  ultimately show thesis by (rule that)
qed

lemma bb_wbuffer_spec:
  assumes "bb_inv b" and "bb_room (bb_cost n + k) b" and "length s \<le> n"
  obtains b1 b2 where "bb_wbuffer n s b = Inr b1" and "bb_wlength (length s) b1 = Inr b2"
    and "bb_inv b2" and "bb_room k b2" and "bb_content b2 = bb_content b @ s"
proof -
  note r = bb_reserve_spec [OF assms(1,2)]
  have "bb_windex (bb_reserve n b) + length s \<le> bb_capacity (bb_reserve n b)"
    using r(3) assms(3) by simp
  from bb_copy_in_spec [OF r(1) this r(4)] r(2) show thesis
    by (metis bb_wbuffer_def that)
qed

lemma bb_append_spec:
  assumes "bb_inv b" and "bb_room (bb_cost (length s) + k) b"
  shows "\<exists>b'. bb_append s b = Inr b' \<and> bb_inv b' \<and> bb_room k b' \<and> bb_content b' = bb_content b @ s"
proof -
  from assms obtain b1 b2 where "bb_wbuffer (length s) s b = Inr b1"
    and "bb_wlength (length s) b1 = Inr b2" and "bb_inv b2" and "bb_room k b2"
    and "bb_content b2 = bb_content b @ s"
    by (rule bb_wbuffer_spec [OF _ _ order_refl])
  then show ?thesis by (simp add: bb_append_def)
qed

subsection \<open>Reading\<close>

lemma bb_window_bound:
  assumes "bb_inv b" and "n \<le> length (bb_content b)"
  shows "bb_rindex b + n \<le> bb_windex b"
proof -
  have "bb_rindex b \<le> bb_windex b" using assms(1) by (simp add: bb_inv_def)
  with assms(2) length_bb_content [OF assms(1)] show ?thesis by simp
qed

lemma bb_rbuffer_spec:
  assumes "bb_inv b" and "n \<le> length (bb_content b)"
  shows "bb_rbuffer n b = Inr (take n (bb_content b))"
proof -
  have n: "bb_rindex b + n \<le> bb_windex b"
    using assms(1,2) by (rule bb_window_bound)
  then have "take n (bb_content b) = map the (window (bb_rindex b) (bb_rindex b + n) (bb_buf b))"
    by (simp add: bb_content_def take_map take_window)
  moreover have "None \<notin> set (window (bb_rindex b) (bb_rindex b + n) (bb_buf b))"
    using assms(1) set_window_take [OF n, of "bb_rindex b" "bb_buf b"] by (auto simp: bb_inv_def)
  ultimately show ?thesis
    using assms(1) n by (simp add: bb_rbuffer_def bb_inv_def Let_def)
qed

lemma bb_rlength_spec:
  assumes "bb_inv b" and "n \<le> length (bb_content b)" and "bb_room k b"
  shows "\<exists>b'. bb_rlength n b = Inr b' \<and> bb_inv b' \<and> bb_room k b' \<and>
    bb_content b' = drop n (bb_content b)"
proof -
  define b1 where "b1 = b\<lparr>bb_rindex := bb_rindex b + n\<rparr>"
  have n: "bb_rindex b + n \<le> bb_windex b"
    using assms(1,2) by (rule bb_window_bound)
  have win: "window (bb_rindex b1) (bb_windex b1) (bb_buf b1)
      = drop n (window (bb_rindex b) (bb_windex b) (bb_buf b))"
    by (simp add: b1_def drop_window)
  have inv: "bb_inv b1"
    using assms(1) n win by (auto simp: bb_inv_def b1_def dest: in_set_dropD)
  have cont: "bb_content b1 = drop n (bb_content b)"
    by (simp add: bb_content_def win drop_map)
  have "size_add (bb_rindex b) n = bb_rindex b + n"
    using n assms(1) by (simp add: bb_inv_def)
  then have "bb_rlength n b = Inr (if length (bb_content b1) = 0 then bb_reset b1 else b1)"
    using n bb_size_content [OF inv] by (simp add: bb_rlength_def bb_shrink_def b1_def)
  moreover have "bb_room k b1" "bb_room k (bb_reset b1)"
    using assms(3) by (simp_all add: bb_room_def b1_def bb_reset_def)
  ultimately show ?thesis
    using inv cont bb_reset_inv [OF inv] by auto
qed

lemma bb_read_spec:
  assumes "bb_inv b" and "bb_room k b" and "n \<le> length (bb_content b)"
  shows "\<exists>b'. bb_read n b = Inr (take n (bb_content b), b') \<and> bb_inv b' \<and> bb_room k b' \<and>
    bb_content b' = drop n (bb_content b)"
  using bb_rbuffer_spec [OF assms(1,3)] bb_rlength_spec [OF assms(1,3,2)]
  by (auto simp: bb_read_def)

lemma bb_read_refuses:
  assumes "bb_inv b" and "length (bb_content b) < n"
  shows "\<exists>e. bb_read n b = Inl e"
proof (cases "bb_rbuffer n b")
  case (Inr out)
  then have "bb_rindex b + n \<le> length (bb_buf b)"
    by (simp add: bb_rbuffer_def split: if_splits)
  moreover have "bb_windex b < bb_rindex b + n"
    using assms length_bb_content [OF assms(1)] by simp
  ultimately have "bb_rlength n b = Inl AssertFailed"
    using assms(1) by (simp add: bb_rlength_def bb_inv_def)
  with Inr show ?thesis by (simp add: bb_read_def)
qed (simp add: bb_read_def)

section \<open>The contract: a queue of bytes\<close>

text \<open>
  A client's run is a sequence of writes and reads. On the abstract queue a write appends
  and a read takes from the front; a run is \<open>served\<close> when no read asks for more than is
  there, and its cost bounds what the capacity grows by.
\<close>

datatype fifo_op = Put bytes | Get nat

fun fifo_spec :: "fifo_op list \<Rightarrow> bytes \<Rightarrow> bytes list \<times> bytes" where
  "fifo_spec [] q = ([], q)"
| "fifo_spec (Put xs # ops) q = fifo_spec ops (q @ xs)"
| "fifo_spec (Get n # ops) q =
     (let (outs, q') = fifo_spec ops (drop n q) in (take n q # outs, q'))"

fun fifo_served :: "fifo_op list \<Rightarrow> bytes \<Rightarrow> bool" where
  "fifo_served [] q \<longleftrightarrow> True"
| "fifo_served (Put xs # ops) q \<longleftrightarrow> fifo_served ops (q @ xs)"
| "fifo_served (Get n # ops) q \<longleftrightarrow> n \<le> length q \<and> fifo_served ops (drop n q)"

fun fifo_cost :: "(nat \<Rightarrow> nat) \<Rightarrow> fifo_op list \<Rightarrow> nat" where
  "fifo_cost cost [] = 0"
| "fifo_cost cost (Put xs # ops) = cost (length xs) + fifo_cost cost ops"
| "fifo_cost cost (Get n # ops) = fifo_cost cost ops"

fun fifo_run :: "(bytes \<Rightarrow> 'b \<Rightarrow> 'b res) \<Rightarrow> (nat \<Rightarrow> 'b \<Rightarrow> (bytes \<times> 'b) res) \<Rightarrow>
    fifo_op list \<Rightarrow> 'b \<Rightarrow> (bytes list \<times> 'b) res" where
  "fifo_run put get [] b = Inr ([], b)"
| "fifo_run put get (Put xs # ops) b = bindE (put xs b) (fifo_run put get ops)"
| "fifo_run put get (Get n # ops) b =
     bindE (get n b) (\<lambda>(out, b'). bindE (fifo_run put get ops b') (\<lambda>(outs, b''). Inr (out # outs, b'')))"

locale byte_fifo =
  fixes invar :: "'b \<Rightarrow> bool"
    and content :: "'b \<Rightarrow> bytes"
    and room :: "nat \<Rightarrow> 'b \<Rightarrow> bool"
    and cost :: "nat \<Rightarrow> nat"
    and put :: "bytes \<Rightarrow> 'b \<Rightarrow> 'b res"
    and get :: "nat \<Rightarrow> 'b \<Rightarrow> (bytes \<times> 'b) res"
  assumes put_law: "invar b \<Longrightarrow> room (cost (length xs) + k) b \<Longrightarrow>
      \<exists>b'. put xs b = Inr b' \<and> invar b' \<and> room k b' \<and> content b' = content b @ xs"
    and get_law: "invar b \<Longrightarrow> room k b \<Longrightarrow> n \<le> length (content b) \<Longrightarrow>
      \<exists>b'. get n b = Inr (take n (content b), b') \<and> invar b' \<and> room k b' \<and>
        content b' = drop n (content b)"
    and get_refuses: "invar b \<Longrightarrow> length (content b) < n \<Longrightarrow> \<exists>e. get n b = Inl e"
begin

lemma run_refines:
  "invar b \<Longrightarrow> room (fifo_cost cost ops + k) b \<Longrightarrow> fifo_served ops (content b) \<Longrightarrow>
     \<exists>b'. fifo_run put get ops b = Inr (fst (fifo_spec ops (content b)), b') \<and> invar b' \<and>
       room k b' \<and> content b' = snd (fifo_spec ops (content b))"
proof (induction ops "content b" arbitrary: b rule: fifo_served.induct)
  case (2 xs ops b)
  from "2.prems" have "room (cost (length xs) + (fifo_cost cost ops + k)) b"
    by (simp add: add.assoc)
  from put_law [OF "2.prems"(1) this] obtain b1 where
    b1: "put xs b = Inr b1" "invar b1" "room (fifo_cost cost ops + k) b1"
      "content b1 = content b @ xs" by blast
  with "2.hyps" [OF b1(4) [symmetric] b1(2,3)] "2.prems"(3) show ?case by simp
next
  case (3 n ops b)
  from get_law [OF "3.prems"(1), of "fifo_cost cost ops + k" n] "3.prems"(2,3) obtain b1 where
    b1: "get n b = Inr (take n (content b), b1)" "invar b1" "room (fifo_cost cost ops + k) b1"
      "content b1 = drop n (content b)" by auto
  with "3.hyps" [OF b1(4) [symmetric] b1(2,3)] "3.prems"(3) show ?case
    by (auto simp: split_beta)
qed simp

lemma run_refuses:
  "invar b \<Longrightarrow> room (fifo_cost cost ops) b \<Longrightarrow> \<not> fifo_served ops (content b) \<Longrightarrow>
     \<exists>e. fifo_run put get ops b = Inl e"
proof (induction ops "content b" arbitrary: b rule: fifo_served.induct)
  case (2 xs ops b)
  from put_law [OF "2.prems"(1)] "2.prems"(2) obtain b1 where
    b1: "put xs b = Inr b1" "invar b1" "room (fifo_cost cost ops) b1"
      "content b1 = content b @ xs" by (metis fifo_cost.simps(2))
  with "2.hyps" [OF b1(4) [symmetric] b1(2,3)] "2.prems"(3) show ?case by simp
next
  case (3 n ops b)
  show ?case
  proof (cases "n \<le> length (content b)")
    case True
    from get_law [OF "3.prems"(1) _ True] "3.prems"(2) obtain b1 where
      b1: "get n b = Inr (take n (content b), b1)" "invar b1" "room (fifo_cost cost ops) b1"
        "content b1 = drop n (content b)" by (metis fifo_cost.simps(3))
    with "3.hyps" [OF b1(4) [symmetric] b1(2,3)] "3.prems"(3) True show ?thesis by auto
  next
    case False
    then show ?thesis using get_refuses [OF "3.prems"(1), of n] by auto
  qed
qed simp

text \<open>Chunks written to an empty queue are read back one by one.\<close>

lemma puts_law:
  "invar b \<Longrightarrow> room (sum_list (map (\<lambda>xs. cost (length xs)) xss) + k) b \<Longrightarrow>
     \<exists>b'. foldE put xss b = Inr b' \<and> invar b' \<and> room k b' \<and> content b' = content b @ concat xss"
proof (induction xss arbitrary: b)
  case (Cons xs xss)
  from Cons.prems have "room (cost (length xs) + (sum_list (map (\<lambda>xs. cost (length xs)) xss) + k)) b"
    by (simp add: add.assoc)
  from put_law [OF Cons.prems(1) this] obtain b1 where
    b1: "put xs b = Inr b1" "invar b1" "room (sum_list (map (\<lambda>xs. cost (length xs)) xss) + k) b1"
      "content b1 = content b @ xs" by blast
  with Cons.IH [OF b1(2,3)] show ?case by auto
qed simp

lemma gets_law:
  "invar b \<Longrightarrow> room k b \<Longrightarrow> content b = concat xss @ rest \<Longrightarrow>
     \<exists>b'. traverseE get (map length xss) b = Inr (xss, b') \<and> invar b' \<and> room k b' \<and> content b' = rest"
proof (induction xss arbitrary: b)
  case (Cons xs xss)
  from get_law [OF Cons.prems(1,2), of "length xs"] Cons.prems(3) obtain b1 where
    b1: "get (length xs) b = Inr (xs, b1)" "invar b1" "room k b1" "content b1 = concat xss @ rest"
    by auto
  with Cons.IH [OF b1(2-4)] show ?case by auto
qed auto

lemma puts_then_gets:
  assumes "invar b" and "content b = []" and "room (sum_list (map (\<lambda>xs. cost (length xs)) xss)) b"
  shows "\<exists>b1 b'. foldE put xss b = Inr b1 \<and> traverseE get (map length xss) b1 = Inr (xss, b') \<and>
    invar b' \<and> content b' = []"
proof -
  from puts_law [OF assms(1), of xss 0] assms(2,3) obtain b1 where
    b1: "foldE put xss b = Inr b1" "invar b1" "room 0 b1" "content b1 = concat xss @ []" by auto
  with gets_law [OF b1(2-4)] show ?thesis by auto
qed

end

interpretation bb: byte_fifo bb_inv bb_content bb_room bb_cost bb_append bb_read
  by unfold_locales (blast intro: bb_append_spec bb_read_spec bb_read_refuses)+

subsection \<open>The stream operators\<close>

lemma scalar_load_bytes [simp]: "scalar_load (scalar_type_of v) (scalar_bytes v) = v"
  by (cases v) (simp_all add: le_word_le_bytes)

lemma scalar_size_bytes [layout_simps]: "scalar_size (scalar_type_of v) = length (scalar_bytes v)"
  by (cases v) simp_all

lemma scalar_bytes_short: "bb_cost (length (scalar_bytes v)) = BUFFER_CHUNK_SIZE"
  by (cases v) (simp_all add: bb_cost_def BUFFER_CHUNK_SIZE_def)

lemma bb_get_scalar_read:
  "bb_get_scalar t b = bindE (bb_read (scalar_size t) b) (\<lambda>(bs, b'). Inr (scalar_load t bs, b'))"
  by (simp add: bb_get_scalar_def bb_read_def bindE_assoc)

lemma traverse_get_scalar:
  "traverseE bb_read (map length (map scalar_bytes vs)) b = Inr (map scalar_bytes vs, b') \<Longrightarrow>
     traverseE bb_get_scalar (map scalar_type_of vs) b = Inr (vs, b')"
  by (induction vs arbitrary: b)
    (auto simp: bb_get_scalar_read scalar_size_bytes bindE_Inr_iff)

lemma foldE_put_scalar: "foldE bb_put_scalar vs b = foldE bb_append (map scalar_bytes vs) b"
  by (simp add: foldE_map comp_def bb_put_scalar_def [abs_def])

section \<open>Properties\<close>

text \<open>
  C25: the byte buffer refines a queue. From a well-formed buffer whose capacity can still
  grow by what the writes cost, any sequence of \<^verbatim>\<open>append\<close> and \<^verbatim>\<open>read\<close> calls that never
  asks for more than the queue holds succeeds, returns the bytes the abstract queue
  returns, and leaves a well-formed buffer with the abstract queue's contents.
\<close>

theorem bytebuffer_refines_queue:
  assumes "bb_inv b" and "bb_room (fifo_cost bb_cost ops) b" and "fifo_served ops (bb_content b)"
  shows "\<exists>b'. fifo_run bb_append bb_read ops b = Inr (fst (fifo_spec ops (bb_content b)), b') \<and>
    bb_inv b' \<and> bb_content b' = snd (fifo_spec ops (bb_content b))"
  using bb.run_refines [OF assms(1) _ assms(3), of 0] assms(2) by auto

theorem bytebuffer_refines_queue_witness:
  "\<exists>b'. fifo_run bb_append bb_read [Put [1, 2, 3], Get 2, Put [4], Get 2] bb_zero
      = Inr ([[1, 2], [3, 4]], b') \<and> bb_inv b' \<and> bb_content b' = []"
  using bytebuffer_refines_queue [of bb_zero "[Put [1, 2, 3], Get 2, Put [4], Get 2]"]
  by (simp add: bb_room_def bb_cost_def BUFFER_CHUNK_SIZE_def bb_zero_def [THEN arg_cong, of bb_capacity])

text \<open>
  C30: a run with a read that asks for more than the queue holds at that point is never
  served with bytes outside the contents: it ends in a fault (the assertion of
  \<^verbatim>\<open>rlength\<close>, or the copy from a block that is too short or not yet written).
\<close>

theorem bytebuffer_refuses_overread:
  assumes "bb_inv b" and "bb_room (fifo_cost bb_cost ops) b" and "\<not> fifo_served ops (bb_content b)"
  shows "\<exists>e. fifo_run bb_append bb_read ops b = Inl e"
  using assms by (rule bb.run_refuses)

theorem bytebuffer_refuses_overread_witness:
  "\<exists>e. fifo_run bb_append bb_read [Put [7], Get 2] bb_zero = Inl e"
  using bytebuffer_refuses_overread [of bb_zero "[Put [7], Get 2]"]
  by (simp add: bb_room_def bb_cost_def BUFFER_CHUNK_SIZE_def bb_zero_def [THEN arg_cong, of bb_capacity])

text \<open>
  values of the eleven scalar types streamed into an empty buffer with \<^verbatim>\<open><<\<close> come
  back unchanged, in order, when \<^verbatim>\<open>>>\<close> reads the same types, and the buffer is empty
  again afterwards.
\<close>

theorem bytebuffer_stream_roundtrip:
  assumes "bb_inv b" and "bb_content b = []" and "bb_room (BUFFER_CHUNK_SIZE * length vs) b"
  shows "\<exists>b1 b'. foldE bb_put_scalar vs b = Inr b1 \<and>
    traverseE bb_get_scalar (map scalar_type_of vs) b1 = Inr (vs, b') \<and>
    bb_inv b' \<and> bb_content b' = []"
proof -
  have "sum_list (map (\<lambda>xs. bb_cost (length xs)) (map scalar_bytes vs)) = BUFFER_CHUNK_SIZE * length vs"
    by (induction vs) (simp_all add: scalar_bytes_short)
  with bb.puts_then_gets [OF assms(1,2), of "map scalar_bytes vs"] assms(3) show ?thesis
    by (metis foldE_put_scalar traverse_get_scalar)
qed

theorem bytebuffer_stream_roundtrip_witness:
  "\<exists>b1 b'. foldE bb_put_scalar [V_u16 513, V_bool True, V_s32 (- 1)] bb_zero = Inr b1 \<and>
    traverseE bb_get_scalar [T_u16, T_bool, T_s32] b1
      = Inr ([V_u16 513, V_bool True, V_s32 (- 1)], b') \<and>
    bb_inv b' \<and> bb_content b' = []"
  using bytebuffer_stream_roundtrip [of bb_zero "[V_u16 513, V_bool True, V_s32 (- 1)]"]
  by (simp add: bb_room_def BUFFER_CHUNK_SIZE_def bb_zero_def [THEN arg_cong, of bb_capacity])

end
