(* ===== verification/Socket_Message.thy ===== *)
theory Socket_Message
  imports Bundle_Prelude
begin

text \<open>
  \<^verbatim>\<open>src/socket/Helper.cpp\<close> and \<^verbatim>\<open>Helper.h\<close>: the message that travels between the
  threads of the socket layer, its allocation and accessors, and the two ways of waiting
  for a connection. Memory that \<^verbatim>\<open>malloc\<close> returns and nobody wrote is an argument.
\<close>

section \<open>Messages\<close>

definition MAGIC :: u32 where
  "MAGIC = 0x12345678"

abbreviation (input) SM_OPCODE_MESSAGE :: u8 where "SM_OPCODE_MESSAGE \<equiv> 0x1"
abbreviation (input) SM_OPCODE_ESTABLISH :: u8 where "SM_OPCODE_ESTABLISH \<equiv> 0x2"
abbreviation (input) SM_OPCODE_CLOSE :: u8 where "SM_OPCODE_CLOSE \<equiv> 0x3"
abbreviation (input) SM_OPCODE_NEW_SOCKET :: u8 where "SM_OPCODE_NEW_SOCKET \<equiv> 0x4"
abbreviation (input) SM_OPCODE_NEW_LISTENING :: u8 where "SM_OPCODE_NEW_LISTENING \<equiv> 0x5"
abbreviation (input) SM_OPCODE_SOL :: u8 where "SM_OPCODE_SOL \<equiv> 0x6"

text \<open>\<open>sm_payload\<close> is the memory behind the header, as long as it was allocated.\<close>

record Socketmessage =
  sm_magic :: u32
  sm_s :: SOCKET
  sm_opcode :: u8
  sm_payload_len :: u32
  sm_payload :: bytes

definition allocateMessage :: "SOCKET \<Rightarrow> u8 \<Rightarrow> Socketmessage" where
  "allocateMessage s opcode =
     \<lparr>sm_magic = MAGIC, sm_s = s, sm_opcode = opcode, sm_payload_len = 0, sm_payload = []\<rparr>"

text \<open>The length is a \<^verbatim>\<open>size_t\<close> that the 32-bit field keeps modulo \<open>2 ^ 32\<close>.\<close>

definition allocateMessage_len :: "SOCKET \<Rightarrow> u8 \<Rightarrow> nat \<Rightarrow> bytes \<Rightarrow> Socketmessage" where
  "allocateMessage_len s opcode payload_len memory =
     \<lparr>sm_magic = MAGIC, sm_s = s, sm_opcode = opcode, sm_payload_len = of_nat payload_len,
      sm_payload = take payload_len memory\<rparr>"

text \<open>The overload that copies a buffer; its callers pass one that is not null.\<close>

definition allocateMessage_payload :: "SOCKET \<Rightarrow> u8 \<Rightarrow> bytes \<Rightarrow> Socketmessage" where
  "allocateMessage_payload s opcode payload =
     \<lparr>sm_magic = MAGIC, sm_s = s, sm_opcode = opcode, sm_payload_len = of_nat (length payload),
      sm_payload = payload\<rparr>"

definition releaseMessage :: "Socketmessage \<Rightarrow> unit res" where
  "releaseMessage msg = assertE (sm_magic msg = MAGIC) (Inr ())"

text \<open>The accessors take a pointer: \<open>None\<close> is null.\<close>

definition with_message :: "Socketmessage option \<Rightarrow> (Socketmessage \<Rightarrow> 'a) \<Rightarrow> 'a res" where
  "with_message p f =
     (case p of None \<Rightarrow> Inl AssertFailed | Some msg \<Rightarrow> assertE (sm_magic msg = MAGIC) (Inr (f msg)))"

definition GET_MESSAGE_PAYLOAD :: "Socketmessage option \<Rightarrow> bytes res" where
  "GET_MESSAGE_PAYLOAD p = with_message p sm_payload"

definition GET_MESSAGE_PAYLOAD_LENGTH :: "Socketmessage option \<Rightarrow> nat res" where
  "GET_MESSAGE_PAYLOAD_LENGTH p = with_message p (\<lambda>msg. unat (sm_payload_len msg))"

definition GET_MESSAGE_SOCKET :: "Socketmessage option \<Rightarrow> SOCKET res" where
  "GET_MESSAGE_SOCKET p = with_message p sm_s"

definition IS_ESTABLISH_MESSAGE :: "Socketmessage option \<Rightarrow> bool res" where
  "IS_ESTABLISH_MESSAGE p = with_message p (\<lambda>msg. sm_opcode msg = SM_OPCODE_ESTABLISH)"

definition IS_CLOSE_MESSAGE :: "Socketmessage option \<Rightarrow> bool res" where
  "IS_CLOSE_MESSAGE p = with_message p (\<lambda>msg. sm_opcode msg = SM_OPCODE_CLOSE)"

text \<open>A message whose length field counts its payload.\<close>

definition message_ok :: "Socketmessage \<Rightarrow> bool" where
  "message_ok msg \<longleftrightarrow> sm_magic msg = MAGIC \<and> length (sm_payload msg) = unat (sm_payload_len msg)"

lemma allocateMessage_ok: "message_ok (allocateMessage s opcode)"
  by (simp add: message_ok_def allocateMessage_def)

lemma allocateMessage_payload_ok:
  "length payload < 2 ^ 32 \<Longrightarrow> message_ok (allocateMessage_payload s opcode payload)"
  by (simp add: message_ok_def allocateMessage_payload_def unat_of_nat_u32)

section \<open>Waiting for a connection\<close>

text \<open>What \<^verbatim>\<open>connect\<close> and then \<^verbatim>\<open>select\<close> and \<^verbatim>\<open>getsockopt\<close> answer.\<close>

datatype connect_result = C_ok | C_inprogress | C_interrupted | C_error

datatype select_result = Sel_error | Sel_timeout | Sel_ready bool "int option"

definition connectSignal :: "connect_result \<Rightarrow> bool" where
  "connectSignal r = (case r of C_ok \<Rightarrow> True | _ \<Rightarrow> False)"

text \<open>\<open>Sel_ready hit err\<close>: the descriptor is in one of the sets, and the pending error of the
  socket, \<open>None\<close> when asking for it fails.\<close>

definition connectSelect :: "connect_result \<Rightarrow> select_result \<Rightarrow> bool" where
  "connectSelect r sel =
     (case r of
        C_ok \<Rightarrow> True
      | C_inprogress \<Rightarrow> (case sel of
            Sel_error \<Rightarrow> False
          | Sel_timeout \<Rightarrow> True
          | Sel_ready hit err \<Rightarrow> if hit then (case err of None \<Rightarrow> False | Some e \<Rightarrow> e = 0) else True)
      | _ \<Rightarrow> False)"

end
