(* ===== verification/Socket_Layer.thy ===== *)
theory Socket_Layer
  imports Byte_Buffer Socket_Message
begin

text \<open>
  \<^verbatim>\<open>src/socket/Socket.cpp\<close>: one connection with its two buffers, its send list and its
  message counters. The kernel's side of a connection is explicit: \<^verbatim>\<open>recv\<close> takes from a
  list of events that ends in "nothing there yet", and \<^verbatim>\<open>send\<close> follows a list of answers.
  \<^verbatim>\<open>TEMP_FAILURE_RETRY\<close> repeats both calls while they are interrupted, so that their callers
  never see that case.

  Incoming bytes are cut into messages by a function the application supplies. The
  interface \<open>message_spliter\<close> states what such a function must satisfy for the cut not to
  depend on how the network delivers the bytes; the reassembly theorem is proved from it.
\<close>

section \<open>State\<close>

definition COUNT_MESSAGE_SPAN :: nat where
  "COUNT_MESSAGE_SPAN = 60"

record sock =
  so_fd :: SOCKET
  so_listening :: bool
  so_rbuffer :: bytebuf
  so_wbuffer :: bytebuf
  so_sendlist :: "Socketmessage list"
  so_lastSecond :: u64
  so_countMessage :: "u32 list"
  so_totalMessage :: u32

definition so_new :: "SOCKET \<Rightarrow> u64 \<Rightarrow> sock" where
  "so_new connfd nowtime =
     \<lparr>so_fd = connfd, so_listening = False, so_rbuffer = bb_new 65535, so_wbuffer = bb_new 65535,
      so_sendlist = [], so_lastSecond = nowtime,
      so_countMessage = replicate COUNT_MESSAGE_SPAN 0, so_totalMessage = 0\<rparr>"

text \<open>A splitter returns the length of the first message, zero for an incomplete one and a
  negative number for an illegal one.\<close>

type_synonym MESSAGE_SPLITER = "bytes \<Rightarrow> int"

section \<open>Receiving\<close>

definition so_splitMessage :: "MESSAGE_SPLITER \<Rightarrow> sock \<Rightarrow> (bool \<times> Socketmessage option \<times> sock) res" where
  "so_splitMessage split so =
     bindE (bb_size (so_rbuffer so)) (\<lambda>n.
     bindE (bb_rbuffer n (so_rbuffer so)) (\<lambda>data.
       let rc = split data
       in if rc = 0 then Inr (True, None, so)
          else if rc < 0 then Inr (False, None, so)
          else if nat rc > n then Inr (False, None, so)
          else bindE (bb_rbuffer (nat rc) (so_rbuffer so)) (\<lambda>payload.
               bindE (bb_rlength (nat rc) (so_rbuffer so)) (\<lambda>rbuffer.
                 Inr (True, Some (allocateMessage_payload (so_fd so) SM_OPCODE_MESSAGE payload),
                      so\<lparr>so_rbuffer := rbuffer\<rparr>)))))"

definition so_receivedMessage :: "u64 \<Rightarrow> sock \<Rightarrow> sock" where
  "so_receivedMessage nowtime so =
     (let m = unat nowtime mod COUNT_MESSAGE_SPAN
      in so\<lparr>so_lastSecond := nowtime,
            so_countMessage := (so_countMessage so)[m := so_countMessage so ! m + 1],
            so_totalMessage := so_totalMessage so + 1\<rparr>)"

fun so_recent_loop :: "u64 \<Rightarrow> sock \<Rightarrow> nat \<Rightarrow> u32" where
  "so_recent_loop nowtime so 0 = 0"
| "so_recent_loop nowtime so (Suc n) =
     so_recent_loop nowtime so n
     + so_countMessage so ! (unat (nowtime - of_nat n) mod COUNT_MESSAGE_SPAN)"

definition so_recentMessage :: "u64 \<Rightarrow> u32 \<Rightarrow> sock \<Rightarrow> u32" where
  "so_recentMessage nowtime seconds so = so_recent_loop nowtime so (unat seconds)"

text \<open>
  The receive queue of the kernel: data that has arrived, the end of the stream, or an
  error. \<^verbatim>\<open>recv\<close> returns at most the size of its buffer; from an empty queue it returns
  \<^verbatim>\<open>EAGAIN\<close>.
\<close>

datatype net_event = Data bytes | Eof | Failed

datatype recv_result = R_data bytes | R_closed | R_again | R_error

fun net_recv :: "nat \<Rightarrow> net_event list \<Rightarrow> recv_result \<times> net_event list" where
  "net_recv n [] = (R_again, [])"
| "net_recv n (Data d # es) =
     (if d = [] then (R_closed, Data d # es)
      else if length d \<le> n then (R_data d, es)
      else (R_data (take n d), Data (drop n d) # es))"
| "net_recv n (Eof # es) = (R_closed, Eof # es)"
| "net_recv n (Failed # es) = (R_error, es)"

fun net_size :: "net_event list \<Rightarrow> nat" where
  "net_size [] = 0"
| "net_size (Data d # es) = length d + net_size es"
| "net_size (_ # es) = net_size es"

lemma net_recv_size: "net_recv n es = (R_data d, es') \<Longrightarrow> 0 < n \<Longrightarrow> net_size es' < net_size es"
  by (cases "(n, es)" rule: net_recv.cases) (auto split: if_splits)

definition readlen :: nat where
  "readlen = 960"

text \<open>The space for \<^verbatim>\<open>recv\<close> is reserved before the call, whatever the call returns.\<close>

function so_receiveMessage :: "MESSAGE_SPLITER \<Rightarrow> u64 \<Rightarrow> sock \<Rightarrow> net_event list
    \<Rightarrow> (bool \<times> Socketmessage option \<times> sock \<times> net_event list) res" where
  "so_receiveMessage split nowtime so es =
     (case so_splitMessage split so of
        Inl e \<Rightarrow> Inl e
      | Inr (rc, msg, so1) \<Rightarrow>
          if \<not> rc then Inr (False, None, so1, es)
          else case msg of
            Some m \<Rightarrow> Inr (True, Some m, so_receivedMessage nowtime so1, es)
          | None \<Rightarrow>
              let so2 = so1\<lparr>so_rbuffer := bb_reserve readlen (so_rbuffer so1)\<rparr>
              in (case net_recv readlen es of
                    (R_closed, es') \<Rightarrow> Inr (False, None, so2, es')
                  | (R_again, es') \<Rightarrow> Inr (True, None, so2, es')
                  | (R_error, es') \<Rightarrow> Inr (False, None, so2, es')
                  | (R_data d, es') \<Rightarrow>
                      (case bindE (bb_copy_in d (so_rbuffer so2)) (bb_wlength (length d)) of
                         Inl e \<Rightarrow> Inl e
                       | Inr rb \<Rightarrow> so_receiveMessage split nowtime (so2\<lparr>so_rbuffer := rb\<rparr>) es')))"
  by pat_completeness auto
termination
  by (relation "measure (\<lambda>(split, nowtime, so, es). net_size es)")
    (auto simp: readlen_def dest: net_recv_size [OF sym])

declare so_receiveMessage.simps [simp del]

text \<open>
  The loop of \<^verbatim>\<open>WorkerProcess::readSocket\<close> around it: every message goes to the receive
  queue, until there is none. A run that does not end would be \<open>None\<close>.
\<close>

partial_function (option) so_readAll :: "MESSAGE_SPLITER \<Rightarrow> u64 \<Rightarrow> sock \<Rightarrow> net_event list \<Rightarrow> Socketmessage list
    \<Rightarrow> ((bool \<times> sock \<times> net_event list \<times> Socketmessage list) res) option" where
  "so_readAll split nowtime so es recvQueue =
     (case so_receiveMessage split nowtime so es of
        Inl e \<Rightarrow> Some (Inl e)
      | Inr (rc, msg, so1, es1) \<Rightarrow>
          if \<not> rc then Some (Inr (False, so1, es1, recvQueue))
          else (case msg of
                  None \<Rightarrow> Some (Inr (True, so1, es1, recvQueue))
                | Some m \<Rightarrow> so_readAll split nowtime so1 es1 (recvQueue @ [m])))"

section \<open>Sending\<close>

text \<open>What \<^verbatim>\<open>send\<close> answers: it took some bytes, the buffer is full, or an error. An answer that
  is not there yet is "the buffer is full".\<close>

datatype send_result = S_sent nat | S_again | S_error

fun so_pump :: "send_result list \<Rightarrow> sock \<Rightarrow> bytes \<Rightarrow> (bool \<times> sock \<times> bytes \<times> send_result list) res" where
  "so_pump script so wire =
     bindE (bb_size (so_wbuffer so)) (\<lambda>n.
       if n > 0 then
         bindE (bb_rbuffer n (so_wbuffer so)) (\<lambda>buffer.
           case script of
             [] \<Rightarrow> Inr (True, so, wire, [])
           | S_again # rest \<Rightarrow> Inr (True, so, wire, rest)
           | S_error # rest \<Rightarrow> Inr (False, so, wire, rest)
           | S_sent k # rest \<Rightarrow>
               let sendsize = min k n
               in if sendsize = 0 then Inr (False, so, wire, rest)
                  else bindE (bb_rlength sendsize (so_wbuffer so)) (\<lambda>wb.
                         so_pump rest (so\<lparr>so_wbuffer := wb\<rparr>) (wire @ take sendsize buffer)))
       else case so_sendlist so of
         [] \<Rightarrow> Inr (True, so, wire, script)
       | msg # msgs \<Rightarrow>
           let so1 = so\<lparr>so_sendlist := msgs\<rparr>;
               len = unat (sm_payload_len msg); buffer = take len (sm_payload msg)
           in (case script of
                 [] \<Rightarrow> Inr (True, so1, wire, [])
               | S_again # rest \<Rightarrow> Inr (True, so1, wire, rest)
               | S_error # rest \<Rightarrow> Inr (False, so1, wire, rest)
               | S_sent k # rest \<Rightarrow>
                   let sendsize = min k len
                   in if sendsize = 0 then Inr (False, so1, wire, rest)
                      else bindE (if sendsize < len
                                  then bb_append (drop sendsize buffer) (so_wbuffer so1)
                                  else Inr (so_wbuffer so1)) (\<lambda>wb.
                           bindE (releaseMessage msg) (\<lambda>_.
                             so_pump rest (so1\<lparr>so_wbuffer := wb\<rparr>) (wire @ take sendsize buffer)))))"

declare so_pump.simps [simp del]

definition so_sendMessage :: "Socketmessage option \<Rightarrow> send_result list \<Rightarrow> sock \<Rightarrow> (bool \<times> sock \<times> bytes \<times> send_result list) res" where
  "so_sendMessage p script so =
     (case p of None \<Rightarrow> Inl AssertFailed
      | Some msg \<Rightarrow>
          assertE (sm_magic msg = MAGIC) (assertE (sm_s msg = so_fd so) (assertE (sm_payload_len msg > 0)
            (so_pump script (so\<lparr>so_sendlist := so_sendlist so @ [msg]\<rparr>) []))))"

section \<open>Cutting a stream into messages\<close>

text \<open>The messages of a byte stream, what remains, and whether an illegal one stopped the cut.\<close>

function frames :: "MESSAGE_SPLITER \<Rightarrow> bytes \<Rightarrow> bytes list \<times> bytes \<times> bool" where
  "frames split xs =
     (let rc = split xs
      in if rc = 0 then ([], xs, True)
         else if rc < 0 \<or> nat rc > length xs then ([], xs, False)
         else let (fs, r, ok) = frames split (drop (nat rc) xs) in (take (nat rc) xs # fs, r, ok))"
  by auto
termination by (relation "measure (\<lambda>(split, xs). length xs)") auto

declare frames.simps [simp del]

fun all_data :: "net_event list \<Rightarrow> bool" where
  "all_data [] = True"
| "all_data (Data d # es) = (d \<noteq> [] \<and> all_data es)"
| "all_data _ = False"

fun stream :: "net_event list \<Rightarrow> bytes" where
  "stream [] = []"
| "stream (Data d # es) = d @ stream es"
| "stream (_ # es) = stream es"

lemma net_recv_data:
  assumes "all_data es"
  shows "es = [] \<and> net_recv readlen es = (R_again, []) \<or>
    (\<exists>d es'. net_recv readlen es = (R_data d, es') \<and> all_data es' \<and> d \<noteq> [] \<and> length d \<le> readlen \<and>
       stream es = d @ stream es' \<and> net_size es' < net_size es)"
  using assms by (cases es rule: all_data.cases) (auto simp: readlen_def)

text \<open>The receiving side is well-formed, with room for \<open>k\<close> more calls of \<^verbatim>\<open>recv\<close>.\<close>

definition so_rcv :: "nat \<Rightarrow> sock \<Rightarrow> bool" where
  "so_rcv k so \<longleftrightarrow> bb_inv (so_rbuffer so) \<and> bb_room (readlen * k) (so_rbuffer so)"

lemma readlen_cost: "bb_cost readlen = readlen"
  by (simp add: bb_cost_def readlen_def BUFFER_CHUNK_SIZE_def)

lemma so_rcv_reserve:
  assumes "so_rcv (Suc k) so"
  defines "so2 \<equiv> so\<lparr>so_rbuffer := bb_reserve readlen (so_rbuffer so)\<rparr>"
  shows "so_rcv k so2" and "bb_content (so_rbuffer so2) = bb_content (so_rbuffer so)"
    and "length d \<le> readlen \<Longrightarrow>
      \<exists>rb. bindE (bb_copy_in d (so_rbuffer so2)) (bb_wlength (length d)) = Inr rb \<and>
        so_rcv k (so2\<lparr>so_rbuffer := rb\<rparr>) \<and> bb_content rb = bb_content (so_rbuffer so) @ d"
proof -
  have a: "bb_inv (so_rbuffer so)" "bb_room (bb_cost readlen + readlen * k) (so_rbuffer so)"
    using assms(1) by (simp_all add: so_rcv_def readlen_cost)
  note r = bb_reserve_spec [OF a]
  show "so_rcv k so2" "bb_content (so_rbuffer so2) = bb_content (so_rbuffer so)"
    using r by (simp_all add: so_rcv_def so2_def)
  assume "length d \<le> readlen"
  then have "bb_windex (bb_reserve readlen (so_rbuffer so)) + length d \<le> bb_capacity (bb_reserve readlen (so_rbuffer so))"
    using r(3) by simp
  from bb_copy_in_spec [OF r(1) this r(4)] obtain b1 b2 where
    "bb_copy_in d (bb_reserve readlen (so_rbuffer so)) = Inr b1" "bb_wlength (length d) b1 = Inr b2"
    "bb_inv b2" "bb_room (readlen * k) b2" "bb_content b2 = bb_content (bb_reserve readlen (so_rbuffer so)) @ d" .
  then show "\<exists>rb. bindE (bb_copy_in d (so_rbuffer so2)) (bb_wlength (length d)) = Inr rb \<and>
        so_rcv k (so2\<lparr>so_rbuffer := rb\<rparr>) \<and> bb_content rb = bb_content (so_rbuffer so) @ d"
    using r(2) by (intro exI [of _ b2]) (simp add: so2_def so_rcv_def)
qed

lemma so_splitMessage_spec:
  fixes split :: MESSAGE_SPLITER and so :: sock
  assumes "so_rcv k so"
  defines "xs \<equiv> bb_content (so_rbuffer so)" and "rc \<equiv> split (bb_content (so_rbuffer so))"
  shows "rc = 0 \<Longrightarrow> so_splitMessage split so = Inr (True, None, so)"
    and "rc < 0 \<or> nat rc > length xs \<Longrightarrow> so_splitMessage split so = Inr (False, None, so)"
    and "rc > 0 \<Longrightarrow> nat rc \<le> length xs \<Longrightarrow>
      \<exists>rb. so_splitMessage split so =
        Inr (True, Some (allocateMessage_payload (so_fd so) SM_OPCODE_MESSAGE (take (nat rc) xs)), so\<lparr>so_rbuffer := rb\<rparr>) \<and>
        so_rcv k (so\<lparr>so_rbuffer := rb\<rparr>) \<and> bb_content rb = drop (nat rc) xs"
proof -
  have inv: "bb_inv (so_rbuffer so)" and room: "bb_room (readlen * k) (so_rbuffer so)"
    using assms(1) by (simp_all add: so_rcv_def)
  note eq = so_splitMessage_def bb_size_content [OF inv] bb_rbuffer_spec [OF inv] Let_def xs_def rc_def
  show "rc = 0 \<Longrightarrow> so_splitMessage split so = Inr (True, None, so)"
    by (simp add: eq)
  show "rc < 0 \<or> nat rc > length xs \<Longrightarrow> so_splitMessage split so = Inr (False, None, so)"
    by (auto simp: eq)
  assume *: "rc > 0" "nat rc \<le> length xs"
  with bb_rlength_spec [OF inv _ room, of "nat rc"]
  show "\<exists>rb. so_splitMessage split so =
        Inr (True, Some (allocateMessage_payload (so_fd so) SM_OPCODE_MESSAGE (take (nat rc) xs)), so\<lparr>so_rbuffer := rb\<rparr>) \<and>
        so_rcv k (so\<lparr>so_rbuffer := rb\<rparr>) \<and> bb_content rb = drop (nat rc) xs"
    by (auto simp: eq so_rcv_def)
qed

text \<open>
  What a call of \<^verbatim>\<open>receiveMessage\<close> on the stream \<open>xs\<close> returns: nothing yet, a refusal, or the
  first message, and that buffer and network then hold the rest.
\<close>

definition receive_outcome :: "MESSAGE_SPLITER \<Rightarrow> SOCKET \<Rightarrow> bytes
    \<Rightarrow> (bool \<times> Socketmessage option \<times> sock \<times> net_event list) res \<Rightarrow> sock \<Rightarrow> net_event list \<Rightarrow> bool" where
  "receive_outcome split fd xs res so' es' \<longleftrightarrow> bb_inv (so_rbuffer so') \<and>
     (if split xs = 0 then res = Inr (True, None, so', []) \<and> es' = [] \<and> bb_content (so_rbuffer so') = xs
      else if split xs < 0 then res = Inr (False, None, so', es') \<and> bb_content (so_rbuffer so') @ stream es' = xs
      else res = Inr (True, Some (allocateMessage_payload fd SM_OPCODE_MESSAGE (take (nat (split xs)) xs)), so', es') \<and>
        bb_content (so_rbuffer so') @ stream es' = drop (nat (split xs)) xs \<and> so_rcv (Suc (net_size es')) so')"

lemma bb_new_ok:
  assumes "k + 65535 < 2 ^ 64"
  shows "bb_inv (bb_new 65535)" and "bb_content (bb_new 65535) = []" and "bb_room k (bb_new 65535)"
proof -
  have "bb_inv bb_zero" "bb_content bb_zero = []" "bb_room (bb_cost 65535 + k) bb_zero"
    using assms by (simp_all add: bb_zero_def bb_state_defs BUFFER_CHUNK_SIZE_def)
  then show "bb_inv (bb_new 65535)" "bb_content (bb_new 65535) = []" "bb_room k (bb_new 65535)"
    using bb_reserve_spec [of bb_zero 65535 k] by (simp_all add: bb_new_def)
qed

lemma so_new_rcv: "readlen * k + 65535 < 2 ^ 64 \<Longrightarrow> so_rcv k (so_new fd t0)"
  using bb_new_ok [of "readlen * k"] by (simp add: so_rcv_def so_new_def)

lemma so_new_fields [simp]:
  "so_fd (so_new fd t0) = fd" "so_sendlist (so_new fd t0) = []" "so_listening (so_new fd t0) = False"
  "bb_inv (so_rbuffer (so_new fd t0))" "bb_content (so_rbuffer (so_new fd t0)) = []"
  "bb_inv (so_wbuffer (so_new fd t0))" "bb_content (so_wbuffer (so_new fd t0)) = []"
  using bb_new_ok [of 0] by (simp_all add: so_new_def)

section \<open>The contract of a splitter\<close>

text \<open>
  A splitter does not judge an empty buffer, never announces more than it was given, and
  does not change its mind when more data follows.
\<close>

locale message_spliter =
  fixes split :: MESSAGE_SPLITER
  assumes split_Nil: "split [] = 0"
    and split_bounded: "0 < split xs \<Longrightarrow> nat (split xs) \<le> length xs"
    and split_stable: "split xs \<noteq> 0 \<Longrightarrow> split (xs @ ys) = split xs"
begin

lemma frames_step:
  "split xs = 0 \<Longrightarrow> frames split xs = ([], xs, True)"
  "split xs < 0 \<Longrightarrow> frames split xs = ([], xs, False)"
  "split xs > 0 \<Longrightarrow> frames split xs =
     (let (fs, r, ok) = frames split (drop (nat (split xs)) xs) in (take (nat (split xs)) xs # fs, r, ok))"
  using split_bounded [of xs] by (simp_all add: frames.simps [of split xs] Let_def)

text \<open>Cutting a part of the stream first gives the same messages.\<close>

lemma frames_append:
  "frames split xs = (fs, r, ok) \<Longrightarrow>
     frames split (xs @ ys) =
       (if ok then let (gs, r', ok') = frames split (r @ ys) in (fs @ gs, r', ok') else (fs, r @ ys, False))"
proof (induction "length xs" arbitrary: xs fs rule: less_induct)
  case less
  consider "split xs = 0" | "split xs < 0" | "split xs > 0" by linarith
  then show ?case
  proof cases
    case 1
    with less.prems show ?thesis by (auto simp: frames_step split: prod.splits)
  next
    case 2
    with less.prems split_stable [of xs ys] show ?thesis by (auto simp: frames_step)
  next
    case 3
    let ?n = "nat (split xs)"
    have n: "?n \<le> length xs" "0 < ?n" using 3 split_bounded by simp_all
    obtain gs where gs: "frames split (drop ?n xs) = (gs, r, ok)" "fs = take ?n xs # gs"
      using less.prems 3 by (auto simp: frames_step(3) [OF 3] split: prod.splits)
    have "length (drop ?n xs) < length xs" using n by simp
    note IH = less.hyps [OF this gs(1)]
    have "split (xs @ ys) = split xs" using 3 by (intro split_stable) simp
    then show ?thesis
      using 3 n IH gs by (simp add: frames_step(3) [of "xs @ ys"] split: prod.splits)
  qed
qed

text \<open>Messages that are recognised whatever follows are cut apart again when joined.\<close>

lemma frames_concat:
  "(\<And>f rest. f \<in> set fs \<Longrightarrow> f \<noteq> [] \<and> split (f @ rest) = int (length f)) \<Longrightarrow> frames split (concat fs) = (fs, [], True)"
proof (induction fs)
  case Nil
  then show ?case by (simp add: frames_step split_Nil)
next
  case (Cons f fs)
  then have f: "split (f @ concat fs) = int (length f)" "f \<noteq> []" by simp_all
  then have "0 < split (f @ concat fs)" by simp
  from frames_step(3) [OF this] Cons show ?case by (simp add: f)
qed

text \<open>One call of \<^verbatim>\<open>receiveMessage\<close>, on whatever part of the stream has arrived.\<close>

lemma receive_spec:
  assumes "all_data es" and "so_rcv (Suc (net_size es)) so"
  shows "\<exists>so' es'. so_fd so' = so_fd so \<and> all_data es' \<and> net_size es' \<le> net_size es \<and>
    receive_outcome split (so_fd so) (bb_content (so_rbuffer so) @ stream es)
      (so_receiveMessage split nowtime so es) so' es'"
  using assms
proof (induction "net_size es" arbitrary: es so rule: less_induct)
  case less
  let ?c = "bb_content (so_rbuffer so)"
  note sp = so_splitMessage_spec [OF less.prems(2), of split]
  have inv: "bb_inv (so_rbuffer so)" using less.prems(2) by (simp add: so_rcv_def)
  consider "split ?c = 0" | "split ?c < 0" | "split ?c > 0" by linarith
  then show ?case
  proof cases
    case 1
    note res = so_rcv_reserve [OF less.prems(2)]
    from net_recv_data [OF less.prems(1)] show ?thesis
    proof (elim disjE conjE exE)
      assume "es = []" "net_recv readlen es = (R_again, [])"
      then show ?thesis
        using sp(1) [OF 1] res(1,2) 1
        by (intro exI [of _ "so\<lparr>so_rbuffer := bb_reserve readlen (so_rbuffer so)\<rparr>"] exI [of _ "[]"])
          (subst so_receiveMessage.simps, simp add: Let_def so_rcv_def receive_outcome_def)
    next
      fix d es' assume r: "net_recv readlen es = (R_data d, es')" "all_data es'" "length d \<le> readlen"
        "stream es = d @ stream es'" "net_size es' < net_size es"
      from res(3) [OF r(3)] obtain rb where rb:
        "bindE (bb_copy_in d (bb_reserve readlen (so_rbuffer so))) (bb_wlength (length d)) = Inr rb"
        "so_rcv (net_size es) (so\<lparr>so_rbuffer := rb\<rparr>)" "bb_content rb = ?c @ d" by auto
      have eq: "so_receiveMessage split nowtime so es = so_receiveMessage split nowtime (so\<lparr>so_rbuffer := rb\<rparr>) es'"
        using sp(1) [OF 1] r(1) rb(1) by (subst so_receiveMessage.simps) (simp add: Let_def)
      have "so_rcv (Suc (net_size es')) (so\<lparr>so_rbuffer := rb\<rparr>)"
        using rb(2) r(5) by (auto simp: so_rcv_def bb_room_def readlen_def)
      moreover have "bb_content (so_rbuffer (so\<lparr>so_rbuffer := rb\<rparr>)) @ stream es' = ?c @ stream es"
        using r(4) rb(3) by simp
      moreover have "so_fd (so\<lparr>so_rbuffer := rb\<rparr>) = so_fd so" by simp
      ultimately show ?thesis
        using less.hyps [OF r(5) r(2), of "so\<lparr>so_rbuffer := rb\<rparr>"] r(5) unfolding eq
        by (metis (no_types, lifting) less_imp_le order_trans)
    qed
  next
    case 2
    then show ?thesis
      using sp(2) split_stable [of ?c "stream es"] less.prems inv
      by (intro exI [of _ so] exI [of _ es])
        (subst so_receiveMessage.simps, simp add: receive_outcome_def)
  next
    case 3
    then have n: "nat (split ?c) \<le> length ?c" by (rule split_bounded)
    from sp(3) [OF 3 n] obtain rb where rb: "so_splitMessage split so =
        Inr (True, Some (allocateMessage_payload (so_fd so) SM_OPCODE_MESSAGE (take (nat (split ?c)) ?c)), so\<lparr>so_rbuffer := rb\<rparr>)"
      "so_rcv (Suc (net_size es)) (so\<lparr>so_rbuffer := rb\<rparr>)" "bb_content rb = drop (nat (split ?c)) ?c" by blast
    then show ?thesis
      using 3 n split_stable [of ?c "stream es"] less.prems
      by (intro exI [of _ "so_receivedMessage nowtime (so\<lparr>so_rbuffer := rb\<rparr>)"] exI [of _ es])
        (subst so_receiveMessage.simps, simp add: receive_outcome_def so_receivedMessage_def Let_def so_rcv_def)
  qed
qed

text \<open>All messages of the stream, in order, and nothing else, reach the receive queue.\<close>

lemma readAll_spec:
  assumes "all_data es" and "so_rcv (Suc (net_size es)) so"
    and "frames split (bb_content (so_rbuffer so) @ stream es) = (fs, r, ok)"
  shows "\<exists>so' es'. so_readAll split nowtime so es q =
      Some (Inr (ok, so', es', q @ map (allocateMessage_payload (so_fd so) SM_OPCODE_MESSAGE) fs)) \<and>
    so_fd so' = so_fd so \<and> bb_inv (so_rbuffer so') \<and> bb_content (so_rbuffer so') @ stream es' = r"
  using assms
proof (induction "length (bb_content (so_rbuffer so) @ stream es)" arbitrary: so es q fs rule: less_induct)
  case less
  let ?xs = "bb_content (so_rbuffer so) @ stream es"
  obtain so' es' where o: "so_fd so' = so_fd so" "all_data es'"
    "receive_outcome split (so_fd so) ?xs (so_receiveMessage split nowtime so es) so' es'"
    using receive_spec [OF less.prems(1,2)] by blast
  consider "split ?xs = 0" | "split ?xs < 0" | "split ?xs > 0" by linarith
  then show ?case
  proof cases
    case 1
    with o less.prems(3) show ?thesis
      by (subst so_readAll.simps) (auto simp: receive_outcome_def frames_step)
  next
    case 2
    with o less.prems(3) show ?thesis
      by (subst so_readAll.simps) (auto simp: receive_outcome_def frames_step)
  next
    case 3
    let ?n = "nat (split ?xs)"
    have n: "?n \<le> length ?xs" using 3 by (rule split_bounded)
    have m: "so_receiveMessage split nowtime so es = Inr (True,
        Some (allocateMessage_payload (so_fd so) SM_OPCODE_MESSAGE (take ?n ?xs)), so', es')"
      and c: "bb_content (so_rbuffer so') @ stream es' = drop ?n ?xs" and rcv: "so_rcv (Suc (net_size es')) so'"
      using o(3) 3 by (simp_all add: receive_outcome_def)
    obtain gs where gs: "frames split (drop ?n ?xs) = (gs, r, ok)" "fs = take ?n ?xs # gs"
      using less.prems(3) 3 by (auto simp: frames_step(3) [OF 3] split: prod.splits)
    have "length (bb_content (so_rbuffer so') @ stream es') < length ?xs"
      using 3 n unfolding c by simp
    note IH = less.hyps [OF this o(2) rcv gs(1) [folded c],
        of "q @ [allocateMessage_payload (so_fd so) SM_OPCODE_MESSAGE (take ?n ?xs)]"]
    have "so_readAll split nowtime so es q =
        so_readAll split nowtime so' es' (q @ [allocateMessage_payload (so_fd so) SM_OPCODE_MESSAGE (take ?n ?xs)])"
      using m by (subst so_readAll.simps) simp
    with IH o(1) gs(2) show ?thesis by simp
  qed
qed

end

section \<open>The send side\<close>

definition msg_bytes :: "Socketmessage \<Rightarrow> bytes" where
  "msg_bytes msg = take (unat (sm_payload_len msg)) (sm_payload msg)"

text \<open>What a connection still owes the network.\<close>

definition so_pending :: "sock \<Rightarrow> bytes" where
  "so_pending so = bb_content (so_wbuffer so) @ concat (map msg_bytes (so_sendlist so))"

definition so_snd :: "sock \<Rightarrow> bool" where
  "so_snd so \<longleftrightarrow> bb_inv (so_wbuffer so) \<and>
     bb_room (sum_list (map (\<lambda>m. bb_cost (length (sm_payload m))) (so_sendlist so))) (so_wbuffer so) \<and>
     list_all (\<lambda>m. message_ok m \<and> sm_payload m \<noteq> []) (so_sendlist so)"

text \<open>
  The state after a pump: the bytes sent continue the wire, and together with what is left
  they are what was owed, except possibly for one message that was taken from the list when
  the network refused.
\<close>

definition pump_outcome :: "sock \<Rightarrow> bytes \<Rightarrow> (bool \<times> sock \<times> bytes \<times> send_result list) res \<Rightarrow> bool" where
  "pump_outcome so wire res \<longleftrightarrow>
     (\<exists>rc so' out rest dropped. res = Inr (rc, so', wire @ out, rest) \<and>
        so_pending so = out @ dropped @ so_pending so' \<and>
        (dropped = [] \<or> dropped \<in> msg_bytes ` set (so_sendlist so) \<and> bb_content (so_wbuffer so') = []) \<and>
        so_snd so' \<and> so_fd so' = so_fd so \<and> so_rbuffer so' = so_rbuffer so \<and>
        set (so_sendlist so') \<subseteq> set (so_sendlist so))"

lemma bb_room_less: "bb_room n b \<Longrightarrow> m \<le> n \<Longrightarrow> bb_room m b"
  by (simp add: bb_room_def)

lemma msg_bytes_ok: "message_ok m \<Longrightarrow> msg_bytes m = sm_payload m"
  by (simp add: msg_bytes_def message_ok_def)

lemma pump_refused:
  "so_snd so \<Longrightarrow> so_sendlist so = m # ms \<Longrightarrow> bb_content (so_wbuffer so) = [] \<Longrightarrow>
     pump_outcome so wire (Inr (rc, so\<lparr>so_sendlist := ms\<rparr>, wire, rest))"
  unfolding pump_outcome_def
  by (intro exI [of _ rc] exI [of _ "so\<lparr>so_sendlist := ms\<rparr>"] exI [of _ "[]"] exI [of _ rest] exI [of _ "msg_bytes m"])
    (auto simp: so_snd_def so_pending_def elim: bb_room_less)

lemma pump_stop: "so_snd so \<Longrightarrow> pump_outcome so wire (Inr (rc, so, wire, rest))"
  unfolding pump_outcome_def by (intro exI [of _ "[]"] exI [of _ rc] exI [of _ so] exI [of _ rest]) simp

text \<open>A step that sends \<open>out\<close> and continues from \<open>so1\<close>.\<close>

lemma pump_continue:
  assumes "pump_outcome so1 (wire @ out) res" and "so_pending so = out @ so_pending so1"
    and "set (so_sendlist so1) \<subseteq> set (so_sendlist so)" and "so_fd so1 = so_fd so" "so_rbuffer so1 = so_rbuffer so"
  shows "pump_outcome so wire res"
proof -
  from assms(1) obtain rc so' out' rest dropped where
    "res = Inr (rc, so', (wire @ out) @ out', rest)" "so_pending so1 = out' @ dropped @ so_pending so'"
    "dropped = [] \<or> dropped \<in> msg_bytes ` set (so_sendlist so1) \<and> bb_content (so_wbuffer so') = []"
    "so_snd so'" "so_fd so' = so_fd so1" "so_rbuffer so' = so_rbuffer so1"
    "set (so_sendlist so') \<subseteq> set (so_sendlist so1)"
    unfolding pump_outcome_def by blast
  with assms(2-) show ?thesis
    unfolding pump_outcome_def
    by (intro exI [of _ rc] exI [of _ so'] exI [of _ "out @ out'"] exI [of _ rest] exI [of _ dropped]) auto
qed

lemma pump_buffer:
  assumes "so_snd so" and "bb_content (so_wbuffer so) \<noteq> []" and "0 < k" and "k \<le> length (bb_content (so_wbuffer so))"
  shows "\<exists>wb. bb_rlength k (so_wbuffer so) = Inr wb \<and> so_snd (so\<lparr>so_wbuffer := wb\<rparr>) \<and>
    so_pending so = take k (bb_content (so_wbuffer so)) @ so_pending (so\<lparr>so_wbuffer := wb\<rparr>)"
proof -
  have inv: "bb_inv (so_wbuffer so)"
    and room: "bb_room (sum_list (map (\<lambda>m. bb_cost (length (sm_payload m))) (so_sendlist so))) (so_wbuffer so)"
    using assms(1) by (simp_all add: so_snd_def)
  from bb_rlength_spec [OF inv assms(4) room] obtain wb where "bb_rlength k (so_wbuffer so) = Inr wb" "bb_inv wb"
    "bb_room (sum_list (map (\<lambda>m. bb_cost (length (sm_payload m))) (so_sendlist so))) wb"
    "bb_content wb = drop k (bb_content (so_wbuffer so))" by blast
  then show ?thesis using assms(1)
    by (intro exI [of _ wb]) (simp add: so_snd_def so_pending_def)
qed

lemma pump_message:
  assumes "so_snd so" and "so_sendlist so = m # ms" and "bb_content (so_wbuffer so) = []"
    and "0 < k" and "k \<le> length (sm_payload m)"
  defines "so1 \<equiv> so\<lparr>so_sendlist := ms\<rparr>"
  shows "\<exists>wb. (if k < length (sm_payload m) then bb_append (drop k (sm_payload m)) (so_wbuffer so1)
               else Inr (so_wbuffer so1)) = Inr wb \<and>
    so_snd (so1\<lparr>so_wbuffer := wb\<rparr>) \<and>
    so_pending so = take k (sm_payload m) @ so_pending (so1\<lparr>so_wbuffer := wb\<rparr>)"
proof -
  let ?r = "sum_list (map (\<lambda>m. bb_cost (length (sm_payload m))) ms)"
  have inv: "bb_inv (so_wbuffer so)" and room: "bb_room (bb_cost (length (sm_payload m)) + ?r) (so_wbuffer so)"
    and ok: "message_ok m" "list_all (\<lambda>m. message_ok m \<and> sm_payload m \<noteq> []) ms"
    using assms(1,2) by (simp_all add: so_snd_def)
  have p: "so_pending so = sm_payload m @ concat (map msg_bytes ms)"
    using assms(2,3) ok(1) by (simp add: so_pending_def msg_bytes_ok)
  show ?thesis
  proof (cases "k < length (sm_payload m)")
    case True
    have "bb_room (bb_cost (length (drop k (sm_payload m))) + ?r) (so_wbuffer so)"
      using room by (rule bb_room_less) (simp add: bb_cost_def)
    from bb_append_spec [OF inv this] obtain wb where "bb_append (drop k (sm_payload m)) (so_wbuffer so) = Inr wb"
      "bb_inv wb" "bb_room ?r wb" "bb_content wb = drop k (sm_payload m)"
      using assms(3) by auto
    then show ?thesis
      using True ok p by (intro exI [of _ wb]) (simp add: so1_def so_snd_def so_pending_def [of "so\<lparr>so_sendlist := ms, so_wbuffer := wb\<rparr>"])
  next
    case False
    have "bb_room ?r (so_wbuffer so)" using room by (rule bb_room_less) simp
    with False assms(3,5) inv ok p show ?thesis
      by (intro exI [of _ "so_wbuffer so"]) (simp add: so1_def so_snd_def so_pending_def [of "so\<lparr>so_sendlist := ms\<rparr>"])
  qed
qed

lemma so_pump_sent:
  assumes "bb_inv (so_wbuffer so)" "bb_content (so_wbuffer so) = []" "so_sendlist so = m # ms" "message_ok m"
    and e: "min k (length (sm_payload m)) = e" "e \<noteq> 0"
    and wb: "(if e < length (sm_payload m) then bb_append (drop e (sm_payload m)) (so_wbuffer (so\<lparr>so_sendlist := ms\<rparr>))
              else Inr (so_wbuffer (so\<lparr>so_sendlist := ms\<rparr>))) = Inr wb"
  shows "so_pump (S_sent k # rest) so wire =
    so_pump rest (so\<lparr>so_sendlist := ms, so_wbuffer := wb\<rparr>) (wire @ take e (sm_payload m))"
proof -
  have "unat (sm_payload_len m) = length (sm_payload m)" "releaseMessage m = Inr ()"
    using assms(4) by (simp_all add: message_ok_def releaseMessage_def)
  with assms(1-3) e wb show ?thesis
    by (cases "e < length (sm_payload m)"; cases so) (simp_all add: so_pump.simps [of "_ # _"] bb_size_content Let_def)
qed

lemma so_pump_outcome: "so_snd so \<Longrightarrow> pump_outcome so wire (so_pump script so wire)"
proof (induction script arbitrary: so wire)
  case Nil
  then have "bb_inv (so_wbuffer so)" by (simp add: so_snd_def)
  with Nil show ?case
    using pump_stop [OF Nil] pump_refused [OF Nil]
    by (cases "bb_content (so_wbuffer so) = []"; cases "so_sendlist so")
      (simp_all add: so_pump.simps [of "[]"] bb_size_content bb_rbuffer_spec Let_def)
next
  case (Cons a rest)
  let ?c = "bb_content (so_wbuffer so)"
  have inv: "bb_inv (so_wbuffer so)" using Cons.prems by (simp add: so_snd_def)
  note simps = so_pump.simps [of "x # rest" for x] bb_size_content [OF inv] bb_rbuffer_spec [OF inv] Let_def
  note stop = pump_stop [OF Cons.prems] pump_refused [OF Cons.prems]
  show ?case
  proof (cases "?c = []")
    case False
    show ?thesis
    proof (cases a)
      case (S_sent k)
      show ?thesis
      proof (cases "min k (length ?c) = 0")
        case True
        with False S_sent stop show ?thesis by (simp add: simps)
      next
        case nz: False
        with pump_buffer [OF Cons.prems False, of "min k (length ?c)"] obtain wb where
          wb: "bb_rlength (min k (length ?c)) (so_wbuffer so) = Inr wb" "so_snd (so\<lparr>so_wbuffer := wb\<rparr>)"
            "so_pending so = take (min k (length ?c)) ?c @ so_pending (so\<lparr>so_wbuffer := wb\<rparr>)" by auto
        have "so_pump (a # rest) so wire = so_pump rest (so\<lparr>so_wbuffer := wb\<rparr>) (wire @ take (min k (length ?c)) ?c)"
          using False S_sent wb(1) by (simp add: simps) (use nz in blast)
        with pump_continue [OF Cons.IH [OF wb(2)] wb(3)] show ?thesis by simp
      qed
    qed (use False stop in \<open>simp_all add: simps\<close>)
  next
    case True
    show ?thesis
    proof (cases "so_sendlist so")
      case Nil
      with True stop show ?thesis by (simp add: simps)
    next
      case (Cons m ms)
      have ok: "message_ok m" using \<open>so_snd so\<close> Cons by (simp add: so_snd_def)
      then have len: "unat (sm_payload_len m) = length (sm_payload m)" and rel: "releaseMessage m = Inr ()"
        by (simp_all add: message_ok_def releaseMessage_def)
      show ?thesis
      proof (cases a)
        case (S_sent k)
        show ?thesis
        proof (cases "min k (length (sm_payload m)) = 0")
          case z: True
          with True Cons S_sent stop show ?thesis by (simp add: simps len)
        next
          case nz: False
          with pump_message [OF \<open>so_snd so\<close> Cons True, of "min k (length (sm_payload m))"] obtain wb where
            wb: "(if min k (length (sm_payload m)) < length (sm_payload m)
                  then bb_append (drop (min k (length (sm_payload m))) (sm_payload m)) (so_wbuffer (so\<lparr>so_sendlist := ms\<rparr>))
                  else Inr (so_wbuffer (so\<lparr>so_sendlist := ms\<rparr>))) = Inr wb"
              "so_snd (so\<lparr>so_sendlist := ms\<rparr>\<lparr>so_wbuffer := wb\<rparr>)"
              "so_pending so = take (min k (length (sm_payload m))) (sm_payload m) @ so_pending (so\<lparr>so_sendlist := ms\<rparr>\<lparr>so_wbuffer := wb\<rparr>)"
            by auto
          have "so_pump (a # rest) so wire =
              so_pump rest (so\<lparr>so_sendlist := ms\<rparr>\<lparr>so_wbuffer := wb\<rparr>) (wire @ take (min k (length (sm_payload m))) (sm_payload m))"
            using so_pump_sent [OF inv True Cons ok refl nz wb(1)] S_sent by simp
          with pump_continue [OF Cons.IH [OF wb(2)] wb(3)] Cons show ?thesis by auto
        qed
      qed (use True Cons stop in \<open>simp_all add: simps len\<close>)
    qed
  qed
qed

text \<open>
  C37: \<^verbatim>\<open>Socket::sendMessage\<close> keeps the order of what is owed to the network: whatever the
  network takes, the bytes sent followed by what remains are the old backlog and the new
  message, except that at most one whole message is missing.
\<close>

theorem send_keeps_order:
  assumes "sm_magic msg = MAGIC" "sm_s msg = so_fd so" "sm_payload msg \<noteq> []"
    and "so_snd (so\<lparr>so_sendlist := so_sendlist so @ [msg]\<rparr>)"
  shows "\<exists>rc so' out rest dropped. so_sendMessage (Some msg) script so = Inr (rc, so', out, rest) \<and>
    so_pending so @ sm_payload msg = out @ dropped @ so_pending so' \<and>
    (dropped = [] \<or> (\<exists>m \<in> insert msg (set (so_sendlist so)). dropped = msg_bytes m)) \<and>
    so_snd so' \<and> so_fd so' = so_fd so \<and> so_rbuffer so' = so_rbuffer so"
proof -
  let ?so = "so\<lparr>so_sendlist := so_sendlist so @ [msg]\<rparr>"
  have ok: "message_ok msg" using assms(4) by (simp add: so_snd_def)
  then have "sm_payload_len msg > 0"
    using assms(3) by (simp add: message_ok_def) (metis length_0_conv unat_0 word_greater_zero_iff)
  moreover have "so_pending ?so = so_pending so @ sm_payload msg"
    using ok by (simp add: so_pending_def msg_bytes_ok)
  ultimately show ?thesis
    using so_pump_outcome [OF assms(4), of "[]" script] assms(1,2)
    by (auto simp: pump_outcome_def so_sendMessage_def)
qed

definition demo_message :: Socketmessage where
  "demo_message = allocateMessage_payload 7 SM_OPCODE_MESSAGE [1, 2, 3]"

text \<open>
  when the network is full at the moment a message is taken from the send list, the
  message is gone: \<^verbatim>\<open>sendMessage\<close> reports success, nothing was sent and nothing is left to
  send. The list is popped before the call and the message is not put back.
\<close>

theorem send_wouldblock_loses_message:
  assumes "sm_magic msg = MAGIC" "sm_s msg = so_fd so" "sm_payload_len msg > 0"
    and "bb_inv (so_wbuffer so)" "bb_content (so_wbuffer so) = []" "so_sendlist so = []"
  shows "so_sendMessage (Some msg) (S_again # rest) so = Inr (True, so, [], rest) \<and> so_pending so = []"
  using assms
  by (cases so) (simp add: so_sendMessage_def so_pump.simps [of "_ # _"] bb_size_content Let_def so_pending_def)

definition demo_sock :: sock where
  "demo_sock = so_new 7 0"

lemma demo_message_fields [simp]:
  "sm_magic demo_message = MAGIC" "sm_s demo_message = 7" "sm_payload demo_message = [1, 2, 3]"
  "sm_payload_len demo_message = 3" "message_ok demo_message"
  by (simp_all add: demo_message_def allocateMessage_payload_def message_ok_def)

lemma demo_sock_ok: "so_snd (demo_sock\<lparr>so_sendlist := [demo_message]\<rparr>)"
  using bb_new_ok [of "bb_cost 3"] by (simp add: so_snd_def demo_sock_def so_new_def bb_cost_def BUFFER_CHUNK_SIZE_def)

theorem send_keeps_order_witness:
  "\<exists>rc so' out rest dropped. so_sendMessage (Some demo_message) [S_sent 2, S_again] demo_sock = Inr (rc, so', out, rest) \<and>
    [1, 2, 3] = out @ dropped @ so_pending so'"
  using send_keeps_order [of demo_message demo_sock "[S_sent 2, S_again]"] demo_sock_ok
  by (auto simp: demo_sock_def so_pending_def)

theorem send_wouldblock_loses_message_witness:
  "so_sendMessage (Some demo_message) [S_again] demo_sock = Inr (True, demo_sock, [], [])"
  using send_wouldblock_loses_message [of demo_message demo_sock "[]"] by (simp add: demo_sock_def)

section \<open>Message counters\<close>

lemma receivedMessage_counts:
  "m < COUNT_MESSAGE_SPAN \<Longrightarrow>
     so_countMessage (fold so_receivedMessage ts (so_new fd t0)) ! m =
       of_nat (length (filter (\<lambda>t. unat t mod COUNT_MESSAGE_SPAN = m) ts)) \<and>
     length (so_countMessage (fold so_receivedMessage ts (so_new fd t0))) = COUNT_MESSAGE_SPAN"
  by (induction ts rule: rev_induct)
    (auto simp: so_new_def so_receivedMessage_def Let_def nth_list_update COUNT_MESSAGE_SPAN_def)

lemma length_filter_less_Suc:
  fixes f :: "'a \<Rightarrow> int"
  shows "length (filter (\<lambda>x. f x < 1 + int n) xs) =
    length (filter (\<lambda>x. f x < int n) xs) + length (filter (\<lambda>x. f x = int n) xs)"
  by (induction xs) auto

lemma age_bucket:
  assumes "n < COUNT_MESSAGE_SPAN" and "n \<le> unat now"
  shows "(int (unat now) - int t) mod int COUNT_MESSAGE_SPAN = int n \<longleftrightarrow>
    t mod COUNT_MESSAGE_SPAN = unat ((now :: u64) - of_nat n) mod COUNT_MESSAGE_SPAN"
proof -
  have "unat (now - of_nat n) = unat now - n"
    using assms(2) unsigned_less [where ?'a = nat and w = now]
    by (subst unat_sub) (auto simp: word_le_nat_alt unat_of_nat take_bit_nat_eq_self)
  then have "int (unat (now - of_nat n) mod COUNT_MESSAGE_SPAN) = (int (unat now) - int n) mod int COUNT_MESSAGE_SPAN"
    using assms(2) by (simp add: zmod_int of_nat_diff)
  moreover have "(int (unat now) - int t) mod int COUNT_MESSAGE_SPAN = int n \<longleftrightarrow>
      int t mod int COUNT_MESSAGE_SPAN = (int (unat now) - int n) mod int COUNT_MESSAGE_SPAN"
  proof -
    have "int n = int n mod int COUNT_MESSAGE_SPAN" using assms(1) by simp
    moreover have "int (unat now) - int t - int n = - (int t - (int (unat now) - int n))" by simp
    ultimately show ?thesis by (metis mod_eq_dvd_iff dvd_minus_iff)
  qed
  ultimately show ?thesis by (metis of_nat_eq_iff zmod_int)
qed

lemma recent_loop_counts:
  "n \<le> COUNT_MESSAGE_SPAN \<Longrightarrow> n \<le> unat now \<Longrightarrow>
     so_recent_loop now (fold so_receivedMessage ts (so_new fd t0)) n =
       of_nat (length (filter (\<lambda>t. (int (unat now) - int (unat t)) mod int COUNT_MESSAGE_SPAN < int n) ts))"
proof (induction n)
  case 0
  have "0 < int COUNT_MESSAGE_SPAN" by (simp add: COUNT_MESSAGE_SPAN_def)
  then show ?case by (simp add: not_less)
next
  case (Suc n)
  let ?m = "unat (now - of_nat n) mod COUNT_MESSAGE_SPAN"
  have "?m < COUNT_MESSAGE_SPAN" by (simp add: COUNT_MESSAGE_SPAN_def)
  moreover have "(uint now - uint t) mod int COUNT_MESSAGE_SPAN = int n \<longleftrightarrow> unat t mod COUNT_MESSAGE_SPAN = ?m" for t :: u64
    using Suc.prems age_bucket [of n now "unat t"] by simp
  ultimately show ?case using Suc receivedMessage_counts [of ?m ts fd t0]
    by (simp add: length_filter_less_Suc)
qed

text \<open>
  \<^verbatim>\<open>recentMessage\<close> of at most sixty seconds counts the messages of the connection whose
  age is below that number of seconds \<^emph>\<open>modulo sixty\<close>: the counters are never reset, so that
  a message is counted again every minute for as long as the connection lives.
\<close>

theorem recentMessage_counts_history:
  assumes "unat seconds \<le> COUNT_MESSAGE_SPAN" and "unat seconds \<le> unat now"
  shows "so_recentMessage now seconds (fold so_receivedMessage ts (so_new fd t0)) =
    of_nat (length (filter (\<lambda>t. (int (unat now) - int (unat t)) mod int COUNT_MESSAGE_SPAN < int (unat seconds)) ts))"
  using recent_loop_counts [OF assms] by (simp add: so_recentMessage_def)

theorem recentMessage_counts_history_witness:
  "so_recentMessage 1000000 1 (fold so_receivedMessage [999700, 999941, 1000000] (so_new 5 0)) = 2"
  using recentMessage_counts_history [of 1 1000000 "[999700, 999941, 1000000]" 5 0]
  by (simp add: COUNT_MESSAGE_SPAN_def)

end
