(* ===== verification/Worker_Process.thy ===== *)
theory Worker_Process
  imports Socket_Layer
begin

text \<open>
  \<^verbatim>\<open>src/socket/WorkerProcess.cpp\<close> and \<^verbatim>\<open>Poll.cpp\<close>: a worker thread with its table of
  connections, the queue of commands other threads push to it and the queue on which it
  reports to them. The operating system is a record of its own: what each descriptor will
  receive, how it answers \<^verbatim>\<open>send\<close>, what was sent, what \<^verbatim>\<open>accept\<close> returns and which
  descriptors were closed. The clock is an argument of each operation, the stop flag does not
  change during one.

  The receive queue is kept as the whole history of what was pushed; consumers take from its
  front. The session lemmas say that this history is, for every descriptor, a sequence of
  sessions: established, any number of messages, closed.
\<close>

section \<open>State\<close>

definition MAX_CONNECTION_FD :: int where
  "MAX_CONNECTION_FD = 65536"

abbreviation (input) BUNDLE_SOL_MAXSIZE :: nat where "BUNDLE_SOL_MAXSIZE \<equiv> 1"
abbreviation (input) BUNDLE_SOL_SILENCE_SECOND :: nat where "BUNDLE_SOL_SILENCE_SECOND \<equiv> 2"
abbreviation (input) BUNDLE_SOL_THRESHOLD_MESSAGE :: nat where "BUNDLE_SOL_THRESHOLD_MESSAGE \<equiv> 3"
abbreviation (input) BUNDLE_SOL_THRESHOLD_INTERVAL :: nat where "BUNDLE_SOL_THRESHOLD_INTERVAL \<equiv> 4"

definition BUNDLE_SOL_MAX :: nat where
  "BUNDLE_SOL_MAX = 128"

datatype accept_result = A_conn SOCKET | A_interrupted | A_again | A_error

record kern =
  k_in :: "SOCKET \<Rightarrow> net_event list"
  k_send :: "SOCKET \<Rightarrow> send_result list"
  k_wire :: "SOCKET \<Rightarrow> bytes"
  k_accept :: "SOCKET \<Rightarrow> accept_result list"
  k_closed :: "SOCKET list"

record worker =
  wp_sockets :: "SOCKET \<rightharpoonup> sock"
  wp_poll :: "SOCKET set"
  wp_ctl :: "bool list"
  wp_ctl_errors :: "SOCKET list"
  wp_maxfd :: SOCKET
  wp_sendQueue :: "Socketmessage list"
  wp_recvQueue :: "Socketmessage list"
  wp_stop :: bool
  wp_total :: u64
  wp_opts :: "u64 list"

definition wp_new :: worker where
  "wp_new = \<lparr>wp_sockets = Map.empty, wp_poll = {}, wp_ctl = [], wp_ctl_errors = [], wp_maxfd = -1, wp_sendQueue = [], wp_recvQueue = [],
     wp_stop = False, wp_total = 0, wp_opts = replicate BUNDLE_SOL_MAX 0\<rparr>"

definition GET_SOCKET :: "SOCKET \<Rightarrow> worker \<Rightarrow> sock option res" where
  "GET_SOCKET s w = assertE (0 \<le> s \<and> s < MAX_CONNECTION_FD) (Inr (wp_sockets w s))"

definition wp_opt :: "nat \<Rightarrow> worker \<Rightarrow> u64" where
  "wp_opt i w = wp_opts w ! i"

definition push_recv :: "Socketmessage \<Rightarrow> worker \<Rightarrow> worker" where
  "push_recv msg w = w\<lparr>wp_recvQueue := wp_recvQueue w @ [msg]\<rparr>"

text \<open>
  \<^verbatim>\<open>wp_poll\<close> is the interest list of the worker's epoll instance and \<^verbatim>\<open>wp_ctl\<close> holds the answers of
  the coming calls of \<^verbatim>\<open>epoll_ctl\<close>: a call may fail for whatever reason the kernel has (no memory,
  no watches left, a descriptor that cannot be polled), and it fails in any case when the
  descriptor to add is in the list or the one to delete is not. A call without a recorded
  answer succeeds. \<^verbatim>\<open>wp_ctl_errors\<close> are the descriptors for which the failure of a call was
  logged, which is all that \<^verbatim>\<open>Poll\<close> does about it apart from returning false.
\<close>

definition epoll_ctl :: "worker \<Rightarrow> bool \<times> worker" where
  "epoll_ctl w = (case wp_ctl w of [] \<Rightarrow> (True, w) | rc # rcs \<Rightarrow> (rc, w\<lparr>wp_ctl := rcs\<rparr>))"

definition poll_addSocket :: "SOCKET \<Rightarrow> worker \<Rightarrow> bool \<times> worker" where
  "poll_addSocket s w =
     (case epoll_ctl w of (rc, w1) \<Rightarrow>
        if rc \<and> s \<notin> wp_poll w1 then (True, w1\<lparr>wp_poll := insert s (wp_poll w1)\<rparr>)
        else (False, w1\<lparr>wp_ctl_errors := wp_ctl_errors w1 @ [s]\<rparr>))"

definition poll_removeSocket :: "SOCKET \<Rightarrow> worker \<Rightarrow> bool \<times> worker" where
  "poll_removeSocket s w =
     (case epoll_ctl w of (rc, w1) \<Rightarrow>
        if rc \<and> s \<in> wp_poll w1 then (True, w1\<lparr>wp_poll := wp_poll w1 - {s}\<rparr>)
        else (False, w1\<lparr>wp_ctl_errors := wp_ctl_errors w1 @ [s]\<rparr>))"

text \<open>Closing a descriptor, which \<^verbatim>\<open>SafeClose\<close> does for positive ones, takes it out of the interest list too.\<close>

definition poll_closed :: "SOCKET \<Rightarrow> worker \<Rightarrow> worker" where
  "poll_closed s w = (if s > 0 then w\<lparr>wp_poll := wp_poll w - {s}\<rparr> else w)"

section \<open>Connections\<close>

definition os_close :: "SOCKET \<Rightarrow> kern \<Rightarrow> kern" where
  "os_close s k = k\<lparr>k_closed := k_closed k @ [s]\<rparr>"

text \<open>The macro \<^verbatim>\<open>SafeClose\<close> leaves descriptor 0 open.\<close>

definition SafeClose :: "SOCKET \<Rightarrow> kern \<Rightarrow> kern" where
  "SafeClose s k = (if s > 0 then os_close s k else k)"

definition wp_newSocket :: "u64 \<Rightarrow> SOCKET \<Rightarrow> bool \<Rightarrow> worker \<Rightarrow> kern \<Rightarrow> (worker \<times> kern) res" where
  "wp_newSocket nowtime newfd is_listening w k =
     bindE (GET_SOCKET newfd w) (\<lambda>so. assertE (so = None)
       (if wp_opt BUNDLE_SOL_MAXSIZE w \<noteq> 0 \<and> wp_total w \<ge> wp_opt BUNDLE_SOL_MAXSIZE w
        then Inr (w, SafeClose newfd k)
        else let w1 = w\<lparr>wp_sockets := (wp_sockets w)(newfd \<mapsto> (so_new newfd nowtime)\<lparr>so_listening := is_listening\<rparr>)\<rparr>;
                 w2 = snd (poll_addSocket newfd w1);
                 w3 = (if newfd > wp_maxfd w2 then w2\<lparr>wp_maxfd := newfd\<rparr> else w2);
                 w4 = push_recv (allocateMessage newfd SM_OPCODE_ESTABLISH) w3
             in Inr (w4\<lparr>wp_total := wp_total w4 + 1\<rparr>, k)))"

text \<open>The destructor of \<^verbatim>\<open>Socket\<close> closes the descriptor and releases what was not sent.\<close>

fun release_all :: "Socketmessage list \<Rightarrow> unit res" where
  "release_all [] = Inr ()"
| "release_all (msg # msgs) = bindE (releaseMessage msg) (\<lambda>_. release_all msgs)"

definition so_delete :: "sock \<Rightarrow> kern \<Rightarrow> kern res" where
  "so_delete so k = bindE (release_all (so_sendlist so)) (\<lambda>_. Inr (SafeClose (so_fd so) k))"

definition wp_removeSocket :: "SOCKET \<Rightarrow> worker \<Rightarrow> kern \<Rightarrow> (worker \<times> kern) res" where
  "wp_removeSocket s w k =
     bindE (GET_SOCKET s w) (\<lambda>p.
       case p of
         None \<Rightarrow> Inr (w, k)
       | Some so \<Rightarrow>
           let w1 = w\<lparr>wp_sockets := (wp_sockets w)(s := None)\<rparr>;
               w2 = snd (poll_removeSocket s w1)
           in bindE (so_delete so k) (\<lambda>k1.
                let w3 = push_recv (allocateMessage s SM_OPCODE_CLOSE) (poll_closed (so_fd so) w2)
                in assertE (wp_total w3 > 0) (Inr (w3\<lparr>wp_total := wp_total w3 - 1\<rparr>, k1))))"

text \<open>A connection after its send list was worked off, successfully or not.\<close>

definition wp_after_send :: "SOCKET \<Rightarrow> bool \<times> sock \<times> bytes \<times> send_result list \<Rightarrow> worker \<Rightarrow> kern \<Rightarrow> (bool \<times> worker \<times> kern) res" where
  "wp_after_send s r w k =
     (case r of (rc, so, out, rest) \<Rightarrow>
        let w1 = w\<lparr>wp_sockets := (wp_sockets w)(s \<mapsto> so)\<rparr>;
            k1 = k\<lparr>k_send := (k_send k)(s := rest), k_wire := (k_wire k)(s := k_wire k s @ out)\<rparr>
        in if rc then Inr (True, w1, k1)
           else bindE (wp_removeSocket s w1 k1) (\<lambda>(w2, k2). Inr (False, w2, k2)))"

definition wp_sendMessage :: "SOCKET \<Rightarrow> Socketmessage \<Rightarrow> worker \<Rightarrow> kern \<Rightarrow> (worker \<times> kern) res" where
  "wp_sendMessage s msg w k =
     bindE (GET_SOCKET s w) (\<lambda>p.
       case p of
         None \<Rightarrow> Inr (w, k)
       | Some so \<Rightarrow>
           bindE (so_sendMessage (Some msg) (k_send k s) so) (\<lambda>r.
           bindE (wp_after_send s r w k) (\<lambda>(rc, w1, k1). Inr (w1, k1))))"

fun wp_multisend_loop :: "Socketmessage \<Rightarrow> SOCKET list \<Rightarrow> worker \<Rightarrow> kern \<Rightarrow> (worker \<times> kern) res" where
  "wp_multisend_loop msg [] w k = Inr (w, k)"
| "wp_multisend_loop msg (s # ss) w k =
     bindE (GET_SOCKET s w) (\<lambda>p.
       case p of
         None \<Rightarrow> wp_multisend_loop msg ss w k
       | Some so \<Rightarrow>
           bindE (wp_sendMessage s (allocateMessage_payload s (sm_opcode msg) (msg_bytes msg)) w k)
             (\<lambda>(w1, k1). wp_multisend_loop msg ss w1 k1))"

definition wp_multisendMessage :: "Socketmessage \<Rightarrow> worker \<Rightarrow> kern \<Rightarrow> (worker \<times> kern) res" where
  "wp_multisendMessage msg w k =
     assertE (sm_payload_len msg > 0)
       (bindE (wp_multisend_loop msg [0..wp_maxfd w] w k) (\<lambda>r. bindE (releaseMessage msg) (\<lambda>_. Inr r)))"

section \<open>Policing\<close>

definition silence_expired :: "u64 \<Rightarrow> sock \<Rightarrow> worker \<Rightarrow> bool" where
  "silence_expired nowtime so w \<longleftrightarrow>
     wp_opt BUNDLE_SOL_SILENCE_SECOND w > 0 \<and> nowtime - so_lastSecond so \<ge> wp_opt BUNDLE_SOL_SILENCE_SECOND w"

definition message_overflow :: "u64 \<Rightarrow> sock \<Rightarrow> worker \<Rightarrow> bool" where
  "message_overflow nowtime so w \<longleftrightarrow>
     wp_opt BUNDLE_SOL_THRESHOLD_MESSAGE w > 0 \<and> wp_opt BUNDLE_SOL_THRESHOLD_INTERVAL w > 0 \<and>
     unat (so_recentMessage nowtime (ucast (wp_opt BUNDLE_SOL_THRESHOLD_INTERVAL w)) so)
       > unat (wp_opt BUNDLE_SOL_THRESHOLD_MESSAGE w)"

fun wp_check_loop :: "u64 \<Rightarrow> SOCKET list \<Rightarrow> worker \<Rightarrow> kern \<Rightarrow> (worker \<times> kern) res" where
  "wp_check_loop nowtime [] w k = Inr (w, k)"
| "wp_check_loop nowtime (s # ss) w k =
     bindE (GET_SOCKET s w) (\<lambda>p.
       case p of
         None \<Rightarrow> wp_check_loop nowtime ss w k
       | Some so \<Rightarrow>
           if so_listening so then wp_check_loop nowtime ss w k
           else if silence_expired nowtime so w \<or> message_overflow nowtime so w
           then bindE (wp_removeSocket s w k) (\<lambda>(w1, k1). wp_check_loop nowtime ss w1 k1)
           else wp_check_loop nowtime ss w k)"

definition wp_checkSocket :: "u64 \<Rightarrow> worker \<Rightarrow> kern \<Rightarrow> (worker \<times> kern) res" where
  "wp_checkSocket nowtime w k =
     (if wp_opt BUNDLE_SOL_SILENCE_SECOND w > 0 \<or> wp_opt BUNDLE_SOL_THRESHOLD_MESSAGE w > 0
      then wp_check_loop nowtime [0..wp_maxfd w] w k else Inr (w, k))"

section \<open>Commands\<close>

definition wp_handle_one :: "u64 \<Rightarrow> Socketmessage \<Rightarrow> worker \<Rightarrow> kern \<Rightarrow> (worker \<times> kern) res" where
  "wp_handle_one nowtime msg w k =
     assertE (sm_magic msg = MAGIC)
       (if sm_s msg = -1 then wp_multisendMessage msg w k
        else if sm_opcode msg = SM_OPCODE_CLOSE then wp_removeSocket (sm_s msg) w k
        else if sm_opcode msg = SM_OPCODE_MESSAGE then wp_sendMessage (sm_s msg) msg w k
        else if sm_opcode msg = SM_OPCODE_NEW_SOCKET then wp_newSocket nowtime (sm_s msg) False w k
        else if sm_opcode msg = SM_OPCODE_NEW_LISTENING then wp_newSocket nowtime (sm_s msg) True w k
        else if sm_opcode msg = SM_OPCODE_SOL then
          (if 0 \<le> sm_s msg \<and> nat (sm_s msg) < length (wp_opts w)
           then Inr (w\<lparr>wp_opts := (wp_opts w)[nat (sm_s msg) := ucast (sm_payload_len msg)]\<rparr>, k)
           else Inl HeapOverrun)
        else Inl AssertFailed)"

text \<open>The loop takes the front of the queue until the queue is empty.\<close>

fun wp_handle_loop :: "u64 \<Rightarrow> Socketmessage list \<Rightarrow> worker \<Rightarrow> kern \<Rightarrow> (worker \<times> kern) res" where
  "wp_handle_loop nowtime [] w k = Inr (w, k)"
| "wp_handle_loop nowtime (msg # q) w k =
     bindE (wp_handle_one nowtime msg (w\<lparr>wp_sendQueue := q\<rparr>) k) (\<lambda>(w1, k1). wp_handle_loop nowtime q w1 k1)"

definition wp_handleMessage :: "u64 \<Rightarrow> worker \<Rightarrow> kern \<Rightarrow> (worker \<times> kern) res" where
  "wp_handleMessage nowtime w k = wp_handle_loop nowtime (wp_sendQueue w) w k"

section \<open>Events\<close>

fun wp_accept_loop :: "accept_result list \<Rightarrow> Socketmessage list \<Rightarrow> (Socketmessage list \<times> accept_result list) res" where
  "wp_accept_loop [] q = Inr (q, [])"
| "wp_accept_loop (A_again # rest) q = Inr (q, rest)"
| "wp_accept_loop (A_error # rest) q = Inr (q, rest)"
| "wp_accept_loop (A_interrupted # rest) q = wp_accept_loop rest q"
| "wp_accept_loop (A_conn newfd # rest) q =
     assertE (0 \<le> newfd \<and> newfd < MAX_CONNECTION_FD)
       (wp_accept_loop rest (q @ [allocateMessage newfd SM_OPCODE_NEW_SOCKET]))"

definition wp_acceptSocket :: "sock \<Rightarrow> worker \<Rightarrow> kern \<Rightarrow> (worker \<times> kern) res" where
  "wp_acceptSocket so w k =
     assertE (so_listening so)
       (if wp_stop w then Inr (w, k)
        else bindE (wp_accept_loop (k_accept k (so_fd so)) (wp_recvQueue w)) (\<lambda>(q, rest).
          Inr (w\<lparr>wp_recvQueue := q\<rparr>, k\<lparr>k_accept := (k_accept k)(so_fd so := rest)\<rparr>)))"

text \<open>A read that does not end would be \<open>None\<close>.\<close>

definition wp_readConnection :: "MESSAGE_SPLITER \<Rightarrow> u64 \<Rightarrow> sock \<Rightarrow> worker \<Rightarrow> kern \<Rightarrow> (bool \<times> worker \<times> kern) res option" where
  "wp_readConnection split nowtime so w k =
     (if wp_stop w then Some (Inr (False, w, k))
      else map_option (\<lambda>r.
        bindE r (\<lambda>(rc, so1, es, q).
          let w1 = w\<lparr>wp_sockets := (wp_sockets w)(so_fd so \<mapsto> so1), wp_recvQueue := q\<rparr>;
              k1 = k\<lparr>k_in := (k_in k)(so_fd so := es)\<rparr>
          in if rc then Inr (True, w1, k1)
             else bindE (wp_removeSocket (so_fd so) w1 k1) (\<lambda>(w2, k2). Inr (False, w2, k2))))
        (so_readAll split nowtime so (k_in k (so_fd so)) (wp_recvQueue w)))"

definition wp_readSocket :: "MESSAGE_SPLITER \<Rightarrow> u64 \<Rightarrow> SOCKET \<Rightarrow> worker \<Rightarrow> kern \<Rightarrow> (bool \<times> worker \<times> kern) res option" where
  "wp_readSocket split nowtime s w k =
     (case GET_SOCKET s w of
        Inl e \<Rightarrow> Some (Inl e)
      | Inr None \<Rightarrow> Some (Inr (False, w, k))
      | Inr (Some so) \<Rightarrow>
          if so_listening so then Some (bindE (wp_acceptSocket so w k) (\<lambda>(w1, k1). Inr (True, w1, k1)))
          else wp_readConnection split nowtime so w k)"

definition wp_writeSocket :: "SOCKET \<Rightarrow> worker \<Rightarrow> kern \<Rightarrow> (bool \<times> worker \<times> kern) res" where
  "wp_writeSocket s w k =
     bindE (GET_SOCKET s w) (\<lambda>p.
       case p of
         None \<Rightarrow> Inr (False, w, k)
       | Some so \<Rightarrow>
           if so_listening so then Inr (False, w, k)
           else bindE (so_pump (k_send k s) so []) (\<lambda>r. wp_after_send s r w k))"

definition wp_errorSocket :: "SOCKET \<Rightarrow> worker \<Rightarrow> kern \<Rightarrow> (worker \<times> kern) res" where
  "wp_errorSocket s w k =
     bindE (GET_SOCKET s w) (\<lambda>p. case p of None \<Rightarrow> Inr (w, k) | Some so \<Rightarrow> wp_removeSocket s w k)"

record epoll_event =
  ev_fd :: SOCKET
  ev_err :: bool
  ev_rdhup :: bool
  ev_in :: bool
  ev_out :: bool

definition poll_event :: "MESSAGE_SPLITER \<Rightarrow> u64 \<Rightarrow> epoll_event \<Rightarrow> worker \<Rightarrow> kern \<Rightarrow> (worker \<times> kern) res option" where
  "poll_event split nowtime ee w k =
     (if ev_err ee \<or> ev_rdhup ee then Some (wp_errorSocket (ev_fd ee) w k)
      else case (if ev_in ee then wp_readSocket split nowtime (ev_fd ee) w k else Some (Inr (True, w, k))) of
        None \<Rightarrow> None
      | Some (Inl e) \<Rightarrow> Some (Inl e)
      | Some (Inr (rc, w1, k1)) \<Rightarrow>
          if ev_out ee \<and> rc
          then Some (bindE (wp_writeSocket (ev_fd ee) w1 k1) (\<lambda>(rc2, w2, k2). Inr (w2, k2)))
          else Some (Inr (w1, k1)))"

fun poll_run :: "MESSAGE_SPLITER \<Rightarrow> u64 \<Rightarrow> epoll_event list \<Rightarrow> worker \<Rightarrow> kern \<Rightarrow> (worker \<times> kern) res option" where
  "poll_run split nowtime [] w k = Some (Inr (w, k))"
| "poll_run split nowtime (ee # ees) w k =
     (case poll_event split nowtime ee w k of
        None \<Rightarrow> None
      | Some (Inl e) \<Rightarrow> Some (Inl e)
      | Some (Inr (w1, k1)) \<Rightarrow> poll_run split nowtime ees w1 k1)"

text \<open>One turn of the thread's loop.\<close>

definition wp_turn :: "MESSAGE_SPLITER \<Rightarrow> u64 \<Rightarrow> epoll_event list \<Rightarrow> worker \<Rightarrow> kern \<Rightarrow> (worker \<times> kern) res option" where
  "wp_turn split nowtime ees w k =
     (if wp_stop w then Some (Inr (w, k))
      else case bindE (wp_checkSocket nowtime w k) (\<lambda>(w1, k1). wp_handleMessage nowtime w1 k1) of
        Inl e \<Rightarrow> Some (Inl e)
      | Inr (w2, k2) \<Rightarrow> poll_run split nowtime ees w2 k2)"

section \<open>The side of the other threads\<close>

definition wp_push :: "Socketmessage \<Rightarrow> worker \<Rightarrow> worker" where
  "wp_push msg w = w\<lparr>wp_sendQueue := wp_sendQueue w @ [msg]\<rparr>"

definition wp_addSocket :: "SOCKET \<Rightarrow> bool \<Rightarrow> worker \<Rightarrow> worker" where
  "wp_addSocket s is_listening w =
     wp_push (allocateMessage s (if is_listening then SM_OPCODE_NEW_LISTENING else SM_OPCODE_NEW_SOCKET)) w"

definition wp_closeSocket :: "SOCKET \<Rightarrow> worker \<Rightarrow> worker" where
  "wp_closeSocket s w = wp_push (allocateMessage s SM_OPCODE_CLOSE) w"

definition wp_pushMessage :: "SOCKET \<Rightarrow> Socketmessage \<Rightarrow> worker \<Rightarrow> worker" where
  "wp_pushMessage s msg w = wp_push (msg\<lparr>sm_s := s\<rparr>) w"

definition wp_pushPayload :: "SOCKET \<Rightarrow> bytes \<Rightarrow> worker \<Rightarrow> worker res" where
  "wp_pushPayload s payload w =
     assertE (length payload > 0) (Inr (wp_push (allocateMessage_payload s SM_OPCODE_MESSAGE payload) w))"

text \<open>
  The option value is copied into a \<^verbatim>\<open>size_t\<close> and travels as the length of a payload that
  is never written: \<open>memory\<close> is what the allocation of that many bytes contains.
\<close>

definition wp_setsockopt :: "int \<Rightarrow> bytes option \<Rightarrow> bytes \<Rightarrow> worker \<Rightarrow> bool \<times> worker" where
  "wp_setsockopt opt optval memory w =
     (if \<not> (opt > 0 \<and> opt < int BUNDLE_SOL_MAX) then (False, w)
      else case optval of
        None \<Rightarrow> (False, w)
      | Some bs \<Rightarrow>
          if length bs > 8 then (False, w)
          else (True, wp_push (allocateMessage_len opt SM_OPCODE_SOL (unat (le_word bs :: u64)) memory) w))"

fun wp_clean_queue :: "Socketmessage list \<Rightarrow> kern \<Rightarrow> kern res" where
  "wp_clean_queue [] k = Inr k"
| "wp_clean_queue (msg # q) k =
     assertE (sm_magic msg = MAGIC)
       (wp_clean_queue q (if sm_opcode msg = SM_OPCODE_NEW_SOCKET then os_close (sm_s msg) k else k))"

fun wp_delete_loop :: "SOCKET list \<Rightarrow> worker \<Rightarrow> kern \<Rightarrow> (worker \<times> kern) res" where
  "wp_delete_loop [] w k = Inr (w, k)"
| "wp_delete_loop (s # ss) w k =
     (case wp_sockets w s of
        None \<Rightarrow> wp_delete_loop ss w k
      | Some so \<Rightarrow> bindE (so_delete so k) (\<lambda>k1.
          wp_delete_loop ss (w\<lparr>wp_sockets := (wp_sockets w)(s := None)\<rparr>) k1))"

definition wp_stopWorker :: "worker \<Rightarrow> kern \<Rightarrow> (worker \<times> kern) res" where
  "wp_stopWorker w k =
     (if wp_stop w then Inr (w, k)
      else bindE (wp_delete_loop [0..MAX_CONNECTION_FD - 1] (w\<lparr>wp_stop := True\<rparr>) k) (\<lambda>(w1, k1).
           bindE (wp_clean_queue (wp_sendQueue w1) k1) (\<lambda>k2.
             Inr (w1\<lparr>wp_sendQueue := [], wp_poll := {}\<rparr>, k2))))"

section \<open>What the operations leave alone\<close>

definition same_sock :: "sock \<Rightarrow> sock \<Rightarrow> bool" where
  "same_sock so so' \<longleftrightarrow> so_fd so' = so_fd so \<and> so_listening so' = so_listening so"

lemma same_sock_refl [simp]: "same_sock so so"
  by (simp add: same_sock_def)

lemma same_sock_trans: "same_sock so so1 \<Longrightarrow> same_sock so1 so2 \<Longrightarrow> same_sock so so2"
  by (simp add: same_sock_def)

lemma same_sock_update [simp]:
  "same_sock so (so\<lparr>so_rbuffer := rb\<rparr>)" "same_sock so (so\<lparr>so_wbuffer := wb\<rparr>)" "same_sock so (so\<lparr>so_sendlist := l\<rparr>)"
  "same_sock so (so\<lparr>so_sendlist := l, so_wbuffer := wb\<rparr>)" "same_sock so (so_receivedMessage t so)"
  by (simp_all add: same_sock_def so_receivedMessage_def Let_def)

lemma so_pump_same: "okE (\<lambda>(rc, so', out, rest). same_sock so so') (so_pump script so wire)"
proof (induction script arbitrary: so wire)
  case Nil
  show ?case
    by (subst so_pump.simps) (auto simp: Let_def intro!: okE_bind_pure split: list.splits)
next
  case (Cons a rest)
  have IH: "same_sock so so1 \<Longrightarrow> okE (\<lambda>(rc, so', out, rest). same_sock so so') (so_pump rest so1 out)" for so1 out
    using Cons.IH by (rule okE_mono) (auto intro: same_sock_trans)
  show ?case
    by (subst so_pump.simps, rule okE_bind_pure)
      (auto simp: Let_def intro!: okE_bind_pure IH split: list.splits send_result.splits)
qed

lemma so_splitMessage_same:
  "okE (\<lambda>(rc, p, so'). same_sock so so' \<and> pred_option (\<lambda>m. sm_s m = so_fd so \<and> sm_opcode m = SM_OPCODE_MESSAGE) p)
     (so_splitMessage split so)"
  by (auto simp: so_splitMessage_def Let_def allocateMessage_payload_def intro!: okE_bind_pure)

lemma so_receiveMessage_same:
  "okE (\<lambda>(rc, p, so', es'). same_sock so so' \<and> pred_option (\<lambda>m. sm_s m = so_fd so \<and> sm_opcode m = SM_OPCODE_MESSAGE) p)
     (so_receiveMessage split nowtime so es)"
proof (induction split nowtime so es rule: so_receiveMessage.induct)
  case (1 split nowtime so es)
  show ?case
  proof (cases "so_splitMessage split so")
    case (Inr r)
    obtain rc p so1 where r: "r = (rc, p, so1)" by (cases r)
    have s: "same_sock so so1" "pred_option (\<lambda>m. sm_s m = so_fd so \<and> sm_opcode m = SM_OPCODE_MESSAGE) p"
      using so_splitMessage_same [of so split] Inr r by simp_all
    let ?so2 = "so1\<lparr>so_rbuffer := bb_reserve readlen (so_rbuffer so1)\<rparr>"
    have IH: "okE (\<lambda>(rc, p, so', es'). same_sock so so' \<and> pred_option (\<lambda>m. sm_s m = so_fd so \<and> sm_opcode m = SM_OPCODE_MESSAGE) p)
        (so_receiveMessage split nowtime (?so2\<lparr>so_rbuffer := rb\<rparr>) es')"
      if "rc" "p = None" "net_recv readlen es = (R_data d, es')"
        "bindE (bb_copy_in d (so_rbuffer ?so2)) (bb_wlength (length d)) = Inr rb" for d es' rb
    proof -
      have "okE (\<lambda>(rc, p, so', es'). same_sock (?so2\<lparr>so_rbuffer := rb\<rparr>) so' \<and>
          pred_option (\<lambda>m. sm_s m = so_fd (?so2\<lparr>so_rbuffer := rb\<rparr>) \<and> sm_opcode m = SM_OPCODE_MESSAGE) p)
        (so_receiveMessage split nowtime (?so2\<lparr>so_rbuffer := rb\<rparr>) es')"
        using that by (intro "1.IH" [OF Inr r [symmetric] refl _ _ refl]) (auto simp: r)
      then show ?thesis by (rule okE_mono) (use s in \<open>auto simp: same_sock_def\<close>)
    qed
    show ?thesis
      using s Inr r IH by (subst so_receiveMessage.simps)
        (auto simp: Let_def same_sock_def so_receivedMessage_def split: prod.splits option.splits recv_result.splits sum.splits)
  qed (simp add: so_receiveMessage.simps [of split nowtime so es])
qed

definition read_ok :: "sock \<Rightarrow> Socketmessage list \<Rightarrow> bool \<times> sock \<times> net_event list \<times> Socketmessage list \<Rightarrow> bool" where
  "read_ok so q r \<longleftrightarrow> (case r of (rc, so', es', q') \<Rightarrow> same_sock so so' \<and>
     (\<exists>fs. q' = q @ fs \<and> (\<forall>m\<in>set fs. sm_s m = so_fd so \<and> sm_opcode m = SM_OPCODE_MESSAGE)))"

lemma read_ok_snoc:
  "read_ok so1 (q @ [m]) r \<Longrightarrow> same_sock so so1 \<Longrightarrow> sm_s m = so_fd so \<Longrightarrow> sm_opcode m = SM_OPCODE_MESSAGE \<Longrightarrow> read_ok so q r"
  by (force simp: read_ok_def same_sock_def)

lemma so_readAll_same:
  assumes "so_readAll split nowtime so es q = Some r"
  shows "okE (read_ok so q) r"
proof (rule so_readAll.raw_induct [where P = "\<lambda>_ _ so _ q. okE (read_ok so q)", OF _ assms])
  fix rec split nowtime so es q r
  assume IH: "\<And>split nowtime so es q r. rec split nowtime so es q = Some r \<Longrightarrow> okE (read_ok so q) r"
    and eq: "(case so_receiveMessage split nowtime so es of Inl e \<Rightarrow> Some (Inl e)
      | Inr (rc, msg, so1, es1) \<Rightarrow> if \<not> rc then Some (Inr (False, so1, es1, q))
          else (case msg of None \<Rightarrow> Some (Inr (True, so1, es1, q)) | Some m \<Rightarrow> rec split nowtime so1 es1 (q @ [m]))) = Some r"
  note same = so_receiveMessage_same [of so split nowtime es]
  show "okE (read_ok so q) r"
  proof (cases "\<exists>m so1 es1. so_receiveMessage split nowtime so es = Inr (True, Some m, so1, es1)")
    case True
    then obtain m so1 es1 where r: "so_receiveMessage split nowtime so es = Inr (True, Some m, so1, es1)" by blast
    with eq have "rec split nowtime so1 es1 (q @ [m]) = Some r" by simp
    from IH [OF this] show ?thesis
      by (rule okE_mono) (use same r in \<open>auto intro: read_ok_snoc\<close>)
  next
    case False
    with eq same show ?thesis
      by (auto simp: read_ok_def split: sum.splits if_splits option.splits prod.splits)
  qed
qed

section \<open>Sessions\<close>

text \<open>
  The automaton of one descriptor: whether it is open after a history, \<open>None\<close> if the history
  is not a sequence of sessions. Announcements of new connections do not belong to any
  session; the accepting thread makes them before a worker knows the descriptor.
\<close>

definition session_step :: "SOCKET \<Rightarrow> bool option \<Rightarrow> Socketmessage \<Rightarrow> bool option" where
  "session_step fd st m =
     (if sm_s m \<noteq> fd \<or> sm_opcode m = SM_OPCODE_NEW_SOCKET then st
      else case st of
        None \<Rightarrow> None
      | Some open_now \<Rightarrow>
          if sm_opcode m = SM_OPCODE_ESTABLISH then (if open_now then None else Some True)
          else if sm_opcode m = SM_OPCODE_MESSAGE then (if open_now then Some True else None)
          else if sm_opcode m = SM_OPCODE_CLOSE then (if open_now then Some False else None)
          else None)"

definition session :: "SOCKET \<Rightarrow> Socketmessage list \<Rightarrow> bool option" where
  "session fd log = fold (\<lambda>m st. session_step fd st m) log (Some False)"

lemma session_Nil [simp]: "session fd [] = Some False"
  by (simp add: session_def)

lemma session_snoc [simp]: "session fd (log @ [m]) = session_step fd (session fd log) m"
  by (simp add: session_def)

lemma session_messages:
  "\<forall>m\<in>set ms. sm_s m = s \<and> sm_opcode m = SM_OPCODE_MESSAGE \<Longrightarrow> session s log = Some True \<Longrightarrow>
     session fd (log @ ms) = session fd log"
proof (induction ms rule: rev_induct)
  case (snoc m ms)
  then have IH: "session fd (log @ ms) = session fd log" and "session s log = Some True" by simp_all
  with snoc.prems show ?case
    by (auto simp flip: append_assoc simp: session_step_def)
qed simp

lemma session_announce: "sm_opcode m = SM_OPCODE_NEW_SOCKET \<Longrightarrow> session fd (log @ [m]) = session fd log"
  by (simp add: session_step_def)

definition wp_polled :: "worker \<Rightarrow> bool" where
  "wp_polled w \<longleftrightarrow> wp_poll w - set (wp_ctl_errors w) = dom (wp_sockets w) - set (wp_ctl_errors w) \<and>
     wp_poll w \<subseteq> insert 0 (dom (wp_sockets w))"

definition wp_table :: "worker \<Rightarrow> bool" where
  "wp_table w \<longleftrightarrow> dom (wp_sockets w) \<subseteq> {0..<MAX_CONNECTION_FD} \<and> wp_maxfd w < MAX_CONNECTION_FD \<and>
     (\<forall>s \<in> dom (wp_sockets w). s \<le> wp_maxfd w) \<and>
     unat (wp_total w) = card (dom (wp_sockets w)) \<and>
     (\<forall>s so. wp_sockets w s = Some so \<longrightarrow> so_fd so = s) \<and>
     wp_polled w \<and> length (wp_opts w) = BUNDLE_SOL_MAX"

definition wp_inv :: "worker \<Rightarrow> bool" where
  "wp_inv w \<longleftrightarrow> wp_table w \<and> (\<forall>fd. session fd (wp_recvQueue w) = Some (fd \<in> dom (wp_sockets w)))"

lemma wp_inv_new: "wp_inv wp_new"
  by (simp add: wp_inv_def wp_table_def wp_polled_def wp_new_def MAX_CONNECTION_FD_def)

lemma wp_polled_frame [simp]:
  "wp_polled (w\<lparr>wp_sendQueue := q\<rparr>) = wp_polled w" "wp_polled (w\<lparr>wp_recvQueue := q\<rparr>) = wp_polled w"
  "wp_polled (w\<lparr>wp_ctl := rcs\<rparr>) = wp_polled w" "wp_polled (w\<lparr>wp_opts := os\<rparr>) = wp_polled w"
  by (simp_all add: wp_polled_def)

lemma wp_polled_update: "wp_polled w \<Longrightarrow> wp_sockets w s = Some so \<Longrightarrow> wp_polled (w\<lparr>wp_sockets := (wp_sockets w)(s \<mapsto> so')\<rparr>)"
  by (simp add: wp_polled_def insert_absorb domI)

lemma wp_inv_queue [simp]: "wp_inv (w\<lparr>wp_sendQueue := q\<rparr>) = wp_inv w"
  by (simp add: wp_inv_def wp_table_def)

lemma wp_inv_ctl [simp]: "wp_inv (w\<lparr>wp_ctl := rcs\<rparr>) = wp_inv w"
  by (simp add: wp_inv_def wp_table_def)

lemma wp_inv_update:
  "wp_inv w \<Longrightarrow> wp_sockets w s = Some so \<Longrightarrow> same_sock so so' \<Longrightarrow>
     wp_inv (w\<lparr>wp_sockets := (wp_sockets w)(s \<mapsto> so')\<rparr>)"
  by (auto simp: wp_inv_def wp_table_def same_sock_def wp_polled_update insert_absorb domI)

lemma wp_inv_log:
  "wp_inv w \<Longrightarrow> (\<And>fd. session fd q = session fd (wp_recvQueue w)) \<Longrightarrow> wp_inv (w\<lparr>wp_recvQueue := q\<rparr>)"
  by (simp add: wp_inv_def wp_table_def)

lemma wp_table_range:
  "wp_table w \<Longrightarrow> wp_sockets w s = Some so \<Longrightarrow> 0 \<le> s \<and> s < MAX_CONNECTION_FD \<and> s \<le> wp_maxfd w"
  by (force simp: wp_table_def dom_def)

lemma wp_table_finite: "wp_table w \<Longrightarrow> finite (dom (wp_sockets w))"
  by (auto simp: wp_table_def intro: finite_subset)

lemma wp_table_card: "wp_table w \<Longrightarrow> card (dom (wp_sockets w)) \<le> 65536"
  using card_mono [of "{0..<MAX_CONNECTION_FD}" "dom (wp_sockets w)"]
  by (simp add: wp_table_def MAX_CONNECTION_FD_def)

abbreviation inv_after :: "(worker \<times> kern) res \<Rightarrow> bool" where
  "inv_after r \<equiv> okE (\<lambda>x. wp_inv (fst x)) r"

definition wp_full :: "worker \<Rightarrow> bool" where
  "wp_full w \<longleftrightarrow> wp_opt BUNDLE_SOL_MAXSIZE w \<noteq> 0 \<and> wp_total w \<ge> wp_opt BUNDLE_SOL_MAXSIZE w"

definition wp_opened :: "u64 \<Rightarrow> SOCKET \<Rightarrow> bool \<Rightarrow> worker \<Rightarrow> worker" where
  "wp_opened nowtime s l w =
     (snd (poll_addSocket s w))\<lparr>wp_sockets := (wp_sockets w)(s \<mapsto> (so_new s nowtime)\<lparr>so_listening := l\<rparr>),
       wp_maxfd := max s (wp_maxfd w), wp_recvQueue := wp_recvQueue w @ [allocateMessage s SM_OPCODE_ESTABLISH],
       wp_total := wp_total w + 1\<rparr>"

definition wp_closed :: "SOCKET \<Rightarrow> worker \<Rightarrow> worker" where
  "wp_closed s w =
     (poll_closed s (snd (poll_removeSocket s w)))\<lparr>wp_sockets := (wp_sockets w)(s := None),
       wp_recvQueue := wp_recvQueue w @ [allocateMessage s SM_OPCODE_CLOSE], wp_total := wp_total w - 1\<rparr>"

definition ctl_works :: "worker \<Rightarrow> bool" where
  "ctl_works w \<longleftrightarrow> (case wp_ctl w of [] \<Rightarrow> True | rc # rcs \<Rightarrow> rc)"

lemma epoll_ctl_eq: "epoll_ctl w = (ctl_works w, w\<lparr>wp_ctl := tl (wp_ctl w)\<rparr>)"
  by (cases "wp_ctl w") (auto simp: epoll_ctl_def ctl_works_def intro: worker.equality)

text \<open>What the calls on the poll object do to the worker, whatever the kernel answers.\<close>

lemma poll_add_eq:
  "snd (poll_addSocket s w) = (if ctl_works w \<and> s \<notin> wp_poll w
     then w\<lparr>wp_ctl := tl (wp_ctl w), wp_poll := insert s (wp_poll w)\<rparr>
     else w\<lparr>wp_ctl := tl (wp_ctl w), wp_ctl_errors := wp_ctl_errors w @ [s]\<rparr>)"
  by (simp add: poll_addSocket_def epoll_ctl_eq)

lemma poll_remove_eq:
  "snd (poll_removeSocket s w) = (if ctl_works w \<and> s \<in> wp_poll w
     then w\<lparr>wp_ctl := tl (wp_ctl w), wp_poll := wp_poll w - {s}\<rparr>
     else w\<lparr>wp_ctl := tl (wp_ctl w), wp_ctl_errors := wp_ctl_errors w @ [s]\<rparr>)"
  by (simp add: poll_removeSocket_def epoll_ctl_eq)

lemma poll_add_frame [simp]:
  "wp_sockets (snd (poll_addSocket s w)) = wp_sockets w" "wp_maxfd (snd (poll_addSocket s w)) = wp_maxfd w"
  "wp_sendQueue (snd (poll_addSocket s w)) = wp_sendQueue w" "wp_recvQueue (snd (poll_addSocket s w)) = wp_recvQueue w"
  "wp_stop (snd (poll_addSocket s w)) = wp_stop w" "wp_total (snd (poll_addSocket s w)) = wp_total w"
  "wp_opts (snd (poll_addSocket s w)) = wp_opts w"
  by (simp_all add: poll_add_eq)

lemma poll_remove_frame [simp]:
  "wp_sockets (snd (poll_removeSocket s w)) = wp_sockets w" "wp_maxfd (snd (poll_removeSocket s w)) = wp_maxfd w"
  "wp_sendQueue (snd (poll_removeSocket s w)) = wp_sendQueue w" "wp_recvQueue (snd (poll_removeSocket s w)) = wp_recvQueue w"
  "wp_stop (snd (poll_removeSocket s w)) = wp_stop w" "wp_total (snd (poll_removeSocket s w)) = wp_total w"
  "wp_opts (snd (poll_removeSocket s w)) = wp_opts w"
  by (simp_all add: poll_remove_eq)

lemma poll_closed_frame [simp]:
  "wp_sockets (poll_closed s w) = wp_sockets w" "wp_maxfd (poll_closed s w) = wp_maxfd w"
  "wp_sendQueue (poll_closed s w) = wp_sendQueue w" "wp_recvQueue (poll_closed s w) = wp_recvQueue w"
  "wp_stop (poll_closed s w) = wp_stop w" "wp_total (poll_closed s w) = wp_total w"
  "wp_opts (poll_closed s w) = wp_opts w" "wp_ctl_errors (poll_closed s w) = wp_ctl_errors w"
  by (simp_all add: poll_closed_def)

lemma poll_update [simp]:
  "snd (poll_addSocket t (w\<lparr>wp_sockets := m\<rparr>)) = (snd (poll_addSocket t w))\<lparr>wp_sockets := m\<rparr>"
  "snd (poll_removeSocket t (w\<lparr>wp_sockets := m\<rparr>)) = (snd (poll_removeSocket t w))\<lparr>wp_sockets := m\<rparr>"
  "poll_closed t (w\<lparr>wp_sockets := m\<rparr>) = (poll_closed t w)\<lparr>wp_sockets := m\<rparr>"
  by (simp_all add: poll_add_eq poll_remove_eq poll_closed_def ctl_works_def)

lemma newSocket_eq:
  shows "wp_newSocket nowtime s l w k =
    assertE (0 \<le> s \<and> s < MAX_CONNECTION_FD \<and> wp_sockets w s = None)
      (Inr (if wp_full w then (w, SafeClose s k) else (wp_opened nowtime s l w, k)))"
  by (auto simp: wp_newSocket_def GET_SOCKET_def assertE_def wp_full_def wp_opened_def Let_def push_recv_def max_def)

lemma removeSocket_eq:
  assumes "wp_table w"
  shows "wp_removeSocket s w k =
    assertE (0 \<le> s \<and> s < MAX_CONNECTION_FD)
      (case wp_sockets w s of None \<Rightarrow> Inr (w, k)
       | Some so \<Rightarrow> bindE (so_delete so k) (\<lambda>k1. Inr (wp_closed s w, k1)))"
proof -
  have "wp_total w > 0" if "wp_sockets w s = Some so" for so
  proof -
    have "card (dom (wp_sockets w)) > 0"
      using that wp_table_finite [OF assms] by (auto simp: card_gt_0_iff)
    then show ?thesis using assms by (simp add: wp_table_def word_less_nat_alt)
  qed
  then show ?thesis
    using assms by (auto simp: wp_removeSocket_def GET_SOCKET_def assertE_def wp_closed_def Let_def
        push_recv_def wp_table_def split: option.splits)
qed

lemma wp_opened_polled: "wp_polled w \<Longrightarrow> wp_sockets w s = None \<Longrightarrow> wp_polled (wp_opened nowtime s l w)"
  by (auto simp: wp_polled_def wp_opened_def poll_add_eq)

lemma wp_closed_polled: "wp_polled w \<Longrightarrow> 0 \<le> s \<Longrightarrow> wp_polled (wp_closed s w)"
  by (cases "s = 0") (auto simp: wp_polled_def wp_closed_def poll_remove_eq poll_closed_def)

lemma wp_opened_inv:
  assumes "wp_inv w" and "0 \<le> s" "s < MAX_CONNECTION_FD" "wp_sockets w s = None"
  shows "wp_inv (wp_opened nowtime s l w)"
proof -
  have t: "wp_table w" using assms(1) by (simp add: wp_inv_def)
  have "unat (wp_total w + 1) = Suc (card (dom (wp_sockets w)))"
    using t wp_table_card [OF t] by (subst unat_add_lem [THEN iffD1]) (simp_all add: wp_table_def)
  moreover have "card (insert s (dom (wp_sockets w))) = Suc (card (dom (wp_sockets w)))"
    using assms(4) wp_table_finite [OF t] by (subst card_insert_disjoint) auto
  ultimately have "wp_table (wp_opened nowtime s l w)"
    using assms(2,3) t wp_opened_polled [of w s nowtime l] assms(4)
    by (auto simp: wp_table_def wp_opened_def le_max_iff_disj)
  then show ?thesis
    using assms(1,4) by (auto simp: wp_inv_def wp_opened_def session_step_def allocateMessage_def)
qed

lemma wp_closed_inv:
  assumes "wp_inv w" and "wp_sockets w s = Some so"
  shows "wp_inv (wp_closed s w)"
proof -
  have t: "wp_table w" using assms(1) by (simp add: wp_inv_def)
  have c: "card (dom (wp_sockets w) - {s}) = card (dom (wp_sockets w)) - 1"
    "card (dom (wp_sockets w)) > 0"
    using assms(2) wp_table_finite [OF t] by (auto simp: card_gt_0_iff card_Diff_singleton [OF domI])
  then have "unat (wp_total w - 1) = card (dom (wp_sockets w)) - 1"
    using t by (subst unat_minus_one) (auto simp: wp_table_def)
  moreover have "wp_polled (wp_closed s w)"
    using t wp_table_range [OF t assms(2)] by (intro wp_closed_polled) (simp_all add: wp_table_def)
  ultimately have "wp_table (wp_closed s w)" using c t by (auto simp: wp_table_def wp_closed_def)
  then show ?thesis
    using assms by (auto simp: wp_inv_def wp_closed_def session_step_def allocateMessage_def)
qed

lemma okE_GET_SOCKET:
  "(0 \<le> s \<Longrightarrow> s < MAX_CONNECTION_FD \<Longrightarrow> okE Q (f (wp_sockets w s))) \<Longrightarrow> okE Q (bindE (GET_SOCKET s w) f)"
  by (simp add: GET_SOCKET_def assertE_def)

lemma newSocket_inv: "wp_inv w \<Longrightarrow> inv_after (wp_newSocket nowtime s l w k)"
  by (auto simp: newSocket_eq wp_inv_def [of w] wp_opened_inv intro!: okE_assert)

lemma removeSocket_inv: "wp_inv w \<Longrightarrow> inv_after (wp_removeSocket s w k)"
  by (subst removeSocket_eq)
    (auto simp: wp_inv_def [of w, THEN iffD1] wp_closed_inv intro!: okE_assert okE_bind_pure split: option.splits)

lemma after_send_inv:
  assumes "wp_inv w" and "wp_sockets w s = Some so" and "case r of (rc, so', out, rest) \<Rightarrow> same_sock so so'"
  shows "okE (\<lambda>x. wp_inv (fst (snd x))) (wp_after_send s r w k)"
  using wp_inv_update [OF assms(1,2)] assms(3)
  by (auto simp: wp_after_send_def Let_def split: prod.splits intro!: okE_bind [OF removeSocket_inv])

lemma sendMessage_inv: "wp_inv w \<Longrightarrow> inv_after (wp_sendMessage s msg w k)"
proof -
  assume inv: "wp_inv w"
  have "inv_after (bindE (wp_after_send s r w k) (\<lambda>(rc, w1, k1). Inr (w1, k1)))"
    if "wp_sockets w s = Some so" "so_sendMessage (Some msg) (k_send k s) so = Inr r" for so r
  proof (rule okE_bind)
    have "case r of (rc, so', out, rest) \<Rightarrow> same_sock so so'"
      using so_pump_same [of "so\<lparr>so_sendlist := so_sendlist so @ [msg]\<rparr>" "k_send k s" "[]"] that(2)
      by (auto simp: so_sendMessage_def fault_simps same_sock_def)
    with inv that(1) show "okE (\<lambda>x. wp_inv (fst (snd x))) (wp_after_send s r w k)" by (rule after_send_inv)
  qed auto
  then show ?thesis
    using inv unfolding wp_sendMessage_def
    by (intro okE_GET_SOCKET) (simp split: option.split, intro allI impI okE_bind_pure [of "so_sendMessage _ _ _"], blast)
qed

lemma multisend_loop_inv: "wp_inv w \<Longrightarrow> inv_after (wp_multisend_loop msg ss w k)"
proof (induction ss arbitrary: w k)
  case (Cons s ss)
  then show ?case
    by (auto intro!: okE_GET_SOCKET okE_bind [OF sendMessage_inv] split: option.splits)
qed simp

lemma multisend_inv: "wp_inv w \<Longrightarrow> inv_after (wp_multisendMessage msg w k)"
  unfolding wp_multisendMessage_def
  by (intro okE_assert okE_bind [OF multisend_loop_inv]) (auto intro!: okE_bind_pure)

lemma check_loop_inv: "wp_inv w \<Longrightarrow> inv_after (wp_check_loop nowtime ss w k)"
proof (induction ss arbitrary: w k)
  case (Cons s ss)
  then show ?case
    by (auto intro!: okE_GET_SOCKET okE_bind [OF removeSocket_inv] split: option.splits)
qed simp

lemma wp_inv_opts: "wp_inv w \<Longrightarrow> wp_inv (w\<lparr>wp_opts := (wp_opts w)[i := v]\<rparr>)"
  by (simp add: wp_inv_def wp_table_def)

lemma handle_one_inv: "wp_inv w \<Longrightarrow> inv_after (wp_handle_one nowtime msg w k)"
  by (simp add: wp_handle_one_def assertE_def multisend_inv removeSocket_inv sendMessage_inv newSocket_inv wp_inv_opts)

lemma handle_loop_inv: "wp_inv w \<Longrightarrow> inv_after (wp_handle_loop nowtime q w k)"
proof (induction q arbitrary: w k)
  case (Cons m q)
  then show ?case by (auto intro!: okE_bind [OF handle_one_inv])
qed simp

lemma accept_loop_session:
  "okE (\<lambda>(q', rest). \<forall>fd. session fd q' = session fd q) (wp_accept_loop as q)"
proof (induction as q rule: wp_accept_loop.induct)
  case (5 newfd rest q)
  then show ?case
    by (auto intro!: okE_assert simp: session_announce allocateMessage_def session_step_def elim!: okE_mono)
qed simp_all

lemma acceptSocket_inv: "wp_inv w \<Longrightarrow> inv_after (wp_acceptSocket so w k)"
  unfolding wp_acceptSocket_def
  by (auto simp: wp_inv_def wp_table_def intro!: okE_assert okE_bind [OF accept_loop_session])

definition inv_ret :: "(bool \<times> worker \<times> kern) res option \<Rightarrow> bool" where
  "inv_ret r \<longleftrightarrow> (case r of None \<Rightarrow> True | Some x \<Rightarrow> okE (\<lambda>x. wp_inv (fst (snd x))) x)"

lemma readConnection_inv:
  assumes "wp_inv w" and "wp_sockets w (so_fd so) = Some so"
  shows "inv_ret (wp_readConnection split nowtime so w k)"
proof (cases "so_readAll split nowtime so (k_in k (so_fd so)) (wp_recvQueue w)")
  case (Some r)
  have upd: "wp_inv (w\<lparr>wp_sockets := (wp_sockets w)(so_fd so \<mapsto> so'), wp_recvQueue := q'\<rparr>)"
    if "read_ok so (wp_recvQueue w) (rc, so', es', q')" for rc so' es' q'
  proof -
    from that obtain fs where fs: "same_sock so so'" "q' = wp_recvQueue w @ fs"
      "\<forall>m\<in>set fs. sm_s m = so_fd so \<and> sm_opcode m = SM_OPCODE_MESSAGE" by (auto simp: read_ok_def)
    have "session (so_fd so) (wp_recvQueue w) = Some True" using assms by (auto simp: wp_inv_def)
    then have "session fd q' = session fd (wp_recvQueue w)" for fd
      using session_messages [OF fs(3)] fs(2) by simp
    with wp_inv_log [OF wp_inv_update [OF assms fs(1)]] show ?thesis by simp
  qed
  from so_readAll_same [OF Some] show ?thesis
    using assms(1) Some unfolding wp_readConnection_def inv_ret_def
    by (auto simp: Let_def upd intro!: okE_bind [of "read_ok so (wp_recvQueue w)"] okE_bind [OF removeSocket_inv])
qed (use assms(1) in \<open>simp add: wp_readConnection_def inv_ret_def\<close>)

lemma wp_inv_fd: "wp_inv w \<Longrightarrow> wp_sockets w s = Some so \<Longrightarrow> so_fd so = s"
  by (simp add: wp_inv_def wp_table_def)

lemma readSocket_inv:
  assumes "wp_inv w"
  shows "inv_ret (wp_readSocket split nowtime s w k)"
proof -
  have "inv_ret (wp_readConnection split nowtime so w k)" if "wp_sockets w s = Some so" for so
    using that readConnection_inv [OF assms, of so] wp_inv_fd [OF assms that] by simp
  moreover have "inv_ret (Some (bindE (wp_acceptSocket so w k) (\<lambda>(w1, k1). Inr (True, w1, k1))))" for so
    unfolding inv_ret_def using assms by (auto intro!: okE_bind [OF acceptSocket_inv])
  ultimately show ?thesis
    using assms unfolding wp_readSocket_def
    by (auto simp: GET_SOCKET_def assertE_def inv_ret_def split: option.splits)
qed

lemma writeSocket_inv: "wp_inv w \<Longrightarrow> okE (\<lambda>x. wp_inv (fst (snd x))) (wp_writeSocket s w k)"
  unfolding wp_writeSocket_def
  by (intro okE_GET_SOCKET) (auto intro!: okE_bind [OF so_pump_same] after_send_inv split: option.splits)

lemma errorSocket_inv: "wp_inv w \<Longrightarrow> inv_after (wp_errorSocket s w k)"
  unfolding wp_errorSocket_def by (intro okE_GET_SOCKET) (auto intro: removeSocket_inv split: option.splits)

lemma poll_event_inv:
  assumes "wp_inv w" and "poll_event split nowtime ee w k = Some r"
  shows "inv_after r"
proof -
  let ?rd = "if ev_in ee then wp_readSocket split nowtime (ev_fd ee) w k else Some (Inr (True, w, k))"
  have rd: "inv_ret ?rd" using assms(1) readSocket_inv by (simp add: inv_ret_def)
  have wr: "inv_after (bindE (wp_writeSocket (ev_fd ee) w1 k1) (\<lambda>(rc2, y). Inr y))" if "wp_inv w1" for w1 k1
    using that by (auto intro!: okE_bind [OF writeSocket_inv])
  from assms(2) rd show ?thesis
    unfolding poll_event_def
    by (auto simp: inv_ret_def assms(1) intro!: errorSocket_inv wr split: if_splits option.splits sum.splits)
qed

lemma poll_run_inv: "wp_inv w \<Longrightarrow> poll_run split nowtime ees w k = Some r \<Longrightarrow> inv_after r"
proof (induction ees arbitrary: w k)
  case (Cons ee ees)
  then show ?case
    by (auto split: option.splits sum.splits dest: poll_event_inv)
qed auto

lemma turn_inv:
  assumes "wp_inv w" and "wp_turn split nowtime ees w k = Some r"
  shows "inv_after r"
proof -
  let ?m = "bindE (wp_checkSocket nowtime w k) (\<lambda>(w1, k1). wp_handleMessage nowtime w1 k1)"
  have m: "inv_after ?m"
    unfolding wp_checkSocket_def wp_handleMessage_def using assms(1)
    by (auto intro!: okE_bind [OF check_loop_inv] handle_loop_inv)
  show ?thesis
  proof (cases "wp_stop w")
    case False
    then have r: "(case ?m of Inl e \<Rightarrow> Some (Inl e) | Inr (w2, k2) \<Rightarrow> poll_run split nowtime ees w2 k2) = Some r"
      using assms(2) unfolding wp_turn_def by (simp only: if_False)
    show ?thesis
      using r m by (cases ?m) (auto simp only: sum.case okE_simps option.inject poll_run_inv split: prod.splits, auto intro: poll_run_inv)
  qed (use assms in \<open>auto simp: wp_turn_def\<close>)
qed

section \<open>All runs of a worker\<close>

text \<open>
  A worker thread takes turns; between them, and in the code between its own accesses to the
  queues, other threads push commands and the operating system moves on; it also decides how
  the coming calls of \<^verbatim>\<open>epoll_ctl\<close> end. Stopping ends it.
\<close>

inductive wp_step :: "MESSAGE_SPLITER \<Rightarrow> worker \<times> kern \<Rightarrow> worker \<times> kern \<Rightarrow> bool" for split where
  turn: "wp_turn split nowtime ees w k = Some (Inr (w', k')) \<Longrightarrow> wp_step split (w, k) (w', k')"
| push: "wp_step split (w, k) (wp_push msg w, k)"
| network: "k_closed k' = k_closed k \<Longrightarrow> wp_step split (w, k) (w, k')"
| epoll: "wp_step split (w, k) (w\<lparr>wp_ctl := rcs\<rparr>, k)"
| halt: "wp_stopWorker w k = Inr (w', k') \<Longrightarrow> wp_step split (w, k) (w', k')"

inductive_cases wp_stepE: "wp_step split (w, k) (w', k')"

definition wp_reachable :: "MESSAGE_SPLITER \<Rightarrow> worker \<times> kern \<Rightarrow> bool" where
  "wp_reachable split wk \<longleftrightarrow> (\<exists>k0. (wp_step split)\<^sup>*\<^sup>* (wp_new, k0) wk)"

lemma delete_loop_stop: "okE (\<lambda>(w', k'). wp_stop w' = wp_stop w) (wp_delete_loop ss w k)"
proof (induction ss arbitrary: w k)
  case (Cons s ss)
  have "okE (\<lambda>(w', k'). wp_stop w' = wp_stop w) (wp_delete_loop ss (w\<lparr>wp_sockets := m\<rparr>) k1)" for m k1
    using Cons [of "w\<lparr>wp_sockets := m\<rparr>" k1] by simp
  with Cons show ?case by (auto intro!: okE_bind_pure split: option.splits)
qed simp

lemma stopWorker_stops: "okE (\<lambda>(w', k'). wp_stop w') (wp_stopWorker w k)"
  unfolding wp_stopWorker_def
  by (auto intro!: okE_bind [OF delete_loop_stop] intro: okE_bind_pure)

lemma step_inv:
  assumes "wp_step split wk wk'" and "\<not> wp_stop (fst wk) \<longrightarrow> wp_inv (fst wk)"
  shows "\<not> wp_stop (fst wk') \<longrightarrow> wp_inv (fst wk')"
  using assms
proof cases
  case (turn nowtime ees w k w' k')
  show ?thesis
  proof (cases "wp_stop w")
    case True
    with turn show ?thesis by (auto simp: wp_turn_def)
  next
    case False
    with turn turn_inv [OF _ turn(3)] assms(2) show ?thesis by simp
  qed
next
  case (halt w k w' k')
  with stopWorker_stops [of w k] show ?thesis by simp
qed (auto simp: wp_push_def)

lemma reachable_inv: "wp_reachable split (w, k) \<Longrightarrow> \<not> wp_stop w \<Longrightarrow> wp_inv w"
proof -
  have "(wp_step split)\<^sup>*\<^sup>* (wp_new, k0) wk \<Longrightarrow> \<not> wp_stop (fst wk) \<longrightarrow> wp_inv (fst wk)" for k0 wk
    by (induction rule: rtranclp_induct) (auto simp: wp_inv_new intro: step_inv [rule_format])
  then show "wp_reachable split (w, k) \<Longrightarrow> \<not> wp_stop w \<Longrightarrow> wp_inv w" by (force simp: wp_reachable_def)
qed

text \<open>
  C4: in every state a running worker reaches, whatever \<^verbatim>\<open>epoll_ctl\<close> answered, the connection
  table and the connection counter agree: the counter is the number of connections, none is
  above the highest descriptor recorded and every entry is the connection of its own
  descriptor. The interest list of the poll object holds exactly the descriptors of the table,
  except those for which a failure of \<^verbatim>\<open>epoll_ctl\<close> was logged; of these it holds none outside the
  table but descriptor 0, which is never closed.
\<close>

theorem worker_table_consistent:
  assumes "wp_reachable split (w, k)" and "\<not> wp_stop w"
  shows "unat (wp_total w) = card (dom (wp_sockets w)) \<and>
    dom (wp_sockets w) \<subseteq> {0..min (wp_maxfd w) (MAX_CONNECTION_FD - 1)} \<and>
    (\<forall>s so. wp_sockets w s = Some so \<longrightarrow> so_fd so = s) \<and>
    wp_poll w - set (wp_ctl_errors w) = dom (wp_sockets w) - set (wp_ctl_errors w) \<and>
    wp_poll w \<subseteq> insert 0 (dom (wp_sockets w))"
proof -
  have t: "wp_table w" using reachable_inv [OF assms] by (simp add: wp_inv_def)
  then show ?thesis using wp_table_range [OF t] by (auto simp: wp_table_def wp_polled_def)
qed

text \<open>
  C3: what a worker reports for a descriptor is a sequence of sessions: it is established
  before its first message, closed exactly once after the last one, and the descriptor has
  an open session exactly while it is in the table. Listeners, refused connections, expired
  ones and failing reads or writes are all included.
\<close>

theorem worker_reports_sessions:
  assumes "wp_reachable split (w, k)" and "\<not> wp_stop w"
  shows "session fd (wp_recvQueue w) = Some (fd \<in> dom (wp_sockets w))"
  using reachable_inv [OF assms] by (simp add: wp_inv_def)

definition kern0 :: kern where
  "kern0 = \<lparr>k_in = (\<lambda>_. []), k_send = (\<lambda>_. []), k_wire = (\<lambda>_. []), k_accept = (\<lambda>_. []), k_closed = []\<rparr>"

text \<open>A worker that was told about the connection 5, after the kernel answered \<^verbatim>\<open>epoll_ctl\<close>.\<close>

definition demo_opened :: "bool list \<Rightarrow> worker" where
  "demo_opened rcs = wp_opened 0 5 False (wp_new\<lparr>wp_ctl := rcs\<rparr>)"

definition demo_worker :: worker where
  "demo_worker = demo_opened []"

lemma demo_turn:
  "wp_turn (\<lambda>_. 0) 0 [] (wp_push (allocateMessage 5 SM_OPCODE_NEW_SOCKET) (wp_new\<lparr>wp_ctl := rcs\<rparr>)) kern0 =
     Some (Inr (demo_opened rcs, kern0))"
proof -
  let ?w = "wp_new\<lparr>wp_ctl := rcs\<rparr>"
  have "\<not> wp_full ?w" by (simp add: wp_full_def wp_opt_def wp_new_def BUNDLE_SOL_MAX_def)
  then have "wp_newSocket 0 5 False ?w kern0 = Inr (demo_opened rcs, kern0)"
    by (simp add: newSocket_eq demo_opened_def MAX_CONNECTION_FD_def) (simp add: wp_new_def)
  moreover have "(wp_push m ?w)\<lparr>wp_sendQueue := []\<rparr> = ?w" "wp_sendQueue (wp_push m ?w) = [m]" for m
    by (simp_all add: wp_push_def wp_new_def)
  ultimately have "wp_handleMessage 0 (wp_push (allocateMessage 5 SM_OPCODE_NEW_SOCKET) ?w) kern0 = Inr (demo_opened rcs, kern0)"
    by (simp add: wp_handleMessage_def wp_handle_one_def allocateMessage_def)
  moreover have "wp_checkSocket 0 (wp_push m ?w) kern0 = Inr (wp_push m ?w, kern0)" for m
    by (simp add: wp_checkSocket_def wp_opt_def wp_push_def wp_new_def BUNDLE_SOL_MAX_def)
  moreover have "\<not> wp_stop (wp_push m ?w)" for m by (simp add: wp_push_def wp_new_def)
  ultimately show ?thesis by (simp add: wp_turn_def)
qed

lemma demo_opened_reachable: "wp_reachable (\<lambda>_. 0) (demo_opened rcs, kern0)" "\<not> wp_stop (demo_opened rcs)"
proof -
  let ?w = "wp_new\<lparr>wp_ctl := rcs\<rparr>"
  have "wp_step (\<lambda>_. 0) (wp_new, kern0) (?w, kern0)" by (rule wp_step.epoll)
  moreover have "wp_step (\<lambda>_. 0) (?w, kern0) (wp_push (allocateMessage 5 SM_OPCODE_NEW_SOCKET) ?w, kern0)" by (rule wp_step.push)
  moreover have "wp_step (\<lambda>_. 0) (wp_push (allocateMessage 5 SM_OPCODE_NEW_SOCKET) ?w, kern0) (demo_opened rcs, kern0)"
    by (rule wp_step.turn [OF demo_turn])
  ultimately show "wp_reachable (\<lambda>_. 0) (demo_opened rcs, kern0)"
    unfolding wp_reachable_def by (meson rtranclp.rtrancl_refl rtranclp.rtrancl_into_rtrancl)
  show "\<not> wp_stop (demo_opened rcs)" by (simp add: demo_opened_def wp_opened_def wp_new_def)
qed

lemmas demo_reachable = demo_opened_reachable [of "[]", folded demo_worker_def]

lemma demo_worker_inv: "wp_inv demo_worker"
  using demo_reachable by (rule reachable_inv)

lemma demo_opened_fields:
  "dom (wp_sockets (demo_opened rcs)) = {5}"
  "set (wp_ctl_errors (demo_opened [])) = {}" "set (wp_ctl_errors (demo_opened [False])) = {5}" "5 \<notin> wp_poll (demo_opened [False])"
  by (simp_all add: demo_opened_def wp_opened_def poll_add_eq ctl_works_def wp_new_def)

theorem worker_table_consistent_witness:
  "wp_poll demo_worker = {5} \<and> unat (wp_total demo_worker) = 1 \<and> unat (wp_total (demo_opened [False])) = 1"
  using worker_table_consistent [OF demo_reachable] worker_table_consistent [OF demo_opened_reachable, of "[False]"]
  by (simp add: demo_worker_def demo_opened_fields)

text \<open>
  a connection whose \<^verbatim>\<open>EPOLL_CTL_ADD\<close> failed stays in the table and is reported as established,
  but nothing is polled for it: nothing it sends will be read.
\<close>

theorem worker_keeps_unpolled_connection:
  "\<exists>w k. wp_reachable (\<lambda>_. 0) (w, k) \<and> \<not> wp_stop w \<and> 5 \<in> dom (wp_sockets w) \<and> 5 \<notin> wp_poll w \<and>
     wp_recvQueue w = [allocateMessage 5 SM_OPCODE_ESTABLISH]"
proof (intro exI conjI)
  show "wp_reachable (\<lambda>_. 0) (demo_opened [False], kern0)" "\<not> wp_stop (demo_opened [False])"
    by (rule demo_opened_reachable)+
  show "wp_recvQueue (demo_opened [False]) = [allocateMessage 5 SM_OPCODE_ESTABLISH]"
    by (simp add: demo_opened_def wp_opened_def wp_new_def)
qed (simp_all add: demo_opened_fields)

theorem worker_reports_sessions_witness:
  "session 5 (wp_recvQueue demo_worker) = Some True \<and> session 6 (wp_recvQueue demo_worker) = Some False"
  using worker_reports_sessions [OF demo_reachable, of 5] worker_reports_sessions [OF demo_reachable, of 6]
  by (simp add: demo_worker_def demo_opened_def wp_opened_def wp_new_def)

section \<open>What policing closes\<close>

definition doomed :: "u64 \<Rightarrow> worker \<Rightarrow> SOCKET \<Rightarrow> bool" where
  "doomed nowtime w s \<longleftrightarrow>
     (case wp_sockets w s of None \<Rightarrow> False
      | Some so \<Rightarrow> \<not> so_listening so \<and> (silence_expired nowtime so w \<or> message_overflow nowtime so w))"

definition releasable :: "worker \<Rightarrow> bool" where
  "releasable w \<longleftrightarrow> (\<forall>s so. wp_sockets w s = Some so \<longrightarrow> (\<forall>m \<in> set (so_sendlist so). sm_magic m = MAGIC))"

lemma release_all_ok: "\<forall>m \<in> set ms. sm_magic m = MAGIC \<Longrightarrow> release_all ms = Inr ()"
  by (induction ms) (simp_all add: releaseMessage_def)

lemma removeSocket_ok:
  assumes "wp_table w" and "releasable w" and "wp_sockets w s = Some so"
  shows "wp_removeSocket s w k = Inr (wp_closed s w, SafeClose (so_fd so) k)"
proof -
  have "0 \<le> s" "s < MAX_CONNECTION_FD" using wp_table_range [OF assms(1,3)] by simp_all
  with assms show ?thesis
    by (simp add: removeSocket_eq so_delete_def releasable_def release_all_ok)
qed

lemma doomed_closed: "s \<noteq> t \<Longrightarrow> doomed nowtime (wp_closed s w) t = doomed nowtime w t"
  by (simp add: doomed_def wp_closed_def silence_expired_def message_overflow_def wp_opt_def split: option.split)

lemma check_loop_spec:
  assumes "wp_inv w" and "releasable w" and "distinct ss" and "set ss \<subseteq> {0..<MAX_CONNECTION_FD}"
  shows "\<exists>w' k'. wp_check_loop nowtime ss w k = Inr (w', k') \<and>
    wp_sockets w' = wp_sockets w |` {s. \<not> (s \<in> set ss \<and> doomed nowtime w s)} \<and>
    wp_recvQueue w' = wp_recvQueue w @ map (\<lambda>s. allocateMessage s SM_OPCODE_CLOSE) (filter (doomed nowtime w) ss)"
  using assms
proof (induction ss arbitrary: w k)
  case (Cons s ss)
  have g: "GET_SOCKET s w = Inr (wp_sockets w s)" using Cons.prems(4) by (simp add: GET_SOCKET_def)
  show ?case
  proof (cases "doomed nowtime w s")
    case True
    then obtain so where so: "wp_sockets w s = Some so" "\<not> so_listening so"
      "silence_expired nowtime so w \<or> message_overflow nowtime so w"
      by (auto simp: doomed_def split: option.splits)
    have rm: "wp_removeSocket s w k = Inr (wp_closed s w, SafeClose (so_fd so) k)"
      using Cons.prems so(1) by (intro removeSocket_ok) (simp_all add: wp_inv_def)
    have "releasable (wp_closed s w)" using Cons.prems(2) by (simp add: releasable_def wp_closed_def)
    with Cons.IH [OF wp_closed_inv [OF Cons.prems(1) so(1)], of "SafeClose (so_fd so) k"] Cons.prems obtain w' k' where
      w': "wp_check_loop nowtime ss (wp_closed s w) (SafeClose (so_fd so) k) = Inr (w', k')"
      "wp_sockets w' = wp_sockets (wp_closed s w) |` {t. \<not> (t \<in> set ss \<and> doomed nowtime (wp_closed s w) t)}"
      "wp_recvQueue w' = wp_recvQueue (wp_closed s w) @
         map (\<lambda>s. allocateMessage s SM_OPCODE_CLOSE) (filter (doomed nowtime (wp_closed s w)) ss)" by auto
    have "s \<noteq> t" if "t \<in> set ss" for t using that Cons.prems(3) by auto
    then have f: "filter (doomed nowtime (wp_closed s w)) ss = filter (doomed nowtime w) ss"
      by (intro filter_cong) (simp_all add: doomed_closed)
    have m: "wp_sockets w' = wp_sockets w |` {t. \<not> (t \<in> set (s # ss) \<and> doomed nowtime w t)}"
      unfolding w'(2) using True doomed_closed [of s _ nowtime w]
      by (auto simp: restrict_map_def wp_closed_def [of s w] fun_eq_iff)
    show ?thesis
      using w'(1,3) m f g so rm True by (simp add: wp_closed_def [of s w])
  next
    case False
    from Cons.IH [OF Cons.prems(1,2), of k] Cons.prems(3,4) obtain w' k' where w': "wp_check_loop nowtime ss w k = Inr (w', k')"
      "wp_sockets w' = wp_sockets w |` {t. \<not> (t \<in> set ss \<and> doomed nowtime w t)}"
      "wp_recvQueue w' = wp_recvQueue w @ map (\<lambda>s. allocateMessage s SM_OPCODE_CLOSE) (filter (doomed nowtime w) ss)" by auto
    have "wp_check_loop nowtime (s # ss) w k = wp_check_loop nowtime ss w k"
      using False g by (auto simp: doomed_def split: option.splits)
    moreover have "{t. \<not> (t \<in> set (s # ss) \<and> doomed nowtime w t)} = {t. \<not> (t \<in> set ss \<and> doomed nowtime w t)}"
      using False by auto
    ultimately show ?thesis using w' False by simp
  qed
qed (simp add: restrict_map_def)

text \<open>
  a round of policing closes exactly the connections that were silent for too long or
  received too many messages, reports each of them once and in ascending order, and never
  touches a listener or any other connection.
\<close>

theorem worker_polices_exactly:
  assumes "wp_inv w" and "releasable w"
  shows "\<exists>w' k'. wp_checkSocket nowtime w k = Inr (w', k') \<and>
    wp_sockets w' = wp_sockets w |` {s. \<not> doomed nowtime w s} \<and>
    wp_recvQueue w' = wp_recvQueue w @ map (\<lambda>s. allocateMessage s SM_OPCODE_CLOSE) (filter (doomed nowtime w) [0..wp_maxfd w])"
proof (cases "wp_opt BUNDLE_SOL_SILENCE_SECOND w > 0 \<or> wp_opt BUNDLE_SOL_THRESHOLD_MESSAGE w > 0")
  case True
  have t: "wp_table w" using assms(1) by (simp add: wp_inv_def)
  have "s \<in> set [0..wp_maxfd w]" if "doomed nowtime w s" for s
    using that wp_table_range [OF t] by (auto simp: doomed_def split: option.splits)
  then have "{s. \<not> (s \<in> set [0..wp_maxfd w] \<and> doomed nowtime w s)} = {s. \<not> doomed nowtime w s}" by auto
  moreover have "set [0..wp_maxfd w] \<subseteq> {0..<MAX_CONNECTION_FD}" using t by (auto simp: wp_table_def)
  ultimately show ?thesis
    using True check_loop_spec [OF assms, of "[0..wp_maxfd w]" nowtime k] by (simp add: wp_checkSocket_def)
next
  case False
  then have "\<not> doomed nowtime w s" for s
    by (auto simp: doomed_def silence_expired_def message_overflow_def split: option.splits)
  then show ?thesis using False by (simp add: wp_checkSocket_def restrict_map_def)
qed

text \<open>
  an option reaches the worker as the length of a message, a 32-bit field: when the
  command has been handled the option holds the low 32 bits of the value that was set.
\<close>

theorem worker_option_is_truncated:
  assumes "0 < opt" "opt < int BUNDLE_SOL_MAX" "length bs \<le> 8"
    and "wp_inv w" "wp_sendQueue w = []"
  shows "\<exists>w1 w2. wp_setsockopt opt (Some bs) memory w = (True, w1) \<and> wp_handleMessage nowtime w1 k = Inr (w2, k) \<and>
    wp_opt (nat opt) w2 = ucast (ucast (le_word bs :: u64) :: u32)"
proof -
  have l: "length (wp_opts w) = BUNDLE_SOL_MAX" using assms(4) by (simp add: wp_inv_def wp_table_def)
  have "(of_nat (unat (le_word bs :: u64)) :: u32) = ucast (le_word bs :: u64)" by simp
  with assms l show ?thesis
    by (auto simp: wp_setsockopt_def wp_push_def wp_handleMessage_def wp_handle_one_def allocateMessage_len_def wp_opt_def)
qed

theorem worker_polices_exactly_witness:
  "\<exists>w' k'. wp_checkSocket 100 (demo_worker\<lparr>wp_opts := (wp_opts demo_worker)[BUNDLE_SOL_SILENCE_SECOND := 60]\<rparr>) kern0 = Inr (w', k') \<and>
    wp_sockets w' 5 = None"
proof -
  let ?w = "demo_worker\<lparr>wp_opts := (wp_opts demo_worker)[BUNDLE_SOL_SILENCE_SECOND := 60]\<rparr>"
  have "wp_inv ?w" using demo_worker_inv by (rule wp_inv_opts)
  moreover have "releasable ?w" by (simp add: releasable_def demo_worker_def demo_opened_def wp_opened_def wp_new_def)
  ultimately obtain w' k' where w': "wp_checkSocket 100 ?w kern0 = Inr (w', k')" "wp_sockets w' = wp_sockets ?w |` {s. \<not> doomed 100 ?w s}"
    using worker_polices_exactly [of ?w 100 kern0] by blast
  have "doomed 100 ?w 5"
    by (simp add: doomed_def demo_worker_def demo_opened_def wp_opened_def wp_new_def silence_expired_def wp_opt_def BUNDLE_SOL_MAX_def so_new_def)
  with w' show ?thesis by auto
qed

theorem worker_option_is_truncated_witness:
  "\<exists>w1 w2. wp_setsockopt 3 (Some [7, 0, 0, 0, 1]) [] demo_worker = (True, w1) \<and> wp_handleMessage 0 w1 kern0 = Inr (w2, kern0) \<and>
    wp_opt 3 w2 = 7"
proof -
  have "wp_sendQueue demo_worker = []" by (simp add: demo_worker_def demo_opened_def wp_opened_def wp_new_def)
  moreover have "ucast (ucast (le_word [7, 0, 0, 0, 1] :: u64) :: u32) = (7 :: u64)" by code_simp
  ultimately show ?thesis
    using worker_option_is_truncated [of 3 "[7, 0, 0, 0, 1]" demo_worker "[]" 0 kern0] demo_worker_inv
    by (simp add: BUNDLE_SOL_MAX_def)
qed

end
