(* ===== verification/Socket_Server.thy ===== *)
theory Socket_Server
  imports Worker_Process
begin

text \<open>
  \<^verbatim>\<open>src/socket/SocketServer.cpp\<close> and \<^verbatim>\<open>SocketClient.cpp\<close>: the two users of worker
  threads. A server routes every command to the worker of its descriptor and hands out the
  reports of all workers; a client owns one worker and reconnects when its connection is
  lost. The read queue shared with the workers holds what was not fetched yet.
\<close>

section \<open>Server\<close>

text \<open>A pointer to a worker: alive, or to an object that was deleted.\<close>

datatype slot = Live worker | Freed

record server =
  ss_workerNumber :: u32
  ss_readQueue :: "Socketmessage list"
  ss_processes :: "slot list"
  ss_fd_listening :: SOCKET
  ss_stop :: bool
  ss_opts :: "u64 list"

definition ss_new :: "u32 \<Rightarrow> server" where
  "ss_new cpus = \<lparr>ss_workerNumber = cpus, ss_readQueue = [], ss_processes = [], ss_fd_listening = -1, ss_stop = True,
     ss_opts = replicate BUNDLE_SOL_MAX 0\<rparr>"

definition ss_setWorkerNumber :: "u32 \<Rightarrow> u32 \<Rightarrow> server \<Rightarrow> bool \<times> server" where
  "ss_setWorkerNumber cpus worker_number ss =
     (if \<not> ss_stop ss then (False, ss)
      else if \<not> worker_number < cpus * 8 then (False, ss)
      else (True, ss\<lparr>ss_workerNumber := worker_number\<rparr>))"

text \<open>Deleting the workers: the loop variable is a copy, the vector keeps its pointers.\<close>

fun delete_slots :: "slot list \<Rightarrow> kern \<Rightarrow> kern res" where
  "delete_slots [] k = Inr k"
| "delete_slots (Live w # slots) k = bindE (wp_stopWorker w k) (\<lambda>(w', k1). delete_slots slots k1)"
| "delete_slots (Freed # slots) k = Inl UseAfterFree"

text \<open>What the operating system answers while a listener is set up.\<close>

record listen_env =
  le_socket :: SOCKET
  le_reuse :: bool
  le_nonblocking :: bool
  le_bind :: bool
  le_listen :: bool

definition ss_start :: "listen_env \<Rightarrow> server \<Rightarrow> kern \<Rightarrow> (bool \<times> server \<times> kern) res" where
  "ss_start env ss k =
     (if \<not> ss_stop ss then Inr (False, ss, k)
      else let k1 = SafeClose (ss_fd_listening ss) k;
               ss1 = ss\<lparr>ss_stop := False, ss_fd_listening := le_socket env\<rparr>
           in if le_socket env < 0 then Inr (False, ss1, k1)
              else if \<not> le_reuse env then Inr (False, ss1, k1)
              else if \<not> le_nonblocking env then Inr (False, ss1, k1)
              else if \<not> le_bind env then Inr (False, ss1, k1)
              else if \<not> le_listen env then Inr (False, ss1, k1)
              else bindE (delete_slots (ss_processes ss1) k1) (\<lambda>k2.
                let master = wp_addSocket (ss_fd_listening ss1) True wp_new
                in Inr (True, ss1\<lparr>ss_processes := Live master # replicate (unat (ss_workerNumber ss1)) (Live wp_new)\<rparr>, k2)))"

text \<open>The descriptor is converted to \<^verbatim>\<open>size_t\<close> before the remainder is taken.\<close>

definition ss_getWorkerProcess :: "SOCKET \<Rightarrow> server \<Rightarrow> nat res" where
  "ss_getWorkerProcess s ss =
     assertE (ss_processes ss \<noteq> [])
       (Inr (if length (ss_processes ss) = 1 then 0
             else nat (s mod 2 ^ 64) mod (length (ss_processes ss) - 1) + 1))"

definition on_worker :: "nat \<Rightarrow> (worker \<Rightarrow> worker) \<Rightarrow> server \<Rightarrow> server res" where
  "on_worker i f ss =
     (case ss_processes ss ! i of
        Freed \<Rightarrow> Inl UseAfterFree
      | Live w \<Rightarrow> Inr (ss\<lparr>ss_processes := (ss_processes ss)[i := Live (f w)]\<rparr>))"

fun ss_receive_loop :: "Socketmessage list \<Rightarrow> server \<Rightarrow> (Socketmessage option \<times> server) res" where
  "ss_receive_loop [] ss = Inr (None, ss\<lparr>ss_readQueue := []\<rparr>)"
| "ss_receive_loop (msg # q) ss =
     assertE (sm_magic msg = MAGIC) (assertE (sm_s msg \<noteq> -1)
       (if sm_opcode msg = SM_OPCODE_ESTABLISH \<or> sm_opcode msg = SM_OPCODE_CLOSE \<or> sm_opcode msg = SM_OPCODE_MESSAGE
        then Inr (Some msg, ss\<lparr>ss_readQueue := q\<rparr>)
        else if sm_opcode msg = SM_OPCODE_NEW_SOCKET then
          bindE (ss_getWorkerProcess (sm_s msg) ss) (\<lambda>i.
          bindE (on_worker i (wp_pushMessage (sm_s msg) msg) ss) (\<lambda>ss1. ss_receive_loop q ss1))
        else Inl AssertFailed))"

definition ss_receiveMessage :: "server \<Rightarrow> (Socketmessage option \<times> server) res" where
  "ss_receiveMessage ss = ss_receive_loop (ss_readQueue ss) ss"

lemma receive_loop_shrinks: "ss_receive_loop q ss = Inr (Some m, ss') \<Longrightarrow> length (ss_readQueue ss') < length q"
proof (induction q arbitrary: ss)
  case (Cons a q)
  then show ?case by (auto simp: fault_simps less_SucI split: if_splits)
qed simp

definition ss_close :: "SOCKET \<Rightarrow> server \<Rightarrow> server res" where
  "ss_close s ss =
     assertE (s \<noteq> -1) (bindE (ss_getWorkerProcess s ss) (\<lambda>i. on_worker i (wp_closeSocket s) ss))"

definition ss_sendPayload :: "SOCKET \<Rightarrow> bytes \<Rightarrow> server \<Rightarrow> server res" where
  "ss_sendPayload s payload ss =
     assertE (s \<noteq> -1) (bindE (ss_getWorkerProcess s ss) (\<lambda>i.
       assertE (length payload > 0)
         (on_worker i (wp_push (allocateMessage_payload s SM_OPCODE_MESSAGE payload)) ss)))"

definition ss_sendMessage :: "SOCKET \<Rightarrow> Socketmessage \<Rightarrow> server \<Rightarrow> server res" where
  "ss_sendMessage s msg ss =
     assertE (s \<noteq> -1) (bindE (ss_getWorkerProcess s ss) (\<lambda>i. on_worker i (wp_pushMessage s msg) ss))"

definition ss_stopServer :: "server \<Rightarrow> kern \<Rightarrow> (server \<times> kern) res" where
  "ss_stopServer ss k =
     (if ss_stop ss then Inr (ss, k)
      else bindE (delete_slots (ss_processes ss) k) (\<lambda>k1.
           bindE (release_all (ss_readQueue ss)) (\<lambda>_.
             Inr (ss\<lparr>ss_stop := True, ss_processes := map (\<lambda>_. Freed) (ss_processes ss), ss_readQueue := [],
                     ss_fd_listening := (if ss_fd_listening ss > 0 then -1 else ss_fd_listening ss)\<rparr>,
                  SafeClose (ss_fd_listening ss) k1))))"

fun ss_size_loop :: "slot list \<Rightarrow> u32 res" where
  "ss_size_loop [] = Inr 0"
| "ss_size_loop (Live w # slots) = bindE (ss_size_loop slots) (\<lambda>n. Inr (ucast (wp_total w) + n))"
| "ss_size_loop (Freed # slots) = Inl UseAfterFree"

definition ss_size :: "server \<Rightarrow> nat res" where
  "ss_size ss = bindE (ss_size_loop (ss_processes ss)) (\<lambda>v. Inr (unat v))"

fun setsockopt_loop :: "int \<Rightarrow> bytes \<Rightarrow> bytes \<Rightarrow> slot list \<Rightarrow> slot list res" where
  "setsockopt_loop opt bs memory [] = Inr []"
| "setsockopt_loop opt bs memory (Live w # slots) =
     bindE (setsockopt_loop opt bs memory slots) (\<lambda>r. Inr (Live (snd (wp_setsockopt opt (Some bs) memory w)) # r))"
| "setsockopt_loop opt bs memory (Freed # slots) = Inl UseAfterFree"

text \<open>The option's bytes beyond \<^verbatim>\<open>optlen\<close> keep their old values in the server's own copy.\<close>

definition ss_setsockopt :: "int \<Rightarrow> bytes option \<Rightarrow> bytes \<Rightarrow> server \<Rightarrow> (bool \<times> server) res" where
  "ss_setsockopt opt optval memory ss =
     (if \<not> (opt > 0 \<and> opt < int BUNDLE_SOL_MAX) then Inr (False, ss)
      else case optval of
        None \<Rightarrow> Inr (False, ss)
      | Some bs \<Rightarrow>
          if length bs > 8 then Inr (False, ss)
          else let old = ss_opts ss ! nat opt; new = le_word (bs @ drop (length bs) (le_bytes old)) :: u64
               in bindE (setsockopt_loop opt bs memory (ss_processes ss)) (\<lambda>slots.
                    Inr (True, ss\<lparr>ss_opts := (ss_opts ss)[nat opt := new], ss_processes := slots\<rparr>)))"

definition ss_getsockopt :: "int \<Rightarrow> nat \<Rightarrow> server \<Rightarrow> bytes option" where
  "ss_getsockopt opt optlen ss =
     (if \<not> (opt > 0 \<and> opt < int BUNDLE_SOL_MAX) then None
      else if optlen > 8 then None
      else Some (take optlen (le_bytes (ss_opts ss ! nat opt))))"

section \<open>Client\<close>

text \<open>The client's pointer to its worker is a member: it is null once the worker was deleted.\<close>

record client =
  sc_worker :: "worker option"
  sc_readQueue :: "Socketmessage list"
  sc_fd :: SOCKET
  sc_stop :: bool
  sc_active :: bool
  sc_in_progress :: bool
  sc_retrying :: bool

definition sc_new :: client where
  "sc_new = \<lparr>sc_worker = Some wp_new, sc_readQueue = [], sc_fd = -1, sc_stop = True, sc_active = False,
     sc_in_progress = False, sc_retrying = False\<rparr>"

text \<open>An attempt: what \<^verbatim>\<open>socket\<close> returns and how \<^verbatim>\<open>connect\<close> ends.\<close>

definition sc_connectServer :: "SOCKET \<Rightarrow> connect_result \<Rightarrow> client \<Rightarrow> bool \<times> client" where
  "sc_connectServer fd r c =
     (if sc_active c then (True, c)
      else if sc_in_progress c then (False, c)
      else let c1 = c\<lparr>sc_in_progress := True, sc_fd := fd\<rparr>
           in if fd < 0 then (False, c1)
              else (connectSignal r, c1\<lparr>sc_in_progress := False\<rparr>))"

definition sc_register :: "client \<Rightarrow> client res" where
  "sc_register c = (case sc_worker c of
     None \<Rightarrow> Inl NullDeref | Some w \<Rightarrow> Inr (c\<lparr>sc_worker := Some (wp_addSocket (sc_fd c) False w)\<rparr>))"

definition sc_connectAsync :: "client \<Rightarrow> client" where
  "sc_connectAsync c = c\<lparr>sc_retrying := True\<rparr>"

definition sc_connect :: "u32 \<Rightarrow> SOCKET \<Rightarrow> connect_result \<Rightarrow> client \<Rightarrow> (bool \<times> client) res" where
  "sc_connect timeout fd r c =
     (if \<not> sc_stop c then Inr (False, c)
      else let c1 = c\<lparr>sc_stop := False\<rparr>
           in if sc_active c1 then Inr (False, c1)
              else if timeout > 0 then
                let (ok, c2) = sc_connectServer fd r c1; c3 = c2\<lparr>sc_active := ok\<rparr>
                in if ok then bindE (sc_register c3) (\<lambda>c4. Inr (True, c4)) else Inr (False, c3)
              else Inr (True, sc_connectAsync c1))"

text \<open>The retry thread over a list of attempts: it ends when it is told to or has a connection.\<close>

fun sc_retry :: "(SOCKET \<times> connect_result) list \<Rightarrow> client \<Rightarrow> kern \<Rightarrow> (client \<times> kern) res" where
  "sc_retry [] c k = Inr (c, k)"
| "sc_retry ((fd, r) # attempts) c k =
     (if sc_stop c \<or> sc_active c then
        bindE (if sc_active c then sc_register c else Inr c) (\<lambda>c1. Inr (c1\<lparr>sc_retrying := False\<rparr>, k))
      else let k1 = SafeClose (sc_fd c) k;
               c1 = (if sc_fd c > 0 then c\<lparr>sc_fd := -1\<rparr> else c);
               (ok, c2) = sc_connectServer fd r c1
           in sc_retry attempts (if ok then c2\<lparr>sc_active := True\<rparr> else c2) k1)"

fun sc_receive_loop :: "Socketmessage list \<Rightarrow> client \<Rightarrow> (Socketmessage option \<times> client) res" where
  "sc_receive_loop [] c = Inr (None, c\<lparr>sc_readQueue := []\<rparr>)"
| "sc_receive_loop (msg # q) c =
     assertE (sm_magic msg = MAGIC) (assertE (sm_s msg \<noteq> -1)
       (if sm_opcode msg = SM_OPCODE_CLOSE then
          Inr (Some msg, (if sm_s msg = sc_fd c then sc_connectAsync (c\<lparr>sc_active := False\<rparr>) else c)\<lparr>sc_readQueue := q\<rparr>)
        else if sm_opcode msg = SM_OPCODE_ESTABLISH \<or> sm_opcode msg = SM_OPCODE_MESSAGE
        then Inr (Some msg, c\<lparr>sc_readQueue := q\<rparr>)
        else Inl AssertFailed))"

definition sc_receiveMessage :: "client \<Rightarrow> (Socketmessage option \<times> client) res" where
  "sc_receiveMessage c = sc_receive_loop (sc_readQueue c) c"

definition sc_sendPayload :: "bytes \<Rightarrow> client \<Rightarrow> client res" where
  "sc_sendPayload payload c = (case sc_worker c of
     None \<Rightarrow> Inl NullDeref
   | Some w \<Rightarrow> bindE (wp_pushPayload (sc_fd c) payload w) (\<lambda>w1. Inr (c\<lparr>sc_worker := Some w1\<rparr>)))"

definition sc_sendMessage :: "Socketmessage \<Rightarrow> client \<Rightarrow> client res" where
  "sc_sendMessage msg c = (case sc_worker c of
     None \<Rightarrow> Inl NullDeref
   | Some w \<Rightarrow> Inr (c\<lparr>sc_worker := Some (wp_pushMessage (sc_fd c) msg w)\<rparr>))"

definition sc_stopClient :: "client \<Rightarrow> kern \<Rightarrow> (client \<times> kern) res" where
  "sc_stopClient c k =
     (if sc_stop c then Inr (c, k)
      else bindE (case sc_worker c of None \<Rightarrow> Inr k | Some w \<Rightarrow> bindE (wp_stopWorker w k) (\<lambda>(w1, k1). Inr k1)) (\<lambda>k1.
           bindE (release_all (sc_readQueue c)) (\<lambda>_.
             Inr (c\<lparr>sc_stop := True, sc_retrying := False, sc_worker := None, sc_readQueue := [],
                    sc_fd := (if sc_fd c > 0 then -1 else sc_fd c)\<rparr>, SafeClose (sc_fd c) k1))))"


section \<open>Routing\<close>

definition route :: "nat \<Rightarrow> SOCKET \<Rightarrow> nat" where
  "route n s = (if n = 1 then 0 else nat (s mod 2 ^ 64) mod (n - 1) + 1)"

definition deliver :: "Socketmessage list \<Rightarrow> slot list \<Rightarrow> slot list" where
  "deliver ms slots = map (\<lambda>i. case slots ! i of Freed \<Rightarrow> Freed
     | Live w \<Rightarrow> Live (w\<lparr>wp_sendQueue := wp_sendQueue w @ filter (\<lambda>m. route (length slots) (sm_s m) = i) ms\<rparr>)) [0..<length slots]"

definition all_live :: "server \<Rightarrow> bool" where
  "all_live ss \<longleftrightarrow> ss_processes ss \<noteq> [] \<and> Freed \<notin> set (ss_processes ss)"

lemma length_deliver [simp]: "length (deliver ms slots) = length slots"
  by (simp add: deliver_def)

lemma nth_deliver:
  "i < length slots \<Longrightarrow> slots ! i = Live w \<Longrightarrow> deliver ms slots ! i =
     Live (w\<lparr>wp_sendQueue := wp_sendQueue w @ filter (\<lambda>m. route (length slots) (sm_s m) = i) ms\<rparr>)"
  by (simp add: deliver_def)

lemma deliver_Nil [simp]: "deliver [] slots = slots"
  by (rule nth_equalityI) (auto simp: deliver_def split: slot.split)

lemma deliver_append: "deliver (ms @ ms') slots = deliver ms' (deliver ms slots)"
  by (rule nth_equalityI) (simp_all add: deliver_def split: slot.split)

lemma route_less: "0 < n \<Longrightarrow> route n s < n"
proof -
  assume "0 < n"
  then consider "n = 1" | "n > 1" by linarith
  then show ?thesis
  proof cases
    case 2
    then have "nat (s mod 2 ^ 64) mod (n - 1) < n - 1" by (intro mod_less_divisor) simp
    then have "nat (s mod 2 ^ 64) mod (n - 1) + 1 < n" by linarith
    moreover have "n \<noteq> 1" using 2 by simp
    ultimately show ?thesis unfolding route_def by (simp only: if_False)
  qed (simp add: route_def)
qed

lemma Freed_deliver [simp]: "Freed \<in> set (deliver ms slots) \<longleftrightarrow> Freed \<in> set slots"
proof -
  have "deliver ms slots ! i = Freed \<longleftrightarrow> slots ! i = Freed" if "i < length slots" for i
    using that by (simp add: deliver_def split: slot.split)
  then show ?thesis by (simp add: in_set_conv_nth cong: conj_cong)
qed

lemma deliver_nonempty [simp]: "deliver ms slots = [] \<longleftrightarrow> slots = []"
  by (metis length_0_conv length_deliver)

lemma all_live_deliver [simp]: "all_live (ss\<lparr>ss_processes := deliver ms (ss_processes ss), ss_readQueue := q\<rparr>) = all_live ss"
  "all_live (ss\<lparr>ss_processes := deliver ms (ss_processes ss)\<rparr>) = all_live ss"
  "all_live (ss\<lparr>ss_readQueue := q\<rparr>) = all_live ss"
  by (simp_all add: all_live_def)

text \<open>Pushing one message is a delivery.\<close>

lemma on_worker_deliver:
  assumes "all_live ss"
  shows "ss_getWorkerProcess s ss = Inr (route (length (ss_processes ss)) s)"
    and "sm_s m = s \<Longrightarrow> on_worker (route (length (ss_processes ss)) s) (wp_push m) ss =
      Inr (ss\<lparr>ss_processes := deliver [m] (ss_processes ss)\<rparr>)"
proof -
  let ?p = "ss_processes ss" let ?i = "route (length ?p) s"
  show "ss_getWorkerProcess s ss = Inr ?i"
    using assms by (simp add: ss_getWorkerProcess_def route_def all_live_def)
  have i: "?i < length ?p" using assms by (intro route_less) (simp add: all_live_def)
  then obtain w where w: "?p ! ?i = Live w"
    using assms by (metis all_live_def nth_mem slot.exhaust)
  assume "sm_s m = s"
  then have "?p[?i := Live (wp_push m w)] = deliver [m] ?p"
    using i w by (intro nth_equalityI) (auto simp: deliver_def nth_list_update wp_push_def split: slot.split)
  with w show "on_worker ?i (wp_push m) ss = Inr (ss\<lparr>ss_processes := deliver [m] ?p\<rparr>)"
    by (simp add: on_worker_def)
qed


text \<open>The commands of the application, and the message each puts into a worker's queue.\<close>

datatype command = Cmd_close SOCKET | Cmd_send SOCKET bytes

fun ss_command :: "command \<Rightarrow> server \<Rightarrow> server res" where
  "ss_command (Cmd_close s) ss = ss_close s ss"
| "ss_command (Cmd_send s payload) ss = ss_sendPayload s payload ss"

fun cmd_message :: "command \<Rightarrow> Socketmessage" where
  "cmd_message (Cmd_close s) = allocateMessage s SM_OPCODE_CLOSE"
| "cmd_message (Cmd_send s payload) = allocateMessage_payload s SM_OPCODE_MESSAGE payload"

fun cmd_ok :: "command \<Rightarrow> bool" where
  "cmd_ok (Cmd_close s) = (s \<noteq> -1)"
| "cmd_ok (Cmd_send s payload) = (s \<noteq> -1 \<and> payload \<noteq> [])"

lemma ss_command_deliver:
  "all_live ss \<Longrightarrow> cmd_ok c \<Longrightarrow> ss_command c ss = Inr (ss\<lparr>ss_processes := deliver [cmd_message c] (ss_processes ss)\<rparr>)"
  by (cases c) (simp_all add: ss_close_def ss_sendPayload_def wp_closeSocket_def [abs_def] on_worker_deliver
      allocateMessage_def allocateMessage_payload_def)

lemma ss_commands_deliver:
  "all_live ss \<Longrightarrow> list_all cmd_ok cs \<Longrightarrow>
     foldE ss_command cs ss = Inr (ss\<lparr>ss_processes := deliver (map cmd_message cs) (ss_processes ss)\<rparr>)"
proof (induction cs arbitrary: ss)
  case (Cons c cs)
  then show ?case
    using deliver_append [of "[cmd_message c]", symmetric] by (simp add: ss_command_deliver)
qed simp

text \<open>
  C7: the commands of an application reach the workers in order and without loss or
  duplication: the queue of every worker grows by exactly the commands for its descriptors.
  All commands for one descriptor go to one worker, which is not the accepting one when
  there are others.
\<close>

theorem server_routes_commands:
  assumes "all_live ss" and "list_all cmd_ok cs"
  shows "\<exists>ss'. foldE ss_command cs ss = Inr ss' \<and> length (ss_processes ss') = length (ss_processes ss) \<and>
    (\<forall>i w. i < length (ss_processes ss) \<longrightarrow> ss_processes ss ! i = Live w \<longrightarrow>
       ss_processes ss' ! i = Live (w\<lparr>wp_sendQueue := wp_sendQueue w @
         filter (\<lambda>m. route (length (ss_processes ss)) (sm_s m) = i) (map cmd_message cs)\<rparr>)) \<and>
    (\<forall>s. route (length (ss_processes ss)) s < length (ss_processes ss) \<and>
       (length (ss_processes ss) > 1 \<longrightarrow> route (length (ss_processes ss)) s > 0))"
proof -
  have "route (length (ss_processes ss)) s < length (ss_processes ss)" for s
    using assms(1) by (intro route_less) (simp add: all_live_def)
  then show ?thesis
    using ss_commands_deliver [OF assms] by (auto simp: nth_deliver route_def)
qed

definition demo_server :: server where
  "demo_server = (ss_new 2)\<lparr>ss_processes := [Live wp_new, Live wp_new, Live wp_new], ss_stop := False,
     ss_readQueue := [allocateMessage 8 SM_OPCODE_NEW_SOCKET, allocateMessage 5 SM_OPCODE_CLOSE]\<rparr>"

lemma demo_server_fields [simp]:
  "ss_processes demo_server = [Live wp_new, Live wp_new, Live wp_new]" "all_live demo_server" "\<not> ss_stop demo_server"
  "ss_readQueue demo_server = [allocateMessage 8 SM_OPCODE_NEW_SOCKET, allocateMessage 5 SM_OPCODE_CLOSE]"
  by (simp_all add: demo_server_def all_live_def)

theorem server_routes_commands_witness:
  "\<exists>ss'. foldE ss_command [Cmd_send 7 [1], Cmd_send 8 [2], Cmd_close 7] demo_server = Inr ss' \<and>
    ss_processes ss' ! 2 = Live (wp_new\<lparr>wp_sendQueue :=
      [allocateMessage_payload 7 SM_OPCODE_MESSAGE [1], allocateMessage 7 SM_OPCODE_CLOSE]\<rparr>)"
proof -
  obtain ss' where *: "foldE ss_command [Cmd_send 7 [1], Cmd_send 8 [2], Cmd_close 7] demo_server = Inr ss'"
    "\<forall>i w. i < length (ss_processes demo_server) \<longrightarrow> ss_processes demo_server ! i = Live w \<longrightarrow>
       ss_processes ss' ! i = Live (w\<lparr>wp_sendQueue := wp_sendQueue w @
         filter (\<lambda>m. route (length (ss_processes demo_server)) (sm_s m) = i) (map cmd_message [Cmd_send 7 [1], Cmd_send 8 [2], Cmd_close 7])\<rparr>)"
    using server_routes_commands [of demo_server "[Cmd_send 7 [1], Cmd_send 8 [2], Cmd_close 7]"] by auto
  have r: "route (Suc (Suc (Suc 0))) 7 = 2" "route (Suc (Suc (Suc 0))) 8 = 1" by code_simp+
  from *(2) [rule_format, of 2 wp_new] show ?thesis
    using *(1) r by (simp add: allocateMessage_payload_def allocateMessage_def wp_new_def)
qed

text \<open>The messages the application sees; the others announce accepted connections.\<close>

definition is_report :: "Socketmessage \<Rightarrow> bool" where
  "is_report m \<longleftrightarrow> sm_opcode m = SM_OPCODE_ESTABLISH \<or> sm_opcode m = SM_OPCODE_CLOSE \<or> sm_opcode m = SM_OPCODE_MESSAGE"

definition is_news :: "Socketmessage \<Rightarrow> bool" where
  "is_news m \<longleftrightarrow> sm_opcode m = SM_OPCODE_NEW_SOCKET"

definition from_worker :: "Socketmessage \<Rightarrow> bool" where
  "from_worker m \<longleftrightarrow> sm_magic m = MAGIC \<and> sm_s m \<noteq> -1 \<and> (is_report m \<or> is_news m)"

lemma receive_loop_spec:
  "all_live ss \<Longrightarrow> list_all from_worker q \<Longrightarrow>
     ss_receive_loop q ss =
       (let news = takeWhile is_news q; rest = dropWhile is_news q;
            ss1 = ss\<lparr>ss_processes := deliver news (ss_processes ss)\<rparr>
        in Inr (case rest of [] \<Rightarrow> (None, ss1\<lparr>ss_readQueue := []\<rparr>) | m # q' \<Rightarrow> (Some m, ss1\<lparr>ss_readQueue := q'\<rparr>)))"
proof (induction q arbitrary: ss)
  case (Cons m q)
  have m: "sm_magic m = MAGIC" "sm_s m \<noteq> -1" "is_report m \<or> is_news m"
    using Cons.prems(2) by (simp_all add: from_worker_def)
  show ?case
  proof (cases "is_news m")
    case True
    have "m\<lparr>sm_s := sm_s m\<rparr> = m" by simp
    then have "wp_pushMessage (sm_s m) m = wp_push m" by (simp add: wp_pushMessage_def [abs_def])
    then have "ss_receive_loop (m # q) ss = ss_receive_loop q (ss\<lparr>ss_processes := deliver [m] (ss_processes ss)\<rparr>)"
      using True m Cons.prems(1) by (simp add: is_news_def on_worker_deliver)
    then show ?thesis
      using Cons True deliver_append [of "[m]", symmetric]
      by (cases "dropWhile is_news q") (simp_all add: Let_def del: dropWhile_eq_Nil_conv)
  next
    case False
    with m show ?thesis by (auto simp: is_report_def Let_def)
  qed
qed simp

text \<open>
  C14: fetching a message returns the first report of the queue and leaves the later ones;
  the announcements of new connections before it have been handed to the workers that will
  serve them, the same workers the commands for these connections go to.
\<close>

theorem server_receives_in_order:
  assumes "all_live ss" and "list_all from_worker (news @ m # q)" and "list_all is_news news" and "is_report m"
    and "ss_readQueue ss = news @ m # q"
  shows "\<exists>ss'. ss_receiveMessage ss = Inr (Some m, ss') \<and> ss_readQueue ss' = q \<and> all_live ss' \<and>
    (\<forall>i w. i < length (ss_processes ss) \<longrightarrow> ss_processes ss ! i = Live w \<longrightarrow>
       ss_processes ss' ! i = Live (w\<lparr>wp_sendQueue := wp_sendQueue w @
         filter (\<lambda>m. route (length (ss_processes ss)) (sm_s m) = i) news\<rparr>))"
proof -
  have "\<not> is_news m" using assms(4) by (auto simp: is_news_def is_report_def)
  then have "takeWhile is_news (news @ m # q) = news" "dropWhile is_news (news @ m # q) = m # q"
    using assms(3) by (simp_all add: takeWhile_append2 dropWhile_append2 list_all_iff)
  then show ?thesis
    using receive_loop_spec [OF assms(1,2)] assms(1,5) by (simp add: ss_receiveMessage_def Let_def nth_deliver)
qed

theorem server_receives_in_order_witness:
  "\<exists>ss'. ss_receiveMessage demo_server = Inr (Some (allocateMessage 5 SM_OPCODE_CLOSE), ss') \<and> ss_readQueue ss' = []"
  using server_receives_in_order [of demo_server "[allocateMessage 8 SM_OPCODE_NEW_SOCKET]" "allocateMessage 5 SM_OPCODE_CLOSE" "[]"]
  by (auto simp: from_worker_def is_news_def is_report_def allocateMessage_def)

section \<open>Restarting\<close>

text \<open>
  a server that was stopped cannot be started again. Stopping deletes the workers but
  keeps the pointers to them in the vector; the next start deletes them a second time.
\<close>

theorem server_restart_deletes_twice:
  assumes "ss_stopServer ss k = Inr (ss1, k1)" and "\<not> ss_stop ss" and "ss_processes ss \<noteq> []"
    and "le_socket env \<ge> 0" "le_reuse env" "le_nonblocking env" "le_bind env" "le_listen env"
  shows "ss_start env ss1 k1 = Inl UseAfterFree"
  using assms by (cases "ss_processes ss") (auto simp: ss_stopServer_def ss_start_def Let_def fault_simps)

lemma stop_fresh_worker: "wp_stopWorker wp_new k = Inr (wp_new\<lparr>wp_stop := True\<rparr>, k)"
proof -
  have "wp_delete_loop ss (wp_new\<lparr>wp_stop := True\<rparr>) k = Inr (wp_new\<lparr>wp_stop := True\<rparr>, k)" for ss
    by (induction ss) (simp_all add: wp_new_def)
  then show ?thesis by (simp add: wp_stopWorker_def) (simp add: wp_new_def)
qed

theorem server_restart_deletes_twice_witness:
  "\<exists>ss1 k1. ss_stopServer demo_server kern0 = Inr (ss1, k1) \<and>
    ss_start \<lparr>le_socket = 3, le_reuse = True, le_nonblocking = True, le_bind = True, le_listen = True\<rparr> ss1 k1 = Inl UseAfterFree"
proof -
  obtain ss1 k1 where "ss_stopServer demo_server kern0 = Inr (ss1, k1)"
    by (auto simp: ss_stopServer_def stop_fresh_worker releaseMessage_def allocateMessage_def)
  with server_restart_deletes_twice [of demo_server kern0 ss1 k1
      "\<lparr>le_socket = 3, le_reuse = True, le_nonblocking = True, le_bind = True, le_listen = True\<rparr>"]
  show ?thesis by auto
qed

section \<open>Reconnecting\<close>

lemma in_progress_sticks:
  "sc_in_progress c \<Longrightarrow> \<not> sc_active c \<Longrightarrow> \<exists>c' k'. sc_retry attempts c k = Inr (c', k') \<and> sc_in_progress c' \<and> \<not> sc_active c'"
proof (induction attempts arbitrary: c k)
  case (Cons a attempts)
  then show ?case
    by (cases a) (auto simp: sc_connectServer_def Let_def)
qed simp

text \<open>
  one failure of \<^verbatim>\<open>socket\<close> ends all reconnecting. The attempt returns while it is still
  marked as in progress; every later one is refused for that reason, so that whatever the
  network offers, the client never becomes active again.
\<close>

theorem client_gives_up_after_socket_failure:
  assumes "fd < 0" and "\<not> sc_active c" and "\<not> sc_in_progress c"
  shows "\<exists>c1. sc_connectServer fd r c = (False, c1) \<and>
    (\<forall>attempts k. \<exists>c' k'. sc_retry attempts c1 k = Inr (c', k') \<and> \<not> sc_active c')"
proof -
  let ?c = "c\<lparr>sc_in_progress := True, sc_fd := fd\<rparr>"
  have "sc_connectServer fd r c = (False, ?c)" using assms by (simp add: sc_connectServer_def Let_def)
  moreover have "\<exists>c' k'. sc_retry attempts ?c k = Inr (c', k') \<and> \<not> sc_active c'" for attempts k
    using in_progress_sticks [of ?c attempts k] assms(2) by auto
  ultimately show ?thesis by blast
qed

theorem client_gives_up_after_socket_failure_witness:
  "\<exists>c1 c' k'. sc_connectServer (-1) C_ok sc_new = (False, c1) \<and>
    sc_retry [(4, C_ok), (5, C_ok)] c1 kern0 = Inr (c', k') \<and> \<not> sc_active c'"
proof -
  obtain c1 where "sc_connectServer (-1) C_ok sc_new = (False, c1)"
    "\<forall>attempts k. \<exists>c' k'. sc_retry attempts c1 k = Inr (c', k') \<and> \<not> sc_active c'"
    using client_gives_up_after_socket_failure [of "-1" sc_new C_ok] by (auto simp: sc_new_def)
  then show ?thesis by blast
qed

end
