(* ===== verification/Net_Service.thy ===== *)
theory Net_Service
  imports Socket_Server
begin

text \<open>
  \<^verbatim>\<open>src/net/NetworkService.cpp\<close>, \<^verbatim>\<open>NetworkClient.cpp\<close> and \<^verbatim>\<open>Netmessage.h\<close>: length
  prefixed messages on top of the socket server and client. A callback into the application
  is an entry of a log, in the order of the calls; what an application does in one is an
  operation of its own. Protocol buffers are already serialised here.
\<close>

section \<open>Messages\<close>

record Netmessage =
  nm_len :: u32
  nm_id :: u16
  nm_flags :: u16
  nm_timestamp :: u32

definition sizeof_Netmessage :: nat where
  "sizeof_Netmessage = 12"

definition netmessage_bytes :: "Netmessage \<Rightarrow> bytes" where
  "netmessage_bytes m = le_bytes (nm_len m) @ le_bytes (nm_id m) @ le_bytes (nm_flags m) @ le_bytes (nm_timestamp m)"

definition netmsg_len :: "bytes \<Rightarrow> u32" where
  "netmsg_len buffer = le_word (take 4 buffer)"

text \<open>The conditional is unsigned; the function returns it as an \<^verbatim>\<open>int\<close>.\<close>

definition net_split :: MESSAGE_SPLITER where
  "net_split buffer =
     (if length buffer < sizeof_Netmessage \<or> length buffer < unat (netmsg_len buffer) then 0
      else sint (netmsg_len buffer))"

text \<open>\<^verbatim>\<open>sendMessage(msgid, msg)\<close>: the identifier is cut to 16 bits.\<close>

definition net_encode :: "u32 \<Rightarrow> bytes \<Rightarrow> bytes" where
  "net_encode msgid data =
     netmessage_bytes \<lparr>nm_len = of_nat (sizeof_Netmessage + length data), nm_id = ucast msgid, nm_flags = 0, nm_timestamp = 0\<rparr> @ data"

lemma length_netmessage_bytes [simp]: "length (netmessage_bytes m) = sizeof_Netmessage"
  by (simp add: netmessage_bytes_def sizeof_Netmessage_def)

lemma netmsg_len_append: "length xs \<ge> 4 \<Longrightarrow> netmsg_len (xs @ ys) = netmsg_len xs"
  by (simp add: netmsg_len_def)

lemma netmsg_len_bytes [simp]: "netmsg_len (netmessage_bytes m @ ys) = nm_len m"
  by (simp add: netmsg_len_def netmessage_bytes_def le_word_le_bytes)

interpretation net: message_spliter net_split
proof
  show "net_split [] = 0" by (simp add: net_split_def sizeof_Netmessage_def)
  show "nat (net_split xs) \<le> length xs" if "0 < net_split xs" for xs
    using that sint_pos_u32 [of "netmsg_len xs"] by (auto simp: net_split_def split: if_splits)
  show "net_split (xs @ ys) = net_split xs" if "net_split xs \<noteq> 0" for xs ys
    using that by (auto simp: net_split_def netmsg_len_append sizeof_Netmessage_def split: if_splits)
qed

section \<open>Reassembly\<close>

definition encodable :: "u32 \<times> bytes \<Rightarrow> bool" where
  "encodable m \<longleftrightarrow> sizeof_Netmessage + length (snd m) < 2 ^ 31"

lemma net_split_encode:
  assumes "encodable (msgid, data)"
  shows "net_split (net_encode msgid data @ rest) = int (length (net_encode msgid data))"
proof -
  let ?n = "sizeof_Netmessage + length data"
  have n: "?n < 2 ^ 31" using assms by (simp add: encodable_def)
  then have "unat (of_nat ?n :: u32) = ?n" by (intro unat_of_nat_u32) simp
  moreover have "sint (of_nat ?n :: u32) = int ?n" using n by (rule sint_of_nat_u32)
  ultimately show ?thesis by (simp add: net_split_def net_encode_def del: of_nat_add)
qed

lemma frames_encoded:
  assumes "list_all encodable ms"
  shows "frames net_split (concat (map (\<lambda>(msgid, data). net_encode msgid data) ms)) =
    (map (\<lambda>(msgid, data). net_encode msgid data) ms, [], True)"
proof -
  have "0 < length (net_encode msgid data)" for msgid data by (simp add: net_encode_def sizeof_Netmessage_def)
  then have "net_encode msgid data \<noteq> []" for msgid data by fastforce
  then show ?thesis using assms by (intro net.frames_concat) (auto simp: list_all_iff net_split_encode)
qed

text \<open>
  C1: messages survive the network. Whatever pieces the bytes of a sequence of messages
  arrive in, cut anywhere, reading the connection reports exactly these messages, whole, in
  order, once each, and leaves nothing behind.
\<close>

theorem net_messages_reassembled:
  assumes "list_all encodable ms" and "all_data es" and "stream es = concat (map (\<lambda>(msgid, data). net_encode msgid data) ms)"
    and "readlen * Suc (net_size es) + 65535 < 2 ^ 64"
  shows "\<exists>so' es'. so_readAll net_split nowtime (so_new fd t0) es q =
      Some (Inr (True, so', es', q @ map (\<lambda>(msgid, data). allocateMessage_payload fd SM_OPCODE_MESSAGE (net_encode msgid data)) ms)) \<and>
    bb_content (so_rbuffer so') @ stream es' = []"
proof -
  have "so_rcv (Suc (net_size es)) (so_new fd t0)" using assms(4) by (intro so_new_rcv)
  from net.readAll_spec [OF assms(2) this, of "map (\<lambda>(msgid, data). net_encode msgid data) ms" "[]" True nowtime q]
  show ?thesis using frames_encoded [OF assms(1)] assms(3) by (auto simp: comp_def split_def)
qed

theorem net_messages_reassembled_witness:
  "\<exists>so' es'. so_readAll net_split 0 (so_new 4 0)
      [Data (take 5 (net_encode 7 [1, 2])), Data (drop 5 (net_encode 7 [1, 2]) @ net_encode 8 [])] [] =
    Some (Inr (True, so', es', [allocateMessage_payload 4 SM_OPCODE_MESSAGE (net_encode 7 [1, 2]),
      allocateMessage_payload 4 SM_OPCODE_MESSAGE (net_encode 8 [])]))"
proof -
  let ?es = "[Data (take 5 (net_encode 7 [1, 2])), Data (drop 5 (net_encode 7 [1, 2]) @ net_encode 8 [])]"
  have "length (net_encode 7 [1, 2]) = 14" "length (net_encode 8 []) = 12"
    by (simp_all add: net_encode_def sizeof_Netmessage_def)
  moreover from this have "net_encode 7 [1, 2] \<noteq> []" by auto
  moreover have "take 5 (net_encode 7 [1, 2]) @ drop 5 (net_encode 7 [1, 2]) = net_encode 7 [1, 2]" by simp
  ultimately show ?thesis
    using net_messages_reassembled [of "[(7, [1, 2]), (8, [])]" ?es 0 4 0 "[]"]
    by (auto simp: encodable_def sizeof_Netmessage_def readlen_def simp del: append_take_drop_id simp flip: append_assoc)
qed

text \<open>
  a message whose length field is zero blocks its connection for good. It counts as
  incomplete whatever follows, so that no later message is ever reported, and the connection
  is not closed either.
\<close>

theorem net_zero_length_stalls:
  assumes "length xs = sizeof_Netmessage" and "netmsg_len xs = 0"
    and "all_data es" and "stream es = xs @ ys" and "readlen * Suc (net_size es) + 65535 < 2 ^ 64"
  shows "\<exists>so' es'. so_readAll net_split nowtime (so_new fd t0) es q = Some (Inr (True, so', es', q)) \<and>
    bb_content (so_rbuffer so') @ stream es' = xs @ ys"
proof -
  have "net_split (xs @ ys) = 0"
    using assms(1,2) by (simp add: net_split_def netmsg_len_append sizeof_Netmessage_def)
  then have f: "frames net_split (bb_content (so_rbuffer (so_new fd t0)) @ stream es) = ([], xs @ ys, True)"
    using assms(4) by (simp add: net.frames_step)
  have "so_rcv (Suc (net_size es)) (so_new fd t0)" using assms(5) by (intro so_new_rcv)
  from net.readAll_spec [OF assms(3) this f, of nowtime q] show ?thesis by auto
qed

theorem net_zero_length_stalls_witness:
  "\<exists>so' es'. so_readAll net_split 0 (so_new 4 0) [Data (replicate 12 0 @ net_encode 8 [])] [] = Some (Inr (True, so', es', []))"
proof -
  have "netmsg_len (replicate 12 0) = 0" by (simp add: netmsg_len_def eval_nat_numeral)
  moreover have "length (net_encode 8 []) = 12" by (simp add: net_encode_def sizeof_Netmessage_def)
  ultimately show ?thesis
    using net_zero_length_stalls [of "replicate 12 0" "[Data (replicate 12 0 @ net_encode 8 [])]" "net_encode 8 []" 0 4 0 "[]"]
    by (auto simp: sizeof_Netmessage_def readlen_def)
qed

section \<open>Service\<close>

datatype callback = CB_establish "SOCKET option" | CB_lost SOCKET | CB_message SOCKET bytes

text \<open>Which callbacks were given, and what the parser answers: whether the message may be released.\<close>

record handlers =
  h_establish :: bool
  h_lost :: bool
  h_parser :: "(SOCKET \<Rightarrow> bytes \<Rightarrow> bool) option"

text \<open>A task is the descriptor it was made for.\<close>

record service =
  ns_stop :: bool
  ns_server :: "server option"
  ns_tasks :: "SOCKET \<rightharpoonup> SOCKET"

definition ns_new :: service where
  "ns_new = \<lparr>ns_stop = False, ns_server = None, ns_tasks = Map.empty\<rparr>"

definition ns_getNetworkInterface :: "SOCKET \<Rightarrow> service \<Rightarrow> SOCKET option" where
  "ns_getNetworkInterface s ns = ns_tasks ns s"

definition ns_spawnConnection :: "SOCKET \<Rightarrow> service \<Rightarrow> SOCKET option \<times> service" where
  "ns_spawnConnection s ns =
     (if ns_tasks ns s \<noteq> None then (None, ns)
      else (Some s, ns\<lparr>ns_tasks := (ns_tasks ns)(s \<mapsto> s)\<rparr>))"

definition ns_closeConnection :: "SOCKET \<Rightarrow> service \<Rightarrow> service" where
  "ns_closeConnection s ns =
     (if ns_tasks ns s = None then ns else ns\<lparr>ns_tasks := (ns_tasks ns)(s := None)\<rparr>)"

text \<open>The four options of the configuration, each passed on when it is positive.\<close>

definition ns_option :: "nat \<Rightarrow> u64 \<Rightarrow> bytes \<Rightarrow> server \<Rightarrow> server res" where
  "ns_option opt v memory ss =
     (if v > 0 then bindE (ss_setsockopt (int opt) (Some (le_bytes v)) memory ss) (\<lambda>(rc, ss1). Inr ss1) else Inr ss)"

record security =
  cf_maxsize :: u64
  cf_silence_second :: u64
  cf_threshold_interval :: u64
  cf_threshold_message :: u64

definition ns_start :: "u32 \<Rightarrow> listen_env \<Rightarrow> u32 \<Rightarrow> security \<Rightarrow> bytes \<Rightarrow> service \<Rightarrow> kern \<Rightarrow> (bool \<times> service \<times> kern) res" where
  "ns_start cpus env worker cf memory ns k =
     bindE (case ns_server ns of None \<Rightarrow> Inr k | Some ss \<Rightarrow> bindE (ss_stopServer ss k) (\<lambda>(ss1, k1). Inr k1)) (\<lambda>k1.
       let (rc, ss) = ss_setWorkerNumber cpus worker (ss_new cpus)
       in bindE (if rc then ss_start env ss k1 else Inr (False, ss, k1)) (\<lambda>(rc1, ss1, k2).
            if \<not> rc1 then bindE (ss_stopServer ss1 k2) (\<lambda>(ss2, k3). Inr (False, ns\<lparr>ns_server := None\<rparr>, k3))
            else bindE (ns_option BUNDLE_SOL_MAXSIZE (cf_maxsize cf) memory ss1) (\<lambda>ss2.
                 bindE (ns_option BUNDLE_SOL_SILENCE_SECOND (cf_silence_second cf) memory ss2) (\<lambda>ss3.
                 bindE (ns_option BUNDLE_SOL_THRESHOLD_INTERVAL (cf_threshold_interval cf) memory ss3) (\<lambda>ss4.
                 bindE (ns_option BUNDLE_SOL_THRESHOLD_MESSAGE (cf_threshold_message cf) memory ss4) (\<lambda>ss5.
                   Inr (True, ns\<lparr>ns_server := Some ss5\<rparr>, k2)))))))"

text \<open>The length field is read from the payload, which may be too short to hold one.\<close>

definition ns_dispatch :: "handlers \<Rightarrow> Socketmessage \<Rightarrow> service \<Rightarrow> (callback list \<times> bool \<times> service) res" where
  "ns_dispatch h msg ns =
     (let s = sm_s msg
      in if sm_opcode msg = SM_OPCODE_ESTABLISH then
           let (task, ns1) = ns_spawnConnection s ns
           in Inr (if h_establish h then [CB_establish task] else [], True, ns1)
         else if sm_opcode msg = SM_OPCODE_CLOSE then
           (case ns_tasks ns s of
              None \<Rightarrow> Inr ([], True, ns)
            | Some task \<Rightarrow> Inr (if h_lost h then [CB_lost task] else [], True, ns_closeConnection s ns))
         else (case ns_tasks ns s of
                 None \<Rightarrow> Inr ([], True, ns)
               | Some task \<Rightarrow>
                   (case h_parser h of
                      None \<Rightarrow> Inr ([], True, ns)
                    | Some msgParser \<Rightarrow>
                        if length (sm_payload msg) < 4 then Inl HeapOverrun
                        else assertE (sm_payload_len msg = netmsg_len (sm_payload msg))
                          (Inr ([CB_message task (sm_payload msg)], msgParser task (sm_payload msg), ns)))))"

text \<open>The log has the callbacks of the whole call, the latest last.\<close>

function ns_update_loop :: "handlers \<Rightarrow> service \<Rightarrow> server \<Rightarrow> callback list \<Rightarrow> (bool \<times> callback list \<times> service) res" where
  "ns_update_loop h ns ss log =
     (if ns_stop ns then Inr (False, log, ns\<lparr>ns_server := Some ss\<rparr>)
      else case ss_receiveMessage ss of
        Inl e \<Rightarrow> Inl e
      | Inr (None, ss1) \<Rightarrow> Inr (True, log, ns\<lparr>ns_server := Some ss1\<rparr>)
      | Inr (Some msg, ss1) \<Rightarrow>
          (case ns_dispatch h msg ns of
             Inl e \<Rightarrow> Inl e
           | Inr (cbs, rc, ns1) \<Rightarrow>
               (case (if rc then releaseMessage msg else Inr ()) of
                  Inl e \<Rightarrow> Inl e
                | Inr _ \<Rightarrow> ns_update_loop h ns1 ss1 (log @ cbs))))"
  by pat_completeness auto
termination
  by (relation "measure (\<lambda>(h, ns, ss, log). length (ss_readQueue ss))")
    (auto simp: ss_receiveMessage_def receive_loop_shrinks)

declare ns_update_loop.simps [simp del]

definition ns_update :: "handlers \<Rightarrow> service \<Rightarrow> (bool \<times> callback list \<times> service) res" where
  "ns_update h ns = (case ns_server ns of None \<Rightarrow> Inr (False, [], ns) | Some ss \<Rightarrow> ns_update_loop h ns ss [])"

definition ns_close :: "SOCKET \<Rightarrow> service \<Rightarrow> service res" where
  "ns_close task ns = (case ns_server ns of None \<Rightarrow> Inr ns
     | Some ss \<Rightarrow> bindE (ss_close task ss) (\<lambda>ss1. Inr (ns\<lparr>ns_server := Some ss1\<rparr>)))"

definition ns_stopService :: "service \<Rightarrow> kern \<Rightarrow> (service \<times> kern) res" where
  "ns_stopService ns k =
     (if ns_stop ns then Inr (ns, k)
      else let ns1 = ns\<lparr>ns_stop := True, ns_tasks := Map.empty\<rparr>
           in case ns_server ns1 of
                None \<Rightarrow> Inr (ns1, k)
              | Some ss \<Rightarrow> bindE (ss_stopServer ss k) (\<lambda>(ss1, k1). Inr (ns1\<lparr>ns_server := Some ss1\<rparr>, k1)))"

text \<open>The three ways a task sends. A serialisation that fails sends nothing.\<close>

definition ns_send :: "SOCKET \<Rightarrow> bytes \<Rightarrow> service \<Rightarrow> service res" where
  "ns_send task payload ns = (case ns_server ns of None \<Rightarrow> Inl NullDeref
     | Some ss \<Rightarrow> bindE (ss_sendPayload task payload ss) (\<lambda>ss1. Inr (ns\<lparr>ns_server := Some ss1\<rparr>)))"

definition ns_sendNetmessage :: "SOCKET \<Rightarrow> Netmessage \<Rightarrow> bytes \<Rightarrow> service \<Rightarrow> service res" where
  "ns_sendNetmessage task netmsg payload ns =
     (let raw = netmessage_bytes netmsg @ payload
      in if length raw < unat (nm_len netmsg) then Inl HeapOverrun
         else ns_send task (take (unat (nm_len netmsg)) raw) ns)"

definition ns_sendProto :: "SOCKET \<Rightarrow> u32 \<Rightarrow> bytes option \<Rightarrow> service \<Rightarrow> service res" where
  "ns_sendProto task msgid serialized ns =
     (case serialized of None \<Rightarrow> Inr ns | Some data \<Rightarrow> ns_send task (net_encode msgid data) ns)"

section \<open>Client\<close>

record netclient =
  nc_stop :: bool
  nc_client :: "client option"

definition nc_fd :: "netclient \<Rightarrow> SOCKET" where
  "nc_fd nc = (case nc_client nc of None \<Rightarrow> -1 | Some c \<Rightarrow> sc_fd c)"

definition nc_sendNetmessage :: "Netmessage \<Rightarrow> bytes \<Rightarrow> netclient \<Rightarrow> netclient res" where
  "nc_sendNetmessage netmsg payload nc =
     (case nc_client nc of None \<Rightarrow> Inr nc
      | Some c \<Rightarrow>
          let raw = netmessage_bytes netmsg @ payload
          in if length raw < unat (nm_len netmsg) then Inl HeapOverrun
             else bindE (sc_sendPayload (take (unat (nm_len netmsg)) raw) c) (\<lambda>c1. Inr (nc\<lparr>nc_client := Some c1\<rparr>)))"

definition nc_sendProto :: "u32 \<Rightarrow> bytes option \<Rightarrow> netclient \<Rightarrow> netclient res" where
  "nc_sendProto msgid serialized nc =
     (case nc_client nc of None \<Rightarrow> Inr nc
      | Some c \<Rightarrow>
          (case serialized of None \<Rightarrow> Inr nc
           | Some data \<Rightarrow> bindE (sc_sendPayload (net_encode msgid data) c) (\<lambda>c1. Inr (nc\<lparr>nc_client := Some c1\<rparr>))))"

definition nc_sendPayload :: "bytes \<Rightarrow> netclient \<Rightarrow> netclient res" where
  "nc_sendPayload payload nc =
     (case nc_client nc of None \<Rightarrow> Inl NullDeref
      | Some c \<Rightarrow> bindE (sc_sendPayload payload c) (\<lambda>c1. Inr (nc\<lparr>nc_client := Some c1\<rparr>)))"

definition nc_connect :: "SOCKET \<Rightarrow> connect_result \<Rightarrow> netclient \<Rightarrow> kern \<Rightarrow> (bool \<times> netclient \<times> kern) res" where
  "nc_connect fd r nc k =
     bindE (case nc_client nc of None \<Rightarrow> Inr k | Some c \<Rightarrow> bindE (sc_stopClient c k) (\<lambda>(c1, k1). Inr k1)) (\<lambda>k1.
     bindE (sc_connect 10 fd r sc_new) (\<lambda>(rc, c).
       if \<not> rc then bindE (sc_stopClient c k1) (\<lambda>(c1, k2). Inr (False, nc\<lparr>nc_client := None\<rparr>, k2))
       else Inr (True, nc\<lparr>nc_client := Some c\<rparr>, k1)))"

text \<open>The client passes itself to its callbacks, not a task.\<close>

definition nc_dispatch :: "handlers \<Rightarrow> Socketmessage \<Rightarrow> (callback list \<times> bool) res" where
  "nc_dispatch h msg =
     (if sm_opcode msg = SM_OPCODE_ESTABLISH then Inr (if h_establish h then [CB_establish None] else [], True)
      else if sm_opcode msg = SM_OPCODE_CLOSE then Inr (if h_lost h then [CB_lost (sm_s msg)] else [], True)
      else (case h_parser h of
              None \<Rightarrow> Inr ([], True)
            | Some msgParser \<Rightarrow>
                if length (sm_payload msg) < 4 then Inl HeapOverrun
                else assertE (sm_payload_len msg = netmsg_len (sm_payload msg))
                  (Inr ([CB_message (sm_s msg) (sm_payload msg)], msgParser (sm_s msg) (sm_payload msg)))))"

lemma client_receive_shrinks: "sc_receiveMessage c = Inr (Some m, c') \<Longrightarrow> length (sc_readQueue c') < length (sc_readQueue c)"
  by (cases "sc_readQueue c") (auto simp: sc_receiveMessage_def fault_simps sc_connectAsync_def split: if_splits)

function nc_update_loop :: "handlers \<Rightarrow> netclient \<Rightarrow> client \<Rightarrow> callback list \<Rightarrow> (bool \<times> callback list \<times> netclient) res" where
  "nc_update_loop h nc c log =
     (if nc_stop nc then Inr (False, log, nc\<lparr>nc_client := Some c\<rparr>)
      else case sc_receiveMessage c of
        Inl e \<Rightarrow> Inl e
      | Inr (None, c1) \<Rightarrow> Inr (True, log, nc\<lparr>nc_client := Some c1\<rparr>)
      | Inr (Some msg, c1) \<Rightarrow>
          (case nc_dispatch h msg of
             Inl e \<Rightarrow> Inl e
           | Inr (cbs, rc) \<Rightarrow>
               (case (if rc then releaseMessage msg else Inr ()) of
                  Inl e \<Rightarrow> Inl e
                | Inr _ \<Rightarrow> nc_update_loop h nc c1 (log @ cbs))))"
  by pat_completeness auto
termination
  by (relation "measure (\<lambda>(h, nc, c, log). length (sc_readQueue c))") (auto simp: client_receive_shrinks)

definition nc_update :: "handlers \<Rightarrow> netclient \<Rightarrow> (bool \<times> callback list \<times> netclient) res" where
  "nc_update h nc = (case nc_client nc of None \<Rightarrow> Inr (False, [], nc) | Some c \<Rightarrow> nc_update_loop h nc c [])"

definition nc_stopClient :: "netclient \<Rightarrow> kern \<Rightarrow> (netclient \<times> kern) res" where
  "nc_stopClient nc k =
     (if nc_stop nc then Inr (nc, k)
      else case nc_client nc of
        None \<Rightarrow> Inr (nc\<lparr>nc_stop := True\<rparr>, k)
      | Some c \<Rightarrow> bindE (sc_stopClient c k) (\<lambda>(c1, k1). Inr (nc\<lparr>nc_stop := True, nc_client := Some c1\<rparr>, k1)))"

section \<open>Callbacks\<close>

definition session_from :: "SOCKET \<Rightarrow> bool option \<Rightarrow> Socketmessage list \<Rightarrow> bool option" where
  "session_from fd st q = fold (\<lambda>m st. session_step fd st m) q st"

definition callback_of :: "Socketmessage \<Rightarrow> callback" where
  "callback_of m =
     (if sm_opcode m = SM_OPCODE_ESTABLISH then CB_establish (Some (sm_s m))
      else if sm_opcode m = SM_OPCODE_CLOSE then CB_lost (sm_s m) else CB_message (sm_s m) (sm_payload m))"

definition sound_payload :: "Socketmessage \<Rightarrow> bool" where
  "sound_payload m \<longleftrightarrow> sm_opcode m = SM_OPCODE_MESSAGE \<longrightarrow>
     4 \<le> length (sm_payload m) \<and> sm_payload_len m = netmsg_len (sm_payload m)"

definition tasks_ok :: "service \<Rightarrow> bool" where
  "tasks_ok ns \<longleftrightarrow> (\<forall>s t. ns_tasks ns s = Some t \<longrightarrow> t = s)"

lemma session_step_None [simp]: "session_step fd None m = None"
  by (simp add: session_step_def)

lemma session_from_None [simp]: "session_from fd None q = None"
  by (induction q) (simp_all add: session_from_def)

lemma session_from_Cons [simp]: "session_from fd st (m # q) = session_from fd (session_step fd st m) q"
  and session_from_Nil [simp]: "session_from fd st [] = st"
  by (simp_all add: session_from_def)

lemma session_from_news: "list_all is_news news \<Longrightarrow> session_from fd st (news @ q) = session_from fd st q"
  by (induction news) (simp_all add: session_step_def is_news_def)

lemma dispatch_spec:
  assumes "h_establish h" "h_lost h" "h_parser h = Some parser" "tasks_ok ns" "is_report m" "sound_payload m"
    and "\<And>fd. session_step fd (Some (fd \<in> dom (ns_tasks ns))) m \<noteq> None"
  shows "\<exists>rc ns1. ns_dispatch h m ns = Inr ([callback_of m], rc, ns1) \<and> tasks_ok ns1 \<and> ns_stop ns1 = ns_stop ns \<and>
    (\<forall>fd. session_step fd (Some (fd \<in> dom (ns_tasks ns))) m = Some (fd \<in> dom (ns_tasks ns1)))"
proof -
  have s: "session_step (sm_s m) (Some (sm_s m \<in> dom (ns_tasks ns))) m \<noteq> None" by (rule assms(7))
  consider "sm_opcode m = SM_OPCODE_ESTABLISH" | "sm_opcode m = SM_OPCODE_CLOSE" | "sm_opcode m = SM_OPCODE_MESSAGE"
    using assms(5) by (auto simp: is_report_def)
  then show ?thesis
  proof cases
    case 1
    with s have "ns_tasks ns (sm_s m) = None" by (auto simp: session_step_def split: if_splits)
    with 1 assms(1,4) show ?thesis
      by (auto simp: ns_dispatch_def Let_def ns_spawnConnection_def callback_of_def session_step_def tasks_ok_def)
  next
    case 2
    with s obtain t where "ns_tasks ns (sm_s m) = Some t" by (auto simp: session_step_def split: if_splits)
    with 2 assms(2,4) show ?thesis
      by (auto simp: ns_dispatch_def Let_def ns_closeConnection_def callback_of_def session_step_def tasks_ok_def)
  next
    case 3
    with s obtain t where "ns_tasks ns (sm_s m) = Some t" by (auto simp: session_step_def split: if_splits)
    with 3 assms(3,4,6) show ?thesis
      by (auto simp: ns_dispatch_def Let_def callback_of_def session_step_def tasks_ok_def sound_payload_def)
  qed
qed

lemma update_loop_spec:
  assumes "h_establish h" "h_lost h" "h_parser h = Some parser"
    and "\<not> ns_stop ns" "tasks_ok ns" "all_live ss"
    and "list_all from_worker (ss_readQueue ss)" "list_all sound_payload (ss_readQueue ss)"
    and "\<And>fd. session_from fd (Some (fd \<in> dom (ns_tasks ns))) (ss_readQueue ss) \<noteq> None"
  shows "\<exists>ns'. ns_update_loop h ns ss log = Inr (True, log @ map callback_of (filter is_report (ss_readQueue ss)), ns') \<and>
    (\<forall>fd. session_from fd (Some (fd \<in> dom (ns_tasks ns))) (ss_readQueue ss) = Some (fd \<in> dom (ns_tasks ns')))"
  using assms(4-)
proof (induction "length (ss_readQueue ss)" arbitrary: ns ss log rule: less_induct)
  case less
  let ?q = "ss_readQueue ss" let ?news = "takeWhile is_news ?q"
  have q: "?q = ?news @ dropWhile is_news ?q" by simp
  have news: "list_all is_news ?news" by (auto simp: list_all_iff dest: set_takeWhileD)
  have nr: "filter is_report ?news = []"
    using news by (auto simp: list_all_iff is_news_def is_report_def filter_empty_conv)
  have dw: "list_all P (dropWhile is_news ?q)" if "list_all P ?q" for P
    using that by (metis list_all_append takeWhile_dropWhile_id)
  note rl = receive_loop_spec [OF less.prems(3,4)]
  show ?case
  proof (cases "dropWhile is_news ?q")
    case Nil
    with q have qn: "?q = ?news" by (metis append_Nil2)
    then have "session_from fd st ?q = st" for fd st
      using session_from_news [OF news, of fd st "[]"] by simp
    moreover have "filter is_report ?q = []" using nr qn by simp
    moreover have "ss_receiveMessage ss =
        Inr (None, ss\<lparr>ss_processes := deliver ?news (ss_processes ss), ss_readQueue := []\<rparr>)"
      using rl Nil by (simp add: ss_receiveMessage_def Let_def del: dropWhile_eq_Nil_conv)
    ultimately show ?thesis
      using less.prems(1) by (subst ns_update_loop.simps) simp
  next
    case (Cons m q')
    let ?ss1 = "ss\<lparr>ss_processes := deliver ?news (ss_processes ss), ss_readQueue := q'\<rparr>"
    have qc: "?q = ?news @ m # q'" using q Cons by simp
    have m: "from_worker m" "sound_payload m" "\<not> is_news m" "list_all from_worker q'" "list_all sound_payload q'"
      using dw [OF less.prems(4)] dw [OF less.prems(5)] Cons hd_dropWhile [of is_news ?q] by simp_all
    then have rep: "is_report m" by (auto simp: from_worker_def)
    have ses: "session_from fd st ?q = session_from fd (session_step fd st m) q'" for fd st
      by (subst qc) (simp add: session_from_news [OF news])
    have "session_step fd (Some (fd \<in> dom (ns_tasks ns))) m \<noteq> None" for fd
      using less.prems(6) [of fd] unfolding ses by (metis session_from_None)
    from dispatch_spec [OF assms(1-3) less.prems(2) rep m(2) this] obtain rc ns1 where
      d: "ns_dispatch h m ns = Inr ([callback_of m], rc, ns1)" "tasks_ok ns1" "ns_stop ns1 = ns_stop ns"
        "\<And>fd. session_step fd (Some (fd \<in> dom (ns_tasks ns))) m = Some (fd \<in> dom (ns_tasks ns1))" by blast
    have rm: "ss_receiveMessage ss = Inr (Some m, ?ss1)"
      using rl Cons by (simp add: ss_receiveMessage_def Let_def)
    have step: "ns_update_loop h ns ss log = ns_update_loop h ns1 ?ss1 (log @ [callback_of m])"
      using less.prems(1) rm d(1) m(1) by (subst ns_update_loop.simps) (simp add: releaseMessage_def from_worker_def)
    have "length (ss_readQueue ?ss1) < length ?q" by (subst (2) qc) simp
    from less.hyps [OF this _ d(2), of "log @ [callback_of m]"] less.prems(1,3,6) m(4,5) d(3,4) obtain ns' where
      "ns_update_loop h ns1 ?ss1 (log @ [callback_of m]) =
         Inr (True, (log @ [callback_of m]) @ map callback_of (filter is_report q'), ns')"
      "\<And>fd. session_from fd (Some (fd \<in> dom (ns_tasks ns1))) q' = Some (fd \<in> dom (ns_tasks ns'))"
      unfolding ses by auto
    moreover have "filter is_report ?q = m # filter is_report q'" by (subst qc) (simp add: nr rep)
    ultimately show ?thesis using step ses d(4) by auto
  qed
qed


text \<open>
  C2: an application is called back in the order of the reports and once for each: if the
  reports form sessions, as those of the workers do, every establishment reaches it with its
  task, every message with the task of its connection, every loss once; announcements of
  accepted connections are not shown to it; and it is left with a task exactly for the
  connections whose session is open.
\<close>

theorem service_calls_back_in_order:
  assumes "h_establish h" "h_lost h" "h_parser h = Some parser"
    and "\<not> ns_stop ns" "tasks_ok ns" "ns_server ns = Some ss" "all_live ss"
    and "list_all from_worker (ss_readQueue ss)" "list_all sound_payload (ss_readQueue ss)"
    and "\<And>fd. session_from fd (Some (fd \<in> dom (ns_tasks ns))) (ss_readQueue ss) \<noteq> None"
  shows "\<exists>ns'. ns_update h ns = Inr (True, map callback_of (filter is_report (ss_readQueue ss)), ns') \<and>
    (\<forall>fd. session_from fd (Some (fd \<in> dom (ns_tasks ns))) (ss_readQueue ss) = Some (fd \<in> dom (ns_tasks ns')))"
  using update_loop_spec [OF assms(1-5,7-10), of "[]"] assms(6) by (simp add: ns_update_def)

definition demo_queue :: "Socketmessage list" where
  "demo_queue = [allocateMessage 9 SM_OPCODE_NEW_SOCKET, allocateMessage 5 SM_OPCODE_ESTABLISH,
     allocateMessage_payload 5 SM_OPCODE_MESSAGE (net_encode 1 []), allocateMessage 5 SM_OPCODE_CLOSE]"

definition demo_service :: service where
  "demo_service = ns_new\<lparr>ns_server := Some (demo_server\<lparr>ss_readQueue := demo_queue\<rparr>)\<rparr>"

theorem service_calls_back_in_order_witness:
  "\<exists>ns'. ns_update \<lparr>h_establish = True, h_lost = True, h_parser = Some (\<lambda>_ _. True)\<rparr> demo_service =
    Inr (True, [CB_establish (Some 5), CB_message 5 (net_encode 1 []), CB_lost 5], ns')"
proof -
  let ?h = "\<lparr>h_establish = True, h_lost = True, h_parser = Some (\<lambda>_ _. True)\<rparr>" and ?ss = "demo_server\<lparr>ss_readQueue := demo_queue\<rparr>"
  note defs = demo_queue_def allocateMessage_def allocateMessage_payload_def
  have len: "length (net_encode 1 []) = 12" "netmsg_len (net_encode 1 []) = 12"
    using netmsg_len_bytes [of _ "[]"] by (simp_all add: net_encode_def sizeof_Netmessage_def)
  have "list_all from_worker demo_queue" by (simp add: defs from_worker_def is_report_def is_news_def)
  moreover have "list_all sound_payload demo_queue" by (simp add: defs sound_payload_def len)
  moreover have "session_from fd (Some False) demo_queue \<noteq> None" for fd
    by (auto simp: defs session_step_def)
  moreover have "\<not> ns_stop demo_service" "tasks_ok demo_service" "ns_server demo_service = Some ?ss" "ns_tasks demo_service = Map.empty"
    by (simp_all add: demo_service_def ns_new_def tasks_ok_def)
  moreover have "all_live ?ss" by simp
  moreover have "map callback_of (filter is_report demo_queue) = [CB_establish (Some 5), CB_message 5 (net_encode 1 []), CB_lost 5]"
    by (simp add: defs is_report_def callback_of_def)
  ultimately show ?thesis
    using service_calls_back_in_order [of ?h "\<lambda>_ _. True" demo_service ?ss] by auto
qed

end
