(* ===== verification/Base64.thy ===== *)
theory Base64
  imports Bundle_Prelude
begin

text \<open>
  \<^verbatim>\<open>src/base64/base64.cpp\<close>: the two loops of the encoder and the decoder, with the
  three and four byte work arrays as lists that fill up and are flushed. The encoder is
  shown equal to a bit-level statement of RFC 4648 (cut the bit stream into sextets, pad),
  and the decoder to invert it. Lengths are those an \<^verbatim>\<open>int\<close> counts: the sources pass
  them as \<^verbatim>\<open>unsigned int\<close> and \<^verbatim>\<open>int\<close>.
\<close>

section \<open>The code\<close>

definition base64_chars :: string where
  "base64_chars =
     ''ABCDEFGHIJKLMNOPQRSTUVWXYZ'' @ ''abcdefghijklmnopqrstuvwxyz'' @ ''0123456789+/''"

definition isalnum :: "char \<Rightarrow> bool" where
  "isalnum c \<longleftrightarrow> isdigit c
     \<or> 65 \<le> (of_char c :: nat) \<and> (of_char c :: nat) \<le> 90
     \<or> 97 \<le> (of_char c :: nat) \<and> (of_char c :: nat) \<le> 122"

definition is_base64 :: "char \<Rightarrow> bool" where
  "is_base64 c \<longleftrightarrow> isalnum c \<or> c = CHR ''+'' \<or> c = CHR ''/''"

text \<open>\<^verbatim>\<open>std::string::find\<close> of a character, and its conversion to \<^verbatim>\<open>unsigned char\<close>:
  \<open>npos\<close> becomes 255.\<close>

fun find_char :: "char \<Rightarrow> string \<Rightarrow> nat option" where
  "find_char c [] = None"
| "find_char c (x # xs) = (if c = x then Some 0 else map_option Suc (find_char c xs))"

definition base64_index :: "char \<Rightarrow> u8" where
  "base64_index c = (case find_char c base64_chars of None \<Rightarrow> 255 | Some i \<Rightarrow> of_nat i)"

text \<open>\<open>char_array_4\<close> from \<open>char_array_3\<close>, and back.\<close>

definition to_4 :: "u8 \<Rightarrow> u8 \<Rightarrow> u8 \<Rightarrow> u8 list" where
  "to_4 a b c =
     [drop_bit 2 (a AND 0xfc),
      push_bit 4 (a AND 0x03) + drop_bit 4 (b AND 0xf0),
      push_bit 2 (b AND 0x0f) + drop_bit 6 (c AND 0xc0),
      c AND 0x3f]"

definition to_3 :: "u8 \<Rightarrow> u8 \<Rightarrow> u8 \<Rightarrow> u8 \<Rightarrow> u8 list" where
  "to_3 p q r s =
     [push_bit 2 p + drop_bit 4 (q AND 0x30),
      push_bit 4 (q AND 0xf) + drop_bit 2 (r AND 0x3c),
      push_bit 6 (r AND 0x3) + s]"

definition char_4 :: "u8 list \<Rightarrow> string" where
  "char_4 xs = map (\<lambda>x. base64_chars ! unat x) xs"

fun encode_loop :: "bytes \<Rightarrow> bytes \<Rightarrow> string \<Rightarrow> bytes \<times> string" where
  "encode_loop [] array_3 ret = (array_3, ret)"
| "encode_loop (x # xs) array_3 ret =
     (let a = array_3 @ [x]
      in if length a = 3 then encode_loop xs [] (ret @ char_4 (to_4 (a ! 0) (a ! 1) (a ! 2)))
         else encode_loop xs a ret)"

definition base64_encode :: "bytes \<Rightarrow> string" where
  "base64_encode bs =
     (let (a, ret) = encode_loop bs [] []; i = length a
      in if i = 0 then ret
         else let p = a @ replicate (3 - i) 0
              in ret @ take (i + 1) (char_4 (to_4 (p ! 0) (p ! 1) (p ! 2)))
                     @ replicate (3 - i) (CHR ''=''))"

fun decode_loop :: "string \<Rightarrow> string \<Rightarrow> bytes \<Rightarrow> string \<times> bytes" where
  "decode_loop [] array_4 ret = (array_4, ret)"
| "decode_loop (c # cs) array_4 ret =
     (if c \<noteq> CHR ''='' \<and> is_base64 c then
        let a = array_4 @ [c]
        in if length a = 4
           then decode_loop cs [] (ret @ to_3 (base64_index (a ! 0)) (base64_index (a ! 1))
                                              (base64_index (a ! 2)) (base64_index (a ! 3)))
           else decode_loop cs a ret
      else (array_4, ret))"

definition base64_decode :: "string \<Rightarrow> bytes" where
  "base64_decode s =
     (let (a, ret) = decode_loop s [] []; i = length a
      in if i = 0 then ret
         else let p = map base64_index (a @ replicate (4 - i) (CHR 0x00))
              in ret @ take (i - 1) (to_3 (p ! 0) (p ! 1) (p ! 2) (p ! 3)))"

section \<open>RFC 4648 on the bit stream\<close>

definition byte_bits :: "u8 \<Rightarrow> bool list" where
  "byte_bits b = map (bit b) [7, 6, 5, 4, 3, 2, 1, 0]"

fun sextets :: "bool list \<Rightarrow> u8 list" where
  "sextets [] = []"
| "sextets (b # bits) =
     horner_sum of_bool 2 (rev (take 6 ((b # bits) @ replicate 5 False))) # sextets (drop 5 bits)"

definition rfc4648 :: "bytes \<Rightarrow> string" where
  "rfc4648 bs =
     (let cs = char_4 (sextets (concat (map byte_bits bs)))
      in cs @ replicate ((4 - length cs mod 4) mod 4) (CHR ''=''))"

section \<open>Three bytes are four sextets\<close>

lemma byte_eqI:
  assumes "bit a 0 \<longleftrightarrow> bit b 0" "bit a 1 \<longleftrightarrow> bit b 1" "bit a 2 \<longleftrightarrow> bit b 2" "bit a 3 \<longleftrightarrow> bit b 3"
    "bit a 4 \<longleftrightarrow> bit b 4" "bit a 5 \<longleftrightarrow> bit b 5" "bit a 6 \<longleftrightarrow> bit b 6" "bit a 7 \<longleftrightarrow> bit b 7"
  shows "a = (b :: u8)"
proof (rule bit_word_eqI)
  fix n assume "n < LENGTH(8)"
  then have "n = 0 \<or> n = 1 \<or> n = 2 \<or> n = 3 \<or> n = 4 \<or> n = 5 \<or> n = 6 \<or> n = 7" by auto
  with assms show "bit a n \<longleftrightarrow> bit b n" by auto
qed

lemmas sextet_bits = bit_simps bit_horner_sum_bit_word_iff bit_numeral_word_iff

lemma to_4_bits:
  "to_4 a b c =
     [horner_sum of_bool 2 [bit a 2, bit a 3, bit a 4, bit a 5, bit a 6, bit a 7],
      horner_sum of_bool 2 [bit b 4, bit b 5, bit b 6, bit b 7, bit a 0, bit a 1],
      horner_sum of_bool 2 [bit c 6, bit c 7, bit b 0, bit b 1, bit b 2, bit b 3],
      horner_sum of_bool 2 [bit c 0, bit c 1, bit c 2, bit c 3, bit c 4, bit c 5]]"
proof -
  have "push_bit 4 (a AND 0x03) + drop_bit 4 (b AND 0xf0) = push_bit 4 (a AND 0x03) OR drop_bit 4 (b AND 0xf0)"
    by (rule disjunctive_add_eq_or) (rule byte_eqI; simp add: bit_simps bit_numeral_word_iff)
  moreover have "push_bit 2 (b AND 0x0f) + drop_bit 6 (c AND 0xc0) = push_bit 2 (b AND 0x0f) OR drop_bit 6 (c AND 0xc0)"
    by (rule disjunctive_add_eq_or) (rule byte_eqI; simp add: bit_simps bit_numeral_word_iff)
  ultimately show ?thesis
    by (auto simp: to_4_def sextet_bits simp del: horner_sum_simps intro!: byte_eqI)
qed

lemma to_3_bits:
  assumes "\<And>n. bit q n \<Longrightarrow> n < 6" and "\<And>n. bit s n \<Longrightarrow> n < 6"
  shows "to_3 p q r s =
     [horner_sum of_bool 2 [bit q 4, bit q 5, bit p 0, bit p 1, bit p 2, bit p 3, bit p 4, bit p 5],
      horner_sum of_bool 2 [bit r 2, bit r 3, bit r 4, bit r 5, bit q 0, bit q 1, bit q 2, bit q 3],
      horner_sum of_bool 2 [bit s 0, bit s 1, bit s 2, bit s 3, bit s 4, bit s 5, bit r 0, bit r 1]]"
proof -
  have q: "\<not> bit q n" if "6 \<le> n" for n using assms(1) [of n] that by auto
  have s: "\<not> bit s n" if "6 \<le> n" for n using assms(2) [of n] that by auto
  have "push_bit 2 p + drop_bit 4 (q AND 0x30) = push_bit 2 p OR drop_bit 4 (q AND 0x30)"
    by (rule disjunctive_add_eq_or) (rule byte_eqI; simp add: bit_simps bit_numeral_word_iff q)
  moreover have "push_bit 4 (q AND 0xf) + drop_bit 2 (r AND 0x3c) = push_bit 4 (q AND 0xf) OR drop_bit 2 (r AND 0x3c)"
    by (rule disjunctive_add_eq_or) (rule byte_eqI; simp add: bit_simps bit_numeral_word_iff)
  moreover have "push_bit 6 (r AND 0x3) + s = push_bit 6 (r AND 0x3) OR s"
    by (rule disjunctive_add_eq_or) (rule byte_eqI; simp add: bit_simps bit_numeral_word_iff s)
  ultimately show ?thesis
    by (auto simp: to_3_def sextet_bits s simp del: horner_sum_simps intro!: byte_eqI)
qed

lemma to_3_to_4: "to_3 (to_4 a b c ! 0) (to_4 a b c ! 1) (to_4 a b c ! 2) (to_4 a b c ! 3) = [a, b, c]"
  by (subst to_3_bits)
    (auto simp: to_4_bits sextet_bits simp del: horner_sum_simps intro!: byte_eqI)

lemma to_3_heads:
  "take 1 (to_3 p q r s) = [to_3 p q r' s' ! 0]"
  "take 2 (to_3 p q r s) = [to_3 p q r s' ! 0, to_3 p q r s' ! 1]"
  by (simp_all add: to_3_def)

lemma length_to_4 [simp]: "length (to_4 a b c) = 4" and length_char_4 [simp]: "length (char_4 xs) = length xs"
  by (simp_all add: to_4_def char_4_def)

section \<open>The alphabet\<close>

lemma alphabet_all:
  "\<forall>i \<in> set [0..<64]. base64_chars ! i \<noteq> CHR ''='' \<and> is_base64 (base64_chars ! i) \<and>
     base64_index (base64_chars ! i) = of_nat i"
  by code_simp

lemma alphabet:
  assumes "unat x < 64"
  shows "base64_chars ! unat x \<noteq> CHR ''=''" and "is_base64 (base64_chars ! unat x)"
    and "base64_index (base64_chars ! unat x) = x"
  using assms alphabet_all [THEN bspec, of "unat x"] by simp_all

lemma sextet_less: "length bits = 6 \<Longrightarrow> unat (horner_sum of_bool 2 bits :: u8) < 64"
proof -
  assume "length bits = 6"
  then have "take_bit 6 (horner_sum of_bool 2 bits :: u8) = horner_sum of_bool 2 bits"
    by (intro bit_word_eqI) (auto simp: bit_take_bit_iff bit_horner_sum_bit_word_iff)
  then have "take_bit 6 (unat (horner_sum of_bool 2 bits :: u8)) = unat (horner_sum of_bool 2 bits :: u8)"
    by (metis unsigned_take_bit_eq)
  then show ?thesis
    by (simp add: take_bit_nat_eq_self_iff)
qed

lemma to_4_less: "x \<in> set (to_4 a b c) \<Longrightarrow> unat x < 64"
  by (auto simp: to_4_bits sextet_less simp del: horner_sum_simps)

section \<open>Three bytes at a time\<close>

lemma induct_three [case_names Nil One Two Three]:
  assumes "P []" and "\<And>a. P [a]" and "\<And>a b. P [a, b]"
    and "\<And>a b c xs. P xs \<Longrightarrow> P (a # b # c # xs)"
  shows "P xs"
  using assms by induction_schema (pat_completeness, lexicographic_order)

lemma encode_loop_ret: "encode_loop bs arr (r @ s) = apsnd ((@) r) (encode_loop bs arr s)"
  by (induction bs arr s rule: encode_loop.induct) (simp_all add: Let_def)

lemma base64_encode_simps:
  "base64_encode [] = []"
  "base64_encode [a] = take 2 (char_4 (to_4 a 0 0)) @ ''==''"
  "base64_encode [a, b] = take 3 (char_4 (to_4 a b 0)) @ ''=''"
  "base64_encode (a # b # c # xs) = char_4 (to_4 a b c) @ base64_encode xs"
proof -
  show "base64_encode (a # b # c # xs) = char_4 (to_4 a b c) @ base64_encode xs"
    using encode_loop_ret [of xs "[]" "char_4 (to_4 a b c)" "[]"]
    by (simp add: base64_encode_def Let_def split_beta)
qed (simp_all add: base64_encode_def numeral_eq_Suc)

lemma decode_loop_ret: "decode_loop cs arr (r @ s) = apsnd ((@) r) (decode_loop cs arr s)"
  by (induction cs arr s rule: decode_loop.induct) (simp_all add: Let_def)

lemma char_4_to_4:
  obtains p q r s where "to_4 a b c = [p, q, r, s]"
    and "unat p < 64" "unat q < 64" "unat r < 64" "unat s < 64" and "to_3 p q r s = [a, b, c]"
proof (rule that)
  show "to_4 a b c = [to_4 a b c ! 0, to_4 a b c ! 1, to_4 a b c ! 2, to_4 a b c ! 3]"
    by (simp add: to_4_def)
  show "to_3 (to_4 a b c ! 0) (to_4 a b c ! 1) (to_4 a b c ! 2) (to_4 a b c ! 3) = [a, b, c]"
    by (rule to_3_to_4)
qed (rule to_4_less, rule nth_mem, simp)+

lemma decode_4:
  "base64_decode (char_4 (to_4 a b c) @ s) = [a, b, c] @ base64_decode s"
proof -
  obtain p q r t where pq: "to_4 a b c = [p, q, r, t]"
    "unat p < 64" "unat q < 64" "unat r < 64" "unat t < 64" "to_3 p q r t = [a, b, c]"
    by (rule char_4_to_4)
  with decode_loop_ret [of s "[]" "[a, b, c]" "[]"] show ?thesis
    by (simp add: base64_decode_def char_4_def alphabet Let_def split_beta)
qed

lemma decode_tail:
  "base64_decode (take 2 (char_4 (to_4 a b c)) @ CHR ''='' # s) = [a]"
  "base64_decode (take 3 (char_4 (to_4 a b c)) @ CHR ''='' # s) = [a, b]"
proof -
  obtain p q r t where pq: "to_4 a b c = [p, q, r, t]"
    "unat p < 64" "unat q < 64" "unat r < 64" "unat t < 64" "to_3 p q r t = [a, b, c]"
    by (rule char_4_to_4)
  note heads = to_3_heads(1) [of p q _ _ r t] to_3_heads(2) [of p q r _ t]
  show "base64_decode (take 2 (char_4 (to_4 a b c)) @ CHR ''='' # s) = [a]"
    using pq heads by (simp add: base64_decode_def char_4_def alphabet Let_def numeral_eq_Suc)
  show "base64_decode (take 3 (char_4 (to_4 a b c)) @ CHR ''='' # s) = [a, b]"
    using pq heads by (simp add: base64_decode_def char_4_def alphabet Let_def numeral_eq_Suc)
qed

lemma replicate_small: "replicate 2 x = [x, x]" "replicate 4 x = [x, x, x, x]"
  by (simp_all add: numeral_eq_Suc)

lemma sextets_three:
  "sextets (byte_bits a @ byte_bits b @ byte_bits c @ bits) = to_4 a b c @ sextets bits"
  by (simp add: byte_bits_def to_4_bits del: horner_sum_simps)

lemma sextets_tail:
  "sextets (byte_bits a) = take 2 (to_4 a 0 0)"
  "sextets (byte_bits a @ byte_bits b) = take 3 (to_4 a b 0)"
  by (simp_all add: byte_bits_def to_4_bits replicate_small del: horner_sum_simps)

lemma decode_loop_prefix: "decode_loop s arr ret = decode_loop (takeWhile is_base64 s) arr ret"
proof (induction s arr ret rule: decode_loop.induct)
  case (2 c cs arr ret)
  have "\<not> is_base64 CHR ''=''" by code_simp
  with 2 show ?case by (auto simp: Let_def)
qed simp

lemma decode_loop_length:
  "length arr < 4 \<Longrightarrow>
     length (fst (decode_loop s arr ret)) < 4 \<and>
     4 * length (snd (decode_loop s arr ret)) + 3 * length (fst (decode_loop s arr ret))
       \<le> 4 * length ret + 3 * (length arr + length (takeWhile is_base64 s))"
  by (induction s arr ret rule: decode_loop.induct) (fastforce simp: Let_def to_3_def)+

section \<open>Properties\<close>

lemma base64_encode_rfc: "base64_encode bs = rfc4648 bs"
proof (induction bs rule: induct_three)
  case (Three a b c xs)
  then show ?case
    by (simp add: base64_encode_simps rfc4648_def sextets_three char_4_def Let_def)
qed (simp_all add: base64_encode_simps rfc4648_def sextets_tail char_4_def take_map replicate_small Let_def)

text \<open>
  C38: \<^verbatim>\<open>base64_encode\<close> computes RFC 4648: the characters of the sextets of the input's
  bit stream, the last sextet filled with zero bits, padded with \<open>=\<close> to a multiple of four.
\<close>

theorem base64_encode_is_rfc4648: "base64_encode bs = rfc4648 bs"
  by (rule base64_encode_rfc)

text \<open>
  decoding what was encoded gives the input back, for every length modulo three.
\<close>

theorem base64_roundtrip: "base64_decode (base64_encode bs) = bs"
proof (induction bs rule: induct_three)
  case Nil
  then show ?case by (simp add: base64_encode_simps base64_decode_def)
qed (simp_all add: base64_encode_simps decode_4 decode_tail)

text \<open>
  the decoder reads up to the first character outside the alphabet; what follows does
  not change its result, and it yields at most three bytes for four characters.
\<close>

theorem base64_decode_prefix:
  "base64_decode s = base64_decode (takeWhile is_base64 s)
   \<and> 4 * length (base64_decode s) \<le> 3 * length (takeWhile is_base64 s)"
proof
  show "base64_decode s = base64_decode (takeWhile is_base64 s)"
    using decode_loop_prefix [of s "[]" "[]"] by (simp add: base64_decode_def)
  obtain a ret where "decode_loop s [] [] = (a, ret)" by (cases "decode_loop s [] []")
  with decode_loop_length [of "[]" s "[]"]
  show "4 * length (base64_decode s) \<le> 3 * length (takeWhile is_base64 s)"
    by (auto simp: base64_decode_def to_3_def Let_def min_def)
qed

end
