(* ===== verification/Sha1.thy ===== *)
theory Sha1
  imports Bundle_Prelude
begin

text \<open>
  \<^verbatim>\<open>src/sha/sha1.cpp\<close>: the streaming SHA-1 object the WebSocket handshake uses. The
  record has the members of the class; the code's array fills, its four round loops and the
  byte-wise \<^verbatim>\<open>Input\<close> are translated one by one. They are proved to compute FIPS 180 for
  every way of cutting the message into \<^verbatim>\<open>Input\<close> calls. The contents of
  \<^verbatim>\<open>Message_Block\<close> before the first input are arbitrary, as they are in the object.
\<close>

section \<open>The code\<close>

record sha1 =
  sha_H :: "u32 list"
  Length_Low :: u32
  Length_High :: u32
  Message_Block :: bytes
  Message_Block_Index :: nat
  Computed :: bool
  Corrupted :: bool

definition CircularShift :: "nat \<Rightarrow> u32 \<Rightarrow> u32" where
  "CircularShift bits w = (push_bit bits w AND 0xFFFFFFFF) OR drop_bit (32 - bits) (w AND 0xFFFFFFFF)"

definition sha_Reset :: "sha1 \<Rightarrow> sha1" where
  "sha_Reset s = s\<lparr>sha_H := [0x67452301, 0xEFCDAB89, 0x98BADCFE, 0x10325476, 0xC3D2E1F0],
     Length_Low := 0, Length_High := 0, Message_Block_Index := 0,
     Computed := False, Corrupted := False\<rparr>"

text \<open>The word sequence \<open>W\<close>: sixteen words of the block, then the expansion loop.\<close>

definition W_load :: "bytes \<Rightarrow> nat \<Rightarrow> u32" where
  "W_load blk t = push_bit 24 (ucast (blk ! (t * 4))) OR push_bit 16 (ucast (blk ! (t * 4 + 1)))
     OR push_bit 8 (ucast (blk ! (t * 4 + 2))) OR ucast (blk ! (t * 4 + 3))"

definition W_step :: "u32 list \<Rightarrow> nat \<Rightarrow> u32 list" where
  "W_step W t = W @ [CircularShift 1 (W ! (t - 3) XOR W ! (t - 8) XOR W ! (t - 14) XOR W ! (t - 16))]"

definition W_sequence :: "bytes \<Rightarrow> u32 list" where
  "W_sequence blk = foldl W_step (map (W_load blk) [0..<16]) [16..<80]"

text \<open>One pass of a round loop: the new \<open>A\<close> is \<open>temp\<close>, the other word buffers shift.\<close>

type_synonym wbufs = "u32 \<times> u32 \<times> u32 \<times> u32 \<times> u32"

definition sha_round :: "(u32 \<Rightarrow> u32 \<Rightarrow> u32 \<Rightarrow> u32) \<Rightarrow> u32 \<Rightarrow> u32 list \<Rightarrow> wbufs \<Rightarrow> nat \<Rightarrow> wbufs" where
  "sha_round f k W = (\<lambda>(A, B, C, D, E) t.
     (let temp = CircularShift 5 A + f B C D + E + W ! t + k
      in (temp, A, CircularShift 30 B, C, D)))"

definition sha_rounds :: "u32 list \<Rightarrow> wbufs \<Rightarrow> wbufs" where
  "sha_rounds W r0 =
     (let r1 = foldl (sha_round (\<lambda>B C D. (B AND C) OR (NOT B AND D)) 0x5A827999 W) r0 [0..<20];
          r2 = foldl (sha_round (\<lambda>B C D. B XOR C XOR D) 0x6ED9EBA1 W) r1 [20..<40];
          r3 = foldl (sha_round (\<lambda>B C D. (B AND C) OR (B AND D) OR (C AND D)) 0x8F1BBCDC W) r2 [40..<60]
      in foldl (sha_round (\<lambda>B C D. B XOR C XOR D) 0xCA62C1D6 W) r3 [60..<80])"

definition ProcessMessageBlock :: "sha1 \<Rightarrow> sha1" where
  "ProcessMessageBlock s =
     (let h = sha_H s;
          (A, B, C, D, E) = sha_rounds (W_sequence (Message_Block s)) (h ! 0, h ! 1, h ! 2, h ! 3, h ! 4)
      in s\<lparr>sha_H := [h ! 0 + A, h ! 1 + B, h ! 2 + C, h ! 3 + D, h ! 4 + E],
           Message_Block_Index := 0\<rparr>)"

text \<open>\<open>Message_Block[Message_Block_Index++] = x\<close>, and the loops that write zeros.\<close>

definition sha_put :: "u8 \<Rightarrow> sha1 \<Rightarrow> sha1" where
  "sha_put x s = s\<lparr>Message_Block := (Message_Block s)[Message_Block_Index s := x],
                   Message_Block_Index := Message_Block_Index s + 1\<rparr>"

function sha_zeros :: "nat \<Rightarrow> sha1 \<Rightarrow> sha1" where
  "sha_zeros limit s = (if Message_Block_Index s < limit then sha_zeros limit (sha_put 0 s) else s)"
  by auto
termination
  by (relation "measure (\<lambda>(limit, s). limit - Message_Block_Index s)") (auto simp: sha_put_def)

definition sha_store_length :: "sha1 \<Rightarrow> sha1" where
  "sha_store_length s = s\<lparr>Message_Block := (Message_Block s)
     [56 := ucast (drop_bit 24 (Length_High s) AND 0xFF), 57 := ucast (drop_bit 16 (Length_High s) AND 0xFF),
      58 := ucast (drop_bit 8 (Length_High s) AND 0xFF), 59 := ucast (Length_High s AND 0xFF),
      60 := ucast (drop_bit 24 (Length_Low s) AND 0xFF), 61 := ucast (drop_bit 16 (Length_Low s) AND 0xFF),
      62 := ucast (drop_bit 8 (Length_Low s) AND 0xFF), 63 := ucast (Length_Low s AND 0xFF)]\<rparr>"

definition PadMessage :: "sha1 \<Rightarrow> sha1" where
  "PadMessage s =
     (let s1 = (if Message_Block_Index s > 55
                then sha_zeros 56 (ProcessMessageBlock (sha_zeros 64 (sha_put 0x80 s)))
                else sha_zeros 56 (sha_put 0x80 s))
      in ProcessMessageBlock (sha_store_length s1))"

definition sha_Result :: "sha1 \<Rightarrow> u32 list option \<times> sha1" where
  "sha_Result s =
     (if Corrupted s then (None, s)
      else let s1 = (if \<not> Computed s then (PadMessage s)\<lparr>Computed := True\<rparr> else s)
           in (Some (map ((!) (sha_H s1)) [0..<5]), s1))"

text \<open>The body of the loop of \<^verbatim>\<open>Input\<close> for one byte, and the loop with its guard.\<close>

definition sha_count :: "sha1 \<Rightarrow> sha1" where
  "sha_count s =
     (let s1 = s\<lparr>Length_Low := Length_Low s + 8\<rparr>
      in if Length_Low s1 = 0
         then let s2 = s1\<lparr>Length_High := Length_High s1 + 1\<rparr>
              in if Length_High s2 = 0 then s2\<lparr>Corrupted := True\<rparr> else s2
         else s1)"

definition sha_input_byte :: "u8 \<Rightarrow> sha1 \<Rightarrow> sha1" where
  "sha_input_byte x s =
     (let s1 = sha_count (sha_put x s)
      in if Message_Block_Index s1 = 64 then ProcessMessageBlock s1 else s1)"

fun sha_input_loop :: "bytes \<Rightarrow> sha1 \<Rightarrow> sha1" where
  "sha_input_loop [] s = s"
| "sha_input_loop (x # xs) s = (if Corrupted s then s else sha_input_loop xs (sha_input_byte x s))"

definition sha_Input :: "bytes \<Rightarrow> sha1 \<Rightarrow> sha1" where
  "sha_Input message s =
     (if message = [] then s
      else if Computed s \<or> Corrupted s then s\<lparr>Corrupted := True\<rparr>
      else sha_input_loop message s)"

definition sha_Input1 :: "u8 \<Rightarrow> sha1 \<Rightarrow> sha1" where
  "sha_Input1 x s = sha_Input [x] s"

text \<open>\<^verbatim>\<open>operator<<\<close> on a C string: one \<^verbatim>\<open>Input\<close> per character up to the NUL.\<close>

fun sha_shift_string :: "bytes \<Rightarrow> sha1 \<Rightarrow> sha1" where
  "sha_shift_string [] s = s"
| "sha_shift_string (x # xs) s = (if x = 0 then s else sha_shift_string xs (sha_Input1 x s))"

section \<open>FIPS 180\<close>

definition fips_f :: "nat \<Rightarrow> u32 \<Rightarrow> u32 \<Rightarrow> u32 \<Rightarrow> u32" where
  "fips_f t x y z =
     (if t < 20 then (x AND y) OR (NOT x AND z)
      else if t < 40 then x XOR y XOR z
      else if t < 60 then (x AND y) OR (x AND z) OR (y AND z)
      else x XOR y XOR z)"

definition fips_K :: "nat \<Rightarrow> u32" where
  "fips_K t = (if t < 20 then 0x5A827999 else if t < 40 then 0x6ED9EBA1
               else if t < 60 then 0x8F1BBCDC else 0xCA62C1D6)"

fun fips_W :: "bytes \<Rightarrow> nat \<Rightarrow> u32" where
  "fips_W blk t =
     (if t < 16 then be_word (take 4 (drop (4 * t) blk))
      else word_rotl 1 (fips_W blk (t - 3) XOR fips_W blk (t - 8) XOR fips_W blk (t - 14)
                        XOR fips_W blk (t - 16)))"

definition fips_step :: "bytes \<Rightarrow> wbufs \<Rightarrow> nat \<Rightarrow> wbufs" where
  "fips_step blk = (\<lambda>(a, b, c, d, e) t.
     (word_rotl 5 a + fips_f t b c d + e + fips_W blk t + fips_K t, a, word_rotl 30 b, c, d))"

definition fips_compress :: "wbufs \<Rightarrow> bytes \<Rightarrow> wbufs" where
  "fips_compress h blk = 
     (case (h, foldl (fips_step blk) h [0..<80]) of
        ((h0, h1, h2, h3, h4), (a, b, c, d, e)) \<Rightarrow> (h0 + a, h1 + b, h2 + c, h3 + d, h4 + e))"

definition fips_init :: wbufs where
  "fips_init = (0x67452301, 0xEFCDAB89, 0x98BADCFE, 0x10325476, 0xC3D2E1F0)"

text \<open>The hash of the whole blocks of a message, and the padding.\<close>

function fips_blocks :: "wbufs \<Rightarrow> bytes \<Rightarrow> wbufs" where
  "fips_blocks h m = (if length m < 64 then h else fips_blocks (fips_compress h (take 64 m)) (drop 64 m))"
  by auto
termination by (relation "measure (length \<circ> snd)") auto

definition fips_pad :: "bytes \<Rightarrow> bytes" where
  "fips_pad m = m @ [0x80] @ replicate ((119 - length m mod 64) mod 64) 0
     @ be_bytes (of_nat (8 * length m) :: u64)"

definition fips_sha1 :: "bytes \<Rightarrow> u32 list" where
  "fips_sha1 m = (case fips_blocks fips_init (fips_pad m) of (a, b, c, d, e) \<Rightarrow> [a, b, c, d, e])"

declare sha_zeros.simps [simp del] fips_blocks.simps [simp del] fips_W.simps [simp del]

section \<open>The block function\<close>

lemma CircularShift_or: "CircularShift n w = push_bit n w OR drop_bit (32 - n) w"
proof -
  have "(0xFFFFFFFF :: u32) = - 1" by simp
  then show ?thesis by (simp only: CircularShift_def and_minus_numerals and.right_neutral)
qed

lemma CircularShift_rotl:
  assumes "0 < n" and "n < 32"
  shows "CircularShift n w = word_rotl n w"
proof (rule bit_word_eqI)
  fix i assume i: "i < LENGTH(32)"
  have l: "bit (CircularShift n w) i \<longleftrightarrow> n \<le> i \<and> bit w (i - n) \<or> bit w (32 - n + i)"
    using i by (simp add: CircularShift_or bit_or_iff bit_push_bit_iff bit_drop_bit_eq)
  have r: "bit (word_rotl n w) i \<longleftrightarrow> bit w ((32 - n + i) mod 32)"
    using assms i unfolding bit_word_rotl_iff add.commute [of "32 - n" i] by simp
  show "bit (CircularShift n w) i \<longleftrightarrow> bit (word_rotl n w) i"
  proof (cases "n \<le> i")
    case True
    then have "32 - n + i = (i - n) + 32" using assms by simp
    moreover have "\<not> bit w (32 - n + i)" using True assms by (auto dest: bit_imp_le_length)
    ultimately show ?thesis using True i by (simp only: l r mod_add_self2) simp
  next
    case False
    then have "32 - n + i < 32" using assms by simp
    with False show ?thesis by (simp only: l r mod_less) simp
  qed
qed

lemma W_load_be:
  assumes "length blk = 64" and "t < 16"
  shows "W_load blk t = be_word (take 4 (drop (4 * t) blk))"
proof -
  have "take 4 (drop (4 * t) blk) = [blk ! (t * 4), blk ! (t * 4 + 1), blk ! (t * 4 + 2), blk ! (t * 4 + 3)]"
    using assms by (intro nth_equalityI) (auto simp: less_Suc_eq numeral_eq_Suc ac_simps)
  then show ?thesis
    by (simp add: be_word_def W_load_def push_bit_or ac_simps)
qed

lemma W_loop:
  assumes "length blk = 64" and "16 \<le> n"
  shows "foldl W_step (map (W_load blk) [0..<16]) [16..<n] = map (fips_W blk) [0..<n]"
  using assms(2)
proof (induction n rule: dec_induct)
  case base
  then show ?case
    using assms(1) by (auto simp: W_load_be fips_W.simps [of blk])
next
  case (step n)
  then show ?case
    by (simp add: W_step_def CircularShift_rotl fips_W.simps [of blk n] upt_add_eq_append)
qed

lemma W_sequence_nth: "length blk = 64 \<Longrightarrow> t < 80 \<Longrightarrow> W_sequence blk ! t = fips_W blk t"
  unfolding W_sequence_def by (subst W_loop) (simp_all del: upt_rec_numeral)

lemma sha_round_fips:
  assumes "length blk = 64" and "t < 80" and "\<And>x y z. f x y z = fips_f t x y z" and "k = fips_K t"
  shows "sha_round f k (W_sequence blk) r t = fips_step blk r t"
  using assms by (cases r)
    (simp add: sha_round_def fips_step_def W_sequence_nth CircularShift_rotl)

lemma sha_rounds_fips:
  assumes "length blk = 64"
  shows "sha_rounds (W_sequence blk) r = foldl (fips_step blk) r [0..<80]"
proof -
  have split: "[0..<80] = [0..<20] @ [20..<40] @ [40..<60] @ [60..<80::nat]"
    using upt_add_eq_append [of 0 20 60] upt_add_eq_append [of 20 40 40] upt_add_eq_append [of 40 60 20]
    by simp
  show ?thesis
    unfolding split foldl_append sha_rounds_def Let_def
    by (intro foldl_cong refl) (simp_all add: sha_round_fips assms fips_f_def fips_K_def del: upt_rec_numeral)
qed

definition wlist :: "wbufs \<Rightarrow> u32 list" where
  "wlist = (\<lambda>(a, b, c, d, e). [a, b, c, d, e])"

lemma ProcessMessageBlock_fips:
  assumes "length (Message_Block s) = 64" and "sha_H s = wlist h"
  shows "ProcessMessageBlock s =
    s\<lparr>sha_H := wlist (fips_compress h (Message_Block s)), Message_Block_Index := 0\<rparr>"
  using assms
  by (cases h) (simp add: ProcessMessageBlock_def wlist_def fips_compress_def sha_rounds_fips split_beta)

section \<open>Whole blocks\<close>

lemma fips_blocks_short: "length m < 64 \<Longrightarrow> fips_blocks h m = h"
  by (simp add: fips_blocks.simps)

lemma fips_blocks_one: "length b = 64 \<Longrightarrow> fips_blocks h (b @ m) = fips_blocks (fips_compress h b) m"
  by (simp add: fips_blocks.simps [of h])

lemma fips_blocks_single: "length b = 64 \<Longrightarrow> fips_blocks h b = fips_compress h b"
  using fips_blocks_one [of b h "[]"] by (simp add: fips_blocks_short)

lemma fips_blocks_append:
  "64 dvd length p \<Longrightarrow> fips_blocks h (p @ m) = fips_blocks (fips_blocks h p) m"
proof (induction h p rule: fips_blocks.induct)
  case (1 h p)
  show ?case
  proof (cases "length p < 64")
    case True
    then show ?thesis using "1.prems" by (auto simp: fips_blocks_short elim!: dvdE)
  next
    case False
    moreover from False "1.prems" have "64 dvd length (drop 64 p)"
      by (simp add: dvd_diff_nat)
    ultimately show ?thesis
      using "1.IH" by (simp add: fips_blocks.simps [of h])
  qed
qed

section \<open>The streaming state\<close>

text \<open>
  \<open>sha_repr s p r\<close>: the object has taken the message \<open>p @ r\<close>, of which \<open>p\<close> is the part
  whose blocks are already hashed and \<open>r\<close> the part that waits in \<^verbatim>\<open>Message_Block\<close>.
\<close>

definition sha_block_holds :: "sha1 \<Rightarrow> wbufs \<Rightarrow> bytes \<Rightarrow> bool" where
  "sha_block_holds s h r \<longleftrightarrow>
     length (Message_Block s) = 64 \<and> sha_H s = wlist h \<and>
     Message_Block_Index s = length r \<and> take (length r) (Message_Block s) = r"

definition sha_repr :: "sha1 \<Rightarrow> bytes \<Rightarrow> bytes \<Rightarrow> bool" where
  "sha_repr s p r \<longleftrightarrow>
     \<not> Computed s \<and> \<not> Corrupted s \<and> 64 dvd length p \<and> length r < 64 \<and>
     sha_block_holds s (fips_blocks fips_init p) r \<and>
     unat (Length_High s) * 2 ^ 32 + unat (Length_Low s) = 8 * length (p @ r)"

lemma sha_put_holds:
  "sha_block_holds s h r \<Longrightarrow> length r < 64 \<Longrightarrow> sha_block_holds (sha_put x s) h (r @ [x])"
  by (simp add: sha_block_holds_def sha_put_def take_Suc_conv_app_nth)

lemma sha_process_holds:
  "sha_block_holds s h r \<Longrightarrow> length r = 64 \<Longrightarrow>
     sha_block_holds (ProcessMessageBlock s) (fips_compress h r) []"
  by (auto simp: sha_block_holds_def ProcessMessageBlock_fips)

lemma sha_zeros_holds:
  "sha_block_holds s h r \<Longrightarrow> length r \<le> limit \<Longrightarrow> limit \<le> 64 \<Longrightarrow>
     sha_block_holds (sha_zeros limit s) h (r @ replicate (limit - length r) 0)"
proof (induction "limit - length r" arbitrary: s r)
  case 0
  then show ?case by (simp add: sha_zeros.simps sha_block_holds_def)
next
  case (Suc n)
  then have "sha_block_holds (sha_put 0 s) h (r @ [0])"
    by (intro sha_put_holds) simp_all
  from Suc.hyps(1) [OF _ this] Suc.hyps(2) Suc.prems
  have "sha_block_holds (sha_zeros limit (sha_put 0 s)) h (r @ replicate (Suc (limit - Suc (length r))) 0)"
    by simp
  moreover have "sha_zeros limit s = sha_zeros limit (sha_put 0 s)"
    using Suc.prems Suc.hyps(2) by (simp add: sha_zeros.simps [of limit s] sha_block_holds_def)
  moreover have "Suc (limit - Suc (length r)) = limit - length r"
    using Suc.hyps(2) by simp
  ultimately show ?case by simp
qed

lemma be_bytes_u32:
  "be_bytes (w :: u32) =
     [ucast (drop_bit 24 w AND 0xFF), ucast (drop_bit 16 w AND 0xFF), ucast (drop_bit 8 w AND 0xFF),
      ucast (w AND 0xFF)]"
proof -
  have "ucast (x AND 0xFF) = (ucast x :: u8)" for x :: u32
  proof (rule bit_word_eqI)
    fix n assume "n < LENGTH(8)"
    then have "n \<in> {0, 1, 2, 3, 4, 5, 6, 7}" by auto
    then show "bit (ucast (x AND 0xFF) :: u8) n \<longleftrightarrow> bit (ucast x :: u8) n"
      by (auto simp: bit_simps bit_numeral_word_iff)
  qed
  then show ?thesis by (simp add: be_bytes_def le_bytes_def upt_conv_Cons)
qed

lemma sha_store_length_holds:
  assumes "sha_block_holds s h r" and "length r = 56"
  shows "sha_block_holds ((sha_store_length s)\<lparr>Message_Block_Index := 64\<rparr>) h
    (r @ be_bytes (Length_High s) @ be_bytes (Length_Low s))"
proof -
  define rest where "rest = drop 56 (Message_Block s)"
  have blk: "Message_Block s = r @ rest" and "length rest = 8"
    using assms by (auto simp: sha_block_holds_def rest_def intro: append_take_drop_id [symmetric])
  then obtain a b c d e f g i where "rest = [a, b, c, d, e, f, g, i]"
    by (auto simp: length_Suc_conv numeral_eq_Suc)
  with assms blk show ?thesis
    by (simp add: sha_block_holds_def sha_store_length_def be_bytes_u32 list_update_append)
qed

lemma ProcessMessageBlock_index:
  "ProcessMessageBlock (s\<lparr>Message_Block_Index := i\<rparr>) = ProcessMessageBlock s"
  by (simp add: ProcessMessageBlock_def Let_def split_beta)

lemma ProcessMessageBlock_frame [simp]:
  "Computed (ProcessMessageBlock s) = Computed s" "Corrupted (ProcessMessageBlock s) = Corrupted s"
  "Length_Low (ProcessMessageBlock s) = Length_Low s" "Length_High (ProcessMessageBlock s) = Length_High s"
  by (simp_all add: ProcessMessageBlock_def Let_def split_beta)

lemma sha_put_frame [simp]:
  "Computed (sha_put x s) = Computed s" "Corrupted (sha_put x s) = Corrupted s"
  "Length_Low (sha_put x s) = Length_Low s" "Length_High (sha_put x s) = Length_High s"
  by (simp_all add: sha_put_def)

lemma sha_zeros_frame [simp]:
  "Computed (sha_zeros n s) = Computed s" "Corrupted (sha_zeros n s) = Corrupted s"
  "Length_Low (sha_zeros n s) = Length_Low s" "Length_High (sha_zeros n s) = Length_High s"
  by (induction n s rule: sha_zeros.induct; simp add: sha_zeros.simps)+

lemma sha_Reset_repr:
  "length (Message_Block s) = 64 \<Longrightarrow> sha_repr (sha_Reset s) [] []"
  by (simp add: sha_repr_def sha_block_holds_def sha_Reset_def fips_blocks_short fips_init_def wlist_def)

lemma length_words_step:
  fixes h l :: u32
  assumes n: "unat h * 2 ^ 32 + unat l = 8 * n" and lim: "8 * (n + 1) < 2 ^ 64"
  shows "l + 8 = 0 \<Longrightarrow> h + 1 \<noteq> 0 \<and> unat (h + 1) * 2 ^ 32 = 8 * (n + 1)"
    and "l + 8 \<noteq> 0 \<Longrightarrow> unat h * 2 ^ 32 + unat (l + 8) = 8 * (n + 1)"
proof -
  have l: "unat l < 2 ^ 32" and h: "unat h < 2 ^ 32"
    using unsigned_less [where ?'a = nat and w = l] unsigned_less [where ?'a = nat and w = h] by simp_all
  have sum: "unat (l + 8) = (unat l + 8) mod 2 ^ 32" and inc: "unat (h + 1) = (unat h + 1) mod 2 ^ 32"
    by (simp_all add: unat_word_ariths)
  have "unat l = 8 * (n - unat h * 2 ^ 29)" using n by simp
  then have "8 dvd unat l" by simp
  then have l8: "unat l + 8 \<le> 2 ^ 32" using l by auto
  {
    assume "l + 8 = 0"
    then have "unat l + 8 = 2 ^ 32" using sum l8 l by (cases "unat l + 8 = 2 ^ 32") auto
    then have e: "unat h * 2 ^ 32 + 2 ^ 32 = 8 * (n + 1)" using n by simp
    then have "unat h + 1 < 2 ^ 32" using lim by simp
    then have u: "unat (h + 1) = unat h + 1" using inc by simp
    then have "h + 1 \<noteq> 0" by (metis add_is_0 unsigned_0 zero_neq_one)
    with u e show "h + 1 \<noteq> 0 \<and> unat (h + 1) * 2 ^ 32 = 8 * (n + 1)" by simp
  next
    assume "l + 8 \<noteq> 0"
    then have "unat (l + 8) \<noteq> 0" by (simp add: unat_eq_0)
    then have "unat l + 8 \<noteq> 2 ^ 32" using sum by auto
    then have "unat (l + 8) = unat l + 8" using sum l8 by simp
    with n show "unat h * 2 ^ 32 + unat (l + 8) = 8 * (n + 1)" by simp
  }
qed

section \<open>Input and Result\<close>

lemma sha_count_spec:
  assumes "unat (Length_High s) * 2 ^ 32 + unat (Length_Low s) = 8 * n" and "8 * (n + 1) < 2 ^ 64"
  shows "unat (Length_High (sha_count s)) * 2 ^ 32 + unat (Length_Low (sha_count s)) = 8 * (n + 1)"
    and "Corrupted (sha_count s) = Corrupted s"
  using length_words_step [OF assms] by (auto simp: sha_count_def Let_def)

lemma sha_count_frame [simp]:
  "Computed (sha_count s) = Computed s" "Message_Block_Index (sha_count s) = Message_Block_Index s"
  "sha_block_holds (sha_count s) h r = sha_block_holds s h r"
  by (simp_all add: sha_count_def Let_def sha_block_holds_def)

lemma sha_input_byte_repr:
  assumes "sha_repr s p r" and "8 * (length (p @ r) + 1) < 2 ^ 64"
  shows "\<exists>p' r'. p' @ r' = p @ r @ [x] \<and> sha_repr (sha_input_byte x s) p' r'"
proof -
  define s3 where "s3 = sha_count (sha_put x s)"
  have eq: "sha_input_byte x s = (if Message_Block_Index s3 = 64 then ProcessMessageBlock s3 else s3)"
    by (simp add: sha_input_byte_def s3_def Let_def)
  have c3: "unat (Length_High s3) * 2 ^ 32 + unat (Length_Low s3) = 8 * (length (p @ r) + 1)"
    "\<not> Corrupted s3" "\<not> Computed s3"
    using sha_count_spec [OF _ assms(2), of "sha_put x s"] assms(1) by (simp_all add: s3_def sha_repr_def)
  have h3: "sha_block_holds s3 (fips_blocks fips_init p) (r @ [x])"
    using sha_put_holds assms(1) by (simp add: s3_def sha_repr_def)
  then have i3: "Message_Block_Index s3 = length r + 1" by (simp add: sha_block_holds_def)
  show ?thesis
  proof (cases "length r = 63")
    case True
    then have "sha_block_holds (ProcessMessageBlock s3) (fips_blocks fips_init (p @ r @ [x])) []"
      using sha_process_holds [OF h3] assms(1)
      by (simp add: fips_blocks_append sha_repr_def fips_blocks_single)
    then have "sha_repr (sha_input_byte x s) (p @ r @ [x]) []"
      using assms(1) True c3 i3 by (simp add: sha_repr_def eq)
    then show ?thesis by (metis append_Nil2)
  next
    case False
    then have "sha_repr (sha_input_byte x s) p (r @ [x])"
      using assms(1) c3 i3 h3 by (simp add: sha_repr_def eq)
    then show ?thesis by blast
  qed
qed

lemma sha_input_loop_repr:
  "sha_repr s p r \<Longrightarrow> 8 * length (p @ r @ xs) < 2 ^ 64 \<Longrightarrow>
     \<exists>p' r'. p' @ r' = p @ r @ xs \<and> sha_repr (sha_input_loop xs s) p' r'"
proof (induction xs arbitrary: s p r)
  case (Cons x xs)
  then obtain p1 r1 where 1: "p1 @ r1 = p @ r @ [x]" "sha_repr (sha_input_byte x s) p1 r1"
    using sha_input_byte_repr [OF Cons.prems(1), of x] by auto
  have e: "p1 @ r1 @ xs = p @ r @ x # xs"
    using 1(1) by (metis append.assoc append_Cons append_Nil)
  from Cons.IH [OF 1(2)] e Cons.prems obtain p' r' where
    "p' @ r' = p @ r @ x # xs" "sha_repr (sha_input_loop xs (sha_input_byte x s)) p' r'" by metis
  moreover have "sha_input_loop (x # xs) s = sha_input_loop xs (sha_input_byte x s)"
    using Cons.prems(1) by (simp add: sha_repr_def)
  ultimately show ?case by metis
qed auto

lemma sha_Input_repr:
  "sha_repr s p r \<Longrightarrow> 8 * length (p @ r @ xs) < 2 ^ 64 \<Longrightarrow>
     \<exists>p' r'. p' @ r' = p @ r @ xs \<and> sha_repr (sha_Input xs s) p' r'"
  using sha_input_loop_repr [of s p r xs] by (auto simp: sha_Input_def sha_repr_def)

lemma sha_Inputs_repr:
  "sha_repr s p r \<Longrightarrow> 8 * length (p @ r @ concat xss) < 2 ^ 64 \<Longrightarrow>
     \<exists>p' r'. p' @ r' = p @ r @ concat xss \<and> sha_repr (fold sha_Input xss s) p' r'"
proof (induction xss arbitrary: s p r)
  case (Cons xs xss)
  then obtain p1 r1 where 1: "p1 @ r1 = p @ r @ xs" "sha_repr (sha_Input xs s) p1 r1"
    using sha_Input_repr [OF Cons.prems(1), of xs] by auto
  have "p1 @ r1 @ concat xss = p @ r @ concat (xs # xss)"
    using 1(1) by (metis append.assoc concat.simps(2))
  with Cons.IH [OF 1(2)] Cons.prems(2) show ?case by (metis fold_simps(2))
qed auto

lemma le_bytes_u64:
  "le_bytes (x :: u64) = le_bytes (ucast x :: u32) @ le_bytes (ucast (drop_bit 32 x) :: u32)"
proof -
  have eq: "ucast (drop_bit n (ucast y :: u32)) = (ucast (drop_bit n y) :: u8)" if "n \<le> 24" for n and y :: u64
    using that by (intro bit_word_eqI) (auto simp: bit_ucast_iff bit_drop_bit_eq)
  from eq [of 0] show ?thesis
    by (simp add: le_bytes_def upt_conv_Cons eq drop_bit_drop_bit)
qed

lemma length_words_bytes:
  fixes h l :: u32
  assumes n: "unat h * 2 ^ 32 + unat l = n"
  shows "be_bytes (of_nat n :: u64) = be_bytes h @ be_bytes l"
proof -
  define w where "w = (of_nat n :: u64)"
  have l: "unat l < 2 ^ 32" and h: "unat h < 2 ^ 32"
    using unsigned_less [where ?'a = nat and w = l] unsigned_less [where ?'a = nat and w = h] by simp_all
  then have "n < 2 ^ 64" using n by simp
  then have u: "unat w = n" unfolding w_def unat_of_nat by simp
  have "n mod 2 ^ 32 = unat l" "n div 2 ^ 32 = unat h"
    using l by (simp_all flip: n)
  then have "ucast w = l" "ucast (drop_bit 32 w) = h"
    using h by (simp_all add: word_unat_eq_iff unsigned_ucast_eq
        take_bit_eq_mod drop_bit_eq_div unat_div_distrib u)
  then show ?thesis by (simp add: be_bytes_def le_bytes_u64 flip: w_def)
qed

text \<open>Padding completes \<open>p @ r\<close> to whole blocks, with one more block or two.\<close>

lemma PadMessage_spec:
  assumes "sha_repr s p r"
  shows "sha_H (PadMessage s) = wlist (fips_blocks fips_init (fips_pad (p @ r)))"
proof -
  let ?h = "fips_blocks fips_init p"
  let ?len = "be_bytes (Length_High s) @ be_bytes (Length_Low s)"
  have r: "sha_block_holds s ?h r" "length r < 64" and p: "64 dvd length p"
    and n: "unat (Length_High s) * 2 ^ 32 + unat (Length_Low s) = 8 * length (p @ r)"
    using assms by (simp_all add: sha_repr_def)
  have lr: "length (p @ r) mod 64 = length r" using p r(2) by (auto elim!: dvdE)
  have put: "sha_block_holds (sha_put 0x80 s) ?h (r @ [0x80])"
    using r by (rule sha_put_holds)
  have finish: "sha_H (ProcessMessageBlock (sha_store_length s')) = wlist (fips_compress h' (r' @ ?len))"
    if "sha_block_holds s' h' r'" "length r' = 56" "Length_High s' = Length_High s"
      "Length_Low s' = Length_Low s" for s' h' r'
    using sha_process_holds [OF sha_store_length_holds [OF that(1,2)]] that
    by (simp add: ProcessMessageBlock_index) (simp add: sha_block_holds_def)
  show ?thesis
  proof (cases "length r > 55")
    case True
    let ?b = "r @ [0x80] @ replicate (63 - length r) 0"
    have z: "sha_block_holds (sha_zeros 64 (sha_put 0x80 s)) ?h ?b"
      using sha_zeros_holds [OF put, of 64] r(2) by simp
    then have "sha_block_holds (ProcessMessageBlock (sha_zeros 64 (sha_put 0x80 s))) (fips_compress ?h ?b) []"
      by (rule sha_process_holds) (use r(2) in simp)
    from sha_zeros_holds [OF this, of 56]
    have "sha_H (PadMessage s) = wlist (fips_compress (fips_compress ?h ?b) (replicate 56 0 @ ?len))"
      using True r(1) finish by (simp add: PadMessage_def Let_def sha_block_holds_def)
    moreover have "fips_pad (p @ r) = p @ ?b @ (replicate 56 0 @ ?len)"
    proof -
      have "(119 - length r) mod 64 = (63 - length r) + 56" using True r(2) by simp
      then show ?thesis
        using lr length_words_bytes [OF n] by (simp only: fips_pad_def replicate_add lr) simp
    qed
    moreover have "fips_blocks ?h (?b @ (replicate 56 0 @ ?len)) =
        fips_blocks (fips_compress ?h ?b) (replicate 56 0 @ ?len)"
      by (rule fips_blocks_one) (use r(2) in simp)
    moreover have "fips_blocks (fips_compress ?h ?b) (replicate 56 0 @ ?len) =
        fips_compress (fips_compress ?h ?b) (replicate 56 0 @ ?len)"
      by (rule fips_blocks_single) simp
    ultimately show ?thesis
      using fips_blocks_append [OF p, of fips_init "?b @ (replicate 56 0 @ ?len)"] by metis
  next
    case False
    let ?b = "r @ [0x80] @ replicate (55 - length r) 0"
    have "sha_block_holds (sha_zeros 56 (sha_put 0x80 s)) ?h ?b"
      using sha_zeros_holds [OF put, of 56] False by simp
    then have "sha_H (PadMessage s) = wlist (fips_compress ?h (?b @ ?len))"
      using False r(1) finish by (simp add: PadMessage_def Let_def sha_block_holds_def)
    moreover have "fips_pad (p @ r) = p @ (?b @ ?len)"
    proof -
      have "119 - length r = (55 - length r) + 64" using False by simp
      then have "(119 - length r) mod 64 = (55 - length r) mod 64" by (simp only: mod_add_self2)
      then show ?thesis
        using lr length_words_bytes [OF n] by (simp add: fips_pad_def)
    qed
    moreover have "fips_blocks ?h (?b @ ?len) = fips_compress ?h (?b @ ?len)"
      by (rule fips_blocks_single) (use False in simp)
    ultimately show ?thesis
      using fips_blocks_append [OF p, of fips_init "?b @ ?len"] by metis
  qed
qed

lemma wlist_nth: "map ((!) (wlist h)) [0..<5] = wlist h"
  by (cases h) (simp add: wlist_def upt_conv_Cons)

lemma sha_Result_repr:
  assumes "sha_repr s p r"
  shows "fst (sha_Result s) = Some (fips_sha1 (p @ r))"
proof -
  have "fips_sha1 (p @ r) = map ((!) (sha_H (PadMessage s))) [0..<5]"
    by (simp only: PadMessage_spec [OF assms] wlist_nth) (simp add: fips_sha1_def wlist_def)
  then show ?thesis
    using assms by (simp add: sha_Result_def sha_repr_def Let_def)
qed

lemma PadMessage_frame [simp]:
  "Computed (PadMessage s) = Computed s" "Corrupted (PadMessage s) = Corrupted s"
  by (simp_all add: PadMessage_def sha_store_length_def Let_def)

lemma sha_Inputs_corrupted: "Corrupted s \<Longrightarrow> Corrupted (fold sha_Input yss s)"
  by (induction yss arbitrary: s) (simp_all add: sha_Input_def)

text \<open>\<^verbatim>\<open>operator<<\<close> on a C string is a sequence of one-byte inputs up to its NUL.\<close>

lemma sha_shift_string_inputs:
  "sha_shift_string xs s = fold sha_Input (map (\<lambda>x. [x]) (takeWhile (\<lambda>x. x \<noteq> 0) xs)) s"
  by (induction xs arbitrary: s) (simp_all add: sha_Input1_def)

section \<open>Properties\<close>

text \<open>
  C23: a \<^verbatim>\<open>SHA1\<close> object that is reset and then given a message in any pieces, by any
  sequence of \<^verbatim>\<open>Input\<close> calls, returns the FIPS 180 digest of the whole message, whatever
  its block array held before, as long as the message has fewer than \<open>2 ^ 64\<close> bits.
\<close>

theorem sha1_computes_fips:
  assumes "length (Message_Block s) = 64" and "8 * length (concat xss) < 2 ^ 64"
  shows "fst (sha_Result (fold sha_Input xss (sha_Reset s))) = Some (fips_sha1 (concat xss))"
  using sha_Inputs_repr [OF sha_Reset_repr [OF assms(1)], of xss] assms(2) sha_Result_repr by fastforce

definition sha_example :: sha1 where
  "sha_example = \<lparr>sha_H = [], Length_Low = 3, Length_High = 9, Message_Block = replicate 64 0xAA,
     Message_Block_Index = 7, Computed = True, Corrupted = True\<rparr>"

theorem sha1_computes_fips_witness:
  "fst (sha_Result (fold sha_Input [[0x61], [], [0x62, 0x63]] (sha_Reset sha_example)))
     = Some (fips_sha1 [0x61, 0x62, 0x63])"
  using sha1_computes_fips [of sha_example "[[0x61], [], [0x62, 0x63]]"] by (simp add: sha_example_def)

text \<open>
  the result is stable and final. Asking again returns the same digest, and any further
  input after the digest was computed marks the object as corrupted, after which every
  later \<^verbatim>\<open>Result\<close> fails until \<^verbatim>\<open>Reset\<close>.
\<close>

theorem sha1_after_result:
  assumes "sha_Result s = (Some d, s1)" and "xs \<noteq> []"
  shows "sha_Result s1 = (Some d, s1) \<and>
    fst (sha_Result (fold sha_Input yss (sha_Input xs s1))) = None"
proof -
  have c: "Computed s1" "\<not> Corrupted s1"
    using assms(1) by (auto simp: sha_Result_def Let_def split: if_splits)
  then have "Corrupted (sha_Input xs s1)"
    using assms(2) by (simp add: sha_Input_def)
  with sha_Inputs_corrupted have "Corrupted (fold sha_Input yss (sha_Input xs s1))" .
  then show ?thesis
    using c assms(1) by (auto simp: sha_Result_def Let_def split: if_splits)
qed

theorem sha1_after_result_witness:
  "\<exists>d s1. sha_Result (sha_Reset sha_example) = (Some d, s1) \<and> sha_Result s1 = (Some d, s1) \<and>
     fst (sha_Result (fold sha_Input [[1]] (sha_Input [2] s1))) = None"
proof -
  obtain d s1 where 1: "sha_Result (sha_Reset sha_example) = (Some d, s1)"
    by (simp add: sha_Result_def sha_Reset_def Let_def)
  from sha1_after_result [OF this, of "[2]" "[[1]]"] 1 show ?thesis by simp
qed

end
