(* ===== verification/Web_Socket.thy ===== *)
theory Web_Socket
  imports Socket_Server Base64 Sha1
begin

text \<open>
  \<^verbatim>\<open>src/socket/WebSocketServer.cpp\<close>: the WebSocket protocol on top of the socket server. The
  bit fields of the frame header are laid out from the lowest bit, as the compiler does on a
  little endian machine. The functions that read a buffer as a C string may run past its end:
  \<open>beyond\<close> is the memory behind it.
\<close>

section \<open>Frame header\<close>

record WS_HEADER =
  ws_opcode :: u8
  ws_RSV3 :: bool
  ws_RSV2 :: bool
  ws_RSV1 :: bool
  ws_FIN :: bool
  ws_payload_len :: u8
  ws_MASK :: bool

definition sizeof_WS_HEADER :: nat where
  "sizeof_WS_HEADER = 2"

definition ws_read_header :: "bytes \<Rightarrow> WS_HEADER" where
  "ws_read_header buffer =
     \<lparr>ws_opcode = buffer ! 0 AND 0x0f, ws_RSV3 = bit (buffer ! 0) 4, ws_RSV2 = bit (buffer ! 0) 5,
      ws_RSV1 = bit (buffer ! 0) 6, ws_FIN = bit (buffer ! 0) 7,
      ws_payload_len = buffer ! 1 AND 0x7f, ws_MASK = bit (buffer ! 1) 7\<rparr>"

definition ws_header_bytes :: "WS_HEADER \<Rightarrow> bytes" where
  "ws_header_bytes h =
     [(ws_opcode h AND 0x0f) OR (if ws_RSV3 h then 0x10 else 0) OR (if ws_RSV2 h then 0x20 else 0)
        OR (if ws_RSV1 h then 0x40 else 0) OR (if ws_FIN h then 0x80 else 0),
      (ws_payload_len h AND 0x7f) OR (if ws_MASK h then 0x80 else 0)]"

abbreviation (input) WS_OPCODE_CONTINUE :: u8 where "WS_OPCODE_CONTINUE \<equiv> 0x0"
abbreviation (input) WS_OPCODE_TEXT :: u8 where "WS_OPCODE_TEXT \<equiv> 0x1"
abbreviation (input) WS_OPCODE_BINARY :: u8 where "WS_OPCODE_BINARY \<equiv> 0x2"
abbreviation (input) WS_OPCODE_CLOSE :: u8 where "WS_OPCODE_CLOSE \<equiv> 0x8"
abbreviation (input) WS_OPCODE_PING :: u8 where "WS_OPCODE_PING \<equiv> 0x9"
abbreviation (input) WS_OPCODE_PONG :: u8 where "WS_OPCODE_PONG \<equiv> 0xa"

text \<open>\<^verbatim>\<open>ntohs\<close> and \<^verbatim>\<open>ntohl\<close> on values that were read in the order of the machine.\<close>

definition ntohs :: "u16 \<Rightarrow> u16" where
  "ntohs w = be_word (le_bytes w)"

definition ntohl :: "u32 \<Rightarrow> u32" where
  "ntohl w = be_word (le_bytes w)"

section \<open>Sending\<close>

definition ws_control :: "u8 \<Rightarrow> bytes" where
  "ws_control opcode =
     ws_header_bytes \<lparr>ws_opcode = opcode, ws_RSV3 = False, ws_RSV2 = False, ws_RSV1 = False, ws_FIN = True,
       ws_payload_len = 0, ws_MASK = False\<rparr>"

definition ws_sendPing :: "SOCKET \<Rightarrow> server \<Rightarrow> server res" where
  "ws_sendPing s ss = ss_sendPayload s (ws_control WS_OPCODE_PING) ss"

definition ws_sendPong :: "SOCKET \<Rightarrow> server \<Rightarrow> server res" where
  "ws_sendPong s ss = ss_sendPayload s (ws_control WS_OPCODE_PONG) ss"

text \<open>The buffer that \<^verbatim>\<open>sendMessage\<close> builds; the length is stored as the machine stores it.\<close>

definition ws_text_frame :: "bytes \<Rightarrow> bytes" where
  "ws_text_frame data =
     (let datasize = length data;
          payload_len = (if datasize < 126 then of_nat datasize else if datasize < 65025 then 126 else 127) :: u8;
          header = ws_header_bytes \<lparr>ws_opcode = WS_OPCODE_TEXT, ws_RSV3 = False, ws_RSV2 = False, ws_RSV1 = False,
            ws_FIN = True, ws_payload_len = payload_len, ws_MASK = False\<rparr>
      in header @ (if payload_len = 126 then le_bytes (of_nat datasize :: u16)
                   else if payload_len = 127 then le_bytes (of_nat datasize :: u64) else []) @ data)"

definition ws_sendMessage :: "SOCKET \<Rightarrow> bytes \<Rightarrow> server \<Rightarrow> server res" where
  "ws_sendMessage s data ss = ss_sendPayload s (ws_text_frame data) ss"

section \<open>Frames\<close>

text \<open>
  Where the data of a frame starts, not counting the mask, and how long it is; \<open>None\<close> when the
  length field has not arrived. The eight bytes of a long length pass through \<^verbatim>\<open>ntohl\<close>,
  which takes 32 bits.
\<close>

definition ws_extent :: "bytes \<Rightarrow> (nat \<times> nat) option" where
  "ws_extent buffer =
     (let header = ws_read_header buffer; offset = sizeof_WS_HEADER
      in if ws_payload_len header = 126 then
           (if length buffer < offset + 2 then None
            else Some (offset + 2, unat (ntohs (le_word (take 2 (drop offset buffer))))))
         else if ws_payload_len header = 127 then
           (if length buffer < offset + 8 then None
            else Some (offset + 8, unat (ntohl (ucast (le_word (take 8 (drop offset buffer)) :: u64)))))
         else Some (offset, unat (ws_payload_len header)))"

definition ws_legal :: "WS_HEADER \<Rightarrow> bool" where
  "ws_legal h \<longleftrightarrow> \<not> ws_RSV1 h \<and> \<not> ws_RSV2 h \<and> \<not> ws_RSV3 h \<and> ws_FIN h"

text \<open>The splitter: the sum is returned as an \<^verbatim>\<open>int\<close>.\<close>

definition ws_parsePackage :: MESSAGE_SPLITER where
  "ws_parsePackage buffer =
     (if length buffer < sizeof_WS_HEADER then 0
      else if \<not> ws_legal (ws_read_header buffer) then -1
      else case ws_extent buffer of
        None \<Rightarrow> 0
      | Some (offset, payload_len) \<Rightarrow>
          let masked = ws_MASK (ws_read_header buffer); offset1 = (if masked then offset + 4 else offset)
          in if masked \<and> length buffer < offset + 4 then 0
             else if length buffer < offset1 + payload_len then 0
             else sint (of_nat (offset1 + payload_len) :: u32))"

text \<open>Unmasking changes the bytes of the message in place.\<close>

fun ws_unmask_loop :: "bytes \<Rightarrow> bytes \<Rightarrow> nat \<Rightarrow> bytes" where
  "ws_unmask_loop key [] i = []"
| "ws_unmask_loop key (b # bs) i = (b XOR key ! (i mod 4)) # ws_unmask_loop key bs (Suc i)"

text \<open>What becomes of a received frame: refused, answered or ignored, or forwarded as a new message.\<close>

datatype ws_verdict = WS_refused | WS_done server | WS_forward Socketmessage

definition ws_parseMessage :: "SOCKET \<Rightarrow> Socketmessage \<Rightarrow> server \<Rightarrow> ws_verdict res" where
  "ws_parseMessage s msg ss =
     (let buffer = msg_bytes msg; len = length buffer
      in if len < sizeof_WS_HEADER then Inr WS_refused
         else let header = ws_read_header buffer
         in if \<not> ws_legal header then Inr WS_refused
         else case ws_extent buffer of
           None \<Rightarrow> Inr WS_refused
         | Some (offset, payload_len) \<Rightarrow>
             if ws_MASK header \<and> len < offset + 4 then Inr WS_refused
             else let key = take 4 (drop offset buffer); offset1 = (if ws_MASK header then offset + 4 else offset)
             in if len < offset1 + payload_len then Inr WS_refused
             else let raw = take payload_len (drop offset1 buffer);
                      data = (if ws_MASK header then ws_unmask_loop key raw 0 else raw)
             in if ws_opcode header = WS_OPCODE_BINARY \<or> ws_opcode header = WS_OPCODE_TEXT \<or> ws_opcode header = WS_OPCODE_CONTINUE
                then bindE (releaseMessage msg) (\<lambda>_. Inr (WS_forward (allocateMessage_payload s SM_OPCODE_MESSAGE data)))
                else if ws_opcode header = WS_OPCODE_CLOSE then Inr WS_refused
                else if ws_opcode header = WS_OPCODE_PING then bindE (ws_sendPong s ss) (\<lambda>ss1. Inr (WS_done ss1))
                else if ws_opcode header = WS_OPCODE_PONG then Inr (WS_done ss)
                else Inr WS_refused)"

section \<open>Handshake\<close>

definition MAGIC_KEY :: string where
  "MAGIC_KEY = ''258EAFA5-E914-47DA-95CA-C5AB0DC85B11''"

definition CR :: char where "CR = CHR 0x0D"
definition LF :: char where "LF = CHR 0x0A"

text \<open>\<^verbatim>\<open>std::getline\<close> until it fails: the last line need not end in a line feed.\<close>

fun getlines :: "string \<Rightarrow> string \<Rightarrow> string list" where
  "getlines [] line = (if line = [] then [] else [line])"
| "getlines (c # cs) line = (if c = LF then line # getlines cs [] else getlines cs (line @ [c]))"

fun find_pair :: "char \<Rightarrow> char \<Rightarrow> string \<Rightarrow> nat option" where
  "find_pair a b [] = None"
| "find_pair a b [x] = None"
| "find_pair a b (x # y # r) = (if x = a \<and> y = b then Some 0 else map_option Suc (find_pair a b (y # r)))"

text \<open>An empty line indexes the string at minus one.\<close>

fun handshake_headers :: "string list \<Rightarrow> (string \<rightharpoonup> string) \<Rightarrow> (string \<rightharpoonup> string) res" where
  "handshake_headers [] headers = Inr headers"
| "handshake_headers (h # hs) headers =
     (if h = [CR] then Inr headers
      else if h = [] then Inl HeapOverrun
      else if last h \<noteq> CR then handshake_headers hs headers
      else let header = butlast h
           in case find_pair (CHR '':'') (CHR '' '') header of
                None \<Rightarrow> handshake_headers hs headers
              | Some end \<Rightarrow> handshake_headers hs (headers(take end header \<mapsto> drop (end + 2) header)))"

definition handshake_required :: "string list" where
  "handshake_required = [''Host'', ''Upgrade'', ''Connection'', ''Sec-WebSocket-Key'', ''Sec-WebSocket-Version'']"

definition parse_handshake_request :: "bytes \<Rightarrow> bytes \<Rightarrow> (int \<times> string) res" where
  "parse_handshake_request beyond buffer =
     (let text1 = string_of_bytes (takeWhile (\<lambda>b. b \<noteq> 0) (buffer @ beyond))
      in bindE (handshake_headers (drop 1 (getlines text1 [])) Map.empty) (\<lambda>headers.
           if \<exists>k \<in> set handshake_required. headers k = None then Inr (0, [])
           else Inr (sint (of_nat (length buffer) :: u32), the (headers ''Sec-WebSocket-Key''))))"

definition is_GET :: "bytes \<Rightarrow> bool" where
  "is_GET buffer \<longleftrightarrow> length buffer \<ge> 3 \<and> buffer ! 0 = 0x47 \<and> buffer ! 1 = 0x45 \<and> buffer ! 2 = 0x54"

definition ws_splitter :: "bytes \<Rightarrow> bytes \<Rightarrow> int res" where
  "ws_splitter beyond buffer =
     (if is_GET buffer then bindE (parse_handshake_request beyond buffer) (\<lambda>(rc, key). Inr rc)
      else Inr (ws_parsePackage buffer))"

text \<open>The digest words are brought into network order before they are encoded as bytes.\<close>

definition ws_accept :: "sha1 \<Rightarrow> string \<Rightarrow> string option" where
  "ws_accept sha key =
     (let s = sha_shift_string (bytes_of_string (key @ MAGIC_KEY)) (sha_Reset sha)
      in map_option (\<lambda>digest. base64_encode (concat (map (\<lambda>w. le_bytes (ntohl w)) digest))) (fst (sha_Result s)))"

definition ws_response :: "string \<Rightarrow> string" where
  "ws_response accept =
     ''HTTP/1.1 101 Switching Protocols'' @ [CR, LF] @ ''Connection: upgrade'' @ [CR, LF] @
     ''Sec-WebSocket-Accept: '' @ accept @ [CR, LF] @ ''Upgrade: websocket'' @ [CR, LF, CR, LF]"

definition send_handshake_response :: "sha1 \<Rightarrow> SOCKET \<Rightarrow> string \<Rightarrow> server \<Rightarrow> server res" where
  "send_handshake_response sha s key ss =
     (case ws_accept sha key of None \<Rightarrow> Inl UninitRead
      | Some accept \<Rightarrow> ss_sendPayload s (bytes_of_string (ws_response accept)) ss)"

section \<open>Receiving\<close>

definition ws_receiveMessage :: "bytes \<Rightarrow> sha1 \<Rightarrow> server \<Rightarrow> (Socketmessage option \<times> server) res" where
  "ws_receiveMessage beyond sha ss =
     bindE (ss_receiveMessage ss) (\<lambda>(p, ss1).
       case p of
         None \<Rightarrow> Inr (None, ss1)
       | Some msg \<Rightarrow>
           let s = sm_s msg
           in if sm_opcode msg = SM_OPCODE_ESTABLISH then bindE (releaseMessage msg) (\<lambda>_. Inr (None, ss1))
              else if sm_opcode msg = SM_OPCODE_CLOSE then Inr (Some msg, ss1)
              else if is_GET (msg_bytes msg) then
                bindE (parse_handshake_request beyond (msg_bytes msg)) (\<lambda>(len, key).
                  assertE (len > 0 \<and> nat len = unat (sm_payload_len msg))
                    (bindE (send_handshake_response sha s key ss1) (\<lambda>ss2. Inr (Some msg, ss2))))
              else bindE (ws_parseMessage s msg ss1) (\<lambda>v.
                case v of
                  WS_refused \<Rightarrow> bindE (ss_close s ss1) (\<lambda>ss2. bindE (releaseMessage msg) (\<lambda>_. Inr (None, ss2)))
                | WS_done ss2 \<Rightarrow> bindE (releaseMessage msg) (\<lambda>_. Inr (None, ss2))
                | WS_forward newmsg \<Rightarrow> Inr (Some newmsg, ss1)))"

section \<open>Headers survive\<close>

lemma length_ws_header [simp]: "length (ws_header_bytes h) = sizeof_WS_HEADER"
  by (simp add: ws_header_bytes_def sizeof_WS_HEADER_def)

definition plain_header :: "nat \<Rightarrow> nat \<Rightarrow> bool \<Rightarrow> WS_HEADER" where
  "plain_header opcode n masked =
     \<lparr>ws_opcode = of_nat opcode, ws_RSV3 = False, ws_RSV2 = False, ws_RSV1 = False, ws_FIN = True,
      ws_payload_len = of_nat n, ws_MASK = masked\<rparr>"

lemma opcode_byte:
  "list_all (\<lambda>n. let b = (of_nat n AND 0x0f) OR 0x80 :: u8
     in b AND 0x0f = of_nat n \<and> \<not> bit b 4 \<and> \<not> bit b 5 \<and> \<not> bit b 6 \<and> bit b 7 \<and> b \<noteq> 0x47) [0..<16]"
  by code_simp

lemma length_byte:
  "list_all (\<lambda>n. let a = of_nat n AND 0x7f :: u8; b = a OR 0x80
     in a AND 0x7f = of_nat n \<and> b AND 0x7f = of_nat n \<and> \<not> bit a 7 \<and> bit b 7) [0..<128]"
  by code_simp

lemma read_plain_header:
  assumes "opcode < 16" and "n < 128"
  shows "ws_read_header (ws_header_bytes (plain_header opcode n masked) @ rest) = plain_header opcode n masked"
    and "\<not> is_GET (ws_header_bytes (plain_header opcode n masked) @ rest)"
  using opcode_byte [unfolded list_all_iff Let_def, rule_format, of opcode]
    length_byte [unfolded list_all_iff Let_def, rule_format, of n] assms
  by (cases masked; auto simp: ws_read_header_def ws_header_bytes_def plain_header_def is_GET_def)+

lemma ws_legal_plain [simp]: "ws_legal (plain_header opcode n masked)"
  by (simp add: ws_legal_def plain_header_def)

lemma plain_header_simps [simp]:
  "ws_opcode (plain_header opcode n masked) = of_nat opcode" "ws_payload_len (plain_header opcode n masked) = of_nat n"
  "ws_MASK (plain_header opcode n masked) = masked"
  by (simp_all add: plain_header_def)

lemma le_bytes_ntohl: "le_bytes (ntohl w) = be_bytes w"
  by (simp add: ntohl_def be_word_def be_bytes_def le_bytes_le_word)

lemma le_word_ucast_u64:
  assumes "length xs = 8"
  shows "(ucast (le_word xs :: u64) :: u32) = le_word (take 4 xs)"
proof -
  have t: "take 4 (le_bytes (a :: u32) @ ys) = le_bytes a" for a ys by simp
  have "xs = le_bytes (ucast (le_word xs :: u64) :: u32) @ le_bytes (ucast (drop_bit 32 (le_word xs :: u64)) :: u32)"
    using assms le_bytes_u64 [of "le_word xs"] by (simp add: le_bytes_le_word)
  then have "take 4 xs = le_bytes (ucast (le_word xs :: u64) :: u32)"
    using t [of "ucast (le_word xs :: u64)"] by metis
  then show ?thesis by (simp add: le_word_le_bytes)
qed

lemma ntohs_read: "length xs = 2 \<Longrightarrow> ntohs (le_word xs) = be_word xs"
  by (simp add: ntohs_def le_bytes_le_word)

lemma ntohl_read: "length xs = 4 \<Longrightarrow> ntohl (le_word xs) = be_word xs"
  by (simp add: ntohl_def le_bytes_le_word)

lemma length_unmask [simp]: "length (ws_unmask_loop key data i) = length data"
  by (induction data arbitrary: i) simp_all

section \<open>The frame splitter keeps the contract\<close>

lemma read_header_append: "sizeof_WS_HEADER \<le> length xs \<Longrightarrow> ws_read_header (xs @ ys) = ws_read_header xs"
  by (cases xs) (auto simp: ws_read_header_def nth_append sizeof_WS_HEADER_def)

lemma extent_append:
  "sizeof_WS_HEADER \<le> length xs \<Longrightarrow> ws_extent xs = Some p \<Longrightarrow> ws_extent (xs @ ys) = Some p"
  by (auto simp: ws_extent_def Let_def read_header_append sizeof_WS_HEADER_def split: if_splits)

interpretation ws: message_spliter ws_parsePackage
proof
  show "ws_parsePackage [] = 0" by (simp add: ws_parsePackage_def sizeof_WS_HEADER_def)
  show "nat (ws_parsePackage xs) \<le> length xs" if "0 < ws_parsePackage xs" for xs
  proof -
    from that obtain n where n: "ws_parsePackage xs = sint (of_nat n :: u32)" "n \<le> length xs"
      unfolding ws_parsePackage_def Let_def
      by (auto simp del: of_nat_add simp: not_less split: if_splits option.splits prod.splits)
    then have "nat (ws_parsePackage xs) = unat (of_nat n :: u32)" using that sint_pos_u32 by simp
    also have "\<dots> \<le> n" by (simp add: unat_of_nat take_bit_eq_mod)
    finally show ?thesis using n(2) by simp
  qed
  show "ws_parsePackage (xs @ ys) = ws_parsePackage xs" if "ws_parsePackage xs \<noteq> 0" for xs ys
  proof -
    have l: "sizeof_WS_HEADER \<le> length xs" using that by (auto simp: ws_parsePackage_def split: if_splits)
    show ?thesis
    proof (cases "ws_legal (ws_read_header xs) \<and> ws_extent xs \<noteq> None")
      case True
      with that l show ?thesis
        by (auto simp: ws_parsePackage_def read_header_append extent_append Let_def split: if_splits)
    next
      case False
      with that l show ?thesis by (cases "ws_extent xs") (auto simp: ws_parsePackage_def read_header_append)
    qed
  qed
qed

section \<open>Client frames\<close>

text \<open>A frame as RFC 6455 makes a client send it: masked, lengths in network order.\<close>

definition rfc6455_mask :: "bytes \<Rightarrow> bytes \<Rightarrow> bytes" where
  "rfc6455_mask key data = map (\<lambda>i. data ! i XOR key ! (i mod 4)) [0..<length data]"

definition client_frame :: "nat \<Rightarrow> bytes \<Rightarrow> bytes \<Rightarrow> bytes" where
  "client_frame opcode key data =
     (let n = length data
      in (if n < 126 then ws_header_bytes (plain_header opcode n True)
          else if n < 65536 then ws_header_bytes (plain_header opcode 126 True) @ be_bytes (of_nat n :: u16)
          else ws_header_bytes (plain_header opcode 127 True) @ be_bytes (of_nat n :: u64))
         @ key @ rfc6455_mask key data)"

definition client_offset :: "nat \<Rightarrow> nat" where
  "client_offset n = (if n < 126 then 2 else if n < 65536 then 4 else 10)"

lemma unmask_nth: "j < length data \<Longrightarrow> ws_unmask_loop key data i ! j = data ! j XOR key ! ((i + j) mod 4)"
  by (induction data arbitrary: i j) (auto simp: nth_Cons split: nat.splits)

lemma length_mask [simp]: "length (rfc6455_mask key data) = length data"
  by (simp add: rfc6455_mask_def)

lemma unmask_mask: "ws_unmask_loop key (rfc6455_mask key data) 0 = data"
  by (rule nth_equalityI) (simp_all add: unmask_nth, simp add: rfc6455_mask_def xor.assoc)

lemma of_char_zero: "(of_char c :: u8) = 0 \<Longrightarrow> c = CHR 0x00"
proof -
  assume "(of_char c :: u8) = 0"
  then have "unat (of_char c :: u8) = 0" by (simp only: unsigned_0)
  then have "(of_char c :: nat) = 0" by simp
  then have "char_of (of_char c :: nat) = char_of (0 :: nat)" by (rule arg_cong)
  moreover have "char_of (0 :: nat) = CHR 0x00" by code_simp
  ultimately show ?thesis by (simp only: char_of_char)
qed

lemma client_frame_shape:
  assumes "opcode < 16"
  shows "ws_read_header (client_frame opcode key data @ rest) =
      plain_header opcode (if length data < 126 then length data else if length data < 65536 then 126 else 127) True"
    and "\<not> is_GET (client_frame opcode key data @ rest)"
    and "\<exists>prefix. length prefix = client_offset (length data) \<and>
      client_frame opcode key data = prefix @ key @ rfc6455_mask key data"
  using assms
  by (auto simp: client_frame_def Let_def read_plain_header client_offset_def sizeof_WS_HEADER_def)


lemma client_extent:
  assumes "opcode < 16" and "length data < 65536"
  shows "ws_extent (client_frame opcode key data @ rest) = Some (client_offset (length data), length data)"
proof -
  let ?n = "length data"
  note h = client_frame_shape(1) [OF assms(1), of key data rest]
  consider "?n < 126" | "126 \<le> ?n" by linarith
  then show ?thesis
  proof cases
    case 1
    then have "unat (of_nat ?n :: u8) = ?n" "(of_nat ?n :: u8) \<noteq> 126" "(of_nat ?n :: u8) \<noteq> 127"
      by (auto simp: unat_of_nat word_unat_eq_iff)
    with 1 h show ?thesis by (simp add: ws_extent_def Let_def client_offset_def sizeof_WS_HEADER_def)
  next
    case 2
    have "unat (of_nat ?n :: u16) = ?n" using assms(2) by (simp add: unat_of_nat)
    moreover have "drop 2 (client_frame opcode key data @ rest) = be_bytes (of_nat ?n :: u16) @ key @ rfc6455_mask key data @ rest"
      using 2 assms(2) by (simp add: client_frame_def Let_def sizeof_WS_HEADER_def)
    moreover have "\<not> length (client_frame opcode key data @ rest) < 4"
      using 2 assms(2) by (simp add: client_frame_def Let_def sizeof_WS_HEADER_def)
    ultimately show ?thesis
      using 2 assms(2) h by (simp add: ws_extent_def Let_def client_offset_def sizeof_WS_HEADER_def ntohs_read be_word_be_bytes)
  qed
qed

lemma client_long_extent:
  assumes "opcode < 16" and "65536 \<le> length data" and "length data < 2 ^ 32"
  shows "ws_extent (client_frame opcode key data @ rest) = Some (10, 0)"
proof -
  let ?n = "length data"
  note h = client_frame_shape(1) [OF assms(1), of key data rest]
  have d: "drop 2 (client_frame opcode key data @ rest) = be_bytes (of_nat ?n :: u64) @ key @ rfc6455_mask key data @ rest"
    using assms(2) by (simp add: client_frame_def Let_def sizeof_WS_HEADER_def)
  have "be_bytes (of_nat ?n :: u64) = be_bytes (0 :: u32) @ be_bytes (of_nat ?n :: u32)"
    using length_words_bytes [of 0 "of_nat ?n" ?n] assms(3) by (simp add: unat_of_nat)
  then have t: "take 4 (be_bytes (of_nat ?n :: u64)) = be_bytes (0 :: u32)" by simp
  have "ntohl (ucast (le_word (be_bytes (of_nat ?n :: u64)) :: u64)) = 0"
    using t by (simp add: le_word_ucast_u64 ntohl_read be_word_be_bytes)
  moreover have "\<not> length (client_frame opcode key data @ rest) < 10"
    using assms(2) by (simp add: client_frame_def Let_def sizeof_WS_HEADER_def)
  ultimately show ?thesis
    using assms(2) h d by (simp add: ws_extent_def Let_def sizeof_WS_HEADER_def)
qed


text \<open>How a frame whose extent is known is split and unpacked.\<close>

lemma client_frame_parsed:
  assumes "opcode < 16" and "length key = 4" and "ws_extent (client_frame opcode key data @ rest) = Some (client_offset (length data), n)"
    and "n \<le> length data" and "n < 2 ^ 30"
  shows "ws_splitter beyond (client_frame opcode key data @ rest) = Inr (int (client_offset (length data) + 4 + n))"
proof -
  let ?f = "client_frame opcode key data" and ?o = "client_offset (length data)"
  note h = client_frame_shape(1,2) [OF assms(1), of key data rest]
  have len: "length ?f = ?o + 4 + length data"
    using client_frame_shape(3) [OF assms(1), of data key] assms(2) by auto
  have o: "2 \<le> ?o" "?o \<le> 10" by (simp_all add: client_offset_def)
  have "sint (of_nat (?o + 4 + n) :: u32) = int (?o + 4 + n)"
    using o assms(5) by (intro sint_of_nat_u32) simp
  with h len o assms(3,4) show ?thesis
    by (simp add: ws_splitter_def ws_parsePackage_def sizeof_WS_HEADER_def Let_def del: of_nat_add)
qed

lemma client_frame_unpacked:
  assumes "opcode < 3" and "length key = 4" and "ws_extent (client_frame opcode key data) = Some (client_offset (length data), n)"
    and "n \<le> length data" and "length (client_frame opcode key data) < 2 ^ 32"
  shows "ws_parseMessage s (allocateMessage_payload s0 SM_OPCODE_MESSAGE (client_frame opcode key data)) ss =
    Inr (WS_forward (allocateMessage_payload s SM_OPCODE_MESSAGE (ws_unmask_loop key (take n (rfc6455_mask key data)) 0)))"
proof -
  let ?f = "client_frame opcode key data" and ?o = "client_offset (length data)"
  have o16: "opcode < 16" using assms(1) by simp
  note h = client_frame_shape(1) [OF o16, of key data "[]", simplified]
  obtain prefix where p: "length prefix = ?o" "?f = prefix @ key @ rfc6455_mask key data"
    using client_frame_shape(3) [OF o16] by blast
  have o: "2 \<le> ?o" by (simp add: client_offset_def)
  have m: "msg_bytes (allocateMessage_payload s0 SM_OPCODE_MESSAGE ?f) = ?f" "releaseMessage (allocateMessage_payload s0 SM_OPCODE_MESSAGE ?f) = Inr ()"
    using assms(5) by (simp_all add: msg_bytes_ok allocateMessage_payload_ok) (simp_all add: allocateMessage_payload_def releaseMessage_def)
  have op: "(of_nat opcode :: u8) = 0 \<or> (of_nat opcode :: u8) = 1 \<or> (of_nat opcode :: u8) = 2"
    using assms(1) by (auto simp: less_Suc_eq numeral_3_eq_3)
  have d: "take 4 (drop ?o ?f) = key" "drop (?o + 4) ?f = rfc6455_mask key data" "length ?f = ?o + 4 + length data"
    using p assms(2) by simp_all
  show ?thesis
    using h m op d assms(3,4) o
    by (auto simp: ws_parseMessage_def Let_def sizeof_WS_HEADER_def)
qed


text \<open>
  C18: a data frame of a client with less than 64 kB is received as it was sent: it is cut
  from the stream at its end, whatever follows, and the message that is forwarded has the
  unmasked data as its payload.
\<close>

theorem ws_client_frame_received:
  assumes "opcode < 3" and "length key = 4" and "length data < 65536"
  shows "ws_splitter beyond (client_frame opcode key data @ rest) = Inr (int (length (client_frame opcode key data))) \<and>
    ws_parseMessage s (allocateMessage_payload s SM_OPCODE_MESSAGE (client_frame opcode key data)) ss =
      Inr (WS_forward (allocateMessage_payload s SM_OPCODE_MESSAGE data))"
proof -
  have o: "opcode < 16" using assms(1) by simp
  have len: "length (client_frame opcode key data) = client_offset (length data) + 4 + length data"
    using client_frame_shape(3) [OF o, of data key] assms(2) by auto
  have c: "client_offset (length data) \<le> 10" by (simp add: client_offset_def)
  show ?thesis
    using client_frame_parsed [OF o assms(2) client_extent [OF o assms(3)], of beyond rest]
      client_frame_unpacked [OF assms(1,2) client_extent [OF o assms(3), of key "[]", simplified], of s s ss]
      len c assms(3) by (simp add: unmask_mask)
qed

theorem ws_client_frame_received_witness:
  "ws_splitter [] (client_frame 1 [1, 2, 3, 4] [0x68, 0x69] @ [0x81]) = Inr (int (length (client_frame 1 [1, 2, 3, 4] [0x68, 0x69]))) \<and>
    ws_parseMessage 4 (allocateMessage_payload 4 SM_OPCODE_MESSAGE (client_frame 1 [1, 2, 3, 4] [0x68, 0x69])) demo_server =
      Inr (WS_forward (allocateMessage_payload 4 SM_OPCODE_MESSAGE [0x68, 0x69]))"
  using ws_client_frame_received [of 1 "[1, 2, 3, 4]" "[0x68, 0x69]" "[]" "[0x81]" 4 demo_server] by simp

text \<open>
  a frame of 64 kB or more is lost. Its 64-bit length is read through a 32-bit
  conversion that keeps the upper half, which is zero: the frame is cut after its header and
  mask, an empty message is forwarded, and the data is left to be read as further frames.
\<close>

theorem ws_long_frame_lost:
  assumes "opcode < 3" and "length key = 4" and "65536 \<le> length data" and "length data < 2 ^ 32 - 14"
  shows "ws_splitter beyond (client_frame opcode key data @ rest) = Inr 14 \<and>
    ws_parseMessage s (allocateMessage_payload s SM_OPCODE_MESSAGE (client_frame opcode key data)) ss =
      Inr (WS_forward (allocateMessage_payload s SM_OPCODE_MESSAGE []))"
proof -
  have o: "opcode < 16" using assms(1) by simp
  have len: "length (client_frame opcode key data) = client_offset (length data) + 4 + length data"
    using client_frame_shape(3) [OF o, of data key] assms(2) by auto
  have c: "client_offset (length data) = 10" using assms(3) by (simp add: client_offset_def)
  have e: "ws_extent (client_frame opcode key data @ r) = Some (client_offset (length data), 0)" for r
    using client_long_extent [OF o assms(3)] assms(4) c by simp
  show ?thesis
    using client_frame_parsed [OF o assms(2) e, of beyond] client_frame_unpacked [OF assms(1,2) e [of "[]", simplified], of s s ss]
      len c assms(4) by simp
qed

theorem ws_long_frame_lost_witness:
  "ws_splitter [] (client_frame 2 [1, 2, 3, 4] (replicate 70000 0) @ []) = Inr 14"
  using ws_long_frame_lost [of 2 "[1, 2, 3, 4]" "replicate 70000 0" "[]" "[]" 4 demo_server] by simp

section \<open>Server frames\<close>

text \<open>The length of a frame as RFC 6455 defines it, in network order.\<close>

definition rfc6455_length :: "bytes \<Rightarrow> nat" where
  "rfc6455_length f =
     (let n = ws_payload_len (ws_read_header f)
      in if n = 126 then unat (be_word (take 2 (drop 2 f)) :: u16)
         else if n = 127 then unat (be_word (take 8 (drop 2 f)) :: u64) else unat n)"

lemma text_frame_plain:
  "ws_text_frame data =
     (let n = length data
      in if n < 126 then ws_header_bytes (plain_header 1 n False) @ data
         else if n < 65025 then ws_header_bytes (plain_header 1 126 False) @ le_bytes (of_nat n :: u16) @ data
         else ws_header_bytes (plain_header 1 127 False) @ le_bytes (of_nat n :: u64) @ data)"
proof -
  have "(of_nat (length data) :: u8) \<noteq> 126 \<and> (of_nat (length data) :: u8) \<noteq> 127" if "length data < 126"
    using that by (auto simp: unat_of_nat word_unat_eq_iff)
  then show ?thesis by (simp add: ws_text_frame_def plain_header_def Let_def)
qed

lemma le_word_two: "unat (le_word [a, b] :: u16) = unat a + 256 * unat b"
proof -
  have a: "unat a < 256" "unat b < 256" using unsigned_less [where ?'a = nat and w = a] unsigned_less [where ?'a = nat and w = b] by simp_all
  have "(ucast a :: u16) OR push_bit 8 (ucast b) = ucast a + push_bit 8 (ucast b)"
    by (rule disjunctive_add [symmetric]) (auto simp: bit_push_bit_iff bit_ucast_iff dest: bit_imp_le_length)
  then have "(le_word [a, b] :: u16) = of_nat (unat a + 256 * unat b)"
    by (simp add: push_bit_eq_mult mult.commute)
  with a show ?thesis by (simp only: unat_of_nat) (simp add: take_bit_nat_eq_self)
qed

lemma le_bytes_of_nat_u16: "le_bytes (of_nat n :: u16) = [of_nat n, of_nat (n div 256)]"
proof -
  have "(ucast (of_nat n :: u16) :: u8) = of_nat n"
    by (intro bit_word_eqI) (simp add: bit_ucast_iff bit_of_nat_iff)
  moreover have "(ucast (drop_bit 8 (of_nat n :: u16)) :: u8) = of_nat (n div 256)"
  proof -
    have "n div 256 = drop_bit 8 n" by (simp add: drop_bit_eq_div)
    then show ?thesis
      by (intro bit_word_eqI) (simp add: bit_ucast_iff bit_drop_bit_eq bit_of_nat_iff ac_simps)
  qed
  ultimately show ?thesis by (simp add: le_bytes_def upt_conv_Cons)
qed

lemma be_word_swap:
  assumes "n < 65536"
  shows "unat (be_word (le_bytes (of_nat n :: u16)) :: u16) = 256 * (n mod 256) + n div 256"
proof -
  have "unat (of_nat n :: u8) = n mod 256" "unat (of_nat (n div 256) :: u8) = n div 256"
    using assms by (simp_all add: unat_of_nat take_bit_eq_mod)
  then show ?thesis by (simp add: be_word_def le_bytes_of_nat_u16 le_word_two del: le_word.simps)
qed

text \<open>
  the server announces the length of a short message correctly, but stores a 16-bit
  length in the order of the machine: a client reads a message of 126 to 65024 bytes as one
  of the byte-swapped length.
\<close>

theorem ws_server_length_swapped:
  "(length data < 126 \<longrightarrow> rfc6455_length (ws_text_frame data) = length data) \<and>
   (126 \<le> length data \<and> length data < 65025 \<longrightarrow>
      rfc6455_length (ws_text_frame data) = 256 * (length data mod 256) + length data div 256)"
proof (intro conjI impI)
  assume n: "length data < 126"
  then have "unat (of_nat (length data) :: u8) = length data" "(of_nat (length data) :: u8) \<noteq> 126" "(of_nat (length data) :: u8) \<noteq> 127"
    by (auto simp: unat_of_nat word_unat_eq_iff)
  with n show "rfc6455_length (ws_text_frame data) = length data"
    by (simp add: text_frame_plain Let_def rfc6455_length_def read_plain_header)
next
  assume n: "126 \<le> length data \<and> length data < 65025"
  then have "ws_text_frame data = ws_header_bytes (plain_header 1 126 False) @ le_bytes (of_nat (length data) :: u16) @ data"
    by (simp add: text_frame_plain Let_def)
  moreover have "take 2 (drop 2 (ws_header_bytes (plain_header 1 126 False) @ le_bytes (of_nat (length data) :: u16) @ data)) =
      le_bytes (of_nat (length data) :: u16)"
    by (simp add: sizeof_WS_HEADER_def)
  ultimately show "rfc6455_length (ws_text_frame data) = 256 * (length data mod 256) + length data div 256"
    using n by (simp add: rfc6455_length_def read_plain_header be_word_swap)
qed

theorem ws_server_length_swapped_witness: "rfc6455_length (ws_text_frame (replicate 300 0)) = 256 * 44 + 1"
  using ws_server_length_swapped [of "replicate 300 0"] by simp

section \<open>The handshake\<close>

text \<open>
  C21: the accept token of a handshake is the one RFC 6455 asks for: the Base64 encoding of
  the SHA-1 digest of the client's key followed by the fixed identifier, for every key of
  text. The object's earlier state does not matter.
\<close>

theorem ws_accept_is_rfc6455:
  assumes "length (Message_Block sha) = 64" and "CHR 0x00 \<notin> set key" and "length key < 2 ^ 60"
  shows "ws_accept sha key = Some (rfc4648 (concat (map be_bytes (fips_sha1 (bytes_of_string (key @ MAGIC_KEY))))))"
proof -
  let ?m = "bytes_of_string (key @ MAGIC_KEY)"
  have "CHR 0x00 \<notin> set (key @ MAGIC_KEY)" using assms(2) by (simp add: MAGIC_KEY_def)
  then have "0 \<notin> set ?m" by (auto simp: bytes_of_string_def dest!: of_char_zero)
  then have "takeWhile (\<lambda>x. x \<noteq> 0) ?m = ?m" by (auto simp: takeWhile_eq_all_conv)
  then have i: "sha_shift_string ?m (sha_Reset sha) = fold sha_Input (map (\<lambda>x. [x]) ?m) (sha_Reset sha)"
    unfolding sha_shift_string_inputs by (simp only:)
  have c: "concat (map (\<lambda>x. [x]) ?m) = ?m" by simp
  have "8 * length ?m < 2 ^ 64" using assms(3) by (simp add: MAGIC_KEY_def)
  then have "\<exists>p r. p @ r = ?m \<and> sha_repr (sha_shift_string ?m (sha_Reset sha)) p r"
    using sha_Inputs_repr [OF sha_Reset_repr [OF assms(1)], of "map (\<lambda>x. [x]) ?m"] unfolding i c by auto
  then have "fst (sha_Result (sha_shift_string ?m (sha_Reset sha))) = Some (fips_sha1 ?m)"
    using sha_Result_repr by metis
  then show ?thesis by (simp add: ws_accept_def le_bytes_ntohl base64_encode_rfc)
qed

theorem ws_accept_is_rfc6455_witness:
  "ws_accept sha_example ''dGhlIHNhbXBsZSBub25jZQ=='' =
     Some (rfc4648 (concat (map be_bytes (fips_sha1 (bytes_of_string (''dGhlIHNhbXBsZSBub25jZQ=='' @ MAGIC_KEY))))))"
  using ws_accept_is_rfc6455 [of sha_example "''dGhlIHNhbXBsZSBub25jZQ==''"] by (simp add: sha_example_def)

end
