(* ===== verification/Clock_Time.thy ===== *)
theory Clock_Time
  imports Tools_Text
begin

text \<open>
  \<^verbatim>\<open>src/time/Time.cpp\<close>, \<^verbatim>\<open>Time.h\<close>, \<^verbatim>\<open>Timer.h\<close> and the time stamps of
  \<^verbatim>\<open>src/tools/Tools.cpp\<close>. What the system clock says is an argument. The calendar of
  \<^verbatim>\<open>gmtime_r\<close> and the directives of \<^verbatim>\<open>strftime\<close> that the sources use belong to the C
  library; \<open>timegm\<close> and \<open>valid_tm\<close> say independently which date a number of seconds is.
\<close>

section \<open>Calendar\<close>

record tm =
  tm_year :: nat
  tm_mon :: nat
  tm_mday :: nat
  tm_hour :: nat
  tm_min :: nat
  tm_sec :: nat

definition leap :: "nat \<Rightarrow> bool" where
  "leap y \<longleftrightarrow> 4 dvd y \<and> \<not> 100 dvd y \<or> 400 dvd y"

definition year_days :: "nat \<Rightarrow> nat" where
  "year_days y = (if leap y then 366 else 365)"

definition month_lengths :: "nat \<Rightarrow> nat list" where
  "month_lengths y = [31, if leap y then 29 else 28, 31, 30, 31, 30, 31, 31, 30, 31, 30, 31]"

function year_of :: "nat \<Rightarrow> nat \<Rightarrow> nat \<times> nat" where
  "year_of y d = (if d < year_days y then (y, d) else year_of (Suc y) (d - year_days y))"
  by pat_completeness auto
termination
  by (relation "measure snd") (auto simp: year_days_def split: if_splits)

declare year_of.simps [simp del]

fun month_of :: "nat list \<Rightarrow> nat \<Rightarrow> nat \<Rightarrow> nat \<times> nat" where
  "month_of [] m d = (m, d)"
| "month_of (l # ls) m d = (if d < l then (m, d) else month_of ls (Suc m) (d - l))"

text \<open>\<^verbatim>\<open>gmtime_r\<close>, with years and months as they are printed. The epoch was a Thursday.\<close>

definition gmtime :: "nat \<Rightarrow> tm" where
  "gmtime s =
     (let (y, yd) = year_of 1970 (s div 86400); (m, md) = month_of (month_lengths y) 1 yd; r = s mod 86400
      in \<lparr>tm_year = y, tm_mon = m, tm_mday = Suc md, tm_hour = r div 3600, tm_min = r mod 3600 div 60, tm_sec = r mod 60\<rparr>)"

definition days_of :: "tm \<Rightarrow> nat" where
  "days_of t = sum_list (map year_days [1970..<tm_year t]) + sum_list (take (tm_mon t - 1) (month_lengths (tm_year t))) + (tm_mday t - 1)"

definition timegm :: "tm \<Rightarrow> nat" where
  "timegm t = 86400 * days_of t + 3600 * tm_hour t + 60 * tm_min t + tm_sec t"

definition valid_tm :: "tm \<Rightarrow> bool" where
  "valid_tm t \<longleftrightarrow> 1970 \<le> tm_year t \<and> 1 \<le> tm_mon t \<and> tm_mon t \<le> 12 \<and>
     1 \<le> tm_mday t \<and> tm_mday t \<le> month_lengths (tm_year t) ! (tm_mon t - 1) \<and>
     tm_hour t < 24 \<and> tm_min t < 60 \<and> tm_sec t < 60"

definition weekday :: "nat \<Rightarrow> nat" where
  "weekday days = (days + 4) mod 7"

lemma sum_month_lengths: "sum_list (month_lengths y) = year_days y"
  by (simp add: month_lengths_def year_days_def)

lemma length_month_lengths [simp]: "length (month_lengths y) = 12"
  by (simp add: month_lengths_def)

lemma year_of_sum:
  "d < year_days (y + n) \<Longrightarrow> year_of y (sum_list (map year_days [y..<y + n]) + d) = (y + n, d)"
proof (induction n arbitrary: y)
  case 0
  then show ?case by (simp add: year_of.simps [of y d])
next
  case (Suc n)
  have "[y..<y + Suc n] = y # [Suc y..<Suc y + n]" by (simp add: upt_rec)
  then show ?case
    using Suc.IH [of "Suc y"] Suc.prems by (subst year_of.simps) (simp add: add.assoc)
qed

lemma month_of_sum:
  "k < length ls \<Longrightarrow> d < ls ! k \<Longrightarrow> month_of ls m (sum_list (take k ls) + d) = (m + k, d)"
proof (induction ls arbitrary: k m)
  case (Cons l ls)
  then show ?case by (cases k) simp_all
qed simp

lemma month_sum_less:
  "k < length ls \<Longrightarrow> d < ls ! k \<Longrightarrow> sum_list (take k ls) + d < sum_list (ls :: nat list)"
proof (induction ls arbitrary: k)
  case (Cons l ls)
  then show ?case by (cases k) auto
qed simp

lemma clock_parts:
  assumes "m < 60" and "s < 60"
  shows "(3600 * h + 60 * m + s) div 3600 = (h :: nat)" and "(3600 * h + 60 * m + s) mod 3600 div 60 = m"
    and "(3600 * h + 60 * m + s) mod 60 = s"
proof -
  have q: "60 * m + s < 3600" using assms by simp
  have r: "3600 * h + 60 * m + s = (60 * m + s) + h * 3600" by simp
  show "(3600 * h + 60 * m + s) div 3600 = h" unfolding r using q by simp
  have "(3600 * h + 60 * m + s) mod 3600 = 60 * m + s" unfolding r using q by simp
  then show "(3600 * h + 60 * m + s) mod 3600 div 60 = m" using assms(2) by simp
  have "3600 * h + 60 * m + s = s + (60 * h + m) * 60" by simp
  then show "(3600 * h + 60 * m + s) mod 60 = s" using assms(2) by (metis mod_less mod_mult_self1)
qed

text \<open>A date is the date of its own number of seconds.\<close>

lemma gmtime_timegm:
  assumes "valid_tm t"
  shows "gmtime (timegm t) = t"
proof -
  let ?y = "tm_year t" and ?ls = "month_lengths (tm_year t)" and ?r = "3600 * tm_hour t + 60 * tm_min t + tm_sec t"
  have v: "1970 \<le> ?y" "1 \<le> tm_mon t" "tm_mon t \<le> 12" "1 \<le> tm_mday t" "tm_mday t - 1 < ?ls ! (tm_mon t - 1)"
    "tm_hour t < 24" "tm_min t < 60" "tm_sec t < 60"
    using assms by (auto simp: valid_tm_def)
  have k: "tm_mon t - 1 < length ?ls" using v(2,3) by simp
  have r: "?r < 86400" using v(6-8) by simp
  have "timegm t = ?r + 86400 * days_of t" by (simp add: timegm_def)
  then have div: "timegm t div 86400 = days_of t" "timegm t mod 86400 = ?r"
    using r by simp_all
  let ?yd = "sum_list (take (tm_mon t - 1) ?ls) + (tm_mday t - 1)"
  have "?yd < year_days ?y" using month_sum_less [OF k v(5)] by (simp add: sum_month_lengths)
  then have "year_of 1970 (days_of t) = (?y, ?yd)"
    using year_of_sum [of ?yd 1970 "?y - 1970"] v(1) by (simp add: days_of_def add.assoc)
  moreover have "month_of ?ls 1 ?yd = (tm_mon t, tm_mday t - 1)"
    using month_of_sum [OF k v(5), of 1] v(2) by simp
  moreover have "?r div 3600 = tm_hour t" "?r mod 3600 div 60 = tm_min t" "?r mod 60 = tm_sec t"
    using v(7,8) by (rule clock_parts)+
  ultimately show ?thesis using div v(4) by (simp add: gmtime_def)
qed

text \<open>Every number of seconds has a date.\<close>

lemma year_of_ex: "\<exists>n e. year_of y d = (y + n, e) \<and> e < year_days (y + n) \<and> d = sum_list (map year_days [y..<y + n]) + e"
proof (induction y d rule: year_of.induct)
  case (1 y d)
  show ?case
  proof (cases "d < year_days y")
    case True
    then show ?thesis by (intro exI [of _ 0] exI [of _ d]) (simp add: year_of.simps [of y d])
  next
    case False
    with 1 obtain n e where "year_of (Suc y) (d - year_days y) = (Suc y + n, e)" "e < year_days (Suc y + n)"
      "d - year_days y = sum_list (map year_days [Suc y..<Suc y + n]) + e" by blast
    moreover have "[y..<y + Suc n] = y # [Suc y..<Suc y + n]" by (simp add: upt_rec)
    ultimately show ?thesis
      using False by (intro exI [of _ "Suc n"] exI [of _ e]) (simp add: year_of.simps [of y d])
  qed
qed

lemma month_of_ex:
  "d < sum_list ls \<Longrightarrow> \<exists>k e. month_of ls m d = (m + k, e) \<and> k < length ls \<and> e < ls ! k \<and> d = sum_list (take k ls) + e"
proof (induction ls arbitrary: m d)
  case (Cons l ls)
  show ?case
  proof (cases "d < l")
    case True
    then show ?thesis by (intro exI [of _ 0] exI [of _ d]) simp
  next
    case False
    with Cons.prems have "d - l < sum_list ls" by auto
    from Cons.IH [OF this, of "Suc m"] obtain k e where
      "month_of ls (Suc m) (d - l) = (Suc m + k, e)" "k < length ls" "e < ls ! k" "d - l = sum_list (take k ls) + e" by blast
    then show ?thesis using False by (intro exI [of _ "Suc k"] exI [of _ e]) simp
  qed
qed simp

lemma gmtime_valid: "valid_tm (gmtime s) \<and> timegm (gmtime s) = s"
proof -
  obtain n yd where y: "year_of 1970 (s div 86400) = (1970 + n, yd)" "yd < year_days (1970 + n)"
    "s div 86400 = sum_list (map year_days [1970..<1970 + n]) + yd"
    using year_of_ex by blast
  then obtain k md where m: "month_of (month_lengths (1970 + n)) 1 yd = (1 + k, md)" "k < 12"
    "md < month_lengths (1970 + n) ! k" "yd = sum_list (take k (month_lengths (1970 + n))) + md"
    using month_of_ex [of yd "month_lengths (1970 + n)" 1] by (auto simp: sum_month_lengths)
  let ?r = "s mod 86400"
  let ?t = "\<lparr>tm_year = 1970 + n, tm_mon = 1 + k, tm_mday = Suc md, tm_hour = ?r div 3600, tm_min = ?r mod 3600 div 60, tm_sec = ?r mod 60\<rparr>"
  have t: "gmtime s = ?t" using y(1) m(1) by (simp add: gmtime_def Let_def)
  have "valid_tm ?t" using m(2,3) by (simp add: valid_tm_def div_less_iff_less_mult Suc_le_eq)
  moreover have "days_of ?t = s div 86400" using y(3) m(4) by (simp add: days_of_def add.assoc)
  moreover have "3600 * (?r div 3600) + 60 * (?r mod 3600 div 60) + ?r mod 60 = ?r"
  proof -
    have "?r mod 60 = ?r mod 3600 mod 60" by (simp add: mod_mod_cancel)
    then have "60 * (?r mod 3600 div 60) + ?r mod 60 = ?r mod 3600" by simp
    then show ?thesis using mult_div_mod_eq [of 3600 ?r] by linarith
  qed
  ultimately show ?thesis unfolding t by (simp add: timegm_def add.assoc)
qed

section \<open>Time stamps\<close>

text \<open>
  The directives of \<^verbatim>\<open>strftime\<close> in the formats of the sources, with the flag 0 and a width
  as the GNU library reads them. Other directives are not modelled: \<open>None\<close>.
\<close>

definition pad0 :: "nat \<Rightarrow> nat \<Rightarrow> string" where
  "pad0 w n = replicate (w - length (dec_nat n)) (CHR ''0'') @ dec_nat n"

definition day_names :: "string list" where
  "day_names = [''Sun'', ''Mon'', ''Tue'', ''Wed'', ''Thu'', ''Fri'', ''Sat'']"

definition month_names :: "string list" where
  "month_names = [''Jan'', ''Feb'', ''Mar'', ''Apr'', ''May'', ''Jun'', ''Jul'', ''Aug'', ''Sep'', ''Oct'', ''Nov'', ''Dec'']"

definition strftime_field :: "nat \<Rightarrow> char \<Rightarrow> tm \<Rightarrow> string option" where
  "strftime_field w c t =
     (if c = CHR ''Y'' then Some (pad0 w (tm_year t))
      else if c = CHR ''y'' then Some (pad0 (max w 2) (tm_year t mod 100))
      else if c = CHR ''m'' then Some (pad0 (max w 2) (tm_mon t))
      else if c = CHR ''d'' then Some (pad0 (max w 2) (tm_mday t))
      else if c = CHR ''H'' then Some (pad0 (max w 2) (tm_hour t))
      else if c = CHR ''M'' then Some (pad0 (max w 2) (tm_min t))
      else if c = CHR ''S'' then Some (pad0 (max w 2) (tm_sec t))
      else if c = CHR ''a'' \<and> w = 0 then Some (day_names ! weekday (days_of t))
      else if c = CHR ''b'' \<and> w = 0 then Some (month_names ! (tm_mon t - 1))
      else None)"

fun strftime_from :: "nat option \<Rightarrow> string \<Rightarrow> tm \<Rightarrow> string option" where
  "strftime_from None [] t = Some []"
| "strftime_from (Some w) [] t = None"
| "strftime_from None (c # cs) t =
     (if c = CHR ''%'' then strftime_from (Some 0) cs t else map_option ((#) c) (strftime_from None cs t))"
| "strftime_from (Some w) (c # cs) t =
     (if isdigit c then strftime_from (Some (10 * w + (of_char c - 48))) cs t
      else case strftime_field w c t of None \<Rightarrow> None
           | Some s \<Rightarrow> map_option ((@) s) (strftime_from None cs t))"

definition strftime :: "string \<Rightarrow> tm \<Rightarrow> string option" where
  "strftime fmt t = strftime_from None fmt t"

text \<open>
  \<^verbatim>\<open>timestamp\<close>: 0 seconds mean now. \<^verbatim>\<open>CONVERT_CST_TIME\<close> is defined, so that the time of
  China is printed, eight hours ahead. \<open>now\<close> is what \<^verbatim>\<open>gettimeofday\<close> says; the result is
  \<open>None\<close> where the text does not fit and the content of the buffer is not determined.
\<close>

definition cst_offset :: nat where
  "cst_offset = 8 * 3600"

definition strftime_into :: "nat \<Rightarrow> string \<Rightarrow> tm \<Rightarrow> string option" where
  "strftime_into len fmt t = (case strftime fmt t of None \<Rightarrow> None | Some s \<Rightarrow> if length s < len then Some s else None)"

definition default_format :: string where
  "default_format = ''%y/%02m/%02d %02H:%02M:%02S''"

definition timestamp :: "nat \<Rightarrow> nat \<Rightarrow> nat \<Rightarrow> string option \<Rightarrow> string option" where
  "timestamp now len seconds time_format =
     (let sec = if seconds = 0 then now else seconds;
          fmt = case time_format of None \<Rightarrow> default_format | Some f \<Rightarrow> f
      in strftime_into len fmt (gmtime (sec + cst_offset)))"

definition timestamp_gmt :: "nat \<Rightarrow> nat \<Rightarrow> nat \<Rightarrow> string option" where
  "timestamp_gmt now len seconds =
     (let sec = if seconds = 0 then now else seconds
      in strftime_into len ''%a, %d %b %Y %H:%M:%S GMT'' (gmtime (sec + cst_offset)))"

text \<open>\<open>now\<close> in microseconds, as \<^verbatim>\<open>gettimeofday\<close> has it.\<close>

definition currentSecond :: "nat \<Rightarrow> u64" where
  "currentSecond now = of_nat now"

definition currentMillisecond :: "u64 \<Rightarrow> u64 \<Rightarrow> u64" where
  "currentMillisecond sec usec = sec * 1000 + usec div 1000"

lemma length_pad0_2 [simp]: "n < 100 \<Longrightarrow> length (pad0 2 n) = 2"
  using length_dec_nat [of n 2] by (simp add: pad0_def)

lemma valid_tm_parts:
  assumes "valid_tm t"
  shows "tm_mon t < 100" "tm_mday t < 100" "tm_hour t < 100" "tm_min t < 100" "tm_sec t < 100"
proof -
  have "month_lengths y ! k < 100" if "k < 12" for y k
  proof -
    have "\<forall>l\<in>set (month_lengths y). l < 100" by (simp add: month_lengths_def)
    moreover have "month_lengths y ! k \<in> set (month_lengths y)" using that by simp
    ultimately show ?thesis by blast
  qed
  moreover have "tm_mon t - 1 < 12" "tm_mday t \<le> month_lengths (tm_year t) ! (tm_mon t - 1)"
    using assms by (auto simp: valid_tm_def)
  ultimately show "tm_mday t < 100" using le_less_trans by blast
qed (use assms in \<open>auto simp: valid_tm_def\<close>)

lemma strftime_default:
  "strftime default_format t = Some (pad0 2 (tm_year t mod 100) @ ''/'' @ pad0 2 (tm_mon t) @ ''/'' @ pad0 2 (tm_mday t) @ '' '' @
     pad0 2 (tm_hour t) @ '':'' @ pad0 2 (tm_min t) @ '':'' @ pad0 2 (tm_sec t))"
  by (simp add: strftime_def default_format_def strftime_field_def isdigit_def numeral_2_eq_2)

text \<open>The date of HTTP: what a date that is meant to be Greenwich time looks like.\<close>

definition http_date :: "tm \<Rightarrow> string" where
  "http_date t = day_names ! weekday (days_of t) @ '', '' @ pad0 2 (tm_mday t) @ '' '' @
     month_names ! (tm_mon t - 1) @ '' '' @ dec_nat (tm_year t) @ '' '' @
     pad0 2 (tm_hour t) @ '':'' @ pad0 2 (tm_min t) @ '':'' @ pad0 2 (tm_sec t) @ '' GMT''"

lemma strftime_gmt: "strftime ''%a, %d %b %Y %H:%M:%S GMT'' t = Some (http_date t)"
  by (simp add: http_date_def strftime_def strftime_field_def isdigit_def pad0_def [of 0])

section \<open>Time\<close>

text \<open>
  A \<^verbatim>\<open>struct timeval\<close>, whose members are signed. Unsigned values go in and come out, and
  the one signed operation, the division of the microseconds, truncates.
\<close>

record time =
  tv_sec :: u64
  tv_usec :: u64

definition Time_now :: "u64 \<Rightarrow> u64 \<Rightarrow> time" where
  "Time_now sec usec = \<lparr>tv_sec = sec, tv_usec = usec\<rparr>"

definition Time_ms :: "u64 \<Rightarrow> time" where
  "Time_ms ms = \<lparr>tv_sec = ms div 1000, tv_usec = (ms mod 1000) * 1000\<rparr>"

definition Time_parts :: "u64 \<Rightarrow> u64 \<Rightarrow> time" where
  "Time_parts secondPart millisecondPart = \<lparr>tv_sec = secondPart, tv_usec = millisecondPart * 1000\<rparr>"

definition c_quot :: "int \<Rightarrow> int \<Rightarrow> int" where
  "c_quot a b = sgn a * (\<bar>a\<bar> div b)"

definition millisecondPart :: "time \<Rightarrow> u64" where
  "millisecondPart t = of_int (c_quot (sint (tv_usec t)) 1000)"

definition milliseconds :: "time \<Rightarrow> u64" where
  "milliseconds t = tv_sec t * 1000 + millisecondPart t"

definition Time_copy :: "time \<Rightarrow> time" where
  "Time_copy t = \<lparr>tv_sec = tv_sec t, tv_usec = tv_usec t\<rparr>"

definition Time_plus :: "time \<Rightarrow> u64 \<Rightarrow> u64" where
  "Time_plus t ms = milliseconds t + ms"

definition Time_minus :: "time \<Rightarrow> u64 \<Rightarrow> u64" where
  "Time_minus t ms = (if ms \<le> milliseconds t then milliseconds t - ms else 0)"

definition Time_greater :: "time \<Rightarrow> time \<Rightarrow> bool" where
  "Time_greater t u \<longleftrightarrow> milliseconds t > milliseconds u"

definition Time_less :: "time \<Rightarrow> time \<Rightarrow> bool" where
  "Time_less t u \<longleftrightarrow> milliseconds t < milliseconds u"

text \<open>\<open>now\<close> is \<^verbatim>\<open>sTime.milliseconds()\<close>: what the clock said when \<^verbatim>\<open>sTime.now()\<close> was last called.\<close>

record timer =
  last_scale :: u64
  interval_milliseconds :: u32

definition Timer_new :: "u64 \<Rightarrow> u32 \<Rightarrow> timer" where
  "Timer_new now ms = \<lparr>last_scale = now, interval_milliseconds = ms\<rparr>"

definition resetInterval :: "u32 \<Rightarrow> timer \<Rightarrow> timer" where
  "resetInterval ms t = t\<lparr>interval_milliseconds := ms\<rparr>"

definition resetScale :: "u64 \<Rightarrow> timer \<Rightarrow> timer" where
  "resetScale now t = t\<lparr>last_scale := now\<rparr>"

definition Timer_tick :: "u64 \<Rightarrow> timer \<Rightarrow> bool \<times> timer" where
  "Timer_tick now t =
     (if ucast (interval_milliseconds t) \<le> now - last_scale t then (True, t\<lparr>last_scale := now\<rparr>) else (False, t))"

lemma sint_unat_u64:
  assumes "unat (w :: u64) < 2 ^ 63"
  shows "sint w = int (unat w)"
proof -
  have "int (unat w) < int (2 ^ 63)" using assms by (simp only: of_nat_less_iff)
  then have "uint w < 2 ^ 63" by simp
  moreover have "- (2 ^ 63) \<le> uint w" by (rule order_trans [of _ 0]) simp_all
  ultimately show ?thesis unfolding sint_uint by (simp add: signed_take_bit_int_eq_self)
qed

lemma millisecondPart_small:
  assumes "unat (tv_usec t) < 1000000"
  shows "unat (millisecondPart t) = unat (tv_usec t) div 1000"
proof -
  have "unat (tv_usec t) < 2 ^ 63" using assms by simp
  then have "sint (tv_usec t) = int (unat (tv_usec t))" by (rule sint_unat_u64)
  moreover have "c_quot (int n) 1000 = int (n div 1000)" for n
    by (cases n) (simp_all add: c_quot_def zdiv_int)
  ultimately have "millisecondPart t = of_nat (unat (tv_usec t) div 1000)"
    unfolding millisecondPart_def by (simp only: of_int_of_nat_eq)
  moreover have "unat (tv_usec t) div 1000 < 2 ^ 64" using assms by simp
  ultimately show ?thesis by (simp add: unat_of_nat)
qed

lemma unat_ucast_u64: "unat (ucast (w :: u32) :: u64) = unat w"
proof -
  have "unat w < 2 ^ 32" using unsigned_less [where ?'a = nat and w = w] by simp
  then show ?thesis by (simp add: unsigned_ucast_eq take_bit_nat_eq_self)
qed

lemma unat_mod_1000: "unat ((ms :: u64) mod 1000) = unat ms mod 1000"
  by (simp add: unat_mod)

lemma Time_ms_usec: "unat (tv_usec (Time_ms ms)) = unat ms mod 1000 * 1000"
proof -
  have "unat ms mod 1000 * 1000 < 2 ^ 64" using mod_less_divisor [of 1000 "unat ms"] by simp
  then show ?thesis by (simp add: Time_ms_def unat_mult_lem [THEN iffD1] unat_mod_1000)
qed

section \<open>Properties\<close>

text \<open>
  a time made of a number of milliseconds is that number, whatever 64-bit number it is,
  adding and subtracting are exact until they leave the range (subtraction then stops at zero,
  addition wraps), and two times compare as these numbers.
\<close>

theorem time_milliseconds_exact:
  "milliseconds (Time_ms ms) = ms \<and>
   unat (Time_minus (Time_ms ms) n) = unat ms - unat n \<and>
   unat (Time_plus (Time_ms ms) n) = (unat ms + unat n) mod 2 ^ 64 \<and>
   Time_less (Time_ms ms) (Time_ms n) = (unat ms < unat n) \<and> Time_greater (Time_ms ms) (Time_ms n) = (unat n < unat ms)"
proof -
  have ex: "milliseconds (Time_ms m) = m" for m
  proof -
    have "unat (tv_usec (Time_ms m)) < 1000000" unfolding Time_ms_usec using mod_less_divisor [of 1000 "unat m"] by simp
    then have "unat (millisecondPart (Time_ms m)) = unat (m mod 1000)"
      by (simp add: millisecondPart_small Time_ms_usec unat_mod_1000)
    then have "millisecondPart (Time_ms m) = m mod 1000" by (rule word_unat_eq_iff [THEN iffD2])
    then show ?thesis by (simp add: milliseconds_def Time_ms_def word_mod_div_equality)
  qed
  have "unat (Time_minus (Time_ms ms) n) = unat ms - unat n"
    by (simp add: Time_minus_def ex unat_sub word_le_nat_alt)
  moreover have "unat (Time_plus (Time_ms ms) n) = (unat ms + unat n) mod 2 ^ 64"
    by (simp add: Time_plus_def ex unat_word_ariths(1))
  ultimately show ?thesis by (simp add: ex Time_less_def Time_greater_def word_less_nat_alt)
qed

text \<open>Polling a timer at a sequence of readings: which of them it fires at.\<close>

fun timer_fires :: "timer \<Rightarrow> u64 list \<Rightarrow> u64 list" where
  "timer_fires t [] = []"
| "timer_fires t (now # rest) = (let (b, t1) = Timer_tick now t in (if b then [now] else []) @ timer_fires t1 rest)"

text \<open>What a timer is for: fire at the first reading an interval or more after the last time.\<close>

fun spaced :: "nat \<Rightarrow> nat \<Rightarrow> nat list \<Rightarrow> nat list" where
  "spaced ivl scale [] = []"
| "spaced ivl scale (x # xs) = (if scale + ivl \<le> x then x # spaced ivl x xs else spaced ivl scale xs)"

text \<open>
  while the clock does not go back, a timer fires exactly at the first reading that is an
  interval or more after it last fired.
\<close>

theorem timer_fires_spaced:
  assumes "sorted (map unat (last_scale t # readings))"
  shows "map unat (timer_fires t readings) = spaced (unat (interval_milliseconds t)) (unat (last_scale t)) (map unat readings)"
  using assms
proof (induction readings arbitrary: t)
  case (Cons x xs)
  have le: "last_scale t \<le> x" using Cons.prems by (simp add: word_le_nat_alt)
  have "ucast (interval_milliseconds t) \<le> x - last_scale t \<longleftrightarrow> unat (last_scale t) + unat (interval_milliseconds t) \<le> unat x"
    using le by (auto simp: word_le_nat_alt unat_sub unat_ucast_u64)
  then show ?case using Cons.IH [of t] Cons.IH [of "t\<lparr>last_scale := x\<rparr>"] Cons.prems by (auto simp: Timer_tick_def)
qed simp

theorem timer_fires_spaced_witness:
  "map unat (timer_fires (Timer_new 100 50) [120, 149, 150, 180, 250]) = [150, 250]"
  using timer_fires_spaced [of "Timer_new 100 50" "[120, 149, 150, 180, 250]"] by (simp add: Timer_new_def)

text \<open>
  when the clock goes back, the difference wraps around and a timer fires at once: at
  any reading that is before its last one by less than \<open>2 ^ 63\<close> milliseconds.
\<close>

theorem timer_fires_when_clock_goes_back:
  assumes "unat now < unat (last_scale t)" and "unat (last_scale t) - unat now < 2 ^ 63"
  shows "Timer_tick now t = (True, t\<lparr>last_scale := now\<rparr>)"
proof -
  have "unat (now - last_scale t) = unat now + 2 ^ 64 - unat (last_scale t)"
    using assms(1) by (simp add: unat_sub_if_size word_size)
  then have "2 ^ 32 \<le> unat (now - last_scale t)" using assms(2) by simp
  moreover have "unat (ucast (interval_milliseconds t) :: u64) < 2 ^ 32"
    using unsigned_less [where ?'a = nat and w = "interval_milliseconds t"] by (simp add: unat_ucast_u64)
  ultimately show ?thesis by (simp add: Timer_tick_def word_le_nat_alt)
qed

theorem timer_fires_when_clock_goes_back_witness: "fst (Timer_tick 99 (Timer_new 100 60000))"
  using timer_fires_when_clock_goes_back [of 99 "Timer_new 100 60000"] by (simp add: Timer_new_def)



lemma length_http_date:
  assumes "valid_tm t" and "tm_year t < 10000"
  shows "length (http_date t) < 64"
proof -
  have "length (day_names ! weekday d) = 3" for d
  proof -
    have "\<forall>s\<in>set day_names. length s = 3" by (simp add: day_names_def)
    moreover have "weekday d < length day_names" by (simp add: weekday_def day_names_def)
    ultimately show ?thesis by (meson nth_mem)
  qed
  moreover have "length (month_names ! (tm_mon t - 1)) = 3"
  proof -
    have "\<forall>s\<in>set month_names. length s = 3" by (simp add: month_names_def)
    moreover have "tm_mon t - 1 < length month_names" using assms(1) by (auto simp: valid_tm_def month_names_def)
    ultimately show ?thesis by (meson nth_mem)
  qed
  moreover have "length (dec_nat (tm_year t)) \<le> 4" using assms(2) length_dec_nat [of "tm_year t" 4] by simp
  ultimately show ?thesis using valid_tm_parts [OF assms(1)] by (simp add: http_date_def)
qed

lemma timestamp_gmt_text:
  assumes "valid_tm t" and "timegm t = seconds + 8 * 3600" and "0 < seconds" and "tm_year t < 10000"
  shows "timestamp_gmt now 64 seconds = Some (http_date t)"
  using gmtime_timegm [OF assms(1)] assms(2,3) length_http_date [OF assms(1,4)]
  by (simp add: timestamp_gmt_def strftime_into_def strftime_gmt cst_offset_def)

text \<open>
  \<^verbatim>\<open>timestamp_gmt\<close>, which the expiry of cookies is written with, prints the date of the
  moment eight hours later and says that it is Greenwich time: read as what it says, it is
  eight hours late.
\<close>

theorem timestamp_gmt_late:
  assumes "valid_tm t" and "timegm t = seconds + 8 * 3600" and "0 < seconds" and "tm_year t < 10000"
  shows "timestamp_gmt now 64 seconds = Some (http_date t)"
  using assms by (rule timestamp_gmt_text)

theorem timestamp_gmt_late_witness:
  "timestamp_gmt 0 64 3661 = Some ''Thu, 01 Jan 1970 09:01:01 GMT''"
proof -
  let ?t = "\<lparr>tm_year = 1970, tm_mon = 1, tm_mday = 1, tm_hour = 9, tm_min = 1, tm_sec = 1\<rparr>"
  have "valid_tm ?t" "timegm ?t = 3661 + 8 * 3600"
    by (simp_all add: valid_tm_def month_lengths_def timegm_def days_of_def)
  moreover have "pad0 2 1 = ''01''" "pad0 2 9 = ''09''" "dec_nat 1970 = ''1970''" by code_simp+
  moreover have "day_names ! weekday (days_of ?t) = ''Thu''" "month_names ! 0 = ''Jan''"
    by (simp_all add: weekday_def days_of_def day_names_def month_names_def)
  ultimately show ?thesis using timestamp_gmt_late [of ?t 3661 0] by (simp add: http_date_def)
qed

end
