(* ===== verification/Fast_Cgi.thy ===== *)
theory Fast_Cgi
  imports Socket_Server Clock_Time
begin

text \<open>
  \<^verbatim>\<open>src/socket/CgiServer.cpp\<close>: the FastCGI protocol on top of the socket server. Text is kept
  as strings; where the sources pass a \<^verbatim>\<open>const char*\<close> it ends at its first NUL. Containers
  whose iteration order the standard leaves open take that order as an argument. Bytes that
  are sent without having been written come from \<open>junk\<close>. The percent decoding of the curl
  library is the argument \<open>unescape\<close>.
\<close>

section \<open>Records on the wire\<close>

abbreviation (input) FASTCGI_BEGIN_REQUEST :: u8 where "FASTCGI_BEGIN_REQUEST \<equiv> 1"
abbreviation (input) FASTCGI_END_REQUEST :: u8 where "FASTCGI_END_REQUEST \<equiv> 3"
abbreviation (input) FASTCGI_PARAMS :: u8 where "FASTCGI_PARAMS \<equiv> 4"
abbreviation (input) FASTCGI_STDIN :: u8 where "FASTCGI_STDIN \<equiv> 5"
abbreviation (input) FASTCGI_STDOUT :: u8 where "FASTCGI_STDOUT \<equiv> 6"
abbreviation (input) FASTCGI_DATA :: u8 where "FASTCGI_DATA \<equiv> 8"
abbreviation (input) FASTCGI_VERSION :: u8 where "FASTCGI_VERSION \<equiv> 1"
abbreviation (input) FASTCGI_RESPONDER :: u32 where "FASTCGI_RESPONDER \<equiv> 1"
abbreviation (input) FASTCGI_REQUEST_COMPLETE :: u8 where "FASTCGI_REQUEST_COMPLETE \<equiv> 0"

record fastcgi_header =
  fh_version :: u8
  fh_type :: u8
  fh_requestid_high :: u8
  fh_requestid_low :: u8
  fh_content_length_high :: u8
  fh_content_length_low :: u8
  fh_padding_length :: u8
  fh_reserved :: u8

definition sizeof_fastcgi_header :: nat where
  "sizeof_fastcgi_header = 8"

definition fh_bytes :: "fastcgi_header \<Rightarrow> bytes" where
  "fh_bytes h = [fh_version h, fh_type h, fh_requestid_high h, fh_requestid_low h, fh_content_length_high h,
     fh_content_length_low h, fh_padding_length h, fh_reserved h]"

definition fh_read :: "bytes \<Rightarrow> fastcgi_header" where
  "fh_read xs = \<lparr>fh_version = xs ! 0, fh_type = xs ! 1, fh_requestid_high = xs ! 2, fh_requestid_low = xs ! 3,
     fh_content_length_high = xs ! 4, fh_content_length_low = xs ! 5, fh_padding_length = xs ! 6, fh_reserved = xs ! 7\<rparr>"

definition high_low :: "u8 \<Rightarrow> u8 \<Rightarrow> u32" where
  "high_low h l = push_bit 8 (ucast h) + ucast l"

definition fh_requestid :: "fastcgi_header \<Rightarrow> u32" where
  "fh_requestid h = high_low (fh_requestid_high h) (fh_requestid_low h)"

definition fh_set_requestid :: "u32 \<Rightarrow> fastcgi_header \<Rightarrow> fastcgi_header" where
  "fh_set_requestid v h = h\<lparr>fh_requestid_high := ucast (drop_bit 8 v AND 0xff), fh_requestid_low := ucast (v AND 0xff)\<rparr>"

definition fh_content_length :: "fastcgi_header \<Rightarrow> u32" where
  "fh_content_length h = high_low (fh_content_length_high h) (fh_content_length_low h)"

text \<open>The setter keeps sixteen bits, and pads the whole length to a multiple of eight.\<close>

definition fh_set_content_length :: "u32 \<Rightarrow> fastcgi_header \<Rightarrow> fastcgi_header" where
  "fh_set_content_length len h =
     h\<lparr>fh_content_length_high := ucast (drop_bit 8 len AND 0xff), fh_content_length_low := ucast (len AND 0xff),
       fh_padding_length := (if unat len mod 8 > 0 then of_nat (8 - unat len mod 8) else 0)\<rparr>"

definition fh_package_length :: "fastcgi_header \<Rightarrow> u32" where
  "fh_package_length h = of_nat sizeof_fastcgi_header + fh_content_length h + ucast (fh_padding_length h)"

definition fcgi_split :: MESSAGE_SPLITER where
  "fcgi_split buffer =
     (if length buffer < sizeof_fastcgi_header then 0
      else if length buffer \<ge> unat (fh_package_length (fh_read buffer)) then sint (fh_package_length (fh_read buffer))
      else 0)"

section \<open>Requests\<close>

datatype HTTP_COMMAND = GET | POST

record cgi_request =
  cr_id :: u32
  cr_socket :: SOCKET
  cr_keepalive :: bool
  cr_params_done :: bool
  cr_stdin_done :: bool
  cr_url :: string
  cr_cmd :: HTTP_COMMAND
  cr_role :: u32
  cr_input_headers :: "string \<rightharpoonup> string"
  cr_input_variables :: "string \<rightharpoonup> string"
  cr_cookies :: "string \<rightharpoonup> string"
  cr_output_headers :: "string \<rightharpoonup> string"
  cr_output_content :: string

definition addInputHeader :: "string \<Rightarrow> string \<Rightarrow> cgi_request \<Rightarrow> cgi_request" where
  "addInputHeader k v r = r\<lparr>cr_input_headers := (cr_input_headers r)(cstring k \<mapsto> cstring v)\<rparr>"

definition addInputVariable :: "string \<Rightarrow> string \<Rightarrow> cgi_request \<Rightarrow> cgi_request" where
  "addInputVariable k v r = r\<lparr>cr_input_variables := (cr_input_variables r)(cstring k \<mapsto> cstring v)\<rparr>"

definition addInputCookie :: "string \<Rightarrow> string \<Rightarrow> cgi_request \<Rightarrow> cgi_request" where
  "addInputCookie k v r = r\<lparr>cr_cookies := (cr_cookies r)(cstring k \<mapsto> cstring v)\<rparr>"

text \<open>A header that is already there is kept.\<close>

definition addHeader :: "string \<Rightarrow> string \<Rightarrow> cgi_request \<Rightarrow> cgi_request" where
  "addHeader name val r =
     (if cr_output_headers r name \<noteq> None then r else r\<lparr>cr_output_headers := (cr_output_headers r)(name \<mapsto> val)\<rparr>)"

definition addString :: "string \<Rightarrow> cgi_request \<Rightarrow> cgi_request" where
  "addString data r = r\<lparr>cr_output_content := cr_output_content r @ cstring data\<rparr>"

definition cgi_request_new :: "u32 \<Rightarrow> SOCKET \<Rightarrow> cgi_request" where
  "cgi_request_new i s =
     addHeader ''Content-type'' ''text/html''
       \<lparr>cr_id = i, cr_socket = s, cr_keepalive = False, cr_params_done = False, cr_stdin_done = False, cr_url = [],
        cr_cmd = GET, cr_role = FASTCGI_RESPONDER, cr_input_headers = Map.empty, cr_input_variables = Map.empty,
        cr_cookies = Map.empty, cr_output_headers = Map.empty, cr_output_content = []\<rparr>"

text \<open>\<open>now\<close> is what \<^verbatim>\<open>currentSecond\<close> says; the sum is formatted by \<^verbatim>\<open>timestamp_gmt\<close>.\<close>

definition cookie_expires :: "nat \<Rightarrow> u32 \<Rightarrow> string res" where
  "cookie_expires now seconds =
     (case timestamp_gmt now 64 (now + unat seconds) of None \<Rightarrow> Inl UninitRead | Some s \<Rightarrow> Inr s)"

definition setCookie :: "nat \<Rightarrow> string \<Rightarrow> u32 \<Rightarrow> cgi_request \<Rightarrow> cgi_request res" where
  "setCookie now name seconds r =
     bindE (cookie_expires now seconds) (\<lambda>expires. Inr (addHeader ''Set-Cookie'' (name @ '';'' @ ''expires='' @ expires) r))"

definition setCookie_value :: "nat \<Rightarrow> string \<Rightarrow> string \<Rightarrow> u32 \<Rightarrow> cgi_request \<Rightarrow> cgi_request res" where
  "setCookie_value now name val seconds r =
     bindE (cookie_expires now seconds) (\<lambda>expires.
       Inr (addHeader ''Set-Cookie'' (name @ ''='' @ val @ '';'' @ ''expires='' @ expires) r))"

text \<open>
  a cookie set for some seconds is sent with an expiry date eight hours later than
  meant, and only the first cookie of an answer is sent at all: setting another one changes
  nothing.
\<close>

theorem cgi_cookie_late_and_alone:
  assumes "valid_tm t" and "timegm t = now + unat seconds + 8 * 3600" and "0 < now + unat seconds" and "tm_year t < 10000"
    and "cr_output_headers r ''Set-Cookie'' = None"
  shows "\<exists>r1. setCookie_value now name val seconds r = Inr r1 \<and>
    cr_output_headers r1 ''Set-Cookie'' = Some (name @ ''='' @ val @ '';expires='' @ http_date t) \<and>
    setCookie_value now name' val' seconds r1 = Inr r1"
proof -
  have "cookie_expires now seconds = Inr (http_date t)"
    using timestamp_gmt_text [OF assms(1-4)] by (simp add: cookie_expires_def)
  then show ?thesis using assms(5) by (simp add: setCookie_value_def addHeader_def)
qed

theorem cgi_cookie_late_and_alone_witness:
  "\<exists>r1. setCookie_value 61 ''a'' ''1'' 3600 (cgi_request_new 1 4) = Inr r1 \<and>
     cr_output_headers r1 ''Set-Cookie'' = Some ''a=1;expires=Thu, 01 Jan 1970 09:01:01 GMT'' \<and>
     setCookie_value 61 ''b'' ''2'' 3600 r1 = Inr r1"
proof -
  let ?t = "\<lparr>tm_year = 1970, tm_mon = 1, tm_mday = 1, tm_hour = 9, tm_min = 1, tm_sec = 1\<rparr>"
  have "valid_tm ?t" "timegm ?t = 61 + unat (3600 :: u32) + 8 * 3600"
    by (simp_all add: valid_tm_def month_lengths_def timegm_def days_of_def)
  moreover have "http_date ?t = ''Thu, 01 Jan 1970 09:01:01 GMT''" by code_simp
  moreover have "cr_output_headers (cgi_request_new 1 4) ''Set-Cookie'' = None" by (simp add: cgi_request_new_def addHeader_def)
  ultimately show ?thesis using cgi_cookie_late_and_alone [of ?t 61 3600 "cgi_request_new 1 4" "''a''" "''1''" "''b''" "''2''"] by simp
qed

section \<open>End of input\<close>

text \<open>
  The parts of \<^verbatim>\<open>receiveStdinDone\<close> in order. Each returns from the whole function when it
  fails; \<open>False\<close> says that it did. Splitting into strings itself always succeeds.
\<close>

fun cookie_fields :: "string list \<Rightarrow> cgi_request \<Rightarrow> bool \<times> cgi_request" where
  "cookie_fields [] r = (True, r)"
| "cookie_fields (s # ss) r =
     (let v = snd (splitString s (CHR ''='') [])
      in if length v = 1 \<or> length v = 2
         then cookie_fields ss (addInputCookie (v ! 0) (if length v = 2 then v ! 1 else []) r)
         else (False, r))"

definition read_cookies :: "cgi_request \<Rightarrow> bool \<times> cgi_request" where
  "read_cookies r =
     (case cr_input_headers r ''HTTP_COOKIE'' of
        None \<Rightarrow> (False, r)
      | Some val \<Rightarrow> cookie_fields (snd (splitString val (CHR '';'') [])) r)"

definition read_method :: "cgi_request \<Rightarrow> bool \<times> cgi_request" where
  "read_method r =
     (case cr_input_headers r ''REQUEST_METHOD'' of
        None \<Rightarrow> (False, r)
      | Some val \<Rightarrow>
          let h = hashString (bytes_of_string val)
          in (True, if h = hashString (bytes_of_string ''GET'') then r\<lparr>cr_cmd := GET\<rparr>
                    else if h = hashString (bytes_of_string ''POST'') then r\<lparr>cr_cmd := POST\<rparr> else r))"

definition read_url :: "cgi_request \<Rightarrow> bool \<times> cgi_request" where
  "read_url r =
     (case cr_input_headers r ''SCRIPT_NAME'' of None \<Rightarrow> (False, r) | Some val \<Rightarrow> (True, r\<lparr>cr_url := val\<rparr>))"

definition url_decode :: "(string \<Rightarrow> string option) \<Rightarrow> string \<Rightarrow> bool \<times> string" where
  "url_decode unescape s = (let url = (case unescape s of None \<Rightarrow> [] | Some u \<Rightarrow> u) in (url \<noteq> [], url))"

fun variable_fields :: "string list \<Rightarrow> cgi_request \<Rightarrow> bool \<times> cgi_request" where
  "variable_fields [] r = (True, r)"
| "variable_fields (s # ss) r =
     (let v = snd (splitString s (CHR ''='') [])
      in if length v = 2 then variable_fields ss (addInputVariable (v ! 0) (v ! 1) r) else (False, r))"

definition read_query :: "(string \<Rightarrow> string option) \<Rightarrow> cgi_request \<Rightarrow> bool \<times> cgi_request" where
  "read_query unescape r =
     (case cr_input_headers r ''QUERY_STRING'' of
        None \<Rightarrow> (False, r)
      | Some val \<Rightarrow>
          let (rc, decoded) = url_decode unescape val
          in if \<not> rc then (False, r) else variable_fields (snd (splitString decoded (CHR ''&'') [])) r)"

definition and_then :: "(cgi_request \<Rightarrow> bool \<times> cgi_request) \<Rightarrow> bool \<times> cgi_request \<Rightarrow> bool \<times> cgi_request" where
  "and_then f p = (if fst p then f (snd p) else p)"

definition receiveStdinDone :: "(string \<Rightarrow> string option) \<Rightarrow> cgi_request \<Rightarrow> cgi_request" where
  "receiveStdinDone unescape r =
     snd (and_then (read_query unescape) (and_then read_url (and_then read_method
       (read_cookies (r\<lparr>cr_stdin_done := True\<rparr>)))))"

definition receiveParamsDone :: "cgi_request \<Rightarrow> cgi_request" where
  "receiveParamsDone r = r\<lparr>cr_params_done := True\<rparr>"

section \<open>Parameters\<close>

definition byte_at :: "bytes \<Rightarrow> nat \<Rightarrow> u8 res" where
  "byte_at data i = (if i < length data then Inr (data ! i) else Inl HeapOverrun)"

text \<open>
  One of the two lengths in front of a parameter, in one byte or in four. The three further
  bytes are read before their position is checked; \<open>ok\<close> is that last check. \<open>None\<close> refuses.
\<close>

definition param_length :: "(nat \<Rightarrow> bool) \<Rightarrow> bytes \<Rightarrow> nat \<Rightarrow> nat \<Rightarrow> ((nat \<times> nat) option) res" where
  "param_length ok data realen i =
     bindE (byte_at data i) (\<lambda>b.
       if \<not> i + 1 < realen then Inr None
       else if b AND 0x80 \<noteq> 0 then
         bindE (byte_at data (i + 1)) (\<lambda>v1. bindE (byte_at data (i + 2)) (\<lambda>v2. bindE (byte_at data (i + 3)) (\<lambda>v3.
           let len = push_bit 24 (ucast b AND 0x7f) + push_bit 16 (ucast v1) + push_bit 8 (ucast v2) + ucast v3 :: u32
           in if \<not> ok (i + 4) then Inr None else Inr (Some (unat len, i + 4)))))
       else Inr (Some (unat b, i + 1)))"

definition bytes_at :: "bytes \<Rightarrow> nat \<Rightarrow> nat \<Rightarrow> bytes res" where
  "bytes_at data i n = (if i + n \<le> length data then Inr (take n (drop i data)) else Inl HeapOverrun)"

text \<open>A parameter: the strings are assigned before their end is checked.\<close>

definition param_step :: "bytes \<Rightarrow> nat \<Rightarrow> nat \<Rightarrow> ((string \<times> string \<times> nat) option) res" where
  "param_step data realen i =
     bindE (param_length (\<lambda>j. j < realen) data realen i) (\<lambda>p1.
       case p1 of None \<Rightarrow> Inr None | Some (len_key, i1) \<Rightarrow>
     bindE (param_length (\<lambda>j. j \<le> realen) data realen i1) (\<lambda>p2.
       case p2 of None \<Rightarrow> Inr None | Some (len_value, i2) \<Rightarrow>
     bindE (bytes_at data i2 len_key) (\<lambda>key.
     bindE (bytes_at data (i2 + len_key) len_value) (\<lambda>val.
       if i2 + len_key + len_value \<le> realen
       then Inr (Some (string_of_bytes key, string_of_bytes val, i2 + len_key + len_value)) else Inr None))))"

lemma param_length_progress: "param_length ok data realen i = Inr (Some (n, j)) \<Longrightarrow> i < j"
  by (auto simp: param_length_def fault_simps Let_def split: if_splits)

lemma param_step_progress: "param_step data realen i = Inr (Some (k, v, j)) \<Longrightarrow> i < j"
  by (auto simp: param_step_def fault_simps split: if_splits option.splits dest!: param_length_progress)

function params_loop :: "bytes \<Rightarrow> nat \<Rightarrow> nat \<Rightarrow> cgi_request \<Rightarrow> (bool \<times> cgi_request) res" where
  "params_loop data realen i r =
     (if i < realen then
        (case param_step data realen i of
           Inl e \<Rightarrow> Inl e
         | Inr None \<Rightarrow> Inr (False, r)
         | Inr (Some (k, v, j)) \<Rightarrow> params_loop data realen j (addInputHeader k v r))
      else Inr (True, r))"
  by pat_completeness auto
termination
  by (relation "measure (\<lambda>(data, realen, i, r). realen - i)") (auto dest: param_step_progress)

declare params_loop.simps [simp del]

definition readParams :: "fastcgi_header \<Rightarrow> bytes \<Rightarrow> cgi_request \<Rightarrow> (bool \<times> cgi_request) res" where
  "readParams header buffer r =
     (if buffer = [] then Inr (True, receiveParamsDone r)
      else if length buffer < unat (fh_padding_length header) then Inr (False, r)
      else params_loop buffer (length buffer - unat (fh_padding_length header)) 0 r)"

section \<open>Packages\<close>

record cgi_server =
  cs_server :: server
  cs_requests :: "u32 \<rightharpoonup> cgi_request"
  cs_deleted :: bool

definition beginRequest :: "bytes \<Rightarrow> cgi_request \<Rightarrow> (bool \<times> cgi_request) res" where
  "beginRequest buffer r =
     assertE (length buffer \<ge> 8)
       (let r1 = r\<lparr>cr_role := high_low (buffer ! 0) (buffer ! 1), cr_keepalive := (buffer ! 2 AND 1 \<noteq> 0)\<rparr>
        in Inr (cr_role r1 = FASTCGI_RESPONDER, r1))"

definition readStdin :: "(string \<Rightarrow> string option) \<Rightarrow> fastcgi_header \<Rightarrow> bytes \<Rightarrow> cgi_request \<Rightarrow> (bool \<times> cgi_request) res" where
  "readStdin unescape header buffer r =
     (if buffer = [] then Inr (True, receiveStdinDone unescape r)
      else assertE (unat (fh_content_length header) \<le> length buffer)
        (Inr (True, addInputHeader ''QUERY_STRING'' (string_of_bytes (take (unat (fh_content_length header)) buffer)) r)))"

definition readData :: "bytes \<Rightarrow> cgi_request \<Rightarrow> (bool \<times> cgi_request) res" where
  "readData buffer r = Inr (True, r)"

text \<open>The destructor of a request closes its connection.\<close>

definition releaseRequest :: "cgi_request \<Rightarrow> cgi_server \<Rightarrow> cgi_server res" where
  "releaseRequest r cs =
     bindE (ss_close (cr_socket r) (cs_server cs)) (\<lambda>ss.
       Inr (cs\<lparr>cs_server := ss, cs_requests := (cs_requests cs)(cr_id r := None)\<rparr>))"

definition cgi_dispatch :: "(string \<Rightarrow> string option) \<Rightarrow> fastcgi_header \<Rightarrow> bytes \<Rightarrow> cgi_request \<Rightarrow> (bool \<times> cgi_request) res" where
  "cgi_dispatch unescape header buffer r =
     (if fh_type header = FASTCGI_BEGIN_REQUEST then beginRequest buffer r
      else if fh_type header = FASTCGI_PARAMS then readParams header buffer r
      else if fh_type header = FASTCGI_STDIN then readStdin unescape header buffer r
      else if fh_type header = FASTCGI_DATA then readData buffer r
      else Inr (False, r))"

text \<open>
  The name of a record type, for the log. The bound is the size of the table in bytes, eight
  times its twelve entries; reading an entry beyond them is a fault.
\<close>

definition type_names :: "string list" where
  "type_names = [''NONE'', ''BEGIN_REQUEST'', ''ABORT_REQUEST'', ''END_REQUEST'', ''PARAMS'', ''STDIN'', ''STDOUT'', ''STDERR'',
     ''DATA'', ''GET_VALUES'', ''GET_VALUES_RESULT'', ''UNKNOWN_TYPE'']"

definition requestString :: "u8 \<Rightarrow> string res" where
  "requestString ty =
     (if unat ty < 8 * length type_names
      then if unat ty < length type_names then Inr (type_names ! unat ty) else Inl HeapOverrun
      else Inr ''NONE'')"

definition cgi_parsePackage :: "(string \<Rightarrow> string option) \<Rightarrow> SOCKET \<Rightarrow> bytes \<Rightarrow> cgi_server \<Rightarrow> (bool \<times> cgi_server) res" where
  "cgi_parsePackage unescape s package cs =
     assertE (length package \<ge> sizeof_fastcgi_header)
       (let header = fh_read package; buffer = drop sizeof_fastcgi_header package; i = fh_requestid header
        in assertE (length package = unat (fh_package_length header)) (bindE (requestString (fh_type header)) (\<lambda>_.
           let r = (case cs_requests cs i of Some r \<Rightarrow> r | None \<Rightarrow> cgi_request_new i s)
            in assertE (cr_socket r = s)
               (bindE (cgi_dispatch unescape header buffer r) (\<lambda>(rc, r1).
                 let cs1 = cs\<lparr>cs_requests := (cs_requests cs)(i \<mapsto> r1)\<rparr>
                 in if rc then Inr (True, cs1)
                    else bindE (releaseRequest r1 cs1) (\<lambda>cs2. Inr (False, cs2)))))))"

text \<open>
  \<open>order\<close> is the order in which the container is traversed. When no request is complete the
  request with the identifier zero is taken, if there is one.
\<close>

definition getCompleteRequest :: "u32 list \<Rightarrow> cgi_server \<Rightarrow> cgi_request option \<times> cgi_server" where
  "getCompleteRequest order cs =
     (let done1 = (\<lambda>i. case cs_requests cs i of None \<Rightarrow> False | Some r \<Rightarrow> cr_params_done r \<and> cr_stdin_done r);
          requestid = (case filter done1 order of [] \<Rightarrow> 0 | i # is \<Rightarrow> i)
      in case cs_requests cs requestid of
           None \<Rightarrow> (None, cs)
         | Some r \<Rightarrow> (Some r, cs\<lparr>cs_requests := (cs_requests cs)(requestid := None)\<rparr>))"

lemma on_worker_queue: "okE (\<lambda>ss'. ss_readQueue ss' = ss_readQueue ss) (on_worker i f ss)"
  by (simp add: on_worker_def split: slot.split)

lemma close_queue: "okE (\<lambda>ss'. ss_readQueue ss' = ss_readQueue ss) (ss_close s ss)"
  unfolding ss_close_def by (intro okE_assert okE_bind_pure on_worker_queue)

lemma release_queue: "okE (\<lambda>cs'. ss_readQueue (cs_server cs') = ss_readQueue (cs_server cs)) (releaseRequest r cs)"
  unfolding releaseRequest_def by (rule okE_bind [OF close_queue]) simp

lemma parsePackage_queue:
  "okE (\<lambda>p. ss_readQueue (cs_server (snd p)) = ss_readQueue (cs_server cs)) (cgi_parsePackage unescape s package cs)"
  unfolding cgi_parsePackage_def Let_def
proof (intro okE_assert okE_bind_pure)
  fix p :: "bool \<times> cgi_request"
  show "okE (\<lambda>p. ss_readQueue (cs_server (snd p)) = ss_readQueue (cs_server cs))
    (case p of (rc, r1) \<Rightarrow>
       if rc then Inr (True, cs\<lparr>cs_requests := (cs_requests cs)(fh_requestid (fh_read package) \<mapsto> r1)\<rparr>)
       else bindE (releaseRequest r1 (cs\<lparr>cs_requests := (cs_requests cs)(fh_requestid (fh_read package) \<mapsto> r1)\<rparr>))
         (\<lambda>cs2. Inr (False, cs2)))"
    by (cases p) (auto intro!: okE_bind [OF release_queue])
qed

lemma receive_shrinks:
  "ss_receiveMessage (cs_server cs) = Inr (Some msg, ss) \<Longrightarrow> length (ss_readQueue ss) < length (ss_readQueue (cs_server cs))"
  by (simp add: ss_receiveMessage_def receive_loop_shrinks)

lemma parsePackage_shrinks:
  "ss_receiveMessage (cs_server cs) = Inr (Some msg, ss) \<Longrightarrow>
   cgi_parsePackage unescape s package (cs\<lparr>cs_server := ss\<rparr>) = Inr (rc, cs1) \<Longrightarrow>
     length (ss_readQueue (cs_server cs1)) < length (ss_readQueue (cs_server cs))"
  using parsePackage_queue [of "cs\<lparr>cs_server := ss\<rparr>" unescape s package] receive_shrinks [of cs msg ss]
  by (simp add: okE_def)

text \<open>The loop of \<^verbatim>\<open>getRequest\<close>. Taking a packet apart does not touch the queue of messages.\<close>

function cgi_receive_loop :: "(string \<Rightarrow> string option) \<Rightarrow> cgi_server \<Rightarrow> cgi_server res" where
  "cgi_receive_loop unescape cs =
     (case ss_receiveMessage (cs_server cs) of
        Inl e \<Rightarrow> Inl e
      | Inr (None, ss) \<Rightarrow> Inr (cs\<lparr>cs_server := ss\<rparr>)
      | Inr (Some msg, ss) \<Rightarrow>
          if sm_opcode msg = SM_OPCODE_ESTABLISH \<or> sm_opcode msg = SM_OPCODE_CLOSE
          then cgi_receive_loop unescape (cs\<lparr>cs_server := ss\<rparr>)
          else (case cgi_parsePackage unescape (sm_s msg) (msg_bytes msg) (cs\<lparr>cs_server := ss\<rparr>) of
                  Inl e \<Rightarrow> Inl e
                | Inr (rc, cs1) \<Rightarrow> cgi_receive_loop unescape cs1))"
  by pat_completeness auto
termination
  by (relation "measure (\<lambda>(unescape, cs). length (ss_readQueue (cs_server cs)))")
    (auto dest: receive_shrinks parsePackage_shrinks)

declare cgi_receive_loop.simps [simp del]

definition getRequest :: "(string \<Rightarrow> string option) \<Rightarrow> u32 list \<Rightarrow> cgi_server \<Rightarrow> (cgi_request option \<times> cgi_server) res" where
  "getRequest unescape order cs =
     bindE (cgi_receive_loop unescape cs) (\<lambda>cs1. Inr (getCompleteRequest order cs1))"

text \<open>
  Stopping deletes the requests that are left, and then the socket server. The container keeps
  the addresses of the requests, which the destructor of the server, stopping once more,
  deletes again.
\<close>

definition deleteRequest :: "u32 \<Rightarrow> cgi_server \<Rightarrow> cgi_server res" where
  "deleteRequest i cs =
     (case cs_requests cs i of
        None \<Rightarrow> Inr cs
      | Some r \<Rightarrow> if cs_deleted cs then Inl UseAfterFree
          else bindE (ss_close (cr_socket r) (cs_server cs)) (\<lambda>ss. Inr (cs\<lparr>cs_server := ss\<rparr>)))"

definition cgi_stop :: "u32 list \<Rightarrow> cgi_server \<Rightarrow> kern \<Rightarrow> (cgi_server \<times> kern) res" where
  "cgi_stop order cs k =
     bindE (foldE deleteRequest order cs) (\<lambda>cs1.
       if cs_deleted cs1 then Inr (cs1, k)
       else bindE (ss_stopServer (cs_server cs1) k) (\<lambda>(ss, k1). Inr (cs1\<lparr>cs_server := ss, cs_deleted := True\<rparr>, k1)))"

section \<open>Answers\<close>

definition junk_bytes :: "(nat \<Rightarrow> u8) \<Rightarrow> nat \<Rightarrow> bytes" where
  "junk_bytes junk n = map junk [0..<n]"

definition answer_header :: "u8 \<Rightarrow> u32 \<Rightarrow> nat \<Rightarrow> fastcgi_header" where
  "answer_header ty i len =
     fh_set_content_length (of_nat len) (fh_set_requestid i
       \<lparr>fh_version = FASTCGI_VERSION, fh_type = ty, fh_requestid_high = 0, fh_requestid_low = 0,
        fh_content_length_high = 0, fh_content_length_low = 0, fh_padding_length = 0, fh_reserved = 0\<rparr>)"

text \<open>A block of output: header, text and padding are sent as three messages.\<close>

definition stdout_messages :: "(nat \<Rightarrow> u8) \<Rightarrow> u32 \<Rightarrow> string \<Rightarrow> bytes list" where
  "stdout_messages junk i s =
     (let header = answer_header FASTCGI_STDOUT i (length s)
      in [fh_bytes header, bytes_of_string s] @
         (if fh_padding_length header > 0 then [junk_bytes junk (unat (fh_padding_length header))] else []))"

definition end_request_body :: "(nat \<Rightarrow> u8) \<Rightarrow> bytes" where
  "end_request_body junk = map junk [0..<4] @ [FASTCGI_REQUEST_COMPLETE] @ map (\<lambda>i. junk (5 + i)) [0..<3]"

text \<open>\<open>order\<close> is the order in which the output headers are traversed.\<close>

definition header_text :: "string list \<Rightarrow> cgi_request \<Rightarrow> string" where
  "header_text order r =
     concat (map (\<lambda>k. case cr_output_headers r k of
        None \<Rightarrow> [] | Some v \<Rightarrow> k @ '': '' @ v @ [CHR 0x0D, CHR 0x0A]) order) @ [CHR 0x0D, CHR 0x0A]"

definition answer_messages :: "(nat \<Rightarrow> u8) \<Rightarrow> string list \<Rightarrow> cgi_request \<Rightarrow> bytes list" where
  "answer_messages junk order r =
     stdout_messages junk (cr_id r) (header_text order r) @
     (if length (cr_output_content r) > 0 then stdout_messages junk (cr_id r) (cr_output_content r) else []) @
     [fh_bytes (answer_header FASTCGI_STDOUT (cr_id r) 0), fh_bytes (answer_header FASTCGI_END_REQUEST (cr_id r) 8),
      end_request_body junk]"

definition cgi_send :: "(nat \<Rightarrow> u8) \<Rightarrow> string list \<Rightarrow> cgi_request \<Rightarrow> cgi_server \<Rightarrow> cgi_server res" where
  "cgi_send junk order r cs =
     bindE (foldE (ss_sendPayload (cr_socket r)) (answer_messages junk order r) (cs_server cs)) (\<lambda>ss.
       Inr (cs\<lparr>cs_server := ss\<rparr>))"

section \<open>Header fields\<close>

lemma high_low_split: "unat (high_low (ucast (drop_bit 8 v AND 0xff)) (ucast (v AND 0xff))) = unat (v :: u32) mod 65536"
proof -
  have "high_low (ucast (drop_bit 8 v AND 0xff)) (ucast (v AND 0xff)) = take_bit 16 v"
  proof -
    have ff: "x AND 0xff = take_bit 8 x" for x :: u32 by (simp add: take_bit_eq_mask mask_eq_exp_minus_1)
    have "high_low (ucast (take_bit 8 (drop_bit 8 v))) (ucast (take_bit 8 v)) =
        push_bit 8 (ucast (ucast (take_bit 8 (drop_bit 8 v)) :: u8)) OR ucast (ucast (take_bit 8 v) :: u8)"
      unfolding high_low_def by (intro disjunctive_add) (auto simp: bit_simps)
    also have "\<dots> = take_bit 16 v" by (rule bit_word_eqI) (auto simp: bit_simps)
    finally show ?thesis by (simp add: ff)
  qed
  then show ?thesis by (simp add: take_bit_eq_mod unat_mod)
qed

lemma answer_header_fields:
  "fh_version (answer_header ty i n) = 1" "fh_type (answer_header ty i n) = ty" "fh_reserved (answer_header ty i n) = 0"
  "unat (fh_requestid (answer_header ty i n)) = unat i mod 65536"
  "unat (fh_content_length (answer_header ty i n)) = n mod 65536"
  by (simp_all add: answer_header_def fh_set_content_length_def fh_set_requestid_def fh_requestid_def
      fh_content_length_def high_low_split unat_of_nat take_bit_eq_mod mod_mod_cancel)
lemma unat_high_low: "unat (high_low h l) = 256 * unat h + unat l"
proof -
  have "unat h < 256" "unat l < 256"
    using unsigned_less [where ?'a = nat and w = h] unsigned_less [where ?'a = nat and w = l] by simp_all
  moreover have "(push_bit 8 (ucast h) + ucast l :: u32) = of_nat (256 * unat h + unat l)"
    by (simp add: push_bit_eq_mult)
  ultimately show ?thesis unfolding high_low_def by (simp add: unat_of_nat_u32 del: of_nat_add of_nat_mult)
qed

lemma unat_package_length: "unat (fh_package_length h) = 8 + unat (fh_content_length h) + unat (fh_padding_length h)"
proof -
  have "unat (fh_content_length h) < 65536" "unat (fh_padding_length h) < 256"
    unfolding fh_content_length_def unat_high_low
    using unsigned_less [where ?'a = nat and w = "fh_padding_length h"]
      unsigned_less [where ?'a = nat and w = "fh_content_length_high h"]
      unsigned_less [where ?'a = nat and w = "fh_content_length_low h"] by simp_all
  moreover have "fh_package_length h = of_nat (8 + unat (fh_content_length h) + unat (fh_padding_length h))"
    by (simp add: fh_package_length_def sizeof_fastcgi_header_def)
  ultimately show ?thesis by (simp add: unat_of_nat_u32 del: of_nat_add)
qed

lemma package_length_small: "unat (fh_package_length h) < 2 ^ 31"
  unfolding unat_package_length fh_content_length_def unat_high_low
  using unsigned_less [where ?'a = nat and w = "fh_padding_length h"]
    unsigned_less [where ?'a = nat and w = "fh_content_length_high h"]
    unsigned_less [where ?'a = nat and w = "fh_content_length_low h"] by simp

lemma sint_package_length: "sint (fh_package_length h) = int (unat (fh_package_length h))"
  using sint_of_nat_u32 [OF package_length_small [of h]] by simp

lemma fh_read_append: "length xs \<ge> sizeof_fastcgi_header \<Longrightarrow> fh_read (xs @ ys) = fh_read xs"
  by (auto simp: fh_read_def sizeof_fastcgi_header_def nth_append)

lemma fh_read_bytes [simp]: "fh_read (fh_bytes h @ ys) = h" "length (fh_bytes h) = sizeof_fastcgi_header"
  by (simp_all add: fh_read_def fh_bytes_def sizeof_fastcgi_header_def)

interpretation fcgi: message_spliter fcgi_split
proof
  show "fcgi_split [] = 0" by (simp add: fcgi_split_def sizeof_fastcgi_header_def)
  show "nat (fcgi_split xs) \<le> length xs" if "0 < fcgi_split xs" for xs
    using that by (auto simp: fcgi_split_def sint_package_length split: if_splits)
  show "fcgi_split (xs @ ys) = fcgi_split xs" if "fcgi_split xs \<noteq> 0" for xs ys
    using that by (auto simp: fcgi_split_def fh_read_append split: if_splits)
qed

text \<open>A record: its header, its data and its padding.\<close>

definition fcgi_record :: "u8 \<Rightarrow> u32 \<Rightarrow> bytes \<Rightarrow> bytes \<Rightarrow> bytes" where
  "fcgi_record ty i body pad = fh_bytes (answer_header ty i (length body)) @ body @ pad"

definition padding_of :: "nat \<Rightarrow> nat" where
  "padding_of n = (8 - n mod 8) mod 8"

lemma unat_small_mod8: "(unat (of_nat n :: u32)) mod 8 = n mod 8"
  by (simp add: unat_of_nat take_bit_eq_mod mod_mod_cancel)

lemma answer_header_padding: "unat (fh_padding_length (answer_header ty i n)) = padding_of n"
proof -
  have "8 - n mod 8 < 256" by simp
  then have "unat (of_nat (8 - n mod 8) :: u8) = 8 - n mod 8" by (simp add: unat_of_nat take_bit_eq_mod del: of_nat_diff)
  moreover have "n mod 8 < 8" by simp
  ultimately show ?thesis
    by (simp add: answer_header_def fh_set_content_length_def unat_small_mod8 padding_of_def)
qed

lemma fcgi_split_record:
  assumes "length body < 65536" and "length pad = padding_of (length body)"
  shows "fcgi_split (fcgi_record ty i body pad @ rest) = int (length (fcgi_record ty i body pad))"
  using assms
  by (simp add: fcgi_split_def fcgi_record_def sint_package_length unat_package_length answer_header_fields
      answer_header_padding sizeof_fastcgi_header_def)

lemma frames_records:
  assumes "list_all (\<lambda>(ty, body, pad). length body < 65536 \<and> length pad = padding_of (length body)) rs"
  shows "frames fcgi_split (concat (map (\<lambda>(ty, body, pad). fcgi_record ty i body pad) rs)) =
    (map (\<lambda>(ty, body, pad). fcgi_record ty i body pad) rs, [], True)"
  using assms
  by (intro fcgi.frames_concat)
    (auto simp: list_all_iff fcgi_split_record, simp add: fcgi_record_def fh_bytes_def)

section \<open>Answers arrive\<close>

definition answer_records :: "(nat \<Rightarrow> u8) \<Rightarrow> string list \<Rightarrow> cgi_request \<Rightarrow> (u8 \<times> bytes) list" where
  "answer_records junk order r =
     [(FASTCGI_STDOUT, bytes_of_string (header_text order r))] @
     (if cr_output_content r = [] then [] else [(FASTCGI_STDOUT, bytes_of_string (cr_output_content r))]) @
     [(FASTCGI_STDOUT, []), (FASTCGI_END_REQUEST, end_request_body junk)]"

lemma stdout_messages_concat:
  "concat (stdout_messages junk i s) =
     fcgi_record FASTCGI_STDOUT i (bytes_of_string s) (junk_bytes junk (padding_of (length s)))"
proof -
  have "fh_padding_length (answer_header 6 i (length s)) > 0 \<longleftrightarrow> padding_of (length s) > 0"
    unfolding answer_header_padding [of 6 i, symmetric] by (simp add: unat_gt_0 word_neq_0_conv)
  then show ?thesis
    by (auto simp: stdout_messages_def Let_def fcgi_record_def answer_header_padding junk_bytes_def)
qed

lemma answer_messages_concat:
  "concat (answer_messages junk order r) =
     concat (map (\<lambda>(ty, body, pad). fcgi_record ty (cr_id r) body pad)
       (map (\<lambda>(ty, body). (ty, body, junk_bytes junk (padding_of (length body)))) (answer_records junk order r)))"
  by (simp add: answer_messages_def answer_records_def stdout_messages_concat fcgi_record_def end_request_body_def
      padding_of_def junk_bytes_def)

text \<open>What the peer reads from a record.\<close>

definition record_fields :: "bytes \<Rightarrow> u8 \<times> nat \<times> bytes" where
  "record_fields p =
     (fh_type (fh_read p), unat (fh_requestid (fh_read p)),
      take (unat (fh_content_length (fh_read p))) (drop sizeof_fastcgi_header p))"

lemma record_fields_record:
  "length body < 65536 \<Longrightarrow> record_fields (fcgi_record ty i body pad) = (ty, unat i mod 65536, body)"
  by (simp add: record_fields_def fcgi_record_def answer_header_fields)

lemma answer_messages_ok:
  "s \<noteq> -1 \<Longrightarrow> list_all cmd_ok (map (Cmd_send s) (answer_messages junk order r))"
  by (auto simp: list_all_iff answer_messages_def stdout_messages_def Let_def header_text_def fh_bytes_def
      end_request_body_def junk_bytes_def bytes_of_string_def word_neq_0_conv [symmetric] unat_eq_0)

text \<open>
  C22: an answer reaches the web server whole. The messages that \<open>send\<close> puts into the queue of
  the connection's worker are, joined, a sequence of records that the protocol's own splitter
  takes apart without rest: the headers, the content unless it is empty, an empty record that
  ends the output, and the end of the request, each with the identifier of the request. This
  needs headers and content of less than 64 kB each.
\<close>

theorem cgi_answer_framed:
  assumes "all_live (cs_server cs)" and "cr_socket r \<noteq> -1" and "unat (cr_id r) < 65536"
    and "length (header_text order r) < 65536" and "length (cr_output_content r) < 65536"
  shows "\<exists>cs' msgs fs. cgi_send junk order r cs = Inr cs' \<and> cs_requests cs' = cs_requests cs \<and>
    ss_processes (cs_server cs') =
      deliver (map (allocateMessage_payload (cr_socket r) SM_OPCODE_MESSAGE) msgs) (ss_processes (cs_server cs)) \<and>
    frames fcgi_split (concat msgs) = (fs, [], True) \<and>
    map record_fields fs = map (\<lambda>(ty, body). (ty, unat (cr_id r), body)) (answer_records junk order r)"
proof -
  let ?m = "answer_messages junk order r"
  have send_eq: "(\<lambda>x. ss_command (Cmd_send s x)) = ss_sendPayload s" for s by (simp add: fun_eq_iff)
  let ?rs = "map (\<lambda>(ty, body). (ty, body, junk_bytes junk (padding_of (length body)))) (answer_records junk order r)"
  have small: "\<forall>(ty, body) \<in> set (answer_records junk order r). length body < 65536"
    using assms(4,5) by (auto simp: answer_records_def end_request_body_def)
  then have "list_all (\<lambda>(ty, body, pad). length body < 65536 \<and> length pad = padding_of (length body)) ?rs"
    by (auto simp: list_all_iff junk_bytes_def)
  then have "frames fcgi_split (concat ?m) = (map (\<lambda>(ty, body, pad). fcgi_record ty (cr_id r) body pad) ?rs, [], True)"
    unfolding answer_messages_concat by (rule frames_records)
  moreover have "map record_fields (map (\<lambda>(ty, body, pad). fcgi_record ty (cr_id r) body pad) ?rs) =
      map (\<lambda>(ty, body). (ty, unat (cr_id r), body)) (answer_records junk order r)"
    using small assms(3) by (auto simp: record_fields_record)
  moreover have "foldE (ss_sendPayload (cr_socket r)) ?m (cs_server cs) =
      Inr (cs_server cs\<lparr>ss_processes := deliver (map (allocateMessage_payload (cr_socket r) SM_OPCODE_MESSAGE) ?m)
        (ss_processes (cs_server cs))\<rparr>)"
    using ss_commands_deliver [OF assms(1) answer_messages_ok [OF assms(2)], of junk order r]
    by (simp add: foldE_map comp_def send_eq)
  then obtain ss where "foldE (ss_sendPayload (cr_socket r)) ?m (cs_server cs) = Inr ss"
    "ss_processes ss = deliver (map (allocateMessage_payload (cr_socket r) SM_OPCODE_MESSAGE) ?m) (ss_processes (cs_server cs))"
    by simp
  then have "cgi_send junk order r cs = Inr (cs\<lparr>cs_server := ss\<rparr>)"
    "ss_processes (cs_server (cs\<lparr>cs_server := ss\<rparr>)) =
      deliver (map (allocateMessage_payload (cr_socket r) SM_OPCODE_MESSAGE) ?m) (ss_processes (cs_server cs))"
    "cs_requests (cs\<lparr>cs_server := ss\<rparr>) = cs_requests cs"
    by (simp_all add: cgi_send_def)
  ultimately show ?thesis by blast
qed

definition demo_cgi :: cgi_server where
  "demo_cgi = \<lparr>cs_server = demo_server, cs_requests = Map.empty, cs_deleted = False\<rparr>"

theorem cgi_answer_framed_witness:
  "\<exists>cs' msgs fs. cgi_send (\<lambda>_. 0) [''Content-type''] (addString ''ok'' (cgi_request_new 1 7)) demo_cgi = Inr cs' \<and>
    frames fcgi_split (concat msgs) = (fs, [], True) \<and>
    map record_fields fs =
      [(6, 1, bytes_of_string (''Content-type: text/html'' @ [CHR 0x0D, CHR 0x0A, CHR 0x0D, CHR 0x0A])),
       (6, 1, bytes_of_string ''ok''), (6, 1, []), (3, 1, [0, 0, 0, 0, 0, 0, 0, 0])]"
proof -
  let ?r = "addString ''ok'' (cgi_request_new 1 7)"
  have r: "cr_socket ?r = 7" "cr_id ?r = 1" "cr_output_content ?r = ''ok''"
    "header_text [''Content-type''] ?r = ''Content-type: text/html'' @ [CHR 0x0D, CHR 0x0A, CHR 0x0D, CHR 0x0A]"
    by (simp_all add: addString_def cgi_request_new_def addHeader_def header_text_def cstring_def)
  have z: "end_request_body (\<lambda>_. 0) = [0, 0, 0, 0, 0, 0, 0, 0]" by (simp add: end_request_body_def upt_rec)
  obtain cs' msgs fs where "cgi_send (\<lambda>_. 0) [''Content-type''] ?r demo_cgi = Inr cs'"
    and "frames fcgi_split (concat msgs) = (fs, [], True)"
    and "map record_fields fs = map (\<lambda>(ty, body). (ty, unat (cr_id ?r), body)) (answer_records (\<lambda>_. 0) [''Content-type''] ?r)"
    using cgi_answer_framed [of demo_cgi ?r "[''Content-type'']" "\<lambda>_. 0"] by (auto simp: r demo_cgi_def)
  then show ?thesis
    by (intro exI [of _ cs'] exI [of _ msgs] exI [of _ fs]) (simp add: r z answer_records_def)
qed

section \<open>Parameters arrive\<close>

text \<open>The encoding of names and values in the FastCGI specification.\<close>

definition encode_length :: "nat \<Rightarrow> bytes" where
  "encode_length n =
     (if n < 128 then [of_nat n] else [of_nat (128 + n div 2 ^ 24), of_nat (n div 2 ^ 16), of_nat (n div 2 ^ 8), of_nat n])"

definition encode_param :: "string \<times> string \<Rightarrow> bytes" where
  "encode_param p =
     encode_length (length (fst p)) @ encode_length (length (snd p)) @ bytes_of_string (fst p) @ bytes_of_string (snd p)"

lemma unat_u8: "unat (of_nat n :: u8) = n mod 256"
  by (simp add: unat_of_nat take_bit_eq_mod)

lemma ucast_u8: "(ucast (b :: u8) :: u32) = of_nat (unat b)"
  by simp

lemma low_bits: "(ucast (b :: u8) AND 0x7f :: u32) = of_nat (unat b mod 128)"
proof -
  have "(ucast b AND 0x7f :: u32) = take_bit 7 (of_nat (unat b))"
    by (simp add: take_bit_eq_mask mask_eq_exp_minus_1)
  also have "\<dots> = of_nat (take_bit 7 (unat b))" by (simp only: of_nat_take_bit)
  finally show ?thesis by (simp add: take_bit_eq_mod)
qed

lemma high_bit: "(b :: u8) AND 0x80 = 0 \<longleftrightarrow> unat b < 128"
proof -
  have "b AND 0x80 = 0 \<longleftrightarrow> \<not> bit b 7" using and_exp_eq_0_iff_not_bit [of b 7] by simp
  also have "bit b 7 \<longleftrightarrow> bit (unat b) 7" by (simp add: bit_unsigned_iff)
  also have "bit (unat b) 7 \<longleftrightarrow> odd (unat b div 128)" by (simp add: bit_iff_odd)
  also have "\<dots> \<longleftrightarrow> \<not> unat b < 128"
  proof -
    have "unat b < 256" using unsigned_less [where ?'a = nat and w = b] by simp
    then have "unat b div 128 < 2" by (simp add: less_mult_imp_div_less)
    moreover have "unat b div 128 = 0 \<longleftrightarrow> unat b < 128" by (simp add: div_eq_0_iff)
    ultimately show ?thesis by (cases "unat b div 128") auto
  qed
  finally show ?thesis by simp
qed

lemma decode_length:
  assumes "n < 2 ^ 31"
  shows "push_bit 24 (ucast (of_nat (128 + n div 2 ^ 24) :: u8) AND 0x7f) + push_bit 16 (ucast (of_nat (n div 2 ^ 16) :: u8)) +
    push_bit 8 (ucast (of_nat (n div 2 ^ 8) :: u8)) + ucast (of_nat n :: u8) = (of_nat n :: u32)"
proof -
  let ?d3 = "n div 2 ^ 24" let ?d2 = "n div 2 ^ 16 mod 256" let ?d1 = "n div 2 ^ 8 mod 256" let ?d0 = "n mod 256"
  have d3: "(128 + ?d3) mod 256 mod 128 = ?d3" using assms by (simp add: mod_mod_cancel)
  have "2 ^ 24 * ?d3 + 2 ^ 16 * ?d2 + 2 ^ 8 * ?d1 + ?d0 = n"
  proof -
    have "n div 2 ^ 16 = n div 256 div 256" "n div 2 ^ 24 = n div 256 div 256 div 256"
      by (simp_all flip: div_mult2_eq)
    moreover have "16777216 * (n div 256 div 256 div 256) + 65536 * (n div 256 div 256 mod 256) + 256 * (n div 256 mod 256) +
        n mod 256 = n"
      using mult_div_mod_eq [of 256 n] mult_div_mod_eq [of 256 "n div 256"] mult_div_mod_eq [of 256 "n div 256 div 256"]
      by linarith
    ultimately show ?thesis by simp
  qed
  then have "(of_nat n :: u32) = of_nat (2 ^ 24 * ?d3 + 2 ^ 16 * ?d2 + 2 ^ 8 * ?d1 + ?d0)" by (simp only:)
  also have "\<dots> = of_nat ?d3 * 2 ^ 24 + of_nat ?d2 * 2 ^ 16 + of_nat ?d1 * 2 ^ 8 + of_nat ?d0"
    by (simp only: of_nat_add of_nat_mult of_nat_power of_nat_numeral mult.commute)
  finally show ?thesis unfolding low_bits unfolding ucast_u8 unat_u8 d3 push_bit_eq_mult by (rule sym)
qed

lemma length_encode_length: "length (encode_length n) = (if n < 128 then 1 else 4)"
  by (simp add: encode_length_def)

lemma param_length_encoded:
  assumes n: "n < 2 ^ 31" and i: "i = length pre" and data: "data = pre @ encode_length n @ post"
    and realen: "i + 1 < realen" and ok: "ok (i + length (encode_length n))"
  shows "param_length ok data realen i = Inr (Some (n, i + length (encode_length n)))"
proof (cases "n < 128")
  case True
  then have "data ! i AND 0x80 = 0" "unat (data ! i) = n" "i < length data"
    unfolding high_bit by (simp_all add: data i encode_length_def unat_u8)
  then show ?thesis using True realen by (simp add: param_length_def byte_at_def encode_length_def)
next
  case False
  let ?b = "of_nat (128 + n div 2 ^ 24) :: u8"
  have b: "data ! i = ?b" "data ! (i + 1) = of_nat (n div 2 ^ 16)" "data ! (i + 2) = of_nat (n div 2 ^ 8)"
    "data ! (i + 3) = of_nat n" "i + 3 < length data"
    using False by (simp_all add: data i encode_length_def nth_append)
  have "n div 2 ^ 24 < 128" using n by (simp add: less_mult_imp_div_less)
  then have "?b AND 0x80 \<noteq> 0" unfolding high_bit unat_u8 by simp
  moreover have "unat (of_nat n :: u32) = n" using n by (intro unat_of_nat_u32) simp
  ultimately show ?thesis
    using False realen ok b decode_length [OF n]
    by (simp add: param_length_def byte_at_def length_encode_length Let_def del: of_nat_add)
qed

definition param_ok :: "string \<times> string \<Rightarrow> bool" where
  "param_ok p \<longleftrightarrow> p \<noteq> ([], []) \<and> length (fst p) < 2 ^ 31 \<and> length (snd p) < 2 ^ 31"

lemma param_step_encoded:
  assumes p: "param_ok (k, v)" and i: "i = length pre" and data: "data = pre @ encode_param (k, v) @ post"
    and realen: "i + length (encode_param (k, v)) \<le> realen"
  shows "param_step data realen i = Inr (Some (k, v, i + length (encode_param (k, v))))"
proof -
  let ?lk = "encode_length (length k)" let ?lv = "encode_length (length v)"
  have len: "length k < 2 ^ 31" "length v < 2 ^ 31" using p by (simp_all add: param_ok_def)
  obtain a b c where pos: "length ?lk = Suc a" "length ?lv = Suc b" "length k + length v = Suc c"
  proof -
    have "0 < length ?lk" "0 < length ?lv" by (simp_all add: length_encode_length)
    moreover have "0 < length k + length v" using p by (auto simp: param_ok_def)
    ultimately show ?thesis using that by (metis gr0_implies_Suc)
  qed
  have enc: "length (encode_param (k, v)) = length ?lk + length ?lv + length k + length v" by (simp add: encode_param_def)
  have "param_length (\<lambda>j. j < realen) data realen i = Inr (Some (length k, i + length ?lk))"
    using len pos enc realen
    by (intro param_length_encoded [where pre = pre and post = "?lv @ bytes_of_string k @ bytes_of_string v @ post"])
      (auto simp: i data encode_param_def)
  moreover have "param_length (\<lambda>j. j \<le> realen) data realen (i + length ?lk) =
      Inr (Some (length v, i + length ?lk + length ?lv))"
    using len pos enc realen
    by (intro param_length_encoded [where pre = "pre @ ?lk" and post = "bytes_of_string k @ bytes_of_string v @ post"])
      (auto simp: i data encode_param_def)
  moreover have "bytes_at data (i + length ?lk + length ?lv) (length k) = Inr (bytes_of_string k)"
    "bytes_at data (i + length ?lk + length ?lv + length k) (length v) = Inr (bytes_of_string v)"
    by (simp_all add: bytes_at_def data i encode_param_def)
  ultimately show ?thesis using realen enc by (simp add: param_step_def add.assoc)
qed

lemma params_loop_encoded:
  "list_all param_ok ps \<Longrightarrow>
   params_loop (pre @ concat (map encode_param ps) @ pad) (length pre + length (concat (map encode_param ps))) (length pre) r =
     Inr (True, fold (\<lambda>(k, v). addInputHeader k v) ps r)"
proof (induction ps arbitrary: pre r)
  case Nil
  then show ?case by (simp add: params_loop.simps)
next
  case (Cons p ps)
  obtain k v where p: "p = (k, v)" by (cases p)
  let ?rest = "concat (map encode_param ps)"
  let ?data = "pre @ encode_param (k, v) @ ?rest @ pad"
  let ?n = "length pre + length (encode_param (k, v)) + length ?rest"
  have step: "param_step ?data ?n (length pre) = Inr (Some (k, v, length pre + length (encode_param (k, v))))"
    using Cons.prems p by (intro param_step_encoded [where pre = pre and post = "?rest @ pad"]) auto
  moreover have "0 < length (encode_param (k, v))" by (simp add: encode_param_def length_encode_length)
  then have "length pre < ?n" by linarith
  ultimately have "params_loop ?data ?n (length pre) r =
      params_loop ?data ?n (length pre + length (encode_param (k, v))) (addInputHeader k v r)"
    by (subst params_loop.simps) simp
  then show ?case
    using Cons.IH [of "pre @ encode_param (k, v)" "addInputHeader k v r"] Cons.prems p by (simp add: add.assoc)
qed

lemma headers_of_params:
  assumes "\<forall>(k, v) \<in> set ps. CHR 0x00 \<notin> set k \<and> CHR 0x00 \<notin> set v"
  shows "fold (\<lambda>(k, v). addInputHeader k v) ps r = r\<lparr>cr_input_headers := cr_input_headers r ++ map_of (rev ps)\<rparr>"
  using assms
proof (induction ps arbitrary: r)
  case (Cons p ps)
  then show ?case by (auto simp: addInputHeader_def cstring_id map_add_def fun_eq_iff split: option.splits)
qed simp

lemma params_accepted:
  assumes "ps \<noteq> []" and "list_all param_ok ps" and "\<forall>(k, v) \<in> set ps. CHR 0x00 \<notin> set k \<and> CHR 0x00 \<notin> set v"
    and "unat (fh_padding_length header) = length pad"
  shows "readParams header (concat (map encode_param ps) @ pad) r =
    Inr (True, r\<lparr>cr_input_headers := cr_input_headers r ++ map_of (rev ps)\<rparr>)"
proof -
  have "concat (map encode_param ps) \<noteq> []" using assms(1) by (cases ps) (simp_all add: encode_param_def encode_length_def)
  then show ?thesis
    using params_loop_encoded [OF assms(2), of "[]" pad r] assms(4)
    by (auto simp: readParams_def headers_of_params [OF assms(3)])
qed

text \<open>
  C26: the parameters of a request arrive. A record that encodes names and values as the
  FastCGI specification says, with lengths in one byte or in four and any padding, is accepted
  and adds exactly these headers to the request; a later value replaces an earlier one. At
  least one of a name and its value must be non-empty, and C strings cannot hold NUL.
\<close>

theorem cgi_params_roundtrip:
  assumes "ps \<noteq> []" and "list_all param_ok ps" and "\<forall>(k, v) \<in> set ps. CHR 0x00 \<notin> set k \<and> CHR 0x00 \<notin> set v"
    and "unat (fh_padding_length header) = length pad"
  shows "readParams header (concat (map encode_param ps) @ pad) r =
    Inr (True, r\<lparr>cr_input_headers := cr_input_headers r ++ map_of (rev ps)\<rparr>)"
  using assms by (rule params_accepted)

theorem cgi_params_roundtrip_witness:
  "readParams (answer_header FASTCGI_PARAMS 1 5) (concat (map encode_param [(''A'', ''xy'')]) @ [0, 0, 0]) (cgi_request_new 1 7) =
     Inr (True, (cgi_request_new 1 7)\<lparr>cr_input_headers := [''A'' \<mapsto> ''xy'']\<rparr>)"
  using cgi_params_roundtrip [of "[(''A'', ''xy'')]" "answer_header FASTCGI_PARAMS 1 5" "[0, 0, 0]" "cgi_request_new 1 7"]
  by (simp add: param_ok_def answer_header_padding padding_of_def cgi_request_new_def addHeader_def)

text \<open>
  a parameter record can read beyond its message. When the announced length of the first
  name goes beyond the bytes that arrived, the name is copied before the end is checked.
\<close>

theorem cgi_params_overrun:
  assumes "fh_padding_length header = 0" and "n < 128" and "m < 128" and "2 + n > length data" and "2 < length data"
    and "take 2 data = [of_nat n, of_nat m]"
  shows "readParams header data r = Inl HeapOverrun"
proof -
  have d: "data ! 0 = of_nat n" "data ! Suc 0 = of_nat m"
    using assms(5,6) by (metis nth_take nth_Cons_0 zero_less_numeral, metis nth_take nth_Cons_0 nth_Cons_Suc One_nat_def one_less_numeral_iff semiring_norm(76))
  then have h: "data ! 0 AND 0x80 = 0" "data ! Suc 0 AND 0x80 = 0" "unat (data ! 0) = n" "unat (data ! Suc 0) = m"
    unfolding high_bit using assms(2,3) by (simp_all add: unat_u8)
  have "param_step data (length data) 0 = Inl HeapOverrun"
    using assms(4,5) h by (simp add: param_step_def param_length_def byte_at_def bytes_at_def)
  then show ?thesis using assms(1,5) by (auto simp: readParams_def params_loop.simps [of data "length data" 0])
qed

theorem cgi_params_overrun_witness:
  "readParams (answer_header FASTCGI_PARAMS 1 8) [100, 1, 65, 66, 67, 68, 69, 70] (cgi_request_new 1 7) = Inl HeapOverrun"
proof -
  have "unat (fh_padding_length (answer_header FASTCGI_PARAMS 1 8)) = 0" by (simp add: answer_header_padding padding_of_def)
  then have "fh_padding_length (answer_header FASTCGI_PARAMS 1 8) = 0" by (simp add: unat_eq_0)
  then show ?thesis
    using cgi_params_overrun [of _ 100 1 "[100, 1, 65, 66, 67, 68, 69, 70]"] by simp
qed

section \<open>Requests arrive\<close>

lemma answer_header_requestid: "unat i < 65536 \<Longrightarrow> fh_requestid (answer_header ty i n) = i"
  using answer_header_fields(4) [of ty i n] by (simp add: word_unat_eq_iff)

lemma length_record: "length (fcgi_record ty i body pad) = 8 + length body + length pad"
  by (simp add: fcgi_record_def sizeof_fastcgi_header_def)

text \<open>A record that arrives is given to the request it belongs to.\<close>

lemma parsePackage_record:
  assumes "length body < 65536" and "length pad = padding_of (length body)" and "unat i < 65536" and "unat ty < 12"
  shows "cgi_parsePackage unescape s (fcgi_record ty i body pad) cs =
    (let r = (case cs_requests cs i of Some r \<Rightarrow> r | None \<Rightarrow> cgi_request_new i s)
     in assertE (cr_socket r = s)
          (bindE (cgi_dispatch unescape (answer_header ty i (length body)) (body @ pad) r) (\<lambda>(rc, r1).
            let cs1 = cs\<lparr>cs_requests := (cs_requests cs)(i \<mapsto> r1)\<rparr>
            in if rc then Inr (True, cs1) else bindE (releaseRequest r1 cs1) (\<lambda>cs2. Inr (False, cs2)))))"
proof -
  have "fh_read (fcgi_record ty i body pad) = answer_header ty i (length body)"
    "drop sizeof_fastcgi_header (fcgi_record ty i body pad) = body @ pad" by (simp_all add: fcgi_record_def)
  moreover have "length (fcgi_record ty i body pad) = unat (fh_package_length (answer_header ty i (length body)))"
    using assms(1,2) by (simp add: length_record unat_package_length answer_header_fields answer_header_padding)
  moreover have "sizeof_fastcgi_header \<le> length (fcgi_record ty i body pad)"
    by (simp add: length_record sizeof_fastcgi_header_def)
  moreover have "requestString (fh_type (answer_header ty i (length body))) = Inr (type_names ! unat ty)"
    using assms(4) by (simp add: requestString_def type_names_def answer_header_fields)
  ultimately show ?thesis
    unfolding cgi_parsePackage_def Let_def
    by (simp only: answer_header_requestid [OF assms(3)] assertE_simps bindE.simps simp_thms)
qed

lemma receive_loop_record:
  assumes q: "ss_readQueue (cs_server cs) = allocateMessage_payload s SM_OPCODE_MESSAGE (fcgi_record ty i body pad) # q"
    and s: "s \<noteq> -1" and i: "unat i < 65536" and ty: "unat ty < 12"
    and len: "length body < 65536" "length pad = padding_of (length body)"
    and r: "r = (case cs_requests cs i of Some r \<Rightarrow> r | None \<Rightarrow> cgi_request_new i s)" "cr_socket r = s"
    and d: "cgi_dispatch unescape (answer_header ty i (length body)) (body @ pad) r = Inr (True, r')"
    and cs': "cs' = cs\<lparr>cs_server := cs_server cs\<lparr>ss_readQueue := q\<rparr>, cs_requests := (cs_requests cs)(i \<mapsto> r')\<rparr>"
  shows "cgi_receive_loop unescape cs = cgi_receive_loop unescape cs'"
proof -
  have "padding_of (length body) < 8" by (simp add: padding_of_def)
  then have "unat (of_nat (length (fcgi_record ty i body pad)) :: u32) = length (fcgi_record ty i body pad)"
    using len by (intro unat_of_nat_u32) (simp add: length_record)
  then have "msg_bytes (allocateMessage_payload s SM_OPCODE_MESSAGE (fcgi_record ty i body pad)) = fcgi_record ty i body pad"
    by (simp add: msg_bytes_def allocateMessage_payload_def)
  then show ?thesis
    using q s r d cs' parsePackage_record [OF len i ty, of unescape s "cs\<lparr>cs_server := cs_server cs\<lparr>ss_readQueue := q\<rparr>\<rparr>"]
    by (subst cgi_receive_loop.simps) (simp add: ss_receiveMessage_def allocateMessage_payload_def)
qed

text \<open>
  The records of a request, as the specification orders them: its begin, any number of records
  with parameters and the end of the parameters, any number of records with input and the end of
  the input. Each record comes with its padding.
\<close>

definition params_records :: "((string \<times> string) list \<times> bytes) list \<Rightarrow> (u8 \<times> bytes \<times> bytes) list" where
  "params_records pss = map (\<lambda>(ps, pad). (FASTCGI_PARAMS, concat (map encode_param ps), pad)) pss"

definition stdin_records :: "(bytes \<times> bytes) list \<Rightarrow> (u8 \<times> bytes \<times> bytes) list" where
  "stdin_records bodies = map (\<lambda>(body, pad). (FASTCGI_STDIN, body, pad)) bodies"

definition record_messages :: "SOCKET \<Rightarrow> u32 \<Rightarrow> (u8 \<times> bytes \<times> bytes) list \<Rightarrow> Socketmessage list" where
  "record_messages s i = map (\<lambda>(ty, body, pad). allocateMessage_payload s SM_OPCODE_MESSAGE (fcgi_record ty i body pad))"

definition request_messages :: "SOCKET \<Rightarrow> u32 \<Rightarrow> u8 \<Rightarrow> ((string \<times> string) list \<times> bytes) list \<Rightarrow> (bytes \<times> bytes) list \<Rightarrow> Socketmessage list" where
  "request_messages s i flags pss bodies =
     record_messages s i ([(FASTCGI_BEGIN_REQUEST, [0, 1, flags, 0, 0, 0, 0, 0], [])] @ params_records pss @ [(FASTCGI_PARAMS, [], [])] @
       stdin_records bodies @ [(FASTCGI_STDIN, [], [])])"

definition params_fit :: "(string \<times> string) list \<times> bytes \<Rightarrow> bool" where
  "params_fit p \<longleftrightarrow> fst p \<noteq> [] \<and> list_all param_ok (fst p) \<and> (\<forall>(k, v) \<in> set (fst p). CHR 0x00 \<notin> set k \<and> CHR 0x00 \<notin> set v) \<and>
     length (concat (map encode_param (fst p))) < 65536 \<and> length (snd p) = padding_of (length (concat (map encode_param (fst p))))"

definition body_fits :: "bytes \<times> bytes \<Rightarrow> bool" where
  "body_fits b \<longleftrightarrow> fst b \<noteq> [] \<and> length (fst b) < 65536 \<and> length (snd b) = padding_of (length (fst b))"

text \<open>The headers of the request: its parameters, and the last record of input as the query.\<close>

definition query_of :: "(bytes \<times> bytes) list \<Rightarrow> string \<rightharpoonup> string" where
  "query_of bodies = (if bodies = [] then Map.empty else [''QUERY_STRING'' \<mapsto> cstring (string_of_bytes (fst (last bodies)))])"

definition request_headers :: "((string \<times> string) list \<times> bytes) list \<Rightarrow> (bytes \<times> bytes) list \<Rightarrow> string \<rightharpoonup> string" where
  "request_headers pss bodies = map_of (rev (concat (map fst pss))) ++ query_of bodies"

lemma query_of_simps: "query_of [] = Map.empty"
  "h(''QUERY_STRING'' \<mapsto> cstring (string_of_bytes body)) ++ query_of bodies = h ++ query_of ((body, pad) # bodies)"
  by (auto simp: query_of_def map_add_def fun_eq_iff)

lemma params_received:
  assumes "ss_readQueue (cs_server cs) = record_messages s i (params_records pss) @ q" and "cs_requests cs i = Some r" and "cr_socket r = s"
    and "s \<noteq> -1" and "unat i < 65536" and "list_all params_fit pss"
  shows "cgi_receive_loop unescape cs = cgi_receive_loop unescape (cs\<lparr>cs_server := cs_server cs\<lparr>ss_readQueue := q\<rparr>,
    cs_requests := (cs_requests cs)(i \<mapsto> r\<lparr>cr_input_headers := cr_input_headers r ++ map_of (rev (concat (map fst pss)))\<rparr>)\<rparr>)"
  using assms
proof (induction pss arbitrary: cs r)
  case Nil
  then have "ss_readQueue (cs_server cs) = q" by (simp add: record_messages_def params_records_def)
  moreover have "(cs_requests cs)(i \<mapsto> r\<lparr>cr_input_headers := cr_input_headers r ++ Map.empty\<rparr>) = cs_requests cs"
    using Nil(2) by (intro fun_upd_idem) simp
  ultimately have "cs\<lparr>cs_server := cs_server cs\<lparr>ss_readQueue := q\<rparr>,
      cs_requests := (cs_requests cs)(i \<mapsto> r\<lparr>cr_input_headers := cr_input_headers r ++ Map.empty\<rparr>)\<rparr> = cs" by simp
  then show ?case by (simp only: map_of.simps rev.simps concat.simps list.map)
next
  case (Cons p pss)
  obtain ps pad where p: "p = (ps, pad)" by (cases p)
  let ?b = "concat (map encode_param ps)" and ?q = "record_messages s i (params_records pss) @ q"
  let ?r = "r\<lparr>cr_input_headers := cr_input_headers r ++ map_of (rev ps)\<rparr>"
  let ?cs = "cs\<lparr>cs_server := cs_server cs\<lparr>ss_readQueue := ?q\<rparr>, cs_requests := (cs_requests cs)(i \<mapsto> ?r)\<rparr>"
  have fit: "ps \<noteq> []" "list_all param_ok ps" "\<forall>(k, v) \<in> set ps. CHR 0x00 \<notin> set k \<and> CHR 0x00 \<notin> set v"
    "length ?b < 65536" "length pad = padding_of (length ?b)" using Cons.prems(6) by (simp_all add: p params_fit_def)
  have "readParams (answer_header 4 i (length ?b)) (?b @ pad) r = Inr (True, ?r)"
    using params_accepted [OF fit(1-3), of "answer_header 4 i (length ?b)" pad r] fit(5) by (simp only: answer_header_padding)
  then have "cgi_receive_loop unescape cs = cgi_receive_loop unescape ?cs"
    using Cons.prems fit
    by (intro receive_loop_record [where i = i and q = ?q and ty = 4 and pad = pad and body = ?b and r = r and r' = ?r])
      (simp_all add: p record_messages_def params_records_def cgi_dispatch_def answer_header_fields)
  also have "\<dots> = cgi_receive_loop unescape (?cs\<lparr>cs_server := cs_server ?cs\<lparr>ss_readQueue := q\<rparr>,
      cs_requests := (cs_requests ?cs)(i \<mapsto> ?r\<lparr>cr_input_headers := cr_input_headers ?r ++ map_of (rev (concat (map fst pss)))\<rparr>)\<rparr>)"
    using Cons.prems by (intro Cons.IH) simp_all
  also have "\<dots> = cgi_receive_loop unescape (cs\<lparr>cs_server := cs_server cs\<lparr>ss_readQueue := q\<rparr>,
      cs_requests := (cs_requests cs)(i \<mapsto> r\<lparr>cr_input_headers := cr_input_headers r ++ map_of (rev (concat (map fst (p # pss))))\<rparr>)\<rparr>)"
    by (rule arg_cong [where f = "cgi_receive_loop unescape"], cases cs, cases "cs_server cs") (simp add: p fun_eq_iff)
  finally show ?case .
qed

lemma stdin_received:
  assumes "ss_readQueue (cs_server cs) = record_messages s i (stdin_records bodies) @ q" and "cs_requests cs i = Some r" and "cr_socket r = s"
    and "s \<noteq> -1" and "unat i < 65536" and "list_all body_fits bodies"
  shows "cgi_receive_loop unescape cs = cgi_receive_loop unescape (cs\<lparr>cs_server := cs_server cs\<lparr>ss_readQueue := q\<rparr>,
    cs_requests := (cs_requests cs)(i \<mapsto> r\<lparr>cr_input_headers := cr_input_headers r ++ query_of bodies\<rparr>)\<rparr>)"
  using assms
proof (induction bodies arbitrary: cs r)
  case Nil
  then have "ss_readQueue (cs_server cs) = q" by (simp add: record_messages_def stdin_records_def)
  moreover have "(cs_requests cs)(i \<mapsto> r\<lparr>cr_input_headers := cr_input_headers r ++ Map.empty\<rparr>) = cs_requests cs"
    using Nil(2) by (intro fun_upd_idem) simp
  ultimately have "cs\<lparr>cs_server := cs_server cs\<lparr>ss_readQueue := q\<rparr>,
      cs_requests := (cs_requests cs)(i \<mapsto> r\<lparr>cr_input_headers := cr_input_headers r ++ Map.empty\<rparr>)\<rparr> = cs" by simp
  then show ?case by (simp only: query_of_simps)
next
  case (Cons b bodies)
  obtain body pad where b: "b = (body, pad)" by (cases b)
  let ?q = "record_messages s i (stdin_records bodies) @ q"
  let ?r = "r\<lparr>cr_input_headers := (cr_input_headers r)(''QUERY_STRING'' \<mapsto> cstring (string_of_bytes body))\<rparr>"
  let ?cs = "cs\<lparr>cs_server := cs_server cs\<lparr>ss_readQueue := ?q\<rparr>, cs_requests := (cs_requests cs)(i \<mapsto> ?r)\<rparr>"
  have fit: "body \<noteq> []" "length body < 65536" "length pad = padding_of (length body)" using Cons.prems(6) by (simp_all add: b body_fits_def)
  have "cstring ''QUERY_STRING'' = ''QUERY_STRING''" by (simp add: cstring_def)
  then have "readStdin unescape (answer_header 5 i (length body)) (body @ pad) r = Inr (True, ?r)"
    using fit by (simp add: readStdin_def answer_header_fields addInputHeader_def)
  then have "cgi_receive_loop unescape cs = cgi_receive_loop unescape ?cs"
    using Cons.prems fit
    by (intro receive_loop_record [where i = i and q = ?q and ty = 5 and pad = pad and body = body and r = r and r' = ?r])
      (simp_all add: b record_messages_def stdin_records_def cgi_dispatch_def answer_header_fields)
  also have "\<dots> = cgi_receive_loop unescape (?cs\<lparr>cs_server := cs_server ?cs\<lparr>ss_readQueue := q\<rparr>,
      cs_requests := (cs_requests ?cs)(i \<mapsto> ?r\<lparr>cr_input_headers := cr_input_headers ?r ++ query_of bodies\<rparr>)\<rparr>)"
    using Cons.prems by (intro Cons.IH) simp_all
  also have "\<dots> = cgi_receive_loop unescape (cs\<lparr>cs_server := cs_server cs\<lparr>ss_readQueue := q\<rparr>,
      cs_requests := (cs_requests cs)(i \<mapsto> r\<lparr>cr_input_headers := cr_input_headers r ++ query_of (b # bodies)\<rparr>)\<rparr>)"
    using query_of_simps(2) [of "cr_input_headers r" body bodies pad]
    by (intro arg_cong [where f = "cgi_receive_loop unescape"], cases cs, cases "cs_server cs") (simp add: b fun_eq_iff)
  finally show ?case .
qed

text \<open>The passes over the input leave the marks of the request alone.\<close>

lemma cookie_fields_flags:
  "cr_params_done (snd (cookie_fields ss r)) = cr_params_done r \<and> cr_stdin_done (snd (cookie_fields ss r)) = cr_stdin_done r"
  by (induction ss r rule: cookie_fields.induct) (auto simp: Let_def addInputCookie_def)

lemma variable_fields_flags:
  "cr_params_done (snd (variable_fields ss r)) = cr_params_done r \<and> cr_stdin_done (snd (variable_fields ss r)) = cr_stdin_done r"
  by (induction ss r rule: variable_fields.induct) (auto simp: Let_def addInputVariable_def)

lemma receiveStdinDone_flags:
  "cr_params_done (receiveStdinDone unescape r) = cr_params_done r" "cr_stdin_done (receiveStdinDone unescape r)"
  by (auto simp: receiveStdinDone_def and_then_def read_query_def read_url_def read_method_def read_cookies_def Let_def
      cookie_fields_flags variable_fields_flags split: option.splits prod.splits)

definition request_complete :: "cgi_request \<Rightarrow> bool" where
  "request_complete r \<longleftrightarrow> cr_params_done r \<and> cr_stdin_done r"

text \<open>The request after all its records.\<close>

definition received_request :: "(string \<Rightarrow> string option) \<Rightarrow> SOCKET \<Rightarrow> u32 \<Rightarrow> u8 \<Rightarrow> (string \<rightharpoonup> string) \<Rightarrow> cgi_request" where
  "received_request unescape s i flags headers =
     receiveStdinDone unescape ((cgi_request_new i s)
       \<lparr>cr_role := 1, cr_keepalive := (flags AND 1 \<noteq> 0), cr_params_done := True, cr_input_headers := headers\<rparr>)"

lemma request_received:
  assumes q: "ss_readQueue (cs_server cs) = request_messages s i flags pss bodies" and new: "cs_requests cs i = None"
    and s: "s \<noteq> -1" and i: "unat i < 65536" and fit: "list_all params_fit pss" "list_all body_fits bodies"
  shows "cgi_receive_loop unescape cs = Inr (cs\<lparr>cs_server := cs_server cs\<lparr>ss_readQueue := []\<rparr>,
    cs_requests := (cs_requests cs)(i \<mapsto> received_request unescape s i flags (request_headers pss bodies))\<rparr>)"
proof -
  let ?cs = "\<lambda>q r. cs\<lparr>cs_server := cs_server cs\<lparr>ss_readQueue := q\<rparr>, cs_requests := (cs_requests cs)(i \<mapsto> r)\<rparr>"
  let ?h = "map_of (rev (concat (map fst pss)))"
  let ?r0 = "(cgi_request_new i s)\<lparr>cr_role := 1, cr_keepalive := (flags AND 1 \<noteq> 0)\<rparr>"
  let ?r1 = "?r0\<lparr>cr_input_headers := ?h\<rparr>"
  let ?r2 = "?r1\<lparr>cr_params_done := True\<rparr>" and ?r3 = "?r0\<lparr>cr_params_done := True, cr_input_headers := request_headers pss bodies\<rparr>"
  let ?q4 = "record_messages s i [(FASTCGI_STDIN, [], [])]"
  let ?q3 = "record_messages s i (stdin_records bodies) @ ?q4"
  let ?q2 = "record_messages s i [(FASTCGI_PARAMS, [], [])] @ ?q3"
  let ?q1 = "record_messages s i (params_records pss) @ ?q2"
  let ?b = "[0, 1, flags, 0, 0, 0, 0, 0] :: bytes"
  have fields: "cr_socket (cgi_request_new i s) = s" "cr_input_headers (cgi_request_new i s) = Map.empty"
    by (simp_all add: cgi_request_new_def addHeader_def)
  note defs = record_messages_def cgi_dispatch_def answer_header_fields fields padding_of_def
  have "cgi_receive_loop unescape cs = cgi_receive_loop unescape (?cs ?q1 ?r0)"
    using q new s i
    by (intro receive_loop_record [where i = i and q = ?q1 and ty = 1 and pad = "[]" and body = ?b and r' = ?r0])
      (simp_all add: defs request_messages_def beginRequest_def high_low_def)
  also have "\<dots> = cgi_receive_loop unescape (?cs ?q2 ?r1)"
    using params_received [of "?cs ?q1 ?r0" s i pss ?q2 ?r0 unescape] s i fit by (simp add: fields)
  also have "\<dots> = cgi_receive_loop unescape (?cs ?q3 ?r2)"
    using s i by (intro receive_loop_record [where i = i and q = ?q3 and ty = 4 and pad = "[]" and body = "[]" and r' = ?r2])
      (simp_all add: defs readParams_def receiveParamsDone_def)
  also have "\<dots> = cgi_receive_loop unescape (?cs ?q4 ?r3)"
    using stdin_received [of "?cs ?q3 ?r2" s i bodies ?q4 ?r2 unescape] s i fit by (simp add: fields request_headers_def)
  also have "\<dots> = cgi_receive_loop unescape (?cs [] (receiveStdinDone unescape ?r3))"
    using s i by (intro receive_loop_record [where i = i and q = "[]" and ty = 5 and pad = "[]" and body = "[]"
          and r' = "receiveStdinDone unescape ?r3"]) (simp_all add: defs readStdin_def)
  also have "\<dots> = Inr (?cs [] (receiveStdinDone unescape ?r3))"
    by (subst cgi_receive_loop.simps) (simp add: ss_receiveMessage_def)
  finally show ?thesis by (simp add: received_request_def)
qed

text \<open>
  C15: a request that arrives completely is handed out, once. Let the records of a request that
  the server does not know yet wait in the queue, and nothing else: its begin, any number of records with
  parameters, each of whole name-value pairs and less than 64 kB, the end of the parameters, any
  number of records with input of less than 64 kB, and the end of the input. Other requests may be
  pending; none that the container lists before this one is complete. Then the next \<open>getRequest\<close>
  processes all records and returns the request, its headers being the parameters of all records
  and the last record of input as its query, processed by \<open>receiveStdinDone\<close>; the server forgets it
  and keeps the other requests as they are.
\<close>

theorem cgi_request_completed:
  assumes "ss_readQueue (cs_server cs) = request_messages s i flags pss bodies" and "cs_requests cs i = None"
    and "s \<noteq> -1" and "unat i < 65536" and "list_all params_fit pss" and "list_all body_fits bodies"
    and "order = before @ i # after" and "i \<notin> set before" and "\<forall>j \<in> set before. \<forall>r. cs_requests cs j = Some r \<longrightarrow> \<not> request_complete r"
  shows "getRequest unescape order cs =
    Inr (Some (received_request unescape s i flags (request_headers pss bodies)), cs\<lparr>cs_server := cs_server cs\<lparr>ss_readQueue := []\<rparr>\<rparr>)"
proof -
  let ?r = "received_request unescape s i flags (request_headers pss bodies)"
  have fin: "request_complete ?r" by (simp add: request_complete_def received_request_def receiveStdinDone_flags)
  have "filter (\<lambda>j. case ((cs_requests cs)(i \<mapsto> ?r)) j of None \<Rightarrow> False | Some r \<Rightarrow> cr_params_done r \<and> cr_stdin_done r) before = []"
    using assms(8,9) by (auto simp: filter_empty_conv request_complete_def split: option.splits)
  moreover have "(cs_requests cs)(i := None) = cs_requests cs" using assms(2) by (simp add: fun_upd_idem)
  ultimately show ?thesis
    using request_received [OF assms(1-6), of unescape] fin assms(7)
    by (simp add: getRequest_def getCompleteRequest_def request_complete_def Let_def)
qed

theorem cgi_request_completed_witness:
  "\<exists>r cs'. getRequest (\<lambda>u. Some u) [2, 1] (demo_cgi\<lparr>cs_requests := [2 \<mapsto> cgi_request_new 2 8], cs_server := demo_server
       \<lparr>ss_readQueue := request_messages 7 1 1 [([(''A'', ''xy'')], [0, 0, 0]), ([(''B'', ''z'')], [0, 0, 0, 0])] [([97, 61, 49], [0, 0, 0, 0, 0])]\<rparr>\<rparr>) =
     Inr (Some r, cs') \<and> cr_input_headers r = [''A'' \<mapsto> ''xy'', ''B'' \<mapsto> ''z'', ''QUERY_STRING'' \<mapsto> ''a=1''] \<and>
     cs_requests cs' = [2 \<mapsto> cgi_request_new 2 8]"
proof -
  let ?pss = "[([(''A'', ''xy'')], [0, 0, 0]), ([(''B'', ''z'')], [0, 0, 0, 0])] :: ((string \<times> string) list \<times> bytes) list"
  let ?bs = "[([97, 61, 49], [0, 0, 0, 0, 0])] :: (bytes \<times> bytes) list"
  let ?cs = "demo_cgi\<lparr>cs_requests := [2 \<mapsto> cgi_request_new 2 8], cs_server := demo_server\<lparr>ss_readQueue := request_messages 7 1 1 ?pss ?bs\<rparr>\<rparr>"
  have "\<not> request_complete (cgi_request_new 2 8)" by (simp add: request_complete_def cgi_request_new_def addHeader_def)
  then have "getRequest (\<lambda>u. Some u) [2, 1] ?cs = Inr (Some (received_request (\<lambda>u. Some u) 7 1 1 (request_headers ?pss ?bs)),
      ?cs\<lparr>cs_server := cs_server ?cs\<lparr>ss_readQueue := []\<rparr>\<rparr>)"
    by (intro cgi_request_completed [where before = "[2]" and after = "[]"])
      (simp_all add: params_fit_def body_fits_def param_ok_def encode_param_def encode_length_def padding_of_def)
  moreover have "string_of_bytes [97, 61, 49] = ''a=1''" by code_simp
  then have "request_headers ?pss ?bs = [''A'' \<mapsto> ''xy'', ''B'' \<mapsto> ''z'', ''QUERY_STRING'' \<mapsto> ''a=1'']"
    by (simp add: request_headers_def query_of_def cstring_def fun_eq_iff)
  moreover have "cr_input_headers (received_request (\<lambda>u. Some u) 7 1 1 h) = h" if "h ''HTTP_COOKIE'' = None" for h
    using that by (simp add: received_request_def receiveStdinDone_def and_then_def read_cookies_def)
  ultimately show ?thesis by simp
qed

text \<open>
  a request without cookies is handed out empty. When no \<open>HTTP_COOKIE\<close> header was sent,
  the end of the input sets nothing but its mark: the address, the method and the variables
  keep their initial values although their headers are there.
\<close>

theorem cgi_no_cookie_no_url:
  assumes "cr_input_headers r ''HTTP_COOKIE'' = None"
  shows "receiveStdinDone unescape r = r\<lparr>cr_stdin_done := True\<rparr>"
  using assms by (simp add: receiveStdinDone_def and_then_def read_cookies_def)

theorem cgi_no_cookie_no_url_witness:
  "receiveStdinDone (\<lambda>u. Some u) ((cgi_request_new 1 7)\<lparr>cr_input_headers := [''SCRIPT_NAME'' \<mapsto> ''/a'']\<rparr>) =
     (cgi_request_new 1 7)\<lparr>cr_input_headers := [''SCRIPT_NAME'' \<mapsto> ''/a''], cr_stdin_done := True\<rparr>"
  using cgi_no_cookie_no_url [of "(cgi_request_new 1 7)\<lparr>cr_input_headers := [''SCRIPT_NAME'' \<mapsto> ''/a'']\<rparr>" "\<lambda>u. Some u"] by simp

text \<open>
  two connections that use the same request identifier, as web servers do, abort the
  program: a record for an identifier that is open on another connection fails an assertion.
\<close>

theorem cgi_shared_identifier_aborts:
  assumes "cs_requests cs i = Some r" and "cr_socket r \<noteq> s"
    and "length body < 65536" and "length pad = padding_of (length body)" and "unat i < 65536" and "unat ty < 12"
  shows "cgi_parsePackage unescape s (fcgi_record ty i body pad) cs = Inl AssertFailed"
  using assms(1,2) by (simp add: parsePackage_record [OF assms(3-6)])

theorem cgi_shared_identifier_aborts_witness:
  "cgi_parsePackage (\<lambda>u. Some u) 8 (fcgi_record FASTCGI_BEGIN_REQUEST 1 [0, 1, 0, 0, 0, 0, 0, 0] [])
     (demo_cgi\<lparr>cs_requests := [1 \<mapsto> cgi_request_new 1 7]\<rparr>) = Inl AssertFailed"
  using cgi_shared_identifier_aborts [of "demo_cgi\<lparr>cs_requests := [1 \<mapsto> cgi_request_new 1 7]\<rparr>" 1 "cgi_request_new 1 7" 8
      "[0, 1, 0, 0, 0, 0, 0, 0]" "[]" 1 "\<lambda>u. Some u"]
  by (simp add: padding_of_def cgi_request_new_def addHeader_def)

text \<open>
  a record whose type is between 12 and 95 makes the server read beyond its table of type
  names, whatever else the record holds.
\<close>

theorem cgi_unknown_type_overrun:
  assumes "length body < 65536" and "length pad = padding_of (length body)" and "12 \<le> unat ty" and "unat ty < 96"
  shows "cgi_parsePackage unescape s (fcgi_record ty i body pad) cs = Inl HeapOverrun"
proof -
  have "length (fcgi_record ty i body pad) = unat (fh_package_length (answer_header ty i (length body)))"
    using assms(1,2) by (simp add: length_record unat_package_length answer_header_fields answer_header_padding)
  moreover have "fh_read (fcgi_record ty i body pad) = answer_header ty i (length body)" by (simp add: fcgi_record_def)
  moreover have "requestString (fh_type (answer_header ty i (length body))) = Inl HeapOverrun"
    using assms(3,4) by (simp add: requestString_def type_names_def answer_header_fields)
  moreover have "sizeof_fastcgi_header \<le> length (fcgi_record ty i body pad)"
    by (simp add: length_record sizeof_fastcgi_header_def)
  ultimately show ?thesis unfolding cgi_parsePackage_def Let_def by (simp only: assertE_simps bindE.simps simp_thms)
qed

theorem cgi_unknown_type_overrun_witness:
  "cgi_parsePackage (\<lambda>u. Some u) 8 (fcgi_record 20 1 [] []) demo_cgi = Inl HeapOverrun"
  using cgi_unknown_type_overrun [of "[]" "[]" 20] by (simp add: padding_of_def)

lemma deleteRequest_keeps: "deleteRequest i cs = Inr cs' \<Longrightarrow> cs_requests cs' = cs_requests cs \<and> cs_deleted cs' = cs_deleted cs"
  by (auto simp: deleteRequest_def fault_simps split: option.splits if_splits)

lemma deleteRequests_keep:
  "foldE deleteRequest order cs = Inr cs' \<Longrightarrow> cs_requests cs' = cs_requests cs \<and> cs_deleted cs' = cs_deleted cs"
proof (induction order arbitrary: cs)
  case (Cons i order)
  then show ?case by (auto simp: fault_simps dest!: deleteRequest_keeps)
qed simp

lemma deleteRequests_deleted:
  "cs_deleted cs \<Longrightarrow> foldE deleteRequest order cs =
     (if \<exists>i \<in> set order. cs_requests cs i \<noteq> None then Inl UseAfterFree else Inr cs)"
  by (induction order) (auto simp: deleteRequest_def split: option.splits)

text \<open>
  stopping a server with open requests and then destroying it deletes these requests
  twice: after one stop, another one uses a deleted request exactly when one was left.
\<close>

theorem cgi_stop_twice:
  assumes "cgi_stop order cs k = Inr (cs1, k1)" and "set order = dom (cs_requests cs)"
  shows "cgi_stop order cs1 k1 = (if cs_requests cs = Map.empty then Inr (cs1, k1) else Inl UseAfterFree)"
proof -
  from assms(1) obtain cs0 where f: "foldE deleteRequest order cs = Inr cs0"
    and d: "(if cs_deleted cs0 then Inr (cs0, k)
       else bindE (ss_stopServer (cs_server cs0) k) (\<lambda>(ss, k1). Inr (cs0\<lparr>cs_server := ss, cs_deleted := True\<rparr>, k1))) = Inr (cs1, k1)"
    by (auto simp: cgi_stop_def fault_simps)
  have "cs_deleted cs1 \<and> cs_requests cs1 = cs_requests cs0" using d by (cases "cs_deleted cs0") (auto simp: fault_simps)
  then have "cs_deleted cs1" "cs_requests cs1 = cs_requests cs" using deleteRequests_keep [OF f] by simp_all
  then show ?thesis using assms(2) by (auto simp: cgi_stop_def deleteRequests_deleted)
qed

lemma stop_told_worker:
  "wp_stopWorker (wp_new\<lparr>wp_sendQueue := [allocateMessage 7 SM_OPCODE_CLOSE]\<rparr>) k = Inr (wp_new\<lparr>wp_stop := True\<rparr>, k)"
proof -
  let ?w = "wp_new\<lparr>wp_sendQueue := [allocateMessage 7 SM_OPCODE_CLOSE]\<rparr>"
  have "wp_delete_loop ss (?w\<lparr>wp_stop := True\<rparr>) k = Inr (?w\<lparr>wp_stop := True\<rparr>, k)" for ss
    by (induction ss) (simp_all add: wp_new_def)
  then show ?thesis by (simp add: wp_stopWorker_def) (simp add: wp_new_def allocateMessage_def)
qed

theorem cgi_stop_twice_witness:
  "\<exists>cs1 k1. cgi_stop [1] (demo_cgi\<lparr>cs_requests := [1 \<mapsto> cgi_request_new 1 7]\<rparr>) kern0 = Inr (cs1, k1) \<and>
     cgi_stop [1] cs1 k1 = Inl UseAfterFree"
proof -
  let ?cs = "demo_cgi\<lparr>cs_requests := [1 \<mapsto> cgi_request_new 1 7]\<rparr>"
  have r: "cr_socket (cgi_request_new 1 7) = 7" by (simp add: cgi_request_new_def addHeader_def)
  have push: "wp_closeSocket 7 wp_new = wp_new\<lparr>wp_sendQueue := [allocateMessage 7 SM_OPCODE_CLOSE]\<rparr>"
    by (simp add: wp_closeSocket_def wp_push_def wp_new_def)
  have two: "7 mod Suc (Suc 0) = Suc 0" by (simp flip: numeral_2_eq_2)
  have rel: "releaseMessage (allocateMessage s opc) = Inr ()" for s opc by (simp add: releaseMessage_def allocateMessage_def)
  have "\<exists>cs1 k1. cgi_stop [1] ?cs kern0 = Inr (cs1, k1)"
    by (simp add: cgi_stop_def deleteRequest_def r demo_cgi_def ss_close_def ss_getWorkerProcess_def on_worker_def
        two push ss_stopServer_def stop_fresh_worker stop_told_worker rel)
  then show ?thesis using cgi_stop_twice [of "[1]" ?cs kern0] by (auto split: if_splits)
qed

end
