(* ===== verification/Record_Protocol.thy ===== *)
theory Record_Protocol
  imports Net_Service Tools_Text
begin

text \<open>
  \<^verbatim>\<open>protocol/recordserver.h\<close> and \<^verbatim>\<open>src/recordclient/RecordClient.cpp\<close>: the packed messages between
  a record client and the record server, how the client writes them and calls back for the
  answers. A message is its bytes; a field is read at its offset, and reading beyond the message
  is a fault. A callback is a number, or \<open>None\<close> for an empty function object.
\<close>

section \<open>Messages\<close>

abbreviation (input) ObjectSerializeRequest :: u16 where "ObjectSerializeRequest \<equiv> 0x101"
abbreviation (input) ObjectSerializeResponse :: u16 where "ObjectSerializeResponse \<equiv> 0x102"
abbreviation (input) ObjectUnserializeRequest :: u16 where "ObjectUnserializeRequest \<equiv> 0x103"
abbreviation (input) ObjectUnserializeResponse :: u16 where "ObjectUnserializeResponse \<equiv> 0x104"
abbreviation (input) ObjectDeleteRequest :: u16 where "ObjectDeleteRequest \<equiv> 0x105"
abbreviation (input) ObjectDeleteResponse :: u16 where "ObjectDeleteResponse \<equiv> 0x106"
abbreviation (input) ObjectSelectRequest :: u16 where "ObjectSelectRequest \<equiv> 0x107"
abbreviation (input) ObjectAlterRequest :: u16 where "ObjectAlterRequest \<equiv> 0x109"
abbreviation (input) ObjectAlterResponse :: u16 where "ObjectAlterResponse \<equiv> 0x10a"

abbreviation (input) RECORD_OK :: u32 where "RECORD_OK \<equiv> 0"
abbreviation (input) RECORD_ILLEGAL_JSON_STRING :: u32 where "RECORD_ILLEGAL_JSON_STRING \<equiv> 100"
abbreviation (input) RECORD_NOT_FOUND_OBJECT :: u32 where "RECORD_NOT_FOUND_OBJECT \<equiv> 101"
abbreviation (input) RECORD_ILLEGAL_OBJECT :: u32 where "RECORD_ILLEGAL_OBJECT \<equiv> 102"
abbreviation (input) RECORD_SERIALIZE_ERROR :: u32 where "RECORD_SERIALIZE_ERROR \<equiv> 103"
abbreviation (input) RECORD_DELETE_ERROR :: u32 where "RECORD_DELETE_ERROR \<equiv> 104"

text \<open>\<^verbatim>\<open>strncpy\<close> into sixteen bytes: no terminator when the text has sixteen characters or more.\<close>

definition strncpy16 :: "bytes \<Rightarrow> bytes" where
  "strncpy16 src = (let s = take 16 (takeWhile (\<lambda>b. b \<noteq> 0) src) in s @ replicate (16 - length s) 0)"

definition record_message :: "u16 \<Rightarrow> u32 \<Rightarrow> bytes \<Rightarrow> u64 \<Rightarrow> bytes \<Rightarrow> bytes" where
  "record_message ident shard table16 objectid rest =
     net_encode (ucast ident) (le_bytes shard @ table16 @ le_bytes objectid @ rest)"

definition word_at :: "bytes \<Rightarrow> nat \<Rightarrow> 'a::len word res" where
  "word_at m off =
     (if off + LENGTH('a) div 8 \<le> length m then Inr (le_word (take (LENGTH('a) div 8) (drop off m))) else Inl HeapOverrun)"

definition rm_ident :: "bytes \<Rightarrow> u16 res" where "rm_ident m = word_at m 4"
definition rm_shard :: "bytes \<Rightarrow> u32 res" where "rm_shard m = word_at m 12"
definition rm_objectid :: "bytes \<Rightarrow> u64 res" where "rm_objectid m = word_at m 32"

text \<open>The table as a C string: it ends at the first NUL from its position on, wherever that is.\<close>

definition rm_table :: "bytes \<Rightarrow> string res" where
  "rm_table m = (if 0 \<in> set (drop 16 m) then Inr (string_of_bytes (takeWhile (\<lambda>b. b \<noteq> 0) (drop 16 m))) else Inl HeapOverrun)"

definition rm_datalen :: "nat \<Rightarrow> bytes \<Rightarrow> u32 res" where "rm_datalen off m = word_at m off"

definition rm_data :: "nat \<Rightarrow> bytes \<Rightarrow> bytes res" where
  "rm_data off m =
     bindE (rm_datalen off m) (\<lambda>n.
       if off + 4 + unat n \<le> length m then Inr (take (unat n) (drop (off + 4) m)) else Inl HeapOverrun)"

text \<open>\<^verbatim>\<open>size()\<close> of the messages: requests with data, requests without, answers, the answer with data.\<close>

definition size_with_data :: "bytes \<Rightarrow> nat res" where
  "size_with_data m = bindE (rm_datalen 40 m) (\<lambda>n. Inr (44 + unat n))"

definition size_plain :: nat where "size_plain = 40"
definition size_answer :: nat where "size_answer = 44"

definition size_unserialize_answer :: "bytes \<Rightarrow> nat res" where
  "size_unserialize_answer m = bindE (rm_datalen 44 m) (\<lambda>n. Inr (48 + unat n))"

section \<open>Client\<close>

record recordclient =
  rc_net :: netclient
  rc_serializeCallbacks :: "nat option list"
  rc_unserializeCallbacks :: "nat option list"
  rc_alterCallbacks :: "nat option list"

text \<open>The length field is also the number of bytes that are sent.\<close>

definition rc_send :: "bytes \<Rightarrow> recordclient \<Rightarrow> recordclient res" where
  "rc_send m rc = bindE (nc_sendPayload (take (unat (netmsg_len m)) m) (rc_net rc)) (\<lambda>nc. Inr (rc\<lparr>rc_net := nc\<rparr>))"

definition serialize_request :: "u16 \<Rightarrow> u32 \<Rightarrow> string \<Rightarrow> u64 \<Rightarrow> string \<Rightarrow> bytes" where
  "serialize_request ident shard table objectid js =
     record_message ident shard (strncpy16 (bytes_of_string table)) objectid
       (le_bytes (of_nat (length js) :: u32) @ bytes_of_string js)"

definition unserialize_request :: "u32 \<Rightarrow> string \<Rightarrow> u64 \<Rightarrow> bytes" where
  "unserialize_request shard table objectid =
     record_message ObjectUnserializeRequest shard (strncpy16 (bytes_of_string table)) objectid []"

definition rc_serialize :: "u32 \<Rightarrow> string \<Rightarrow> u64 \<Rightarrow> string \<Rightarrow> nat option \<Rightarrow> recordclient \<Rightarrow> recordclient res" where
  "rc_serialize shard table objectid js func rc =
     bindE (rc_send (serialize_request ObjectSerializeRequest shard table objectid js) rc) (\<lambda>rc1.
       Inr (rc1\<lparr>rc_serializeCallbacks := rc_serializeCallbacks rc1 @ [func]\<rparr>))"

definition rc_unserialize :: "u32 \<Rightarrow> string \<Rightarrow> u64 \<Rightarrow> nat option \<Rightarrow> recordclient \<Rightarrow> recordclient res" where
  "rc_unserialize shard table objectid func rc =
     bindE (rc_send (unserialize_request shard table objectid) rc) (\<lambda>rc1.
       Inr (rc1\<lparr>rc_unserializeCallbacks := rc_unserializeCallbacks rc1 @ [func]\<rparr>))"

definition key_request :: "string \<Rightarrow> string \<Rightarrow> string" where
  "key_request field_name option = ''{'' @ [CHR 0x22] @ field_name @ [CHR 0x22] @ '':'' @ [CHR 0x22] @ option @ [CHR 0x22] @ ''}''"

definition rc_addKey :: "u32 \<Rightarrow> string \<Rightarrow> u64 \<Rightarrow> string \<Rightarrow> nat option \<Rightarrow> recordclient \<Rightarrow> recordclient res" where
  "rc_addKey shard table objectid field_name func rc =
     bindE (rc_send (serialize_request ObjectAlterRequest shard table objectid (key_request field_name ''ADD_KEY'')) rc) (\<lambda>rc1.
       Inr (rc1\<lparr>rc_alterCallbacks := rc_alterCallbacks rc1 @ [func]\<rparr>))"

definition rc_removeKey :: "u32 \<Rightarrow> string \<Rightarrow> u64 \<Rightarrow> string \<Rightarrow> nat option \<Rightarrow> recordclient \<Rightarrow> recordclient res" where
  "rc_removeKey shard table objectid field_name func rc =
     bindE (rc_send (serialize_request ObjectAlterRequest shard table objectid (key_request field_name ''DROP_KEY'')) rc) (\<lambda>rc1.
       Inr (rc1\<lparr>rc_alterCallbacks := rc_alterCallbacks rc1 @ [func]\<rparr>))"

text \<open>A call of a callback, with the arguments it gets; the data only for an object that was read.\<close>

record rc_call =
  call_func :: nat
  call_shard :: u32
  call_table :: string
  call_objectid :: u64
  call_retval :: u32
  call_data :: "bytes option"

definition answer_call :: "nat option \<Rightarrow> bytes \<Rightarrow> bytes option \<Rightarrow> rc_call list res" where
  "answer_call func m data =
     (case func of
        None \<Rightarrow> Inr []
      | Some f \<Rightarrow>
          bindE (rm_shard m) (\<lambda>shard. bindE (rm_table m) (\<lambda>table. bindE (rm_objectid m) (\<lambda>objectid.
          bindE (word_at m 40) (\<lambda>retval.
            Inr [\<lparr>call_func = f, call_shard = shard, call_table = table, call_objectid = objectid,
                   call_retval = retval, call_data = data\<rparr>])))))"

text \<open>\<^verbatim>\<open>msgParser\<close>: the calls it makes, and whether the message was acceptable.\<close>

definition rc_msgParser :: "bytes \<Rightarrow> recordclient \<Rightarrow> (bool \<times> rc_call list \<times> recordclient) res" where
  "rc_msgParser m rc =
     bindE (rm_ident m) (\<lambda>ident.
       if ident = ObjectSerializeResponse then
         (case rc_serializeCallbacks rc of
            [] \<Rightarrow> Inr (True, [], rc)
          | func # fs \<Rightarrow>
              if unat (netmsg_len m) \<noteq> size_answer then Inr (False, [], rc)
              else bindE (answer_call func m None) (\<lambda>calls. Inr (True, calls, rc\<lparr>rc_serializeCallbacks := fs\<rparr>)))
       else if ident = ObjectUnserializeResponse then
         (case rc_unserializeCallbacks rc of
            [] \<Rightarrow> Inr (True, [], rc)
          | func # fs \<Rightarrow>
              bindE (size_unserialize_answer m) (\<lambda>n.
              if unat (netmsg_len m) \<noteq> n then Inr (False, [], rc)
              else bindE (rm_data 44 m) (\<lambda>data. bindE (answer_call func m (Some data)) (\<lambda>calls.
                     Inr (True, calls, rc\<lparr>rc_unserializeCallbacks := fs\<rparr>)))))
       else if ident = ObjectAlterResponse then
         (case rc_alterCallbacks rc of
            [] \<Rightarrow> Inr (True, [], rc)
          | func # fs \<Rightarrow>
              if unat (netmsg_len m) \<noteq> size_answer then Inr (False, [], rc)
              else bindE (answer_call func m None) (\<lambda>calls. Inr (True, calls, rc\<lparr>rc_alterCallbacks := fs\<rparr>)))
       else Inr (False, [], rc))"

text \<open>The parser that the client gives to the network client: a message it does not accept stops the client.\<close>

definition rc_onMessage :: "bytes \<Rightarrow> recordclient \<Rightarrow> kern \<Rightarrow> (rc_call list \<times> recordclient \<times> kern) res" where
  "rc_onMessage m rc k =
     bindE (rc_msgParser m rc) (\<lambda>(ok, calls, rc1).
       if ok then Inr (calls, rc1, k)
       else bindE (nc_stopClient (rc_net rc1) k) (\<lambda>(nc, k1). Inr (calls, rc1\<lparr>rc_net := nc\<rparr>, k1)))"

section \<open>Reading what was written\<close>

lemma length_strncpy16 [simp]: "length (strncpy16 src) = 16"
  by (simp add: strncpy16_def Let_def)

lemma record_message_layout:
  fixes ident :: u16 and shard :: u32 and objectid :: u64
  assumes "length table16 = 16"
    and m_def: "m = record_message ident shard table16 objectid rest"
  shows "length m = 40 + length rest" and "netmsg_len m = of_nat (40 + length rest)"
    and "take 2 (drop 4 m) = le_bytes ident" and "take 4 (drop 12 m) = le_bytes shard"
    and "drop 16 m = table16 @ le_bytes objectid @ rest" and "drop 32 m = le_bytes objectid @ rest" and "drop 40 m = rest"
proof -
  let ?h = "\<lparr>nm_len = of_nat (40 + length rest), nm_id = ident, nm_flags = 0, nm_timestamp = 0\<rparr>"
  have "(ucast (ucast ident :: u32) :: u16) = ident" by (rule bit_word_eqI) (simp add: bit_simps)
  then have m: "m = netmessage_bytes ?h @ le_bytes shard @ table16 @ le_bytes objectid @ rest"
    using assms(1) by (simp add: m_def record_message_def net_encode_def sizeof_Netmessage_def add.commute)
  show "length m = 40 + length rest" using assms(1) by (simp add: m sizeof_Netmessage_def)
  show "netmsg_len m = of_nat (40 + length rest)" unfolding m by (simp del: of_nat_add)
  show "take 2 (drop 4 m) = le_bytes ident" "take 4 (drop 12 m) = le_bytes shard"
    "drop 16 m = table16 @ le_bytes objectid @ rest" "drop 32 m = le_bytes objectid @ rest" "drop 40 m = rest"
    using assms(1) by (simp_all add: m netmessage_bytes_def)
qed

lemma word_at_le_bytes:
  assumes "take (LENGTH('a) div 8) (drop off m) = le_bytes (w :: 'a::len word)" and "8 dvd LENGTH('a)"
  shows "word_at m off = Inr w"
proof -
  from assms(1) have "length (take (LENGTH('a) div 8) (drop off m)) = LENGTH('a) div 8" by simp
  moreover have "0 < LENGTH('a) div 8"
    using assms(2) len_gt_0 [where ?'a = 'a] by (metis dvd_div_eq_0_iff gr0I less_numeral_extra(3))
  ultimately have "off + LENGTH('a) div 8 \<le> length m" by (auto simp: min_def split: if_splits)
  then show ?thesis using assms by (simp add: word_at_def le_word_le_bytes)
qed

lemma record_message_read:
  fixes ident :: u16 and shard :: u32 and objectid :: u64
  assumes "length table16 = 16"
    and m_def: "m = record_message ident shard table16 objectid rest"
  shows "rm_ident m = Inr ident" and "rm_shard m = Inr shard" and "rm_objectid m = Inr objectid"
proof -
  note l = record_message_layout [OF assms]
  have "take 8 (drop 32 m) = le_bytes objectid" using l(6) by simp
  with l show "rm_ident m = Inr ident" "rm_shard m = Inr shard" "rm_objectid m = Inr objectid"
    unfolding rm_ident_def rm_shard_def rm_objectid_def by (simp_all add: word_at_le_bytes)
qed

lemma record_message_tail:
  assumes "length table16 = 16"
  shows "word_at (record_message ident shard table16 objectid (le_bytes (w :: u32) @ rest)) 40 = Inr w"
    and "word_at (record_message ident shard table16 objectid (le_bytes (v :: u32) @ le_bytes (w :: u32) @ rest)) 44 = Inr w"
proof -
  note l = record_message_layout [OF assms refl, of ident shard objectid]
  show "word_at (record_message ident shard table16 objectid (le_bytes w @ rest)) 40 = Inr w"
    by (rule word_at_le_bytes) (simp_all add: l(7))
  have "drop 44 (record_message ident shard table16 objectid (le_bytes v @ le_bytes w @ rest)) = drop 4 (drop 40 (record_message ident shard table16 objectid (le_bytes v @ le_bytes w @ rest)))"
    by simp
  then show "word_at (record_message ident shard table16 objectid (le_bytes v @ le_bytes w @ rest)) 44 = Inr w"
    by (intro word_at_le_bytes) (simp_all only: l(7), simp_all)
qed

text \<open>A table name that leaves room for its terminator is read back; a longer one runs into the identifier.\<close>

definition plain_bytes :: "string \<Rightarrow> bool" where
  "plain_bytes s \<longleftrightarrow> CHR 0x00 \<notin> set s"

lemma bytes_plain: "plain_bytes s \<Longrightarrow> 0 \<notin> set (bytes_of_string s)"
proof
  assume "plain_bytes s" "0 \<in> set (bytes_of_string s)"
  then obtain c where c: "c \<in> set s" "(of_char c :: u8) = 0" by (auto simp: bytes_of_string_def)
  then have "unat (of_char c :: u8) = 0" by (simp only: unsigned_0)
  then have "(of_char c :: nat) = 0" by simp
  then have "char_of (of_char c :: nat) = char_of (0 :: nat)" by (rule arg_cong)
  moreover have "char_of (0 :: nat) = CHR 0x00" by code_simp
  ultimately show False using c \<open>plain_bytes s\<close> by (simp add: plain_bytes_def)
qed

lemma takeWhile_plain: "0 \<notin> set xs \<Longrightarrow> takeWhile (\<lambda>b. b \<noteq> (0 :: u8)) (xs @ ys) = xs @ takeWhile (\<lambda>b. b \<noteq> 0) ys"
proof -
  assume "0 \<notin> set xs"
  then have "\<And>b. b \<in> set xs \<Longrightarrow> b \<noteq> 0" by auto
  then show ?thesis by (rule takeWhile_append2)
qed

lemma rm_table_short:
  assumes "plain_bytes table" and "length table < 16"
  shows "rm_table (record_message ident shard (strncpy16 (bytes_of_string table)) objectid rest) = Inr table"
proof -
  let ?b = "bytes_of_string table"
  have b: "0 \<notin> set ?b" using assms(1) by (rule bytes_plain)
  obtain n where "16 - length table = Suc n" using assms(2) by (cases "16 - length table") simp_all
  then have s: "strncpy16 ?b = ?b @ 0 # replicate n 0"
    using takeWhile_plain [OF b, of "[]"] assms(2)
    by (simp add: strncpy16_def Let_def del: takeWhile_eq_all_conv)
  show ?thesis
    using record_message_layout(5) [OF length_strncpy16 refl, of ident shard ?b objectid rest] takeWhile_plain [OF b]
    by (simp add: rm_table_def s)
qed

lemma rm_data_tail:
  assumes "length table16 = 16" and "length data < 2 ^ 32"
  shows "rm_data 40 (record_message ident shard table16 objectid (le_bytes (of_nat (length data) :: u32) @ data)) = Inr data"
proof -
  let ?m = "record_message ident shard table16 objectid (le_bytes (of_nat (length data) :: u32) @ data)"
  note l = record_message_layout [OF assms(1) refl, of ident shard objectid "le_bytes (of_nat (length data) :: u32) @ data"]
  have "drop 44 ?m = drop 4 (drop 40 ?m)" by simp
  then have "drop 44 ?m = data" by (simp only: l(7)) simp
  then show ?thesis
    using l(1) assms by (simp add: rm_data_def rm_datalen_def record_message_tail unat_of_nat_u32)
qed

text \<open>
  C10: a request is received as it was made. The bytes that a client sends for an object are one
  message for the splitter, its length passes the check of the server, and the server reads the
  shard, the table, the object identifier and the data that were passed to the client, if the
  table name has less than sixteen characters.
\<close>

theorem record_request_received:
  assumes "plain_bytes table" and "length table < 16" and "length js < 2 ^ 31 - 44"
  shows "(let m = serialize_request ident shard table objectid js
    in net_split (m @ more_bytes) = int (length m) \<and> size_with_data m = Inr (unat (netmsg_len m)) \<and>
       take (unat (netmsg_len m)) m = m \<and> rm_ident m = Inr ident \<and> rm_shard m = Inr shard \<and> rm_table m = Inr table \<and>
       rm_objectid m = Inr objectid \<and> rm_data 40 m = Inr (bytes_of_string js))"
proof -
  let ?t = "strncpy16 (bytes_of_string table)" and ?d = "le_bytes (of_nat (length js) :: u32) @ bytes_of_string js"
  let ?m = "serialize_request ident shard table objectid js"
  have m: "?m = record_message ident shard ?t objectid ?d" by (simp add: serialize_request_def)
  note l = record_message_layout [OF length_strncpy16 refl, of ident shard "bytes_of_string table" objectid ?d, folded m]
  have n: "length ?m = 44 + length js" "netmsg_len ?m = of_nat (44 + length js)" using l(1,2) by simp_all
  have u: "unat (of_nat (44 + length js) :: u32) = 44 + length js" using assms(3) by (intro unat_of_nat_u32) simp
  have "net_split (?m @ more_bytes) = sint (of_nat (44 + length js) :: u32)"
    using n u by (simp add: net_split_def netmsg_len_append sizeof_Netmessage_def del: of_nat_add)
  also have "\<dots> = int (44 + length js)" using assms(3) by (intro sint_of_nat_u32) simp
  finally have "net_split (?m @ more_bytes) = int (length ?m)" using n by simp
  moreover have "size_with_data ?m = Inr (44 + length js)"
    using assms(3) by (simp add: size_with_data_def rm_datalen_def m record_message_tail unat_of_nat_u32)
  moreover have "rm_data 40 ?m = Inr (bytes_of_string js)"
    using rm_data_tail [OF length_strncpy16, of "bytes_of_string js"] assms(3) by (simp add: m)
  ultimately show ?thesis
    using n u rm_table_short [OF assms(1,2)] record_message_read [OF length_strncpy16 m]
    by (simp add: Let_def m del: of_nat_add)
qed

theorem record_request_received_witness:
  "rm_table (serialize_request ObjectSerializeRequest 1 ''user'' 77 ''{}'') = Inr ''user'' \<and>
   rm_data 40 (serialize_request ObjectSerializeRequest 1 ''user'' 77 ''{}'') = Inr (bytes_of_string ''{}'')"
  using record_request_received [of "''user''" "''{}''" ObjectSerializeRequest 1 77 "[]"]
  by (simp add: plain_bytes_def Let_def)

text \<open>
  a table name of sixteen characters or more is not the name the server works with: the
  field has no terminator, and the server reads on into the bytes of the object identifier.
\<close>

theorem record_table_runs_on:
  assumes "plain_bytes table" and "16 \<le> length table" and "0 \<in> set (le_bytes objectid)"
  shows "rm_table (serialize_request ident shard table objectid js) =
    Inr (take 16 table @ string_of_bytes (takeWhile (\<lambda>b. b \<noteq> 0) (le_bytes objectid)))"
proof -
  let ?b = "bytes_of_string table"
  let ?d = "le_bytes (of_nat (length js) :: u32) @ bytes_of_string js"
  have b: "0 \<notin> set ?b" using assms(1) by (rule bytes_plain)
  then have b16: "0 \<notin> set (take 16 ?b)" by (meson in_set_takeD)
  have s: "strncpy16 ?b = take 16 ?b"
    using takeWhile_plain [OF b, of "[]"] assms(2) by (simp add: strncpy16_def Let_def del: takeWhile_eq_all_conv)
  have "takeWhile (\<lambda>b. b \<noteq> 0) (le_bytes objectid @ ?d) = takeWhile (\<lambda>b. b \<noteq> 0) (le_bytes objectid)"
    using assms(3) by (simp add: takeWhile_append1)
  moreover have "string_of_bytes (take 16 ?b @ xs) = take 16 table @ string_of_bytes xs" for xs
  proof -
    have "take 16 ?b = bytes_of_string (take 16 table)" by (simp add: bytes_of_string_def take_map)
    moreover have "string_of_bytes (xs @ ys) = string_of_bytes xs @ string_of_bytes ys" for xs ys
      by (simp add: string_of_bytes_def)
    ultimately show ?thesis by (simp only: string_of_bytes_of_string)
  qed
  ultimately show ?thesis
    using record_message_layout(5) [OF length_strncpy16 refl, of ident shard ?b objectid ?d] takeWhile_plain [OF b16] assms(3)
    by (simp add: rm_table_def serialize_request_def s)
qed

theorem record_table_runs_on_witness:
  "rm_table (serialize_request ObjectSerializeRequest 1 ''abcdefghijklmnop'' 0x4241 ''{}'') = Inr ''abcdefghijklmnopAB''"
proof -
  have "le_bytes (0x4241 :: u64) = [0x41, 0x42, 0, 0, 0, 0, 0, 0]" by (simp add: le_bytes_def upt_rec)
  moreover have "string_of_bytes [0x41, 0x42] = ''AB''" by code_simp
  ultimately show ?thesis
    using record_table_runs_on [of "''abcdefghijklmnop''" "0x4241" ObjectSerializeRequest 1 "''{}''"]
    by (simp add: plain_bytes_def)
qed

section \<open>Callbacks\<close>

text \<open>The requests of a client, with the callback of each, and the answers it gets.\<close>

datatype answer_kind = K_serialize | K_unserialize | K_alter

datatype rc_request =
  Rq_serialize u32 string u64 string "nat option"
| Rq_unserialize u32 string u64 "nat option"
| Rq_addKey u32 string u64 string "nat option"
| Rq_removeKey u32 string u64 string "nat option"

fun rc_ask :: "rc_request \<Rightarrow> recordclient \<Rightarrow> recordclient res" where
  "rc_ask (Rq_serialize shard table objectid js func) = rc_serialize shard table objectid js func"
| "rc_ask (Rq_unserialize shard table objectid func) = rc_unserialize shard table objectid func"
| "rc_ask (Rq_addKey shard table objectid field_name func) = rc_addKey shard table objectid field_name func"
| "rc_ask (Rq_removeKey shard table objectid field_name func) = rc_removeKey shard table objectid field_name func"

fun rq_kind :: "rc_request \<Rightarrow> answer_kind" where
  "rq_kind (Rq_serialize shard table objectid js func) = K_serialize"
| "rq_kind (Rq_unserialize shard table objectid func) = K_unserialize"
| "rq_kind (Rq_addKey shard table objectid field_name func) = K_alter"
| "rq_kind (Rq_removeKey shard table objectid field_name func) = K_alter"

fun rq_func :: "rc_request \<Rightarrow> nat option" where
  "rq_func (Rq_serialize shard table objectid js func) = func"
| "rq_func (Rq_unserialize shard table objectid func) = func"
| "rq_func (Rq_addKey shard table objectid field_name func) = func"
| "rq_func (Rq_removeKey shard table objectid field_name func) = func"

record rc_answer =
  an_kind :: answer_kind
  an_shard :: u32
  an_table :: string
  an_objectid :: u64
  an_retval :: u32
  an_data :: bytes

fun answer_ident :: "answer_kind \<Rightarrow> u16" where
  "answer_ident K_serialize = ObjectSerializeResponse"
| "answer_ident K_unserialize = ObjectUnserializeResponse"
| "answer_ident K_alter = ObjectAlterResponse"

definition answer_message :: "rc_answer \<Rightarrow> bytes" where
  "answer_message a =
     record_message (answer_ident (an_kind a)) (an_shard a) (strncpy16 (bytes_of_string (an_table a))) (an_objectid a)
       (le_bytes (an_retval a) @ (if an_kind a = K_unserialize then le_bytes (of_nat (length (an_data a)) :: u32) @ an_data a else []))"

definition answer_ok :: "rc_answer \<Rightarrow> bool" where
  "answer_ok a \<longleftrightarrow> plain_bytes (an_table a) \<and> length (an_table a) < 16 \<and> length (an_data a) < 2 ^ 31"

text \<open>The call that an answer gives for a callback.\<close>

definition answer_calls :: "nat option \<Rightarrow> rc_answer \<Rightarrow> rc_call list" where
  "answer_calls func a =
     (case func of None \<Rightarrow> []
      | Some f \<Rightarrow> [\<lparr>call_func = f, call_shard = an_shard a, call_table = an_table a, call_objectid = an_objectid a,
          call_retval = an_retval a, call_data = (if an_kind a = K_unserialize then Some (an_data a) else None)\<rparr>])"

fun rc_queue :: "answer_kind \<Rightarrow> recordclient \<Rightarrow> nat option list" where
  "rc_queue K_serialize rc = rc_serializeCallbacks rc"
| "rc_queue K_unserialize rc = rc_unserializeCallbacks rc"
| "rc_queue K_alter rc = rc_alterCallbacks rc"

lemma answer_fields:
  assumes "answer_ok a"
  shows "rm_ident (answer_message a) = Inr (answer_ident (an_kind a))" "rm_shard (answer_message a) = Inr (an_shard a)"
    "rm_table (answer_message a) = Inr (an_table a)" "rm_objectid (answer_message a) = Inr (an_objectid a)"
    "word_at (answer_message a) 40 = Inr (an_retval a)"
    "an_kind a \<noteq> K_unserialize \<Longrightarrow> unat (netmsg_len (answer_message a)) = size_answer"
    "an_kind a = K_unserialize \<Longrightarrow> size_unserialize_answer (answer_message a) = Inr (unat (netmsg_len (answer_message a)))"
    "an_kind a = K_unserialize \<Longrightarrow> rm_data 44 (answer_message a) = Inr (an_data a)"
proof -
  let ?t = "strncpy16 (bytes_of_string (an_table a))" and ?d = "le_bytes (of_nat (length (an_data a)) :: u32) @ an_data a"
  let ?r = "le_bytes (an_retval a) @ (if an_kind a = K_unserialize then ?d else [])"
  have m: "answer_message a = record_message (answer_ident (an_kind a)) (an_shard a) ?t (an_objectid a) ?r" by (simp add: answer_message_def)
  note read = record_message_read [OF length_strncpy16 m] and l = record_message_layout [OF length_strncpy16 m]
  show "rm_ident (answer_message a) = Inr (answer_ident (an_kind a))" "rm_shard (answer_message a) = Inr (an_shard a)"
    "rm_objectid (answer_message a) = Inr (an_objectid a)" by (fact read)+
  show "rm_table (answer_message a) = Inr (an_table a)" using assms unfolding m by (intro rm_table_short) (simp_all add: answer_ok_def)
  show "word_at (answer_message a) 40 = Inr (an_retval a)" unfolding m by (rule record_message_tail(1)) simp
  show "unat (netmsg_len (answer_message a)) = size_answer" if "an_kind a \<noteq> K_unserialize"
    using that l(2) by (simp add: size_answer_def)
  assume u: "an_kind a = K_unserialize"
  have n: "unat (of_nat (length (an_data a)) :: u32) = length (an_data a)" using assms by (intro unat_of_nat_u32) (simp add: answer_ok_def)
  have len: "rm_datalen 44 (answer_message a) = Inr (of_nat (length (an_data a)))"
    using u unfolding rm_datalen_def m by (simp add: record_message_tail(2))
  have "unat (netmsg_len (answer_message a)) = 48 + length (an_data a)"
    unfolding l(2) using u assms by (subst unat_of_nat_u32) (simp_all add: answer_ok_def)
  then show "size_unserialize_answer (answer_message a) = Inr (unat (netmsg_len (answer_message a)))"
    using len n by (simp add: size_unserialize_answer_def)
  have "drop 48 (answer_message a) = drop 8 (drop 40 (answer_message a))" by simp
  then have "drop 48 (answer_message a) = an_data a" using u by (simp only: l(7)) simp
  then show "rm_data 44 (answer_message a) = Inr (an_data a)" using len n l(1) u by (simp add: rm_data_def)
qed

lemma answer_call_fields:
  "answer_ok a \<Longrightarrow> answer_call func (answer_message a) (if an_kind a = K_unserialize then Some (an_data a) else None) = Inr (answer_calls func a)"
  using answer_fields(2-5) [of a] by (cases func) (simp_all add: answer_call_def answer_calls_def)

text \<open>An answer is for the first callback of its kind and leaves the other kinds alone.\<close>

lemma rc_msgParser_answer:
  assumes "answer_ok a" and "rc_queue (an_kind a) rc = func # fs"
  shows "\<exists>rc'. rc_msgParser (answer_message a) rc = Inr (True, answer_calls func a, rc') \<and>
    (\<forall>K. rc_queue K rc' = (if K = an_kind a then fs else rc_queue K rc))"
proof -
  note f = answer_fields [OF assms(1)] and c = answer_call_fields [OF assms(1), of func]
  show ?thesis
  proof (cases "an_kind a")
    case K_serialize
    then have "rc_msgParser (answer_message a) rc = Inr (True, answer_calls func a, rc\<lparr>rc_serializeCallbacks := fs\<rparr>)"
      using f(1,6) c assms(2) by (simp add: rc_msgParser_def)
    moreover have "rc_queue K (rc\<lparr>rc_serializeCallbacks := fs\<rparr>) = (if K = an_kind a then fs else rc_queue K rc)" for K
      using K_serialize by (cases K) simp_all
    ultimately show ?thesis by blast
  next
    case K_unserialize
    then have "rc_msgParser (answer_message a) rc = Inr (True, answer_calls func a, rc\<lparr>rc_unserializeCallbacks := fs\<rparr>)"
      using f(1,7,8) c assms(2) by (simp add: rc_msgParser_def)
    moreover have "rc_queue K (rc\<lparr>rc_unserializeCallbacks := fs\<rparr>) = (if K = an_kind a then fs else rc_queue K rc)" for K
      using K_unserialize by (cases K) simp_all
    ultimately show ?thesis by blast
  next
    case K_alter
    then have "rc_msgParser (answer_message a) rc = Inr (True, answer_calls func a, rc\<lparr>rc_alterCallbacks := fs\<rparr>)"
      using f(1,6) c assms(2) by (simp add: rc_msgParser_def)
    moreover have "rc_queue K (rc\<lparr>rc_alterCallbacks := fs\<rparr>) = (if K = an_kind a then fs else rc_queue K rc)" for K
      using K_alter by (cases K) simp_all
    ultimately show ?thesis by blast
  qed
qed

lemma rc_send_queue: "rc_send m rc = Inr rc' \<Longrightarrow> rc_queue K rc' = rc_queue K rc"
  by (cases K) (auto simp: rc_send_def fault_simps)

lemma rc_ask_queue:
  assumes "rc_ask r rc = Inr rc'"
  shows "rc_queue K rc' = (if K = rq_kind r then rc_queue K rc @ [rq_func r] else rc_queue K rc)"
  using assms
  by (cases r; cases K) (auto simp: rc_serialize_def rc_unserialize_def rc_addKey_def rc_removeKey_def bindE_Inr_iff
      dest: rc_send_queue [of _ _ _ K_serialize] rc_send_queue [of _ _ _ K_unserialize] rc_send_queue [of _ _ _ K_alter])

text \<open>What happens at a client: requests are made and answers come, in any order. The result has the calls for each answer.\<close>

datatype rc_event = Asked rc_request | Came rc_answer

fun rc_run :: "rc_event list \<Rightarrow> recordclient \<Rightarrow> (rc_call list list \<times> recordclient) res" where
  "rc_run [] rc = Inr ([], rc)"
| "rc_run (Asked r # es) rc = bindE (rc_ask r rc) (rc_run es)"
| "rc_run (Came a # es) rc = bindE (rc_msgParser (answer_message a) rc) (\<lambda>(ok, calls, rc1).
     bindE (rc_run es rc1) (\<lambda>(css, rc2). Inr (calls # css, rc2)))"

fun asked :: "answer_kind \<Rightarrow> rc_event list \<Rightarrow> nat option list" where
  "asked K [] = []"
| "asked K (Asked r # es) = (if rq_kind r = K then rq_func r # asked K es else asked K es)"
| "asked K (Came a # es) = asked K es"

fun came :: "rc_event list \<Rightarrow> rc_answer list" where
  "came [] = []"
| "came (Asked r # es) = came es"
| "came (Came a # es) = a # came es"

definition came_of :: "answer_kind \<Rightarrow> rc_answer list \<Rightarrow> nat" where
  "came_of K as = length (filter (\<lambda>a. an_kind a = K) as)"

lemma rc_run_asked:
  "rc_run (es @ [Asked r]) rc = bindE (rc_run es rc) (\<lambda>(css, rc1). bindE (rc_ask r rc1) (\<lambda>rc2. Inr (css, rc2)))"
proof (induction es rc rule: rc_run.induct)
  case (1 rc)
  show ?case by (cases "rc_ask r rc") simp_all
next
  case (2 q es rc)
  then show ?case by (cases "rc_ask q rc") simp_all
next
  case (3 b es rc)
  then show ?case by (cases "rc_msgParser (answer_message b) rc") (simp_all add: split_def bindE_assoc)
qed

lemma rc_run_came:
  "rc_run (es @ [Came a]) rc = bindE (rc_run es rc) (\<lambda>(css, rc1). bindE (rc_msgParser (answer_message a) rc1) (\<lambda>(ok, calls, rc2).
     Inr (css @ [calls], rc2)))"
proof (induction es rc rule: rc_run.induct)
  case (1 rc)
  show ?case by (simp add: split_def)
next
  case (2 q es rc)
  then show ?case by (cases "rc_ask q rc") simp_all
next
  case (3 b es rc)
  then show ?case by (cases "rc_msgParser (answer_message b) rc") (simp_all add: split_def bindE_assoc)
qed

lemmas rc_run_snoc = rc_run_asked rc_run_came

lemma asked_snoc: "asked K (es @ [Asked r]) = (if rq_kind r = K then asked K es @ [rq_func r] else asked K es)" "asked K (es @ [Came a]) = asked K es"
  by (induction es rule: came.induct) simp_all

lemma came_snoc: "came (es @ [Asked r]) = came es" "came (es @ [Came a]) = came es @ [a]"
  by (induction es rule: came.induct) simp_all

text \<open>The calls for the answers: each is for the request of its kind that has its number.\<close>

definition calls_in_order :: "rc_event list \<Rightarrow> rc_call list list" where
  "calls_in_order es =
     (let as = came es
      in map (\<lambda>i. answer_calls (asked (an_kind (as ! i)) es ! came_of (an_kind (as ! i)) (take i as)) (as ! i)) [0..<length as])"

text \<open>No answer comes before its request.\<close>

definition answers_follow :: "rc_event list \<Rightarrow> bool" where
  "answers_follow es \<longleftrightarrow> (\<forall>n K. came_of K (came (take n es)) \<le> length (asked K (take n es)))"

lemma answers_follow_snoc:
  assumes "answers_follow (es @ [e])"
  shows "answers_follow es" and "came_of K (came (es @ [e])) \<le> length (asked K (es @ [e]))"
proof -
  have "came_of K (came (take n es)) \<le> length (asked K (take n es))" for n K
    using assms [unfolded answers_follow_def, rule_format, of K "min n (length es)"] by (cases "n \<le> length es") (simp_all add: min_def)
  then show "answers_follow es" by (simp add: answers_follow_def)
  show "came_of K (came (es @ [e])) \<le> length (asked K (es @ [e]))"
    using assms [unfolded answers_follow_def, rule_format, of K "Suc (length es)"] by simp
qed

lemma came_of_take: "i < length as \<Longrightarrow> came_of (an_kind (as ! i)) (take i as) < came_of (an_kind (as ! i)) as"
proof -
  assume i: "i < length as"
  have "came_of K (as' @ bs) = came_of K as' + came_of K bs" for K as' bs by (simp add: came_of_def)
  moreover have "as = take i as @ as ! i # drop (Suc i) as" using i by (simp add: id_take_nth_drop)
  moreover have "came_of (an_kind x) (x # bs) > 0" for x bs by (simp add: came_of_def)
  ultimately show ?thesis by (metis less_add_same_cancel1)
qed

text \<open>A later request does not change whom the answers before it were for.\<close>

lemma calls_in_order_asked:
  assumes "answers_follow es"
  shows "calls_in_order (es @ [Asked r]) = calls_in_order es"
proof -
  let ?as = "came es"
  have follow: "came_of K ?as \<le> length (asked K es)" for K
    using assms [unfolded answers_follow_def, rule_format, of K "length es"] by simp
  have "came_of (an_kind (?as ! i)) (take i ?as) < length (asked (an_kind (?as ! i)) es)" if "i < length ?as" for i
    using came_of_take [OF that] follow [of "an_kind (?as ! i)"] by linarith
  then show ?thesis by (auto simp: calls_in_order_def Let_def came_snoc asked_snoc nth_append)
qed

lemma calls_in_order_came:
  "calls_in_order (es @ [Came a]) = calls_in_order es @ [answer_calls (asked (an_kind a) es ! came_of (an_kind a) (came es)) a]"
  by (auto simp: calls_in_order_def Let_def came_snoc asked_snoc nth_append)

lemma rc_run_order:
  assumes "rc_run es rc = Inr (css, rc')" and "\<forall>K. rc_queue K rc = []" and "\<forall>a\<in>set (came es). answer_ok a" and "answers_follow es"
  shows "css = calls_in_order es \<and> (\<forall>K. rc_queue K rc' = drop (came_of K (came es)) (asked K es))"
  using assms
proof (induction es arbitrary: css rc' rule: rev_induct)
  case Nil
  then show ?case by (simp add: calls_in_order_def)
next
  case (snoc e es)
  note follow = answers_follow_snoc [OF snoc.prems(4)]
  show ?case
  proof (cases e)
    case (Asked r)
    from snoc.prems(1) obtain rc1 where run: "rc_run es rc = Inr (css, rc1)" and ask: "rc_ask r rc1 = Inr rc'"
      by (auto simp: Asked rc_run_snoc bindE_Inr_iff)
    have IH: "css = calls_in_order es" "\<And>K. rc_queue K rc1 = drop (came_of K (came es)) (asked K es)"
      using snoc.IH [OF run] snoc.prems(2,3) follow(1) by (auto simp: Asked came_snoc)
    have "came_of K (came es) \<le> length (asked K es)" for K
      using follow(1) [unfolded answers_follow_def, rule_format, of K "length es"] by simp
    then have "rc_queue K rc' = drop (came_of K (came es)) (asked K (es @ [e]))" for K
      using rc_ask_queue [OF ask, of K] IH(2) by (simp add: Asked asked_snoc)
    then show ?thesis using IH(1) calls_in_order_asked [OF follow(1)] by (simp add: Asked came_snoc)
  next
    case (Came a)
    from snoc.prems(1) obtain css1 rc1 ok calls where run: "rc_run es rc = Inr (css1, rc1)" and css: "css = css1 @ [calls]"
      and parse: "rc_msgParser (answer_message a) rc1 = Inr (ok, calls, rc')"
      by (auto simp: Came rc_run_snoc bindE_Inr_iff)
    have IH: "css1 = calls_in_order es" "\<And>K. rc_queue K rc1 = drop (came_of K (came es)) (asked K es)"
      using snoc.IH [OF run] snoc.prems(2,3) follow(1) by (auto simp: Came came_snoc)
    let ?K = "an_kind a" and ?j = "came_of (an_kind a) (came es)"
    have "?j < length (asked ?K es)" using follow(2) [of ?K] by (simp add: Came came_snoc asked_snoc came_of_def)
    then have q: "rc_queue ?K rc1 = asked ?K es ! ?j # drop (Suc ?j) (asked ?K es)" using IH(2) by (simp add: Cons_nth_drop_Suc)
    have "answer_ok a" using snoc.prems(3) by (simp add: Came came_snoc)
    from rc_msgParser_answer [OF this q] parse have calls: "calls = answer_calls (asked ?K es ! ?j) a"
      and rest: "\<And>K. rc_queue K rc' = (if K = ?K then drop (Suc ?j) (asked ?K es) else rc_queue K rc1)" by auto
    have "came_of K (came es @ [a]) = (if K = ?K then Suc ?j else came_of K (came es))" for K by (simp add: came_of_def)
    then show ?thesis using IH css calls rest by (simp add: Came came_snoc asked_snoc calls_in_order_came)
  qed
qed

text \<open>
  C36: the callbacks of a client are called in the order of its requests. Take any sequence of
  requests to store, to load and to change keys and of answers to them, none of which comes
  before its request, with table names of less than sixteen characters. Then the first answer
  to a request to store goes to the callback of the first such request, the second to the second
  and so on, and the same holds for loading and for changing keys; each callback gets the fields of
  its answer, once, and the callbacks of the unanswered requests wait in order. Which object an
  answer is for is not compared, so that an answer that overtakes another one reaches the other
  one's callback.
\<close>

theorem record_callbacks_in_order:
  assumes "rc_run es rc = Inr (css, rc')" and "\<forall>K. rc_queue K rc = []" and "\<forall>a\<in>set (came es). answer_ok a" and "answers_follow es"
  shows "css = calls_in_order es \<and> (\<forall>K. rc_queue K rc' = drop (came_of K (came es)) (asked K es))"
  using assms by (rule rc_run_order)

definition demo_client :: recordclient where
  "demo_client = \<lparr>rc_net = \<lparr>nc_stop = False, nc_client = Some sc_new\<rparr>, rc_serializeCallbacks = [],
     rc_unserializeCallbacks = [], rc_alterCallbacks = []\<rparr>"

text \<open>Two requests to store and one to load; the answer to the last one comes first.\<close>

definition demo_events :: "rc_event list" where
  "demo_events =
     (let store = (\<lambda>oid. \<lparr>an_kind = K_serialize, an_shard = 0, an_table = ''user'', an_objectid = oid, an_retval = 0, an_data = []\<rparr>)
      in [Asked (Rq_serialize 0 ''user'' 9 ''{}'' (Some 1)), Asked (Rq_serialize 0 ''user'' 8 ''{}'' (Some 2)),
          Asked (Rq_unserialize 0 ''user'' 7 (Some 3)),
          Came \<lparr>an_kind = K_unserialize, an_shard = 0, an_table = ''user'', an_objectid = 7, an_retval = 0, an_data = [123, 125]\<rparr>,
          Came (store 9), Came (store 8)])"

theorem record_callbacks_in_order_witness:
  "\<exists>rc'. rc_run demo_events demo_client =
    Inr ([[\<lparr>call_func = 3, call_shard = 0, call_table = ''user'', call_objectid = 7, call_retval = 0, call_data = Some [123, 125]\<rparr>],
          [\<lparr>call_func = 1, call_shard = 0, call_table = ''user'', call_objectid = 9, call_retval = 0, call_data = None\<rparr>],
          [\<lparr>call_func = 2, call_shard = 0, call_table = ''user'', call_objectid = 8, call_retval = 0, call_data = None\<rparr>]], rc')"
proof -
  have "isl (rc_run demo_events demo_client) = False" by code_simp
  then obtain css rc' where run: "rc_run demo_events demo_client = Inr (css, rc')" by (cases "rc_run demo_events demo_client") auto
  have "rc_queue K demo_client = []" for K by (cases K) (simp_all add: demo_client_def)
  moreover have "\<forall>a\<in>set (came demo_events). answer_ok a" by (simp add: demo_events_def answer_ok_def plain_bytes_def)
  moreover have "answers_follow demo_events"
    unfolding answers_follow_def
  proof (intro allI)
    fix n :: nat and K
    have "n = 0 \<or> n = 1 \<or> n = 2 \<or> n = 3 \<or> n = 4 \<or> n = 5 \<or> 6 \<le> n" by arith
    then show "came_of K (came (take n demo_events)) \<le> length (asked K (take n demo_events))"
      by (cases K) (auto simp: demo_events_def came_of_def)
  qed
  ultimately have "css = calls_in_order demo_events" using record_callbacks_in_order [OF run] by blast
  then show ?thesis using run by (simp add: calls_in_order_def demo_events_def came_of_def answer_calls_def)
qed

text \<open>
  a message that is too short for its type makes the client read beyond it. The length of an
  answer with data is computed from a field that a shorter message does not have, before the
  length is checked.
\<close>

theorem record_short_answer_overrun:
  assumes "length m < 48" and "rm_ident m = Inr ObjectUnserializeResponse" and "rc_unserializeCallbacks rc \<noteq> []"
  shows "rc_msgParser m rc = Inl HeapOverrun"
  using assms by (cases "rc_unserializeCallbacks rc")
    (simp_all add: rc_msgParser_def size_unserialize_answer_def rm_datalen_def word_at_def)

theorem record_short_answer_overrun_witness:
  "rc_msgParser (net_encode (ucast ObjectUnserializeResponse) []) (demo_client\<lparr>rc_unserializeCallbacks := [None]\<rparr>) = Inl HeapOverrun"
proof -
  let ?m = "net_encode (ucast ObjectUnserializeResponse) []"
  have l: "length ?m = 12" by (simp add: net_encode_def sizeof_Netmessage_def)
  have "rm_ident ?m = Inr ObjectUnserializeResponse"
    unfolding rm_ident_def by (rule word_at_le_bytes) (simp_all add: net_encode_def netmessage_bytes_def)
  with l show ?thesis using record_short_answer_overrun [of ?m] by simp
qed

end
