(* ===== verification/Entity_Values.thy ===== *)
theory Entity_Values
  imports Tools_Text
begin

text \<open>
  \<^verbatim>\<open>src/entity/Entity.cpp\<close> and \<^verbatim>\<open>Entity.h\<close>: named values of four types, their JSON text and
  their typed access. The JSON parser belongs to the rapidjson library: the members it finds are
  an argument, in its classification of values. A floating point number is the bit pattern of
  its \<^verbatim>\<open>float\<close>; its text is an argument, too.
\<close>

section \<open>Values\<close>

definition to_s64 :: "int \<Rightarrow> int" where
  "to_s64 v = sint (word_of_int v :: u64)"

datatype value_type = type_integer | type_float | type_bool | type_string

text \<open>
  The structure keeps a field for every type and the type says which one counts. The constructor
  leaves the fields of numbers unset, which is \<open>None\<close>; assigning sets the type and the field of
  that type and leaves the other fields as they are.
\<close>

record evalue =
  ev_type :: value_type
  ev_integer :: "int option"
  ev_float :: "u32 option"
  ev_bool :: "bool option"
  ev_string :: string
  ev_dirty :: bool

definition Value_default :: evalue where
  "Value_default = \<lparr>ev_type = type_string, ev_integer = None, ev_float = None, ev_bool = None, ev_string = ''UNDEFINED'', ev_dirty = False\<rparr>"

text \<open>The overloads of \<^verbatim>\<open>set\<close>; every integer type is widened to 64 bits, \<^verbatim>\<open>u64\<close> keeps its bits.\<close>

definition set_integer :: "int \<Rightarrow> evalue \<Rightarrow> evalue" where
  "set_integer n v = v\<lparr>ev_type := type_integer, ev_integer := Some (to_s64 n), ev_dirty := True\<rparr>"

definition set_float :: "u32 \<Rightarrow> evalue \<Rightarrow> evalue" where
  "set_float f v = v\<lparr>ev_type := type_float, ev_float := Some f, ev_dirty := True\<rparr>"

definition set_bool :: "bool \<Rightarrow> evalue \<Rightarrow> evalue" where
  "set_bool b v = v\<lparr>ev_type := type_bool, ev_bool := Some b, ev_dirty := True\<rparr>"

definition set_string :: "string \<Rightarrow> evalue \<Rightarrow> evalue" where
  "set_string s v = v\<lparr>ev_type := type_string, ev_string := s, ev_dirty := True\<rparr>"

text \<open>
  What a value holds: the field of its type. The field of the type of a value is always set
  (\<open>value_ok\<close> below, which every operation keeps), so that the alternatives for unset fields do
  not matter.
\<close>

datatype value_data = V_integer int | V_float u32 | V_bool bool | V_string string

definition ev_data :: "evalue \<Rightarrow> value_data" where
  "ev_data v =
     (case ev_type v of
        type_integer \<Rightarrow> V_integer (case ev_integer v of Some n \<Rightarrow> n | None \<Rightarrow> 0)
      | type_float \<Rightarrow> V_float (case ev_float v of Some f \<Rightarrow> f | None \<Rightarrow> 0)
      | type_bool \<Rightarrow> V_bool (case ev_bool v of Some b \<Rightarrow> b | None \<Rightarrow> False)
      | type_string \<Rightarrow> V_string (ev_string v))"

definition ValueTypeName :: "value_type \<Rightarrow> string" where
  "ValueTypeName ty =
     (case ty of type_integer \<Rightarrow> ''integer'' | type_float \<Rightarrow> ''float'' | type_bool \<Rightarrow> ''bool'' | type_string \<Rightarrow> ''string'')"

section \<open>Entities\<close>

record entity =
  en_id :: u64
  en_values :: "string \<rightharpoonup> evalue"

definition Entity_new :: "u64 \<Rightarrow> entity" where
  "Entity_new entityid = \<lparr>en_id = entityid, en_values = Map.empty\<rparr>"

text \<open>\<^verbatim>\<open>operator[]\<close> and \<^verbatim>\<open>GetValue\<close> insert a default value for a name that is not there.\<close>

definition GetValue :: "string \<Rightarrow> entity \<Rightarrow> evalue \<times> entity" where
  "GetValue name e =
     (case en_values e (cstring name) of
        Some v \<Rightarrow> (v, e)
      | None \<Rightarrow> (Value_default, e\<lparr>en_values := (en_values e)(cstring name \<mapsto> Value_default)\<rparr>))"

text \<open>Assigning to the value of a name, through one of the overloads of \<^verbatim>\<open>set\<close>.\<close>

definition putValue :: "string \<Rightarrow> (evalue \<Rightarrow> evalue) \<Rightarrow> entity \<Rightarrow> entity" where
  "putValue name assign e =
     (case GetValue name e of (v, e1) \<Rightarrow> e1\<lparr>en_values := (en_values e1)(cstring name \<mapsto> assign v)\<rparr>)"

text \<open>The values of the JSON parser. An integer that fits no 64-bit type is a floating point number there.\<close>

datatype json =
  J_null | J_object | J_array | J_bool bool | J_integer int | J_double u32 | J_string string

datatype json_root = Root_object "(string \<times> json) list" | Root_other

definition IsInt :: "int \<Rightarrow> bool" where "IsInt n \<longleftrightarrow> - (2 ^ 31) \<le> n \<and> n < 2 ^ 31"
definition IsUint :: "int \<Rightarrow> bool" where "IsUint n \<longleftrightarrow> 0 \<le> n \<and> n < 2 ^ 32"
definition IsInt64 :: "int \<Rightarrow> bool" where "IsInt64 n \<longleftrightarrow> - (2 ^ 63) \<le> n \<and> n < 2 ^ 63"
definition IsUint64 :: "int \<Rightarrow> bool" where "IsUint64 n \<longleftrightarrow> 0 \<le> n \<and> n < 2 ^ 64"

text \<open>One member: \<open>None\<close> refuses the text, leaving what was done before it.\<close>

fun json_value :: "json \<Rightarrow> (evalue \<Rightarrow> evalue) option" where
  "json_value (J_double f) = Some (set_float f)"
| "json_value (J_integer n) =
     (if IsInt n then Some (set_integer n) else if IsUint n then Some (set_integer n)
      else if IsInt64 n then Some (set_integer n) else if IsUint64 n then Some (set_integer n) else None)"
| "json_value (J_string s) = Some (set_string (cstring s))"
| "json_value (J_bool b) = Some (set_bool b)"
| "json_value _ = None"

fun parse_members :: "(string \<times> json) list \<Rightarrow> entity \<Rightarrow> bool \<times> entity" where
  "parse_members [] e = (True, e)"
| "parse_members ((name, v) # ms) e =
     (if v = J_null \<or> v = J_object \<or> v = J_array then (False, e)
      else case json_value v of
             None \<Rightarrow> (False, snd (GetValue name e))
           | Some x \<Rightarrow> parse_members ms (putValue name x e))"

definition ParseFromString :: "(string \<Rightarrow> json_root option) \<Rightarrow> string \<Rightarrow> entity \<Rightarrow> bool \<times> entity" where
  "ParseFromString parse data e =
     (case parse data of None \<Rightarrow> (False, e) | Some Root_other \<Rightarrow> (False, e) | Some (Root_object ms) \<Rightarrow> parse_members ms e)"

fun value_text :: "(u32 \<Rightarrow> string) \<Rightarrow> value_data \<Rightarrow> string" where
  "value_text show_float (V_integer n) = dec_int n"
| "value_text show_float (V_float f) = show_float f"
| "value_text show_float (V_bool b) = (if b then ''true'' else ''false'')"
| "value_text show_float (V_string s) = [CHR 0x22] @ s @ [CHR 0x22]"

text \<open>\<open>order\<close> is the order in which the container of the values is traversed.\<close>

definition SerializeToString :: "(u32 \<Rightarrow> string) \<Rightarrow> string list \<Rightarrow> bool \<Rightarrow> entity \<Rightarrow> string" where
  "SerializeToString show_float order only_dirty e =
     ''{'' @ [CHR 0x22] @ ''id'' @ [CHR 0x22] @ '':'' @ dec_nat (unat (en_id e)) @
     concat (map (\<lambda>k. case en_values e k of
        None \<Rightarrow> []
      | Some v \<Rightarrow> if \<not> only_dirty \<or> ev_dirty v
          then '','' @ [CHR 0x22] @ k @ [CHR 0x22] @ '':'' @ value_text show_float (ev_data v) else []) order) @ ''}''"

definition entity_clear :: "entity \<Rightarrow> entity" where
  "entity_clear e = e\<lparr>en_values := Map.empty\<rparr>"

definition clearDirty :: "entity \<Rightarrow> entity" where
  "clearDirty e = e\<lparr>en_values := \<lambda>k. map_option (\<lambda>v. v\<lparr>ev_dirty := False\<rparr>) (en_values e k)\<rparr>"

definition HasMember :: "string \<Rightarrow> entity \<Rightarrow> bool" where
  "HasMember name e \<longleftrightarrow> en_values e (cstring name) \<noteq> None"

definition CHECK_VALUE_TYPE :: "string \<Rightarrow> value_type \<Rightarrow> entity \<Rightarrow> bool" where
  "CHECK_VALUE_TYPE name ty e = (case en_values e (cstring name) of None \<Rightarrow> False | Some v \<Rightarrow> ev_type v = ty)"

definition IsInteger :: "string \<Rightarrow> entity \<Rightarrow> bool" where "IsInteger name e = CHECK_VALUE_TYPE name type_integer e"
definition IsFloat :: "string \<Rightarrow> entity \<Rightarrow> bool" where "IsFloat name e = CHECK_VALUE_TYPE name type_float e"
definition IsBool :: "string \<Rightarrow> entity \<Rightarrow> bool" where "IsBool name e = CHECK_VALUE_TYPE name type_bool e"
definition IsString :: "string \<Rightarrow> entity \<Rightarrow> bool" where "IsString name e = CHECK_VALUE_TYPE name type_string e"

definition IsNumber :: "string \<Rightarrow> entity \<Rightarrow> bool" where
  "IsNumber name e \<longleftrightarrow> IsInteger name e \<or> IsFloat name e"

text \<open>
  \<^verbatim>\<open>GET_VALUE\<close> asserts that the name is there and that the value has the type, and then reads the
  field; reading a number that was never set is a fault of its own.
\<close>

definition GET_VALUE :: "string \<Rightarrow> value_type \<Rightarrow> (evalue \<Rightarrow> 'a option) \<Rightarrow> entity \<Rightarrow> 'a res" where
  "GET_VALUE name ty field e =
     (case en_values e (cstring name) of
        None \<Rightarrow> Inl AssertFailed
      | Some v \<Rightarrow> assertE (ev_type v = ty) (case field v of None \<Rightarrow> Inl UninitRead | Some x \<Rightarrow> Inr x))"

definition GetInteger :: "string \<Rightarrow> entity \<Rightarrow> int res" where
  "GetInteger name e = GET_VALUE name type_integer ev_integer e"

definition GetFloat :: "string \<Rightarrow> entity \<Rightarrow> u32 res" where
  "GetFloat name e = GET_VALUE name type_float ev_float e"

definition GetBool :: "string \<Rightarrow> entity \<Rightarrow> bool res" where
  "GetBool name e = GET_VALUE name type_bool ev_bool e"

definition GetString :: "string \<Rightarrow> entity \<Rightarrow> string res" where
  "GetString name e = GET_VALUE name type_string (\<lambda>v. Some (ev_string v)) e"

section \<open>The field of the type is set\<close>

definition value_ok :: "evalue \<Rightarrow> bool" where
  "value_ok v \<longleftrightarrow>
     (case ev_type v of type_integer \<Rightarrow> ev_integer v \<noteq> None | type_float \<Rightarrow> ev_float v \<noteq> None
      | type_bool \<Rightarrow> ev_bool v \<noteq> None | type_string \<Rightarrow> True)"

definition entity_ok :: "entity \<Rightarrow> bool" where
  "entity_ok e \<longleftrightarrow> (\<forall>v\<in>ran (en_values e). value_ok v)"

lemma value_ok_set [simp]:
  "value_ok Value_default" "value_ok (set_integer n v)" "value_ok (set_float f v)" "value_ok (set_bool b v)" "value_ok (set_string s v)"
  by (simp_all add: value_ok_def Value_default_def set_integer_def set_float_def set_bool_def set_string_def)

lemma GetValue_ok: "entity_ok e \<Longrightarrow> entity_ok (snd (GetValue name e))"
  by (auto simp: GetValue_def entity_ok_def ran_def split: option.splits)

lemma putValue_ok: "entity_ok e \<Longrightarrow> (\<And>v. value_ok (assign v)) \<Longrightarrow> entity_ok (putValue name assign e)"
  by (auto simp: putValue_def GetValue_def entity_ok_def ran_def split: option.splits)

lemma json_value_ok: "json_value j = Some assign \<Longrightarrow> value_ok (assign v)"
  by (cases j) (auto split: if_splits)

lemma parse_members_ok: "entity_ok e \<Longrightarrow> entity_ok (snd (parse_members ms e))"
proof (induction ms e rule: parse_members.induct)
  case (2 name v ms e)
  then show ?case using json_value_ok [of v] by (auto intro: GetValue_ok putValue_ok split: option.splits)
qed simp

lemma ParseFromString_ok: "entity_ok e \<Longrightarrow> entity_ok (snd (ParseFromString parse data e))"
  by (auto simp: ParseFromString_def parse_members_ok split: option.splits json_root.splits)

lemma entity_clear_ok: "entity_ok (entity_clear e)" and Entity_new_ok: "entity_ok (Entity_new entityid)"
  by (simp_all add: entity_ok_def entity_clear_def Entity_new_def)

lemma clearDirty_ok: "entity_ok e \<Longrightarrow> entity_ok (clearDirty e)"
  by (auto simp: entity_ok_def clearDirty_def ran_def value_ok_def split: value_type.splits)

section \<open>Numbers\<close>

lemma to_s64_signed: "to_s64 n = signed_take_bit 63 n"
  by (simp add: to_s64_def signed_of_int)

lemma to_s64_id: "- (2 ^ 63) \<le> n \<Longrightarrow> n < 2 ^ 63 \<Longrightarrow> to_s64 n = n"
  by (simp add: to_s64_signed signed_take_bit_int_eq_self)

lemma to_s64_high: "2 ^ 63 \<le> n \<Longrightarrow> n < 2 ^ 64 \<Longrightarrow> to_s64 n = n - 2 ^ 64"
proof -
  assume n: "2 ^ 63 \<le> n" "n < 2 ^ 64"
  have "to_s64 n = to_s64 (n - 2 ^ 64)"
    unfolding to_s64_signed signed_take_bit_eq_iff_take_bit_eq by (simp add: take_bit_eq_mod)
  also have "\<dots> = n - 2 ^ 64" using n by (intro to_s64_id) simp_all
  finally show ?thesis .
qed

text \<open>
  every JSON integer is accepted and kept in 64 bits. Values of the signed range are kept
  exactly; an unsigned value from \<open>2 ^ 63\<close> on, such as a large identifier, becomes negative.
\<close>

theorem entity_integer_range:
  assumes "- (2 ^ 63) \<le> n" and "n < 2 ^ 64"
  shows "\<exists>assign. json_value (J_integer n) = Some assign \<and> ev_data (assign v) = V_integer (if n < 2 ^ 63 then n else n - 2 ^ 64)"
proof -
  have "json_value (J_integer n) = Some (set_integer n)"
    using assms by (auto simp: IsInt_def IsUint_def IsInt64_def IsUint64_def)
  then show ?thesis using assms to_s64_id [of n] to_s64_high [of n] by (auto simp: set_integer_def ev_data_def)
qed

theorem entity_integer_range_witness:
  "\<exists>assign. json_value (J_integer (2 ^ 64 - 1)) = Some assign \<and> ev_data (assign Value_default) = V_integer (- 1)"
  using entity_integer_range [of "2 ^ 64 - 1" Value_default] by simp

section \<open>Typed access\<close>

fun assign_data :: "value_data \<Rightarrow> evalue \<Rightarrow> evalue" where
  "assign_data (V_integer n) = set_integer n"
| "assign_data (V_float f) = set_float f"
| "assign_data (V_bool b) = set_bool b"
| "assign_data (V_string s) = set_string s"

definition assign_all :: "(string \<times> value_data) list \<Rightarrow> entity \<Rightarrow> entity" where
  "assign_all asgs e = fold (\<lambda>(name, d). putValue name (assign_data d)) asgs e"

text \<open>The last assignment to a name.\<close>

definition last_assigned :: "(string \<times> value_data) list \<Rightarrow> string \<Rightarrow> value_data option" where
  "last_assigned asgs name = map_of (rev (map (\<lambda>(n, d). (cstring n, d)) asgs)) (cstring name)"

lemma assign_all_values:
  "rel_option (\<lambda>v d. (\<exists>u. v = assign_data d u)) (en_values (assign_all asgs (Entity_new entityid)) (cstring name)) (last_assigned asgs name)"
proof (induction asgs rule: rev_induct)
  case Nil
  show ?case by (simp add: assign_all_def last_assigned_def Entity_new_def)
next
  case (snoc a asgs)
  obtain n d where a: "a = (n, d)" by (cases a)
  let ?e = "assign_all asgs (Entity_new entityid)"
  have v: "en_values (assign_all (asgs @ [a]) (Entity_new entityid)) (cstring name) =
      (if cstring name = cstring n then Some (assign_data d (fst (GetValue n ?e))) else en_values ?e (cstring name))"
    by (auto simp: a assign_all_def putValue_def GetValue_def split: option.splits)
  have l: "last_assigned (asgs @ [a]) name = (if cstring name = cstring n then Some d else last_assigned asgs name)"
    by (simp add: a last_assigned_def)
  show ?case unfolding v l using snoc.IH by auto
qed

lemma assign_data_fields:
  "(ev_type (assign_data d u) = type_integer) = (\<exists>n. d = V_integer n)" "(ev_type (assign_data d u) = type_float) = (\<exists>f. d = V_float f)"
  "(ev_type (assign_data d u) = type_bool) = (\<exists>b. d = V_bool b)" "(ev_type (assign_data d u) = type_string) = (\<exists>s. d = V_string s)"
  by (cases d; simp add: set_integer_def set_float_def set_bool_def set_string_def)+

text \<open>
  C35: access is typed. After any assignments to members of an entity, of whatever types and also
  several to one member, a name is a member if it was assigned to, the test for a type holds
  exactly if the last assignment had that type, and the getter of that type returns the value that
  was assigned last (an integer cut to 64 bits); the getters of the other types abort, also when
  the member had their type before, and so do all four for a name that was never assigned to.
\<close>

theorem entity_access_typed:
  assumes e_def: "e = assign_all asgs (Entity_new entityid)"
  shows "HasMember name e = (last_assigned asgs name \<noteq> None) \<and>
    IsInteger name e = (\<exists>n. last_assigned asgs name = Some (V_integer n)) \<and>
    IsFloat name e = (\<exists>f. last_assigned asgs name = Some (V_float f)) \<and>
    IsBool name e = (\<exists>b. last_assigned asgs name = Some (V_bool b)) \<and>
    IsString name e = (\<exists>s. last_assigned asgs name = Some (V_string s)) \<and>
    GetInteger name e = (case last_assigned asgs name of Some (V_integer n) \<Rightarrow> Inr (to_s64 n) | _ \<Rightarrow> Inl AssertFailed) \<and>
    GetFloat name e = (case last_assigned asgs name of Some (V_float f) \<Rightarrow> Inr f | _ \<Rightarrow> Inl AssertFailed) \<and>
    GetBool name e = (case last_assigned asgs name of Some (V_bool b) \<Rightarrow> Inr b | _ \<Rightarrow> Inl AssertFailed) \<and>
    GetString name e = (case last_assigned asgs name of Some (V_string s) \<Rightarrow> Inr s | _ \<Rightarrow> Inl AssertFailed)"
proof (cases "last_assigned asgs name")
  case None
  then have "en_values e (cstring name) = None" using assign_all_values [of asgs entityid name] by (simp add: e_def)
  then show ?thesis using None
    by (simp add: HasMember_def IsInteger_def IsFloat_def IsBool_def IsString_def CHECK_VALUE_TYPE_def
        GetInteger_def GetFloat_def GetBool_def GetString_def GET_VALUE_def)
next
  case (Some d)
  then obtain u where v: "en_values e (cstring name) = Some (assign_data d u)"
    using assign_all_values [of asgs entityid name] by (auto simp: e_def option_rel_Some2)
  then show ?thesis using Some
    by (cases d) (simp_all add: HasMember_def IsInteger_def IsFloat_def IsBool_def IsString_def CHECK_VALUE_TYPE_def GetInteger_def
        GetFloat_def GetBool_def GetString_def GET_VALUE_def set_integer_def set_float_def set_bool_def set_string_def)
qed

theorem entity_access_typed_witness:
  "(let e = assign_all [(''a'', V_integer (2 ^ 64 - 1)), (''b'', V_bool True), (''a'', V_string ''x'')] (Entity_new 7)
    in GetString ''a'' e = Inr ''x'' \<and> GetInteger ''a'' e = Inl AssertFailed \<and> GetBool ''b'' e = Inr True \<and> \<not> HasMember ''c'' e)"
  using entity_access_typed [OF refl, of "''a''" "[(''a'', V_integer (2 ^ 64 - 1)), (''b'', V_bool True), (''a'', V_string ''x'')]" 7]
    entity_access_typed [OF refl, of "''b''" "[(''a'', V_integer (2 ^ 64 - 1)), (''b'', V_bool True), (''a'', V_string ''x'')]" 7]
    entity_access_typed [OF refl, of "''c''" "[(''a'', V_integer (2 ^ 64 - 1)), (''b'', V_bool True), (''a'', V_string ''x'')]" 7]
  by (simp add: Let_def last_assigned_def cstring_def)

end
