(* ===== verification/Record_Server.thy ===== *)
theory Record_Server
  imports Record_Protocol Entity_Values
begin

text \<open>
  \<^verbatim>\<open>server/recordserver\<close>: the slots of a shard, each with a database, a cache of entities and
  two queues; the statements that store and load an entity; the answers to requests; and the
  service that distributes requests over shards and slots. The database is an argument: a state
  of any type and what a statement does to it. So are the JSON parser, the text of floating
  point numbers and the order in which a container of values is traversed.
\<close>

section \<open>Types of fields\<close>

text \<open>The field types that the server knows; the others are numbered as in the client library.\<close>

datatype field_type =
  MYSQL_TINY | MYSQL_LONG | MYSQL_LONGLONG | MYSQL_FLOAT | MYSQL_VAR_STRING | MYSQL_BLOB | MYSQL_LONG_BLOB | MYSQL_OTHER nat

definition known_types :: "field_type list" where
  "known_types = [MYSQL_TINY, MYSQL_LONG, MYSQL_LONGLONG, MYSQL_FLOAT, MYSQL_VAR_STRING, MYSQL_BLOB, MYSQL_LONG_BLOB]"

text \<open>The table of allowed conversions, row by row; \<open>None\<close> for a type it does not have.\<close>

definition m2m_row :: "field_type \<Rightarrow> bool list option" where
  "m2m_row from_type =
     (case from_type of
        MYSQL_TINY \<Rightarrow> Some [False, True, True, True, True, True, True]
      | MYSQL_LONG \<Rightarrow> Some [False, False, True, True, True, True, True]
      | MYSQL_LONGLONG \<Rightarrow> Some [False, False, False, True, True, True, True]
      | MYSQL_FLOAT \<Rightarrow> Some [True, True, True, False, True, True, True]
      | MYSQL_VAR_STRING \<Rightarrow> Some [True, True, True, True, False, True, True]
      | MYSQL_BLOB \<Rightarrow> Some [True, True, True, True, False, False, True]
      | MYSQL_LONG_BLOB \<Rightarrow> Some [True, True, True, True, False, False, False]
      | MYSQL_OTHER n \<Rightarrow> None)"

definition m2m :: "field_type \<Rightarrow> field_type \<Rightarrow> bool option" where
  "m2m from_type to_type = (case m2m_row from_type of None \<Rightarrow> None | Some row \<Rightarrow> map_of (zip known_types row) to_type)"

definition m2string :: "field_type \<Rightarrow> string option" where
  "m2string = map_of (zip known_types [''TINYINT'', ''INT'', ''BIGINT'', ''FLOAT'', ''VARCHAR(128)'', ''TEXT'', ''LONGTEXT''])"

definition DEF_VARCHAR_LENGTH :: nat where
  "DEF_VARCHAR_LENGTH = 128"

fun v2m :: "value_data \<Rightarrow> field_type" where
  "v2m (V_integer n) = (if n > 2 ^ 31 - 1 \<or> n < - (2 ^ 31) then MYSQL_LONGLONG else MYSQL_LONG)"
| "v2m (V_bool b) = MYSQL_TINY"
| "v2m (V_float f) = MYSQL_FLOAT"
| "v2m (V_string s) =
     (if length s > 65535 then MYSQL_LONG_BLOB else if length s > DEF_VARCHAR_LENGTH then MYSQL_BLOB else MYSQL_VAR_STRING)"

section \<open>The surroundings of a slot\<close>

record db_field =
  df_org_name :: string
  df_type :: field_type
  df_flags :: u32
  df_length :: u64

record db_result =
  dr_fields :: "db_field list"
  dr_rows :: "string option list list"

record 'db surroundings =
  e_command :: "string \<Rightarrow> 'db \<Rightarrow> bool \<times> 'db"
  e_query :: "string \<Rightarrow> 'db \<Rightarrow> db_result option \<times> 'db"
  e_order :: "(string \<rightharpoonup> evalue) \<Rightarrow> string list"
  e_json :: "string \<Rightarrow> json_root option"
  e_text :: "u32 \<Rightarrow> string"
  e_text2 :: "u32 \<Rightarrow> string"
  e_stof :: "string \<Rightarrow> u32 option"

abbreviation (input) UNSIGNED_FLAG :: u32 where "UNSIGNED_FLAG \<equiv> 32"

text \<open>\<^verbatim>\<open>std::stoul\<close> takes a sign and negates in 64 bits.\<close>

definition std_stoul :: "string \<Rightarrow> int option" where
  "std_stoul s = (case number_prefix s of None \<Rightarrow> None
     | Some v \<Rightarrow> if - (2 ^ 64) < v \<and> v < 2 ^ 64 then Some (v mod 2 ^ 64) else None)"

text \<open>\<open>m2value\<close>: \<open>None\<close> for a type without conversion, \<open>Some None\<close> for a conversion that throws.\<close>

definition m2value :: "'db surroundings \<Rightarrow> field_type \<Rightarrow> string \<Rightarrow> bool \<Rightarrow> (evalue \<Rightarrow> evalue) option option" where
  "m2value env ty s is_unsigned =
     (case ty of
        MYSQL_TINY \<Rightarrow> Some (map_option (\<lambda>v. set_bool (v \<noteq> 0)) (std_stoi s))
      | MYSQL_LONG \<Rightarrow> Some (map_option set_integer (if is_unsigned then std_stoul s else std_stol s))
      | MYSQL_LONGLONG \<Rightarrow> Some (map_option set_integer (if is_unsigned then std_stoul s else std_stol s))
      | MYSQL_FLOAT \<Rightarrow> Some (map_option set_float (e_stof env s))
      | MYSQL_VAR_STRING \<Rightarrow> Some (Some (set_string s))
      | MYSQL_BLOB \<Rightarrow> Some (Some (set_string s))
      | MYSQL_LONG_BLOB \<Rightarrow> Some (Some (set_string s))
      | MYSQL_OTHER n \<Rightarrow> None)"

section \<open>Slots\<close>

record FieldDescriptor =
  fd_type :: field_type
  fd_flags :: u32
  fd_length :: u64

record 'db slot_db =
  sl_shard :: u32
  sl_ident :: u32
  sl_db :: 'db
  sl_rlist :: "(SOCKET \<times> bytes) list"
  sl_wlist :: "(SOCKET \<times> bytes) list"
  sl_entities :: "u64 \<rightharpoonup> entity"
  sl_tables :: "string \<rightharpoonup> (string \<rightharpoonup> FieldDescriptor)"

definition run_command :: "'db surroundings \<Rightarrow> string \<Rightarrow> 'db slot_db \<Rightarrow> bool \<times> 'db slot_db" where
  "run_command env sql sl = (let (rc, db) = e_command env sql (sl_db sl) in (rc, sl\<lparr>sl_db := db\<rparr>))"

definition run_query :: "'db surroundings \<Rightarrow> string \<Rightarrow> 'db slot_db \<Rightarrow> db_result option \<times> 'db slot_db" where
  "run_query env sql sl = (let (res, db) = e_query env sql (sl_db sl) in (res, sl\<lparr>sl_db := db\<rparr>))"

text \<open>\<^verbatim>\<open>this->tables[table]\<close> makes an empty entry for a table that is not there.\<close>

definition touch_table :: "string \<Rightarrow> 'db slot_db \<Rightarrow> 'db slot_db" where
  "touch_table table sl = (if sl_tables sl table = None then sl\<lparr>sl_tables := (sl_tables sl)(table \<mapsto> Map.empty)\<rparr> else sl)"

definition desc_fields :: "string \<Rightarrow> 'db slot_db \<Rightarrow> string \<rightharpoonup> FieldDescriptor" where
  "desc_fields table sl = (case sl_tables sl table of None \<Rightarrow> Map.empty | Some d \<Rightarrow> d)"

fun load_fields :: "db_field list \<Rightarrow> (string \<rightharpoonup> FieldDescriptor) \<Rightarrow> bool \<times> (string \<rightharpoonup> FieldDescriptor)" where
  "load_fields [] d = (True, d)"
| "load_fields (f # fs) d =
     (if m2string (df_type f) = None then (False, d)
      else load_fields fs (d(df_org_name f \<mapsto> \<lparr>fd_type = df_type f, fd_flags = df_flags f, fd_length = df_length f\<rparr>)))"

definition BQ :: string where
  "BQ = [CHR 0x60]"

definition loadField :: "'db surroundings \<Rightarrow> string \<Rightarrow> 'db slot_db \<Rightarrow> (bool \<times> 'db slot_db) res" where
  "loadField env table sl =
     (let sl1 = touch_table table sl;
          (result, sl2) = run_query env (''SELECT * FROM '' @ BQ @ table @ BQ @ '' LIMIT 1'') sl1
      in case result of
           None \<Rightarrow> Inl AssertFailed
         | Some r \<Rightarrow>
             let (rc, d) = load_fields (dr_fields r) (desc_fields table sl2)
             in Inr (rc, sl2\<lparr>sl_tables := (sl_tables sl2)(table \<mapsto> d)\<rparr>))"

text \<open>Statements that change a table. A type without a name is refused.\<close>

definition sql_alter :: "string \<Rightarrow> string \<Rightarrow> string" where
  "sql_alter table rest = ''ALTER TABLE '' @ BQ @ table @ BQ @ rest"

definition addField :: "'db surroundings \<Rightarrow> string \<Rightarrow> string \<Rightarrow> field_type \<Rightarrow> 'db slot_db \<Rightarrow> bool \<times> 'db slot_db" where
  "addField env table field_name ty sl =
     (case m2string ty of
        None \<Rightarrow> (False, sl)
      | Some name \<Rightarrow> run_command env (sql_alter table ('' ADD '' @ BQ @ field_name @ BQ @ '' '' @ name @ '' NOT NULL'')) sl)"

definition alterField :: "'db surroundings \<Rightarrow> string \<Rightarrow> string \<Rightarrow> field_type \<Rightarrow> 'db slot_db \<Rightarrow> bool \<times> 'db slot_db" where
  "alterField env table field_name ty sl =
     (case m2string ty of
        None \<Rightarrow> (False, sl)
      | Some name \<Rightarrow> run_command env (sql_alter table ('' MODIFY '' @ BQ @ field_name @ BQ @ '' '' @ name @ '' NOT NULL'')) sl)"

definition removeField :: "'db surroundings \<Rightarrow> string \<Rightarrow> string \<Rightarrow> 'db slot_db \<Rightarrow> bool \<times> 'db slot_db" where
  "removeField env table field_name sl = run_command env (sql_alter table ('' DROP '' @ BQ @ field_name @ BQ @ '' '')) sl"

definition addKey :: "'db surroundings \<Rightarrow> string \<Rightarrow> string \<Rightarrow> 'db slot_db \<Rightarrow> bool \<times> 'db slot_db" where
  "addKey env table field_name sl =
     run_command env (sql_alter table ('' ADD KEY '' @ BQ @ field_name @ BQ @ ''('' @ BQ @ field_name @ BQ @ '')'')) sl"

definition removeKey :: "'db surroundings \<Rightarrow> string \<Rightarrow> string \<Rightarrow> 'db slot_db \<Rightarrow> bool \<times> 'db slot_db" where
  "removeKey env table field_name sl = run_command env (sql_alter table ('' DROP KEY '' @ BQ @ field_name @ BQ @ '' '')) sl"

definition removeEntity :: "'db surroundings \<Rightarrow> string \<Rightarrow> u64 \<Rightarrow> 'db slot_db \<Rightarrow> bool \<times> 'db slot_db" where
  "removeEntity env table objectid sl =
     run_command env (''DELETE FROM TABLE '' @ BQ @ table @ BQ @ '' WHERE id = '' @ dec_nat (unat objectid)) sl"

definition createTable :: "'db surroundings \<Rightarrow> string \<Rightarrow> entity \<Rightarrow> 'db slot_db \<Rightarrow> bool \<times> 'db slot_db" where
  "createTable env table e sl =
     run_command env (''CREATE TABLE '' @ BQ @ table @ BQ @ '' ('' @ BQ @ ''id'' @ BQ @ '' BIGINT UNSIGNED NOT NULL PRIMARY KEY '' @
       concat (map (\<lambda>k. case en_values e k of
          None \<Rightarrow> []
        | Some v \<Rightarrow> if k = ''id'' then [] else
            (case m2string (v2m (ev_data v)) of
               None \<Rightarrow> [] | Some name \<Rightarrow> '', '' @ BQ @ k @ BQ @ '' '' @ name @ '' NOT NULL'')) (e_order env (en_values e))) @
       '') ENGINE=InnoDB DEFAULT CHARSET=utf8'') sl"

section \<open>Storing and loading\<close>

text \<open>The text of a value in a statement. A string is put between quotes as it is.\<close>

fun sql_value :: "'db surroundings \<Rightarrow> value_data \<Rightarrow> string" where
  "sql_value env (V_integer n) = dec_int n"
| "sql_value env (V_float f) = e_text env f"
| "sql_value env (V_bool b) = (if b then ''1'' else ''0'')"
| "sql_value env (V_string s) = [CHR 0x27] @ s @ [CHR 0x27]"

text \<open>
  The field of one value is made fit for it: a missing field is added, a field of another type
  is converted when the table of conversions says so. \<open>False\<close> ends the whole operation.
\<close>

definition prepare_field :: "'db surroundings \<Rightarrow> string \<Rightarrow> string \<Rightarrow> field_type \<Rightarrow> 'db slot_db \<Rightarrow> (bool \<times> 'db slot_db) res" where
  "prepare_field env table k ft sl =
     bindE (if desc_fields table sl k = None
            then let (rc, sl1) = addField env table k ft sl
                 in if \<not> rc then Inr (False, sl1) else bindE (loadField env table sl1) (\<lambda>(rc1, sl2). Inr (True, sl2))
            else Inr (True, sl)) (\<lambda>(rc, sl1).
       if \<not> rc then Inr (False, sl1)
       else case desc_fields table sl1 k of
         None \<Rightarrow> Inr (False, sl1\<lparr>sl_tables := (sl_tables sl1)(table \<mapsto> (desc_fields table sl1)
             (k \<mapsto> \<lparr>fd_type = MYSQL_OTHER 0, fd_flags = 0, fd_length = 0\<rparr>))\<rparr>)
       | Some fd \<Rightarrow>
           (case m2m (fd_type fd) ft of
              None \<Rightarrow> Inr (False, sl1)
            | Some False \<Rightarrow> Inr (True, sl1)
            | Some True \<Rightarrow>
                let (rc2, sl2) = alterField env table k ft sl1
                in if \<not> rc2 then Inr (False, sl2) else bindE (loadField env table sl2) (\<lambda>(rc3, sl3). Inr (True, sl3))))"

definition comma :: "string \<Rightarrow> string" where
  "comma s = (if s \<noteq> [] then s @ '','' else s)"

fun serialize_loop :: "'db surroundings \<Rightarrow> string \<Rightarrow> entity \<Rightarrow> string list \<Rightarrow> string \<Rightarrow> string \<Rightarrow> string \<Rightarrow> 'db slot_db \<Rightarrow>
    ((string \<times> string \<times> string) option \<times> 'db slot_db) res" where
  "serialize_loop env table e [] sf si su sl = Inr (Some (sf, si, su), sl)"
| "serialize_loop env table e (k # ks) sf si su sl =
     (case en_values e k of
        None \<Rightarrow> serialize_loop env table e ks sf si su sl
      | Some v \<Rightarrow>
          bindE (prepare_field env table k (v2m (ev_data v)) sl) (\<lambda>(rc, sl1).
            if \<not> rc then Inr (None, sl1)
            else serialize_loop env table e ks (comma sf @ BQ @ k @ BQ) (comma si @ sql_value env (ev_data v))
                   (comma su @ BQ @ k @ BQ @ ''='' @ sql_value env (ev_data v)) sl1))"

definition sql_insert :: "string \<Rightarrow> string \<Rightarrow> string \<Rightarrow> string \<Rightarrow> string" where
  "sql_insert table sf si su =
     ''INSERT INTO '' @ BQ @ table @ BQ @ '' ('' @ sf @ '') VALUES ('' @ si @ '') ON DUPLICATE KEY UPDATE '' @ su"

definition slot_serialize :: "'db surroundings \<Rightarrow> string \<Rightarrow> entity \<Rightarrow> 'db slot_db \<Rightarrow> (bool \<times> 'db slot_db) res" where
  "slot_serialize env table e sl =
     bindE (if sl_tables sl table = None
            then let (rc, sl1) = createTable env table e sl
                 in if \<not> rc then Inr (False, sl1) else loadField env table sl1
            else Inr (True, sl)) (\<lambda>(rc, sl1).
       if \<not> rc then Inr (False, sl1)
       else bindE (serialize_loop env table e (e_order env (en_values e)) [] [] [] sl1) (\<lambda>(texts, sl2).
         case texts of
           None \<Rightarrow> Inr (False, sl2)
         | Some (sf, si, su) \<Rightarrow> Inr (run_command env (sql_insert table sf si su) sl2)))"

text \<open>
  One column of a row. A column that the slot does not know, or whose type it cannot convert, is
  passed over; a conversion that throws, also for NULL, leaves the default value.
\<close>

definition load_column :: "'db surroundings \<Rightarrow> (string \<rightharpoonup> FieldDescriptor) \<Rightarrow> db_field \<Rightarrow> string option \<Rightarrow> entity \<Rightarrow> entity" where
  "load_column env d f cell e =
     (if d (df_org_name f) = None then e
      else case m2value env (df_type f) (case cell of None \<Rightarrow> [] | Some s \<Rightarrow> s) (df_flags f AND UNSIGNED_FLAG \<noteq> 0) of
        None \<Rightarrow> e
      | Some x \<Rightarrow> (case (if cell = None then None else x) of
            None \<Rightarrow> snd (GetValue (df_org_name f) e)
          | Some v \<Rightarrow> putValue (df_org_name f) v e))"

fun load_row :: "'db surroundings \<Rightarrow> (string \<rightharpoonup> FieldDescriptor) \<Rightarrow> db_field list \<Rightarrow> string option list \<Rightarrow> entity \<Rightarrow> entity" where
  "load_row env d (f # fs) (c # cs) e = load_row env d fs cs (load_column env d f c e)"
| "load_row env d _ _ e = e"

definition slot_unserialize :: "'db surroundings \<Rightarrow> string \<Rightarrow> u64 \<Rightarrow> 'db slot_db \<Rightarrow> entity option \<times> 'db slot_db" where
  "slot_unserialize env table objectid sl =
     (let sl1 = touch_table table sl;
          (result, sl2) = run_query env (''SELECT * FROM '' @ BQ @ table @ BQ @ '' WHERE id = '' @ dec_nat (unat objectid)) sl1
      in case result of
           None \<Rightarrow> (None, sl2)
         | Some r \<Rightarrow> (case dr_rows r of
               [] \<Rightarrow> (None, sl2)
             | row # rows \<Rightarrow> (Some (load_row env (desc_fields table sl2) (dr_fields r) row (Entity_new objectid)), sl2)))"

fun alter_loop :: "'db surroundings \<Rightarrow> string \<Rightarrow> (string \<times> json) list \<Rightarrow> 'db slot_db \<Rightarrow> bool \<times> 'db slot_db" where
  "alter_loop env table [] sl = (True, sl)"
| "alter_loop env table ((name, v) # ms) sl =
     (case v of
        J_string s \<Rightarrow>
          if desc_fields table sl (cstring name) = None then (False, sl)
          else if cstring s = ''ADD_KEY'' then alter_loop env table ms (snd (addKey env table (cstring name) sl))
          else if cstring s = ''DROP_KEY'' then alter_loop env table ms (snd (removeKey env table (cstring name) sl))
          else if cstring s = ''DROP_FIELD'' then alter_loop env table ms (snd (removeField env table (cstring name) sl))
          else (False, sl)
      | _ \<Rightarrow> (False, sl))"

definition alterTable :: "'db surroundings \<Rightarrow> string \<Rightarrow> string \<Rightarrow> 'db slot_db \<Rightarrow> bool \<times> 'db slot_db" where
  "alterTable env table js sl =
     (case e_json env js of
        None \<Rightarrow> (False, sl)
      | Some Root_other \<Rightarrow> (False, sl)
      | Some (Root_object ms) \<Rightarrow> alter_loop env table ms (touch_table table sl))"

section \<open>Requests\<close>

text \<open>An answer goes to the end of the read list. The table is copied from the request.\<close>

definition slot_answer :: "SOCKET \<Rightarrow> u16 \<Rightarrow> u32 \<Rightarrow> bytes \<Rightarrow> u64 \<Rightarrow> bytes \<Rightarrow> 'db slot_db \<Rightarrow> 'db slot_db" where
  "slot_answer s ident shard request objectid rest sl =
     sl\<lparr>sl_rlist := sl_rlist sl @
       [(s, record_message ident shard (strncpy16 (take 16 (drop 16 request))) objectid rest)]\<rparr>"

definition releaseEntity :: "u64 \<Rightarrow> 'db slot_db \<Rightarrow> 'db slot_db" where
  "releaseEntity objectid sl = sl\<lparr>sl_entities := (sl_entities sl)(objectid := None)\<rparr>"

definition on_serialize :: "'db surroundings \<Rightarrow> SOCKET \<Rightarrow> bytes \<Rightarrow> u32 \<Rightarrow> u64 \<Rightarrow> 'db slot_db \<Rightarrow> 'db slot_db res" where
  "on_serialize env s m shard objectid sl =
     (let answer = (\<lambda>retval sl. slot_answer s ObjectSerializeResponse shard m objectid (le_bytes (retval :: u32)) sl);
          e = (case sl_entities sl objectid of Some e \<Rightarrow> e | None \<Rightarrow> Entity_new objectid)
      in bindE (rm_data 40 m) (\<lambda>data.
         let (rc, e1) = ParseFromString (e_json env) (string_of_bytes data) e;
             sl1 = sl\<lparr>sl_entities := (sl_entities sl)(objectid \<mapsto> e1)\<rparr>
         in if \<not> rc then Inr (answer RECORD_ILLEGAL_JSON_STRING (releaseEntity (en_id e1) sl1))
            else bindE (rm_table m) (\<lambda>table. bindE (slot_serialize env table e1 sl1) (\<lambda>(rc1, sl2).
              if \<not> rc1 then Inr (answer RECORD_SERIALIZE_ERROR (releaseEntity (en_id e1) sl2))
              else Inr (answer RECORD_OK sl2)))))"

definition on_unserialize :: "'db surroundings \<Rightarrow> SOCKET \<Rightarrow> bytes \<Rightarrow> u32 \<Rightarrow> u64 \<Rightarrow> 'db slot_db \<Rightarrow> 'db slot_db res" where
  "on_unserialize env s m shard objectid sl =
     (let answer = (\<lambda>retval data sl. slot_answer s ObjectUnserializeResponse shard m objectid
            (le_bytes (retval :: u32) @ le_bytes (of_nat (length data) :: u32) @ data) sl)
      in bindE (case sl_entities sl objectid of
                  Some e \<Rightarrow> Inr (Some e, sl)
                | None \<Rightarrow> bindE (rm_table m) (\<lambda>table. Inr (slot_unserialize env table objectid sl))) (\<lambda>(found, sl1).
         case found of
           None \<Rightarrow> Inr (answer RECORD_NOT_FOUND_OBJECT [] sl1)
         | Some e \<Rightarrow>
             let js = SerializeToString (e_text2 env) (e_order env (en_values e)) True e;
                 sl2 = (if sl_entities sl1 objectid = None then sl1\<lparr>sl_entities := (sl_entities sl1)(objectid \<mapsto> e)\<rparr> else sl1)
             in Inr (answer RECORD_OK (bytes_of_string js) sl2)))"

definition on_delete :: "'db surroundings \<Rightarrow> SOCKET \<Rightarrow> bytes \<Rightarrow> u32 \<Rightarrow> u64 \<Rightarrow> 'db slot_db \<Rightarrow> 'db slot_db res" where
  "on_delete env s m shard objectid sl =
     (let sl1 = sl\<lparr>sl_entities := (sl_entities sl)(objectid := None)\<rparr>
      in bindE (rm_table m) (\<lambda>table.
         let (rc, sl2) = removeEntity env table objectid sl1
         in Inr (slot_answer s ObjectDeleteResponse shard m objectid (le_bytes (if rc then RECORD_OK else RECORD_DELETE_ERROR)) sl2)))"

definition on_alter :: "'db surroundings \<Rightarrow> SOCKET \<Rightarrow> bytes \<Rightarrow> u32 \<Rightarrow> u64 \<Rightarrow> 'db slot_db \<Rightarrow> 'db slot_db res" where
  "on_alter env s m shard objectid sl =
     bindE (rm_table m) (\<lambda>table. bindE (rm_data 40 m) (\<lambda>data.
       let (rc, sl1) = alterTable env table (string_of_bytes data) sl
       in Inr (slot_answer s ObjectAlterResponse shard m objectid (le_bytes (if rc then RECORD_OK else RECORD_DELETE_ERROR)) sl1)))"

definition slot_handle :: "'db surroundings \<Rightarrow> SOCKET \<times> bytes \<Rightarrow> 'db slot_db \<Rightarrow> 'db slot_db res" where
  "slot_handle env request sl =
     (case request of (s, m) \<Rightarrow>
        bindE (rm_ident m) (\<lambda>ident.
          if ident = ObjectSerializeRequest \<or> ident = ObjectUnserializeRequest \<or> ident = ObjectDeleteRequest \<or> ident = ObjectAlterRequest
          then bindE (rm_shard m) (\<lambda>shard. assertE (shard = sl_shard sl) (bindE (rm_objectid m) (\<lambda>objectid.
                 if ident = ObjectSerializeRequest then on_serialize env s m shard objectid sl
                 else if ident = ObjectUnserializeRequest then on_unserialize env s m shard objectid sl
                 else if ident = ObjectDeleteRequest then on_delete env s m shard objectid sl
                 else on_alter env s m shard objectid sl)))
          else Inr sl))"

text \<open>
  \<^verbatim>\<open>synchronous\<close> works off the write list as long as it gets the lock; \<open>n\<close> is the number of
  times it does.
\<close>

fun synchronous :: "'db surroundings \<Rightarrow> nat \<Rightarrow> 'db slot_db \<Rightarrow> 'db slot_db res" where
  "synchronous env 0 sl = Inr sl"
| "synchronous env (Suc n) sl =
     (case sl_wlist sl of
        [] \<Rightarrow> Inr sl
      | request # q \<Rightarrow> bindE (slot_handle env request (sl\<lparr>sl_wlist := q\<rparr>)) (synchronous env n))"

section \<open>Shards and service\<close>

record 'db process =
  rp_ident :: u32
  rp_slots :: "'db slot_db list"

definition slot_push :: "SOCKET \<Rightarrow> bytes \<Rightarrow> 'db slot_db \<Rightarrow> 'db slot_db" where
  "slot_push s m sl = sl\<lparr>sl_wlist := sl_wlist sl @ [(s, m)]\<rparr>"

text \<open>\<open>slots\<close> is the configured number of slots.\<close>

definition rp_request :: "u32 \<Rightarrow> u32 \<Rightarrow> u64 \<Rightarrow> SOCKET \<Rightarrow> bytes \<Rightarrow> 'db process \<Rightarrow> (bool \<times> 'db process) res" where
  "rp_request slots shard objectid s m rp =
     assertE (shard = rp_ident rp)
       (let hashid = unat objectid mod unat slots
        in assertE (hashid < length (rp_slots rp))
             (Inr (True, rp\<lparr>rp_slots := (rp_slots rp)[hashid := slot_push s m (rp_slots rp ! hashid)]\<rparr>)))"

text \<open>
  The answers of a slot are sent as long as the lock is free, \<open>n\<close> times; an answer for a
  connection that is gone is dropped.
\<close>

fun slot_update :: "nat \<Rightarrow> 'db slot_db \<Rightarrow> service \<Rightarrow> ('db slot_db \<times> service) res" where
  "slot_update 0 sl ns = Inr (sl, ns)"
| "slot_update (Suc n) sl ns =
     (case sl_rlist sl of
        [] \<Rightarrow> Inr (sl, ns)
      | (s, m) # q \<Rightarrow>
          let sl1 = sl\<lparr>sl_rlist := q\<rparr>
          in case ns_getNetworkInterface s ns of
               None \<Rightarrow> slot_update n sl1 ns
             | Some task \<Rightarrow> bindE (ns_send task (take (unat (netmsg_len m)) m) ns) (slot_update n sl1))"

fun slots_update :: "nat list \<Rightarrow> 'db slot_db list \<Rightarrow> service \<Rightarrow> ('db slot_db list \<times> service) res" where
  "slots_update (n # ns) (sl # sls) srv =
     bindE (slot_update n sl srv) (\<lambda>(sl1, srv1). bindE (slots_update ns sls srv1) (\<lambda>(sls1, srv2). Inr (sl1 # sls1, srv2)))"
| "slots_update _ sls srv = Inr (sls, srv)"

definition rp_update :: "nat list \<Rightarrow> 'db process \<Rightarrow> service \<Rightarrow> ('db process \<times> service) res" where
  "rp_update ns rp srv = bindE (slots_update ns (rp_slots rp) srv) (\<lambda>(sls, srv1). Inr (rp\<lparr>rp_slots := sls\<rparr>, srv1))"

type_synonym 'db manager = "u32 \<rightharpoonup> 'db process"

definition mgr_request :: "u32 \<Rightarrow> u32 \<Rightarrow> u64 \<Rightarrow> SOCKET \<Rightarrow> bytes \<Rightarrow> 'db manager \<Rightarrow> (bool \<times> 'db manager) res" where
  "mgr_request slots shard objectid s m mgr =
     (case mgr shard of
        None \<Rightarrow> Inr (False, mgr)
      | Some rp \<Rightarrow> bindE (rp_request slots shard objectid s m rp) (\<lambda>(rc, rp1). Inr (rc, mgr(shard \<mapsto> rp1))))"

text \<open>
  The parser of the service. The length is compared with the size that the type of the message
  demands; for messages with data this reads a field that a shorter message does not have.
\<close>

definition rs_msgParser :: "u32 \<Rightarrow> SOCKET \<Rightarrow> bytes \<Rightarrow> 'db manager \<Rightarrow> (bool \<times> 'db manager) res" where
  "rs_msgParser slots s m mgr =
     (let forward = (\<lambda>size. if unat (netmsg_len m) \<noteq> size then Inr (False, mgr)
            else bindE (rm_shard m) (\<lambda>shard. bindE (rm_objectid m) (\<lambda>objectid. mgr_request slots shard objectid s m mgr)))
      in bindE (rm_ident m) (\<lambda>ident.
         if ident = ObjectSerializeRequest \<or> ident = ObjectSelectRequest \<or> ident = ObjectAlterRequest
         then bindE (size_with_data m) forward
         else if ident = ObjectUnserializeRequest \<or> ident = ObjectDeleteRequest then forward size_plain
         else Inr (False, mgr)))"

text \<open>A message that is not accepted closes its connection; an accepted one is released by its slot.\<close>

definition rs_onMessage :: "u32 \<Rightarrow> SOCKET \<Rightarrow> bytes \<Rightarrow> 'db manager \<Rightarrow> service \<Rightarrow> (bool \<times> 'db manager \<times> service) res" where
  "rs_onMessage slots s m mgr ns =
     bindE (rs_msgParser slots s m mgr) (\<lambda>(rc, mgr1).
       if rc then Inr (False, mgr1, ns) else bindE (ns_close s ns) (\<lambda>ns1. Inr (True, mgr1, ns1)))"

section \<open>Conversions follow the rules\<close>

text \<open>The families of types, ordered by size.\<close>

fun family :: "field_type \<Rightarrow> nat" where
  "family MYSQL_TINY = 0" | "family MYSQL_LONG = 0" | "family MYSQL_LONGLONG = 0"
| "family MYSQL_FLOAT = 1"
| "family MYSQL_VAR_STRING = 2" | "family MYSQL_BLOB = 2" | "family MYSQL_LONG_BLOB = 2"
| "family (MYSQL_OTHER n) = 3"

fun rank :: "field_type \<Rightarrow> nat" where
  "rank MYSQL_TINY = 0" | "rank MYSQL_LONG = 1" | "rank MYSQL_LONGLONG = 2"
| "rank MYSQL_FLOAT = 0"
| "rank MYSQL_VAR_STRING = 0" | "rank MYSQL_BLOB = 1" | "rank MYSQL_LONG_BLOB = 2"
| "rank (MYSQL_OTHER n) = 0"

lemma m2m_rules:
  "m2m ft gt = (if ft \<in> set known_types \<and> gt \<in> set known_types
     then Some (family ft \<noteq> family gt \<or> rank ft < rank gt) else None)"
  by (cases ft; cases gt) (simp_all add: m2m_def m2m_row_def known_types_def)

text \<open>
  C32: the table of conversions is what its three rules say. Between two types that the server
  knows a field is converted exactly when the types are of different families, or of the same
  family and the new one is larger.
\<close>

theorem record_conversion_rules:
  "m2m ft gt = (if ft \<in> set known_types \<and> gt \<in> set known_types
     then Some (family ft \<noteq> family gt \<or> rank ft < rank gt) else None)"
  by (rule m2m_rules)

theorem record_conversion_rules_witness:
  "m2m MYSQL_LONG MYSQL_LONGLONG = Some True \<and> m2m MYSQL_LONGLONG MYSQL_LONG = Some False \<and> m2m MYSQL_FLOAT MYSQL_TINY = Some True"
  using record_conversion_rules [of MYSQL_LONG MYSQL_LONGLONG] record_conversion_rules [of MYSQL_LONGLONG MYSQL_LONG]
    record_conversion_rules [of MYSQL_FLOAT MYSQL_TINY]
  by (simp add: known_types_def)

section \<open>Answers\<close>

text \<open>Storing and loading change the database and the known tables of a slot, and nothing else.\<close>

definition only_db :: "'db slot_db \<Rightarrow> 'db slot_db \<Rightarrow> bool" where
  "only_db sl sl' \<longleftrightarrow> sl_rlist sl' = sl_rlist sl \<and> sl_wlist sl' = sl_wlist sl \<and> sl_shard sl' = sl_shard sl \<and>
     sl_entities sl' = sl_entities sl"

lemma only_db_refl [simp]: "only_db sl sl"
  by (simp add: only_db_def)

lemma only_db_trans: "only_db a b \<Longrightarrow> only_db b c \<Longrightarrow> only_db a c"
  by (simp add: only_db_def)

lemma only_db_update [simp]:
  "only_db sl (sl'\<lparr>sl_tables := t\<rparr>) = only_db sl sl'"
  "only_db sl (sl'\<lparr>sl_db := db\<rparr>) = only_db sl sl'"
  by (simp_all add: only_db_def)

lemma run_command_queues [simp]: "only_db sl (snd (run_command env sql sl))"
  by (simp add: run_command_def split_def Let_def)

lemma run_query_queues [simp]: "only_db sl (snd (run_query env sql sl))"
  by (simp add: run_query_def split_def Let_def)

lemma touch_table_queues [simp]: "only_db sl (touch_table table sl)"
  by (simp add: touch_table_def)

lemma alter_statements_queues [simp]:
  "only_db sl (snd (addField env table k ft sl))" "only_db sl (snd (alterField env table k ft sl))"
  "only_db sl (snd (removeField env table k sl))" "only_db sl (snd (addKey env table k sl))"
  "only_db sl (snd (removeKey env table k sl))" "only_db sl (snd (removeEntity env table oid sl))"
  "only_db sl (snd (createTable env table e sl))"
  by (simp_all add: addField_def alterField_def removeField_def addKey_def removeKey_def removeEntity_def createTable_def
      split: option.split)

lemma loadField_queues: "okE (\<lambda>p. only_db sl (snd p)) (loadField env table sl)"
  unfolding loadField_def Let_def split_def
  by (auto split: option.split intro: only_db_trans [OF touch_table_queues run_query_queues])

lemma okE_queues_bind:
  "okE (\<lambda>p. only_db sl (snd p)) m \<Longrightarrow> (\<And>x sl1. only_db sl sl1 \<Longrightarrow> okE (\<lambda>p. only_db sl (snd p)) (f (x, sl1))) \<Longrightarrow>
     okE (\<lambda>p. only_db sl (snd p)) (bindE m f)"
  by (rule okE_bind, assumption) (metis prod.collapse)

lemma okE_queues_from: "okE (\<lambda>p. only_db sl1 (snd p)) m \<Longrightarrow> only_db sl sl1 \<Longrightarrow> okE (\<lambda>p. only_db sl (snd p)) m"
  by (rule okE_mono, assumption) (rule only_db_trans)

lemma prepare_field_queues: "okE (\<lambda>p. only_db sl (snd p)) (prepare_field env table k ft sl)"
  unfolding prepare_field_def
proof (rule okE_queues_bind)
  show "okE (\<lambda>p. only_db sl (snd p)) (if desc_fields table sl k = None
      then let (rc, sl1) = addField env table k ft sl
           in if \<not> rc then Inr (False, sl1) else bindE (loadField env table sl1) (\<lambda>(rc1, sl2). Inr (True, sl2))
      else Inr (True, sl))"
    using alter_statements_queues(1) [of sl env table k ft]
    by (auto simp: Let_def simp del: alter_statements_queues split: prod.split
        intro!: okE_queues_bind okE_queues_from [OF loadField_queues])
next
  fix rc sl1 assume q: "only_db sl sl1"
  have "only_db sl (snd (alterField env table k ft sl1))" by (rule only_db_trans [OF q]) simp
  with q show "okE (\<lambda>p. only_db sl (snd p)) (case (rc, sl1) of (rc, sl1) \<Rightarrow>
      if \<not> rc then Inr (False, sl1)
       else case desc_fields table sl1 k of
         None \<Rightarrow> Inr (False, sl1\<lparr>sl_tables := (sl_tables sl1)(table \<mapsto> (desc_fields table sl1)
             (k \<mapsto> \<lparr>fd_type = MYSQL_OTHER 0, fd_flags = 0, fd_length = 0\<rparr>))\<rparr>)
       | Some fd \<Rightarrow>
           (case m2m (fd_type fd) ft of
              None \<Rightarrow> Inr (False, sl1)
            | Some False \<Rightarrow> Inr (True, sl1)
            | Some True \<Rightarrow>
                let (rc2, sl2) = alterField env table k ft sl1
                in if \<not> rc2 then Inr (False, sl2) else bindE (loadField env table sl2) (\<lambda>(rc3, sl3). Inr (True, sl3))))"
    by (auto simp: Let_def split: prod.split option.split bool.split
        intro!: okE_queues_bind okE_queues_from [OF loadField_queues])
qed

lemma serialize_loop_queues: "okE (\<lambda>p. only_db sl (snd p)) (serialize_loop env table e ks sf si su sl)"
proof (induction ks arbitrary: sf si su sl)
  case (Cons k ks)
  show ?case
  proof (cases "en_values e k")
    case None
    with Cons show ?thesis by simp
  next
    case (Some v)
    then show ?thesis
      by (auto intro!: okE_queues_bind [OF prepare_field_queues] okE_queues_from [OF Cons.IH])
  qed
qed simp

lemma slot_serialize_queues: "okE (\<lambda>p. only_db sl (snd p)) (slot_serialize env table e sl)"
  unfolding slot_serialize_def
proof (rule okE_queues_bind)
  show "okE (\<lambda>p. only_db sl (snd p)) (if sl_tables sl table = None
     then let (rc, sl1) = createTable env table e sl
          in if \<not> rc then Inr (False, sl1) else loadField env table sl1
     else Inr (True, sl))"
    using alter_statements_queues(7) [of sl env table e]
    by (auto simp: Let_def simp del: alter_statements_queues split: prod.split intro: okE_queues_from [OF loadField_queues])
next
  fix rc sl1 assume q: "only_db sl sl1"
  have "okE (\<lambda>p. only_db sl (snd p)) (serialize_loop env table e (e_order env (en_values e)) [] [] [] sl1)"
    by (rule okE_queues_from [OF serialize_loop_queues q])
  then show "okE (\<lambda>p. only_db sl (snd p)) (case (rc, sl1) of (rc, sl1) \<Rightarrow>
     if \<not> rc then Inr (False, sl1)
     else bindE (serialize_loop env table e (e_order env (en_values e)) [] [] [] sl1) (\<lambda>(texts, sl2).
       case texts of None \<Rightarrow> Inr (False, sl2) | Some (sf, si, su) \<Rightarrow> Inr (run_command env (sql_insert table sf si su) sl2)))"
    using q by (auto split: option.split intro!: okE_queues_bind intro: only_db_trans [OF _ run_command_queues])
qed

lemma slot_serialize_kept: "slot_serialize env table e sl = Inr (rc, sl') \<Longrightarrow> only_db sl sl'"
  using slot_serialize_queues [of sl env table e] by (simp add: okE_def)

lemma slot_unserialize_queues: "only_db sl (snd (slot_unserialize env table oid sl))"
proof -
  have "only_db sl (snd (run_query env q (touch_table table sl)))" for q
    by (rule only_db_trans [OF touch_table_queues run_query_queues])
  then show ?thesis by (simp add: slot_unserialize_def Let_def split_def split: option.split list.split)
qed

lemma alter_loop_queues: "only_db sl (snd (alter_loop env table ms sl))"
proof (induction ms arbitrary: sl)
  case (Cons m ms)
  obtain name v where m: "m = (name, v)" by (cases m)
  have "only_db sl (snd (alter_loop env table ms sl'))" if "only_db sl sl'" for sl'
    by (rule only_db_trans [OF that Cons.IH])
  then show ?case by (simp add: m split: json.split)
qed simp

lemma alterTable_queues: "only_db sl (snd (alterTable env table js sl))"
  by (simp add: alterTable_def split: option.split json_root.split) (metis alter_loop_queues only_db_trans touch_table_queues)

definition same_queues :: "'db slot_db \<Rightarrow> 'db slot_db \<Rightarrow> bool" where
  "same_queues sl sl' \<longleftrightarrow> sl_rlist sl' = sl_rlist sl \<and> sl_wlist sl' = sl_wlist sl \<and> sl_shard sl' = sl_shard sl"

lemma same_queues_refl [simp]: "same_queues sl sl"
  by (simp add: same_queues_def)

lemma same_queues_update [simp]:
  "same_queues sl (sl'\<lparr>sl_entities := en\<rparr>) = same_queues sl sl'" "same_queues (sl\<lparr>sl_entities := en\<rparr>) sl' = same_queues sl sl'"
  by (simp_all add: same_queues_def)

lemma only_db_queues: "only_db sl sl' \<Longrightarrow> same_queues sl sl'"
  by (simp add: only_db_def same_queues_def)

text \<open>Which requests are answered, and what belongs to an answer.\<close>

definition answerable :: "SOCKET \<times> bytes \<Rightarrow> bool" where
  "answerable r \<longleftrightarrow> rm_ident (snd r) \<in> Inr ` {ObjectSerializeRequest, ObjectUnserializeRequest, ObjectDeleteRequest, ObjectAlterRequest}"

definition answers :: "SOCKET \<times> bytes \<Rightarrow> SOCKET \<times> bytes \<Rightarrow> bool" where
  "answers r a \<longleftrightarrow> fst a = fst r \<and>
     (\<exists>ident shard objectid rest. rm_ident (snd r) = Inr ident \<and> rm_shard (snd r) = Inr shard \<and> rm_objectid (snd r) = Inr objectid \<and>
        snd a = record_message (ident + 1) shard (strncpy16 (take 16 (drop 16 (snd r)))) objectid rest)"

definition answered_by :: "'db slot_db \<Rightarrow> SOCKET \<Rightarrow> bytes \<Rightarrow> u16 \<Rightarrow> u32 \<Rightarrow> u64 \<Rightarrow> 'db slot_db \<Rightarrow> bool" where
  "answered_by sl s m ident shard objectid sl' \<longleftrightarrow>
     sl_wlist sl' = sl_wlist sl \<and> sl_shard sl' = sl_shard sl \<and>
     (\<exists>rest. sl_rlist sl' = sl_rlist sl @ [(s, record_message ident shard (strncpy16 (take 16 (drop 16 m))) objectid rest)])"

lemma slot_answer_answered: "same_queues sl sl1 \<Longrightarrow> answered_by sl s m ident shard objectid (slot_answer s ident shard m objectid rest sl1)"
  by (auto simp: answered_by_def slot_answer_def same_queues_def)

lemma releaseEntity_queues [simp]: "same_queues sl (releaseEntity oid sl') = same_queues sl sl'"
  by (simp add: releaseEntity_def)

lemma on_serialize_answers: "okE (answered_by sl s m ObjectSerializeResponse shard oid) (on_serialize env s m shard oid sl)"
  unfolding on_serialize_def Let_def split_def
  by (auto intro!: okE_bind_pure slot_answer_answered dest!: slot_serialize_kept only_db_queues)

lemma on_unserialize_answers: "okE (answered_by sl s m ObjectUnserializeResponse shard oid) (on_unserialize env s m shard oid sl)"
proof -
  have "same_queues sl (snd (slot_unserialize env table oid sl))" for table
    by (rule only_db_queues [OF slot_unserialize_queues])
  then have "okE (\<lambda>p. same_queues sl (snd p)) (case sl_entities sl oid of
      Some e \<Rightarrow> Inr (Some e, sl) | None \<Rightarrow> bindE (rm_table m) (\<lambda>table. Inr (slot_unserialize env table oid sl)))"
    by (auto split: option.split intro!: okE_bind_pure)
  then show ?thesis
    unfolding on_unserialize_def Let_def split_def
    by (auto split: option.split elim!: okE_bind intro!: slot_answer_answered)
qed

lemma on_delete_answers: "okE (answered_by sl s m ObjectDeleteResponse shard oid) (on_delete env s m shard oid sl)"
proof -
  have "same_queues sl (snd (removeEntity env table oid (sl\<lparr>sl_entities := en\<rparr>)))" for table en
    using only_db_queues [OF alter_statements_queues(6) [of "sl\<lparr>sl_entities := en\<rparr>"]] by simp
  then show ?thesis
    unfolding on_delete_def Let_def split_def by (auto intro!: okE_bind_pure slot_answer_answered)
qed

lemma on_alter_answers: "okE (answered_by sl s m ObjectAlterResponse shard oid) (on_alter env s m shard oid sl)"
  unfolding on_alter_def Let_def split_def
  by (auto intro!: okE_bind_pure slot_answer_answered only_db_queues [OF alterTable_queues])

lemma handle_answers:
  assumes "slot_handle env r sl = Inr sl'"
  shows "sl_wlist sl' = sl_wlist sl \<and> sl_shard sl' = sl_shard sl \<and>
    (if answerable r then \<exists>a. sl_rlist sl' = sl_rlist sl @ [a] \<and> answers r a else sl_rlist sl' = sl_rlist sl)"
proof -
  obtain s m where r: "r = (s, m)" by (cases r)
  from assms obtain ident where ident: "rm_ident m = Inr ident" by (auto simp: slot_handle_def r fault_simps)
  show ?thesis
  proof (cases "answerable r")
    case True
    then have i: "ident = ObjectSerializeRequest \<or> ident = ObjectUnserializeRequest \<or> ident = ObjectDeleteRequest \<or> ident = ObjectAlterRequest"
      using ident by (auto simp: answerable_def r)
    then obtain shard objectid where f: "rm_shard m = Inr shard" "rm_objectid m = Inr objectid"
      using assms ident by (auto simp: slot_handle_def r fault_simps)
    have "answered_by sl s m (ident + 1) shard objectid sl'"
      using i assms ident f on_serialize_answers [of sl s m shard objectid env] on_unserialize_answers [of sl s m shard objectid env]
        on_delete_answers [of sl s m shard objectid env] on_alter_answers [of sl s m shard objectid env]
      by (auto simp: slot_handle_def r okE_def assertE_Inr_iff)
    then show ?thesis using True ident f by (auto simp: answered_by_def answers_def r)
  next
    case False
    then have "\<not> (ident = ObjectSerializeRequest \<or> ident = ObjectUnserializeRequest \<or> ident = ObjectDeleteRequest \<or> ident = ObjectAlterRequest)"
      using ident by (auto simp: answerable_def r)
    then show ?thesis using assms ident False by (auto simp: slot_handle_def r)
  qed
qed

text \<open>The answers of a slot to one request: one for the four types it handles, none for any other type.\<close>

definition slot_answers :: "SOCKET \<times> bytes \<Rightarrow> (SOCKET \<times> bytes) list \<Rightarrow> bool" where
  "slot_answers r as \<longleftrightarrow> (if answerable r then \<exists>a. as = [a] \<and> answers r a else as = [])"

lemma synchronous_answers:
  assumes "synchronous env n sl = Inr sl'"
  shows "sl_wlist sl' = drop n (sl_wlist sl) \<and>
    (\<exists>ass. sl_rlist sl' = sl_rlist sl @ concat ass \<and> list_all2 slot_answers (take n (sl_wlist sl)) ass)"
  using assms
proof (induction n arbitrary: sl)
  case 0
  then show ?case by (intro conjI exI [of _ "[]"]) simp_all
next
  case (Suc n)
  show ?case
  proof (cases "sl_wlist sl")
    case Nil
    with Suc.prems show ?thesis by (intro conjI exI [of _ "[]"]) simp_all
  next
    case (Cons r q)
    with Suc.prems obtain sl1 where h: "slot_handle env r (sl\<lparr>sl_wlist := q\<rparr>) = Inr sl1" and s: "synchronous env n sl1 = Inr sl'"
      by (auto simp: fault_simps)
    note a = handle_answers [OF h]
    then obtain as1 where as1: "slot_answers r as1" "sl_rlist sl1 = sl_rlist sl @ as1" by (auto simp: slot_answers_def split: if_splits)
    obtain ass where ass: "sl_rlist sl' = sl_rlist sl1 @ concat ass" "list_all2 slot_answers (take n q) ass" "sl_wlist sl' = drop n q"
      using Suc.IH [OF s] a by auto
    then show ?thesis using as1 Cons by (intro conjI exI [of _ "as1 # ass"]) simp_all
  qed
qed

text \<open>
  C8: the requests of a slot are answered once and in order, those of one type excepted. When a
  slot has worked off the first requests of its write list (without a fault), its read list has
  grown by the answers to each of them in turn and by nothing else: exactly one answer for a
  request to store, to load, to delete or to alter, for the same connection, with the type, the
  shard, the table field and the object identifier of the request, and none for any other
  request. A request to select is accepted by the service and handed to a slot like the others,
  so that its client waits in vain.
\<close>

theorem record_answers_in_order:
  assumes "synchronous env n sl = Inr sl'"
  shows "sl_wlist sl' = drop n (sl_wlist sl) \<and>
    (\<exists>ass. sl_rlist sl' = sl_rlist sl @ concat ass \<and> list_all2 slot_answers (take n (sl_wlist sl)) ass) \<and>
    (\<forall>s m as. rm_ident m = Inr ObjectSelectRequest \<and> slot_answers (s, m) as \<longrightarrow> as = [])"
  using synchronous_answers [OF assms] by (simp add: slot_answers_def answerable_def)

text \<open>The requests of a client, as a slot handles them.\<close>

definition table_ok :: "string \<Rightarrow> bool" where
  "table_ok table \<longleftrightarrow> plain_bytes table \<and> length table < 16"

lemma table16_of_message:
  "strncpy16 (take 16 (drop 16 (record_message ident shard (strncpy16 t) oid rest))) = strncpy16 t"
proof -
  have "takeWhile (\<lambda>b. b \<noteq> 0) (strncpy16 t) = take 16 (takeWhile (\<lambda>b. b \<noteq> 0) t)"
  proof -
    let ?s = "take 16 (takeWhile (\<lambda>b. b \<noteq> 0) t)"
    have "0 \<notin> set ?s" by (auto dest!: in_set_takeD set_takeWhileD)
    from takeWhile_plain [OF this] have "takeWhile (\<lambda>b. b \<noteq> 0) (strncpy16 t) = ?s @ takeWhile (\<lambda>b. b \<noteq> 0) (replicate (16 - length ?s) 0)"
      by (simp add: strncpy16_def Let_def)
    moreover have "takeWhile (\<lambda>b. b \<noteq> 0) (replicate n (0 :: u8)) = []" for n by (cases n) simp_all
    ultimately show ?thesis by simp
  qed
  then have "strncpy16 (strncpy16 t) = strncpy16 t"
    by (simp only: strncpy16_def [of "strncpy16 t"] Let_def) (simp add: strncpy16_def Let_def)
  moreover have "take 16 (drop 16 (record_message ident shard (strncpy16 t) oid rest)) = strncpy16 t"
    using record_message_layout(5) [OF length_strncpy16 refl, of ident shard t oid rest] by simp
  ultimately show ?thesis by simp
qed

lemma handle_unserialize_request:
  assumes "shard = sl_shard sl" and "table_ok table"
  shows "slot_handle env (s, unserialize_request shard table oid) sl =
      on_unserialize env s (unserialize_request shard table oid) shard oid sl"
    and "rm_table (unserialize_request shard table oid) = Inr table"
  using assms record_message_read [OF length_strncpy16 refl, of ObjectUnserializeRequest shard "bytes_of_string table" oid "[]"]
    rm_table_short [of table]
  by (simp_all add: slot_handle_def unserialize_request_def table_ok_def)

lemma handle_serialize_request:
  assumes "shard = sl_shard sl" and "table_ok table" and "length js < 2 ^ 31 - 44"
  shows "slot_handle env (s, serialize_request ObjectSerializeRequest shard table oid js) sl =
      on_serialize env s (serialize_request ObjectSerializeRequest shard table oid js) shard oid sl"
    and "rm_table (serialize_request ObjectSerializeRequest shard table oid js) = Inr table"
    and "rm_data 40 (serialize_request ObjectSerializeRequest shard table oid js) = Inr (bytes_of_string js)"
proof -
  let ?d = "le_bytes (of_nat (length js) :: u32) @ bytes_of_string js"
  note r = record_message_read [OF length_strncpy16 refl, of ObjectSerializeRequest shard "bytes_of_string table" oid ?d]
  show "slot_handle env (s, serialize_request ObjectSerializeRequest shard table oid js) sl =
      on_serialize env s (serialize_request ObjectSerializeRequest shard table oid js) shard oid sl"
    using assms(1) r by (simp add: slot_handle_def serialize_request_def)
  show "rm_table (serialize_request ObjectSerializeRequest shard table oid js) = Inr table"
    using assms(2) by (simp add: serialize_request_def table_ok_def rm_table_short)
  show "rm_data 40 (serialize_request ObjectSerializeRequest shard table oid js) = Inr (bytes_of_string js)"
    using rm_data_tail [OF length_strncpy16, of "bytes_of_string js"] assms(3) by (simp add: serialize_request_def)
qed

text \<open>The answer to a request for an object that is in the cache.\<close>

definition cached_answer :: "'db surroundings \<Rightarrow> u32 \<Rightarrow> string \<Rightarrow> u64 \<Rightarrow> entity \<Rightarrow> bytes" where
  "cached_answer env shard table oid e =
     (let js = SerializeToString (e_text2 env) (e_order env (en_values e)) True e
      in record_message ObjectUnserializeResponse shard (strncpy16 (bytes_of_string table)) oid
           (le_bytes RECORD_OK @ le_bytes (of_nat (length js) :: u32) @ bytes_of_string js))"

lemma unserialize_cached:
  assumes "shard = sl_shard sl" and "table_ok table" and "sl_entities sl oid = Some e"
  shows "slot_handle env (s, unserialize_request shard table oid) sl =
    Inr (sl\<lparr>sl_rlist := sl_rlist sl @ [(s, cached_answer env shard table oid e)]\<rparr>)"
  using assms(3) unfolding handle_unserialize_request(1) [OF assms(1,2)]
  by (simp add: on_unserialize_def Let_def slot_answer_def cached_answer_def unserialize_request_def table16_of_message)

text \<open>
  an object that is in the cache is returned for every table. The cache knows objects by
  their identifier alone: a request for an object of any table is answered with the cached
  entity, without asking the database, also when it was stored in another table.
\<close>

theorem record_cache_ignores_table:
  assumes "shard = sl_shard sl" and "table_ok table" and "sl_entities sl oid = Some e"
  shows "slot_handle env (s, unserialize_request shard table oid) sl =
    Inr (sl\<lparr>sl_rlist := sl_rlist sl @ [(s, cached_answer env shard table oid e)]\<rparr>)"
  using assms by (rule unserialize_cached)

definition demo_slot :: "unit slot_db" where
  "demo_slot = \<lparr>sl_shard = 0, sl_ident = 0, sl_db = (), sl_rlist = [], sl_wlist = [], sl_entities = Map.empty, sl_tables = Map.empty\<rparr>"

definition demo_env :: "bool \<Rightarrow> json_root option \<Rightarrow> unit surroundings" where
  "demo_env ok js = \<lparr>e_command = (\<lambda>_ db. (ok, db)), e_query = (\<lambda>_ db. (None, db)), e_order = (\<lambda>_. []), e_json = (\<lambda>_. js),
     e_text = (\<lambda>_. ''0''), e_text2 = (\<lambda>_. ''0.00''), e_stof = (\<lambda>_. None)\<rparr>"

theorem record_cache_ignores_table_witness:
  "slot_handle (demo_env False None) (5, unserialize_request 0 ''other'' 7) (demo_slot\<lparr>sl_entities := [7 \<mapsto> Entity_new 7]\<rparr>) =
     Inr (demo_slot\<lparr>sl_entities := [7 \<mapsto> Entity_new 7], sl_rlist := [(5, cached_answer (demo_env False None) 0 ''other'' 7 (Entity_new 7))]\<rparr>)"
  using record_cache_ignores_table [of 0 "demo_slot\<lparr>sl_entities := [7 \<mapsto> Entity_new 7]\<rparr>" "''other''" 7 "Entity_new 7" "demo_env False None" 5]
  by (simp add: demo_slot_def table_ok_def plain_bytes_def)

theorem record_answers_in_order_witness:
  "\<exists>sl' a. synchronous (demo_env False None) 1 (demo_slot\<lparr>sl_entities := [7 \<mapsto> Entity_new 7], sl_wlist := [(5, unserialize_request 0 ''t'' 7)]\<rparr>) = Inr sl' \<and>
     sl_rlist sl' = [a] \<and> answers (5, unserialize_request 0 ''t'' 7) a"
proof -
  let ?sl = "demo_slot\<lparr>sl_entities := [7 \<mapsto> Entity_new 7]\<rparr>" and ?r = "(5 :: SOCKET, unserialize_request 0 ''t'' 7)"
  have "slot_handle (demo_env False None) ?r ?sl =
      Inr (?sl\<lparr>sl_rlist := sl_rlist ?sl @ [(5, cached_answer (demo_env False None) 0 ''t'' 7 (Entity_new 7))]\<rparr>)"
    by (rule unserialize_cached) (simp_all add: demo_slot_def table_ok_def plain_bytes_def)
  then obtain sl' where s: "synchronous (demo_env False None) 1 (?sl\<lparr>sl_wlist := [?r]\<rparr>) = Inr sl'" by (simp add: demo_slot_def)
  from record_answers_in_order [OF this] obtain ass where ass: "sl_rlist sl' = concat ass" "list_all2 slot_answers [?r] ass"
    by (auto simp: demo_slot_def)
  have "answerable ?r"
    using record_message_read(1) [OF length_strncpy16 refl, of ObjectUnserializeRequest 0 "bytes_of_string ''t''" 7 "[]"]
    by (simp add: answerable_def unserialize_request_def)
  with ass obtain a where "sl_rlist sl' = [a]" "answers ?r a" by (auto simp: slot_answers_def list_all2_Cons1)
  with s show ?thesis by blast
qed

lemma answer_code_inj:
  "record_message ident shard t oid (le_bytes v) = record_message ident shard t oid (le_bytes w) \<Longrightarrow> length t = 16 \<Longrightarrow> (v :: u32) = w"
proof -
  assume "record_message ident shard t oid (le_bytes v) = record_message ident shard t oid (le_bytes w)" "length t = 16"
  then have "le_bytes v = le_bytes w"
    using record_message_layout(7) [OF \<open>length t = 16\<close> refl, of ident shard oid] by metis
  then have "(le_word (le_bytes v) :: u32) = le_word (le_bytes w)" by simp
  then show "v = w" by (simp add: le_word_le_bytes)
qed

definition serialize_answered :: "'db slot_db \<Rightarrow> SOCKET \<Rightarrow> u32 \<Rightarrow> string \<Rightarrow> u64 \<Rightarrow> u32 \<Rightarrow> (SOCKET \<times> bytes) list" where
  "serialize_answered sl s shard table oid retval =
     sl_rlist sl @ [(s, record_message ObjectSerializeResponse shard (strncpy16 (bytes_of_string table)) oid (le_bytes retval))]"

lemma serialize_ok_cached:
  assumes "shard = sl_shard sl" and "table_ok table" and "length js < 2 ^ 31 - 44"
    and "slot_handle env (s, serialize_request ObjectSerializeRequest shard table oid js) sl = Inr sl1"
    and "sl_rlist sl1 = serialize_answered sl s shard table oid RECORD_OK"
  shows "\<exists>e. ParseFromString (e_json env) js (case sl_entities sl oid of Some e \<Rightarrow> e | None \<Rightarrow> Entity_new oid) = (True, e) \<and>
    sl_entities sl1 oid = Some e \<and> sl_shard sl1 = shard"
proof -
  let ?m = "serialize_request ObjectSerializeRequest shard table oid js"
  let ?e = "case sl_entities sl oid of Some e \<Rightarrow> e | None \<Rightarrow> Entity_new oid"
  obtain rc e1 where p: "ParseFromString (e_json env) js ?e = (rc, e1)" by fastforce
  let ?sl = "sl\<lparr>sl_entities := (sl_entities sl)(oid \<mapsto> e1)\<rparr>"
  have t: "strncpy16 (take 16 (drop 16 ?m)) = strncpy16 (bytes_of_string table)"
    unfolding serialize_request_def by (rule table16_of_message)
  note h = handle_serialize_request(1) [OF assms(1-3), of env s oid] handle_serialize_request(2,3) [OF assms(1-3), of oid]
  have code: "retval = 0" if "sl_rlist sl1 = serialize_answered sl s shard table oid retval" for retval
    using that assms(5) by (auto simp: serialize_answered_def dest!: answer_code_inj)
  have run: "on_serialize env s ?m shard oid sl = Inr sl1" using assms(4) h(1) by simp
  have rc: "rc"
  proof (rule ccontr)
    assume "\<not> rc"
    with run h p t have "sl_rlist sl1 = serialize_answered sl s shard table oid 100"
      by (auto simp: on_serialize_def Let_def slot_answer_def serialize_answered_def releaseEntity_def)
    from code [OF this] show False by simp
  qed
  obtain rc1 sl2 where s2: "slot_serialize env table e1 ?sl = Inr (rc1, sl2)"
    using run h p rc by (auto simp: on_serialize_def Let_def fault_simps)
  note k = slot_serialize_kept [OF s2]
  have rc1: "rc1"
  proof (rule ccontr)
    assume "\<not> rc1"
    with run h p t rc s2 k have "sl_rlist sl1 = serialize_answered sl s shard table oid 103"
      by (auto simp: on_serialize_def Let_def slot_answer_def serialize_answered_def releaseEntity_def only_db_def)
    from code [OF this] show False by simp
  qed
  with run h p rc s2 have "sl_entities sl1 = sl_entities sl2" "sl_shard sl1 = sl_shard sl2"
    by (auto simp: on_serialize_def Let_def slot_answer_def)
  then show ?thesis using p rc k assms(1) by (auto simp: only_db_def)
qed

text \<open>
  C9: what was stored is read. After a request to store an object (of a table with a name of less
  than sixteen characters, with a text that has a length field) was answered with success, a
  request for the same object and table that comes next is answered with success and with the
  JSON text of an entity, without asking the database. This entity is what \<open>ParseFromString\<close> made of
  the stored text on top of the entity that the cache held for this identifier before, whatever
  table it came from: members that the text does not name are kept. If the cache held none, it
  is what the text describes and nothing else.
\<close>

theorem record_read_your_writes:
  assumes "shard = sl_shard sl" and "table_ok table" and "length js < 2 ^ 31 - 44"
    and "slot_handle env (s, serialize_request ObjectSerializeRequest shard table oid js) sl = Inr sl1"
    and "sl_rlist sl1 = serialize_answered sl s shard table oid RECORD_OK"
  shows "\<exists>e. ParseFromString (e_json env) js (case sl_entities sl oid of Some e \<Rightarrow> e | None \<Rightarrow> Entity_new oid) = (True, e) \<and>
    slot_handle env (s', unserialize_request shard table oid) sl1 =
      Inr (sl1\<lparr>sl_rlist := sl_rlist sl1 @ [(s', cached_answer env shard table oid e)]\<rparr>)"
proof -
  obtain e where "ParseFromString (e_json env) js (case sl_entities sl oid of Some e \<Rightarrow> e | None \<Rightarrow> Entity_new oid) = (True, e)"
    and "sl_entities sl1 oid = Some e" "sl_shard sl1 = shard"
    using serialize_ok_cached [OF assms] by blast
  then show ?thesis using unserialize_cached [of shard sl1 table oid e env s'] assms(2) by blast
qed

theorem record_read_your_writes_witness:
  "\<exists>sl1 a. slot_handle (demo_env True (Some (Root_object [])))
       (5, serialize_request ObjectSerializeRequest 0 ''t'' 7 ''{}'') (demo_slot\<lparr>sl_tables := [''t'' \<mapsto> Map.empty]\<rparr>) = Inr sl1 \<and>
     slot_handle (demo_env True (Some (Root_object []))) (6, unserialize_request 0 ''t'' 7) sl1 =
       Inr (sl1\<lparr>sl_rlist := sl_rlist sl1 @ [(6, a)]\<rparr>)"
proof -
  let ?env = "demo_env True (Some (Root_object []))" and ?sl = "demo_slot\<lparr>sl_tables := [''t'' \<mapsto> Map.empty]\<rparr>"
  let ?m = "serialize_request ObjectSerializeRequest 0 ''t'' 7 ''{}''"
  have ok: "0 = sl_shard ?sl" "table_ok ''t''" "length ''{}'' < 2 ^ 31 - 44" by (simp_all add: demo_slot_def table_ok_def plain_bytes_def)
  note h = handle_serialize_request(1) [OF ok, of ?env 5 7] handle_serialize_request(2,3) [OF ok, of 7]
  have t: "strncpy16 (take 16 (drop 16 ?m)) = strncpy16 (bytes_of_string ''t'')"
    unfolding serialize_request_def by (rule table16_of_message)
  obtain sl1 where "slot_handle ?env (5, ?m) ?sl = Inr sl1" "sl_rlist sl1 = serialize_answered ?sl 5 0 ''t'' 7 RECORD_OK"
    using h t by (simp add: on_serialize_def Let_def demo_env_def ParseFromString_def slot_serialize_def run_command_def
        slot_answer_def serialize_answered_def demo_slot_def)
  with record_read_your_writes [OF ok, of ?env 5 7 sl1 6] show ?thesis by blast
qed

section \<open>Failures\<close>

definition delete_request :: "u32 \<Rightarrow> string \<Rightarrow> u64 \<Rightarrow> bytes" where
  "delete_request shard table objectid =
     record_message ObjectDeleteRequest shard (strncpy16 (bytes_of_string table)) objectid []"

text \<open>
  objects cannot be deleted. MySQL has no statement that begins with \<^verbatim>\<open>DELETE FROM TABLE\<close>; if
  the database refuses such statements, every request to delete an object is answered with an
  error and the database stays as it is, while the cache forgets the object.
\<close>

theorem record_delete_fails:
  assumes "\<And>rest db. e_command env (''DELETE FROM TABLE '' @ rest) db = (False, db)"
    and "shard = sl_shard sl" and "table_ok table"
  shows "slot_handle env (s, delete_request shard table oid) sl =
    Inr (sl\<lparr>sl_entities := (sl_entities sl)(oid := None),
      sl_rlist := sl_rlist sl @ [(s, record_message ObjectDeleteResponse shard (strncpy16 (bytes_of_string table)) oid (le_bytes RECORD_DELETE_ERROR))]\<rparr>)"
proof -
  let ?m = "delete_request shard table oid"
  note r = record_message_read [OF length_strncpy16 refl, of ObjectDeleteRequest shard "bytes_of_string table" oid "[]"]
  have "rm_table ?m = Inr table" using assms(3) by (simp add: delete_request_def table_ok_def rm_table_short)
  moreover have "strncpy16 (take 16 (drop 16 ?m)) = strncpy16 (bytes_of_string table)"
    unfolding delete_request_def by (rule table16_of_message)
  moreover have "removeEntity env table oid x = (False, x)" for x
    using assms(1) [of "BQ @ table @ BQ @ '' WHERE id = '' @ dec_nat (unat oid)"] by (simp add: removeEntity_def run_command_def)
  ultimately show ?thesis
    using r assms(2) by (simp add: slot_handle_def delete_request_def on_delete_def Let_def slot_answer_def)
qed

theorem record_delete_fails_witness:
  "\<exists>sl'. slot_handle (demo_env False None) (5, delete_request 0 ''t'' 7) demo_slot = Inr sl' \<and> sl_entities sl' 7 = None"
  using record_delete_fails [of "demo_env False None" 0 demo_slot "''t''" 5 7]
  by (simp add: demo_env_def demo_slot_def table_ok_def plain_bytes_def)

text \<open>
  asking for an object of a table that does not exist makes the table unusable. The question
  enters the table among the known ones, so that storing an object no longer creates it; the
  first statement that is sent alters the missing table, which the database refuses.
\<close>

theorem record_probe_prevents_creation:
  assumes "sl_tables sl table = None"
    and "e_query env (''SELECT * FROM '' @ BQ @ table @ BQ @ '' WHERE id = '' @ dec_nat (unat oid)) (sl_db sl) = (None, sl_db sl)"
    and "\<And>rest. e_command env (sql_alter table rest) (sl_db sl) = (False, sl_db sl)"
    and "e_order env (en_values e) = k # ks" and "en_values e k = Some v"
  shows "\<exists>sl1 sl2. slot_unserialize env table oid sl = (None, sl1) \<and> sl_tables sl1 table \<noteq> None \<and>
    slot_serialize env table e sl1 = Inr (False, sl2) \<and> sl_db sl2 = sl_db sl"
proof -
  let ?sl = "sl\<lparr>sl_tables := (sl_tables sl)(table \<mapsto> Map.empty)\<rparr>"
  have 1: "slot_unserialize env table oid sl = (None, ?sl)"
    using assms(1,2) by (simp add: slot_unserialize_def touch_table_def run_query_def Let_def)
  have "m2string (v2m (ev_data v)) \<noteq> None" by (cases "ev_data v") (simp_all add: m2string_def known_types_def)
  then have "addField env table k (v2m (ev_data v)) ?sl = (False, ?sl)"
    using assms(3) by (auto simp: addField_def run_command_def)
  then have "prepare_field env table k (v2m (ev_data v)) ?sl = Inr (False, ?sl)"
    by (simp add: prepare_field_def desc_fields_def)
  then have 2: "slot_serialize env table e ?sl = Inr (False, ?sl)"
    using assms(4,5) by (simp add: slot_serialize_def)
  show ?thesis
  proof (intro exI conjI)
    show "slot_unserialize env table oid sl = (None, ?sl)" by (rule 1)
    show "slot_serialize env table e ?sl = Inr (False, ?sl)" by (rule 2)
  qed simp_all
qed

theorem record_probe_prevents_creation_witness:
  "\<exists>sl1 sl2. slot_unserialize ((demo_env False None)\<lparr>e_order := \<lambda>_. [''a'']\<rparr>) ''t'' 7 demo_slot = (None, sl1) \<and>
     slot_serialize ((demo_env False None)\<lparr>e_order := \<lambda>_. [''a'']\<rparr>) ''t'' \<lparr>en_id = 7, en_values = [''a'' \<mapsto> set_bool True Value_default]\<rparr> sl1 = Inr (False, sl2)"
  using record_probe_prevents_creation [of demo_slot "''t''" "(demo_env False None)\<lparr>e_order := \<lambda>_. [''a'']\<rparr>" 7
      "\<lparr>en_id = 7, en_values = [''a'' \<mapsto> set_bool True Value_default]\<rparr>" "''a''" "[]" "set_bool True Value_default"]
  by (auto simp: demo_env_def demo_slot_def)

text \<open>
  a change of keys is reported as done whatever the database says. For a known field the
  statement is sent, and the answer is success also when the database refused it.
\<close>

theorem record_alter_always_ok:
  assumes "e_json env js = Some (Root_object [(field, J_string ''ADD_KEY'')])" and "plain_bytes field"
    and "sl_tables sl table = Some d" and "d field \<noteq> None"
  shows "alterTable env table js sl = (True, snd (addKey env table field sl))"
  using assms by (simp add: alterTable_def touch_table_def desc_fields_def cstring_id plain_bytes_def)

theorem record_alter_always_ok_witness:
  "alterTable (demo_env False (Some (Root_object [(''a'', J_string ''ADD_KEY'')]))) ''t'' ''x''
     (demo_slot\<lparr>sl_tables := [''t'' \<mapsto> [''a'' \<mapsto> \<lparr>fd_type = MYSQL_LONG, fd_flags = 0, fd_length = 11\<rparr>]]\<rparr>) =
   (True, demo_slot\<lparr>sl_tables := [''t'' \<mapsto> [''a'' \<mapsto> \<lparr>fd_type = MYSQL_LONG, fd_flags = 0, fd_length = 11\<rparr>]]\<rparr>)"
  using record_alter_always_ok [of "demo_env False (Some (Root_object [(''a'', J_string ''ADD_KEY'')]))" "''x''" "''a''"
      "demo_slot\<lparr>sl_tables := [''t'' \<mapsto> [''a'' \<mapsto> \<lparr>fd_type = MYSQL_LONG, fd_flags = 0, fd_length = 11\<rparr>]]\<rparr>" "''t''"
      "[''a'' \<mapsto> \<lparr>fd_type = MYSQL_LONG, fd_flags = 0, fd_length = 11\<rparr>]"]
  by (simp add: plain_bytes_def demo_env_def demo_slot_def addKey_def run_command_def)

section \<open>Distribution\<close>

definition rp_requests :: "u32 \<Rightarrow> (u64 \<times> SOCKET \<times> bytes) list \<Rightarrow> 'db process \<Rightarrow> 'db process res" where
  "rp_requests slots rs rp =
     foldE (\<lambda>(oid, s, m) rp. bindE (rp_request slots (rp_ident rp) oid s m rp) (\<lambda>(rc, rp'). Inr rp')) rs rp"

definition slot_share :: "nat \<Rightarrow> nat \<Rightarrow> (u64 \<times> SOCKET \<times> bytes) list \<Rightarrow> (SOCKET \<times> bytes) list" where
  "slot_share n i rs = map snd (filter (\<lambda>(oid, s, m). unat oid mod n = i) rs)"

text \<open>
  C11: requests are spread over the slots of a shard by their object, in order and without loss:
  the write list of every slot grows by exactly the requests whose object belongs to it, so that
  all requests for one object meet in one slot in the order they came.
\<close>

theorem record_requests_distributed:
  assumes "unat slots = length (rp_slots rp)" and "0 < unat slots"
  shows "\<exists>rp'. rp_requests slots rs rp = Inr rp' \<and> rp_ident rp' = rp_ident rp \<and> length (rp_slots rp') = length (rp_slots rp) \<and>
    (\<forall>i < length (rp_slots rp). rp_slots rp' ! i =
       (rp_slots rp ! i)\<lparr>sl_wlist := sl_wlist (rp_slots rp ! i) @ slot_share (unat slots) i rs\<rparr>)"
  using assms(1)
proof (induction rs arbitrary: rp)
  case Nil
  then show ?case by (simp add: rp_requests_def slot_share_def)
next
  case (Cons r rs)
  obtain oid s m where r: "r = (oid, s, m)" by (cases r)
  let ?h = "unat oid mod unat slots"
  let ?rp = "rp\<lparr>rp_slots := (rp_slots rp)[?h := slot_push s m (rp_slots rp ! ?h)]\<rparr>"
  have h: "?h < length (rp_slots rp)" using Cons.prems assms(2) by simp
  then have step: "rp_requests slots (r # rs) rp = rp_requests slots rs ?rp"
    by (simp add: rp_requests_def r rp_request_def Let_def)
  obtain rp' where rp': "rp_requests slots rs ?rp = Inr rp'" "rp_ident rp' = rp_ident rp" "length (rp_slots rp') = length (rp_slots rp)"
    and sl: "\<forall>i < length (rp_slots rp). rp_slots rp' ! i =
      (rp_slots ?rp ! i)\<lparr>sl_wlist := sl_wlist (rp_slots ?rp ! i) @ slot_share (unat slots) i rs\<rparr>"
    using Cons.IH [of ?rp] Cons.prems by auto
  have "rp_slots rp' ! i = (rp_slots rp ! i)\<lparr>sl_wlist := sl_wlist (rp_slots rp ! i) @ slot_share (unat slots) i (r # rs)\<rparr>"
    if "i < length (rp_slots rp)" for i
    using sl that h by (cases "i = ?h") (simp_all add: slot_share_def r slot_push_def nth_list_update)
  with rp' step show ?case by auto
qed

theorem record_requests_distributed_witness:
  "\<exists>rp'. rp_requests 2 [(4, 9, [1]), (5, 9, [2]), (6, 8, [3])] \<lparr>rp_ident = 0, rp_slots = [demo_slot, demo_slot]\<rparr> = Inr rp' \<and>
     rp_slots rp' ! 0 = demo_slot\<lparr>sl_wlist := [(9, [1]), (8, [3])]\<rparr>"
proof -
  let ?rp = "\<lparr>rp_ident = 0, rp_slots = [demo_slot, demo_slot]\<rparr>"
  obtain rp' where "rp_requests 2 [(4, 9, [1]), (5, 9, [2]), (6, 8, [3])] ?rp = Inr rp'"
    and "\<forall>i < length (rp_slots ?rp). rp_slots rp' ! i =
       (rp_slots ?rp ! i)\<lparr>sl_wlist := sl_wlist (rp_slots ?rp ! i) @ slot_share (unat (2 :: u32)) i [(4, 9, [1]), (5, 9, [2]), (6, 8, [3])]\<rparr>"
    using record_requests_distributed [of 2 ?rp "[(4, 9, [1]), (5, 9, [2]), (6, 8, [3])]"] by auto
  then show ?thesis by (intro exI [of _ rp']) (simp add: slot_share_def demo_slot_def)
qed

text \<open>
  a short message makes the server read beyond it. The size of a message with data is
  computed from a field that a shorter message of this type does not have, before the length is
  checked.
\<close>

theorem record_short_request_overrun:
  assumes "length m < 44"
    and "rm_ident m = Inr ObjectSerializeRequest \<or> rm_ident m = Inr ObjectSelectRequest \<or> rm_ident m = Inr ObjectAlterRequest"
  shows "rs_msgParser slots s m mgr = Inl HeapOverrun"
  using assms by (auto simp: rs_msgParser_def size_with_data_def rm_datalen_def word_at_def)

theorem record_short_request_overrun_witness:
  "rs_msgParser 8 5 (net_encode (ucast ObjectAlterRequest) []) (Map.empty :: unit manager) = Inl HeapOverrun"
proof -
  let ?m = "net_encode (ucast ObjectAlterRequest) []"
  have l: "length ?m = 12" by (simp add: net_encode_def sizeof_Netmessage_def)
  have "rm_ident ?m = Inr ObjectAlterRequest"
    unfolding rm_ident_def by (rule word_at_le_bytes) (simp_all add: net_encode_def netmessage_bytes_def)
  with l show ?thesis using record_short_request_overrun [of ?m] by simp
qed

text \<open>
  an accepted request reaches its slot. A request that a client made for a configured shard is
  accepted by the service and appended, unchanged and with its connection, to the write list of
  the slot of its object.
\<close>

theorem record_request_queued:
  assumes "length js < 2 ^ 31 - 44" and "mgr shard = Some rp" and "rp_ident rp = shard"
    and "unat slots = length (rp_slots rp)" and "0 < unat slots"
  shows "(let m = serialize_request ObjectSerializeRequest shard table oid js; i = unat oid mod unat slots
    in rs_onMessage slots s m mgr ns =
      Inr (False, mgr(shard \<mapsto> rp\<lparr>rp_slots := (rp_slots rp)[i := slot_push s m (rp_slots rp ! i)]\<rparr>), ns))"
proof -
  let ?d = "le_bytes (of_nat (length js) :: u32) @ bytes_of_string js"
  let ?m = "serialize_request ObjectSerializeRequest shard table oid js"
  have m: "?m = record_message ObjectSerializeRequest shard (strncpy16 (bytes_of_string table)) oid ?d" by (simp add: serialize_request_def)
  note l = record_message_layout(2) [OF length_strncpy16 m]
  have u: "unat (of_nat (44 + length js) :: u32) = 44 + length js" using assms(1) by (intro unat_of_nat_u32) simp
  have "size_with_data ?m = Inr (44 + length js)"
    using assms(1) by (simp add: size_with_data_def rm_datalen_def m record_message_tail unat_of_nat_u32)
  moreover have "unat (netmsg_len ?m) = 44 + length js" using l u by simp
  moreover have "rp_request slots shard oid s ?m rp =
      Inr (True, rp\<lparr>rp_slots := (rp_slots rp)[unat oid mod unat slots := slot_push s ?m (rp_slots rp ! (unat oid mod unat slots))]\<rparr>)"
    using assms(3-5) by (simp add: rp_request_def Let_def)
  ultimately show ?thesis
    using record_message_read [OF length_strncpy16 m] assms(2)
    by (simp add: rs_onMessage_def rs_msgParser_def mgr_request_def Let_def)
qed

theorem record_request_queued_witness:
  "\<exists>x. rs_onMessage 1 5 (serialize_request ObjectSerializeRequest 0 ''t'' 7 ''{}'') [0 \<mapsto> \<lparr>rp_ident = 0, rp_slots = [demo_slot]\<rparr>] ns_new =
     Inr (False, x, ns_new)"
  using record_request_queued [of "''{}''" "[0 \<mapsto> \<lparr>rp_ident = 0, rp_slots = [demo_slot]\<rparr>]" 0
      "\<lparr>rp_ident = 0, rp_slots = [demo_slot]\<rparr>" 1 "''t''" 7 5 ns_new]
  by (simp add: Let_def)

end
