(* ===== verification/Message_Queue.thy ===== *)
theory Message_Queue
  imports Net_Service
begin

text \<open>
  \<^verbatim>\<open>src/net/MessageQueueService.cpp\<close>, \<^verbatim>\<open>MessageQueueClient.cpp\<close> and \<^verbatim>\<open>MessageQueue.cpp\<close>:
  the messages of \<^verbatim>\<open>Netmessage.h\<close> over ZeroMQ sockets. ZeroMQ is not part of the program:
  its functions are the fields of the record \<open>zmq\<close>, over a state of the library of any type.
  A handle is a number, and the null pointer is 0.
\<close>

section \<open>The library\<close>

datatype zmq_type = ZMQ_SERVER | ZMQ_CLIENT

datatype zmq_flag = ZMQ_SNDMORE | ZMQ_NOBLOCK

record zmq_msg =
  zm_data :: bytes
  zm_route :: u32

text \<open>
  \<open>zmq_poll\<close> answers how many of the one socket it is given have events, and whether that one
  can be read.
\<close>

record 'z zmq =
  zmq_ctx_new :: "'z \<Rightarrow> nat \<times> 'z"
  zmq_socket :: "nat \<Rightarrow> zmq_type \<Rightarrow> 'z \<Rightarrow> nat \<times> 'z"
  zmq_bind :: "nat \<Rightarrow> string \<Rightarrow> 'z \<Rightarrow> int \<times> 'z"
  zmq_connect :: "nat \<Rightarrow> string \<Rightarrow> 'z \<Rightarrow> int \<times> 'z"
  zmq_close :: "nat \<Rightarrow> 'z \<Rightarrow> 'z"
  zmq_ctx_destroy :: "nat \<Rightarrow> 'z \<Rightarrow> 'z"
  zmq_poll :: "nat \<Rightarrow> 'z \<Rightarrow> int \<times> bool \<times> 'z"
  zmq_msg_init :: "'z \<Rightarrow> int \<times> 'z"
  zmq_msg_init_size :: "nat \<Rightarrow> 'z \<Rightarrow> int \<times> 'z"
  zmq_msg_set_routing_id :: "u32 \<Rightarrow> zmq_msg \<Rightarrow> int \<times> zmq_msg"
  zmq_msg_send :: "zmq_msg \<Rightarrow> nat \<Rightarrow> zmq_flag \<Rightarrow> 'z \<Rightarrow> int \<times> 'z"
  zmq_msg_recv :: "nat \<Rightarrow> 'z \<Rightarrow> int \<times> zmq_msg \<times> 'z"
  zmq_msg_close :: "zmq_msg \<Rightarrow> 'z \<Rightarrow> 'z"

text \<open>\<^verbatim>\<open>"tcp://" << address << ":" << port\<close>.\<close>

definition endpoint :: "string \<Rightarrow> string \<Rightarrow> string" where
  "endpoint address port = ''tcp://'' @ address @ '':'' @ port"

section \<open>Sending\<close>

text \<open>
  The message is first sent as the first of several parts, and sent again by itself only when
  that was refused. What the second call answers is logged, nothing more.
\<close>

definition zmq_send_message :: "'z zmq \<Rightarrow> nat \<Rightarrow> zmq_msg \<Rightarrow> 'z \<Rightarrow> 'z" where
  "zmq_send_message Z sock msg z =
     (let (rc, z1) = zmq_msg_send Z msg sock ZMQ_SNDMORE z
      in if rc \<noteq> -1 then zmq_msg_close Z msg z1
         else zmq_msg_close Z msg (snd (zmq_msg_send Z msg sock ZMQ_NOBLOCK z1)))"

record mqservice =
  mq_isstop :: bool
  mq_ctx :: nat
  mq_socket :: nat
  mq_tasks :: "u32 \<rightharpoonup> u32"

definition mq_new :: mqservice where
  "mq_new = \<lparr>mq_isstop = False, mq_ctx = 0, mq_socket = 0, mq_tasks = Map.empty\<rparr>"

text \<open>A task is the routing identifier it was made for; \<open>fd\<close> answers it as an \<^verbatim>\<open>int\<close>.\<close>

definition mq_task_fd :: "u32 \<Rightarrow> SOCKET" where
  "mq_task_fd routeid = sint routeid"

definition mq_send :: "'z zmq \<Rightarrow> u32 \<Rightarrow> bytes \<Rightarrow> mqservice \<Rightarrow> 'z \<Rightarrow> 'z" where
  "mq_send Z routeid payload mq z =
     (if mq_socket mq = 0 \<or> payload = [] then z
      else let (rc, z1) = zmq_msg_init_size Z (length payload) z
           in if rc \<noteq> 0 then z1
              else let msg = \<lparr>zm_data = payload, zm_route = 0\<rparr>
                   in if routeid = 0 then zmq_msg_close Z msg z1
                      else let (rc1, msg1) = zmq_msg_set_routing_id Z routeid msg
                           in if rc1 \<noteq> 0 then zmq_msg_close Z msg1 z1
                              else zmq_send_message Z (mq_socket mq) msg1 z1)"

definition mq_sendNetmessage :: "'z zmq \<Rightarrow> u32 \<Rightarrow> Netmessage \<Rightarrow> bytes \<Rightarrow> mqservice \<Rightarrow> 'z \<Rightarrow> 'z res" where
  "mq_sendNetmessage Z routeid netmsg payload mq z =
     (let raw = netmessage_bytes netmsg @ payload
      in if length raw < unat (nm_len netmsg) then Inl HeapOverrun
         else Inr (mq_send Z routeid (take (unat (nm_len netmsg)) raw) mq z))"

definition mq_sendProto :: "'z zmq \<Rightarrow> u32 \<Rightarrow> u32 \<Rightarrow> bytes option \<Rightarrow> mqservice \<Rightarrow> 'z \<Rightarrow> 'z" where
  "mq_sendProto Z routeid msgid serialized mq z =
     (case serialized of None \<Rightarrow> z | Some data \<Rightarrow> mq_send Z routeid (net_encode msgid data) mq z)"

section \<open>Service\<close>

definition mq_stop :: "'z zmq \<Rightarrow> mqservice \<Rightarrow> 'z \<Rightarrow> mqservice \<times> 'z" where
  "mq_stop Z mq z =
     (if mq_isstop mq then (mq, z)
      else let z1 = if mq_socket mq \<noteq> 0 then zmq_close Z (mq_socket mq) z else z;
               z2 = if mq_ctx mq \<noteq> 0 then zmq_ctx_destroy Z (mq_ctx mq) z1 else z1
           in (mq\<lparr>mq_isstop := True, mq_socket := 0, mq_ctx := 0\<rparr>, z2))"

definition mq_start :: "'z zmq \<Rightarrow> string \<Rightarrow> string \<Rightarrow> mqservice \<Rightarrow> 'z \<Rightarrow> bool \<times> mqservice \<times> 'z" where
  "mq_start Z address port mq z =
     (let (mq1, z1) = mq_stop Z mq z;
          (ctx, z2) = zmq_ctx_new Z z1;
          (sock, z3) = zmq_socket Z ctx ZMQ_SERVER z2;
          mq2 = mq1\<lparr>mq_ctx := ctx, mq_socket := sock\<rparr>;
          (rc, z4) = zmq_bind Z sock (endpoint address port) z3
      in if rc \<noteq> 0 then (False, mq2, z4) else (True, mq2\<lparr>mq_isstop := False\<rparr>, z4))"

definition mq_getNetworkInterface :: "u32 \<Rightarrow> mqservice \<Rightarrow> u32 option" where
  "mq_getNetworkInterface s mq = mq_tasks mq s"

definition mq_spawnConnection :: "u32 \<Rightarrow> mqservice \<Rightarrow> u32 option \<times> mqservice" where
  "mq_spawnConnection routeid mq =
     (if mq_tasks mq routeid \<noteq> None then (None, mq)
      else (Some routeid, mq\<lparr>mq_tasks := (mq_tasks mq)(routeid \<mapsto> routeid)\<rparr>))"

definition mq_closeConnection :: "u32 \<Rightarrow> mqservice \<Rightarrow> mqservice" where
  "mq_closeConnection routeid mq =
     (if mq_tasks mq routeid = None then mq else mq\<lparr>mq_tasks := (mq_tasks mq)(routeid := None)\<rparr>)"

text \<open>
  The checks on a received message, in the order of the code: the length field is read before
  the size of the message is known to be enough for it.
\<close>

definition mq_check :: "bytes \<Rightarrow> bool res" where
  "mq_check raw =
     (if length raw < 4 then Inl HeapOverrun
      else Inr (length raw = unat (netmsg_len raw) \<and> sizeof_Netmessage \<le> length raw))"

text \<open>The parser is called with a task and a message; its answer is not used.\<close>

definition mq_deliver :: "bool \<Rightarrow> zmq_msg \<Rightarrow> mqservice \<Rightarrow> ((u32 \<times> bytes) list \<times> mqservice) res" where
  "mq_deliver msgParser msg mq =
     bindE (mq_check (zm_data msg)) (\<lambda>ok.
       if \<not> ok \<or> \<not> msgParser then Inr ([], mq)
       else case mq_getNetworkInterface (zm_route msg) mq of
              Some task \<Rightarrow> Inr ([(task, zm_data msg)], mq)
            | None \<Rightarrow>
                (case mq_spawnConnection (zm_route msg) mq of
                   (None, mq1) \<Rightarrow> Inl AssertFailed
                 | (Some task, mq1) \<Rightarrow> Inr ([(task, zm_data msg)], mq1)))"

definition mq_handleMessage ::
  "'z zmq \<Rightarrow> bool \<Rightarrow> nat \<Rightarrow> mqservice \<Rightarrow> 'z \<Rightarrow> ((u32 \<times> bytes) list \<times> mqservice \<times> 'z) res" where
  "mq_handleMessage Z msgParser sock mq z =
     (let (rc, z1) = zmq_msg_init Z z
      in if rc \<noteq> 0 then Inr ([], mq, z1)
         else let (rc1, msg, z2) = zmq_msg_recv Z sock z1
              in if rc1 < 0 then Inr ([], mq, zmq_msg_close Z msg z2)
                 else bindE (mq_deliver msgParser msg mq) (\<lambda>(cbs, mq1). Inr (cbs, mq1, zmq_msg_close Z msg z2)))"

text \<open>The loop over the answer of \<^verbatim>\<open>zmq_poll\<close> indexes an array of one element.\<close>

definition mq_update :: "'z zmq \<Rightarrow> bool \<Rightarrow> mqservice \<Rightarrow> 'z \<Rightarrow> (bool \<times> (u32 \<times> bytes) list \<times> mqservice \<times> 'z) res" where
  "mq_update Z msgParser mq z =
     (if mq_socket mq = 0 then Inr (False, [], mq, z)
      else let (events, readable, z1) = zmq_poll Z (mq_socket mq) z
           in if events < 0 then Inr (False, [], mq, z1)
              else bindE (if 0 < events \<and> readable then mq_handleMessage Z msgParser (mq_socket mq) mq z1
                          else Inr ([], mq, z1)) (\<lambda>(cbs, mq1, z2).
                   if 1 < events then Inl HeapOverrun else Inr (\<not> mq_isstop mq1, cbs, mq1, z2)))"

text \<open>\<open>close\<close> has no body; the destructor only stops the service.\<close>

definition mq_close :: "u32 \<Rightarrow> mqservice \<Rightarrow> mqservice" where
  "mq_close task mq = mq"

section \<open>Client\<close>

record mqclient =
  mc_isstop :: bool
  mc_ctx :: nat
  mc_socket :: nat

definition mc_new :: mqclient where
  "mc_new = \<lparr>mc_isstop = False, mc_ctx = 0, mc_socket = 0\<rparr>"

definition mc_stop :: "'z zmq \<Rightarrow> mqclient \<Rightarrow> 'z \<Rightarrow> mqclient \<times> 'z" where
  "mc_stop Z mc z =
     (if mc_isstop mc then (mc, z)
      else let z1 = if mc_socket mc \<noteq> 0 then zmq_close Z (mc_socket mc) z else z;
               z2 = if mc_ctx mc \<noteq> 0 then zmq_ctx_destroy Z (mc_ctx mc) z1 else z1
           in (mc\<lparr>mc_isstop := True, mc_socket := 0, mc_ctx := 0\<rparr>, z2))"

definition mc_connect :: "'z zmq \<Rightarrow> string \<Rightarrow> string \<Rightarrow> mqclient \<Rightarrow> 'z \<Rightarrow> bool \<times> mqclient \<times> 'z" where
  "mc_connect Z address port mc z =
     (let (mc1, z1) = mc_stop Z mc z;
          (ctx, z2) = zmq_ctx_new Z z1;
          (sock, z3) = zmq_socket Z ctx ZMQ_CLIENT z2;
          mc2 = mc1\<lparr>mc_ctx := ctx, mc_socket := sock\<rparr>;
          (rc, z4) = zmq_connect Z sock (endpoint address port) z3
      in if rc \<noteq> 0 then (False, mc2, z4) else (True, mc2\<lparr>mc_isstop := False\<rparr>, z4))"

definition mc_handleMessage :: "'z zmq \<Rightarrow> bool \<Rightarrow> nat \<Rightarrow> 'z \<Rightarrow> (bytes list \<times> 'z) res" where
  "mc_handleMessage Z msgParser sock z =
     (let (rc, z1) = zmq_msg_init Z z
      in if rc \<noteq> 0 then Inr ([], z1)
         else let (rc1, msg, z2) = zmq_msg_recv Z sock z1
              in if rc1 < 0 then Inr ([], zmq_msg_close Z msg z2)
                 else bindE (mq_check (zm_data msg)) (\<lambda>ok.
                      Inr (if ok \<and> msgParser then [zm_data msg] else [], zmq_msg_close Z msg z2)))"

definition mc_update :: "'z zmq \<Rightarrow> bool \<Rightarrow> mqclient \<Rightarrow> 'z \<Rightarrow> (bool \<times> bytes list \<times> 'z) res" where
  "mc_update Z msgParser mc z =
     (if mc_socket mc = 0 then Inr (False, [], z)
      else let (events, readable, z1) = zmq_poll Z (mc_socket mc) z
           in if events < 0 then Inr (False, [], z1)
              else bindE (if 0 < events \<and> readable then mc_handleMessage Z msgParser (mc_socket mc) z1
                          else Inr ([], z1)) (\<lambda>(cbs, z2).
                   if 1 < events then Inl HeapOverrun else Inr (\<not> mc_isstop mc, cbs, z2)))"

text \<open>The client's raw \<open>sendMessage\<close> does not check that there is a socket.\<close>

definition mc_send :: "'z zmq \<Rightarrow> bytes \<Rightarrow> mqclient \<Rightarrow> 'z \<Rightarrow> 'z" where
  "mc_send Z payload mc z =
     (if payload = [] then z
      else let (rc, z1) = zmq_msg_init_size Z (length payload) z
           in if rc \<noteq> 0 then z1 else zmq_send_message Z (mc_socket mc) \<lparr>zm_data = payload, zm_route = 0\<rparr> z1)"

definition mc_sendNetmessage :: "'z zmq \<Rightarrow> Netmessage \<Rightarrow> bytes \<Rightarrow> mqclient \<Rightarrow> 'z \<Rightarrow> 'z res" where
  "mc_sendNetmessage Z netmsg payload mc z =
     (let raw = netmessage_bytes netmsg @ payload
      in if length raw < unat (nm_len netmsg) then Inl HeapOverrun
         else Inr (mc_send Z (take (unat (nm_len netmsg)) raw) mc z))"

definition mc_sendProto :: "'z zmq \<Rightarrow> u32 \<Rightarrow> bytes option \<Rightarrow> mqclient \<Rightarrow> 'z \<Rightarrow> 'z" where
  "mc_sendProto Z msgid serialized mc z =
     (if mc_socket mc = 0 then z
      else case serialized of None \<Rightarrow> z | Some data \<Rightarrow> mc_send Z (net_encode msgid data) mc z)"

definition mc_fd :: "mqclient \<Rightarrow> SOCKET" where
  "mc_fd mc = 0"

section \<open>The plain queue\<close>

record mqueue =
  qq_socket_type :: zmq_type
  qq_ctx :: nat
  qq_socket :: nat

definition qq_new :: "'z zmq \<Rightarrow> zmq_type \<Rightarrow> 'z \<Rightarrow> mqueue \<times> 'z" where
  "qq_new Z t z =
     (let (ctx, z1) = zmq_ctx_new Z z; (sock, z2) = zmq_socket Z ctx t z1
      in (\<lparr>qq_socket_type = t, qq_ctx = ctx, qq_socket = sock\<rparr>, z2))"

definition qq_delete :: "'z zmq \<Rightarrow> mqueue \<Rightarrow> 'z \<Rightarrow> 'z" where
  "qq_delete Z q z = zmq_ctx_destroy Z (qq_ctx q) (zmq_close Z (qq_socket q) z)"

text \<open>The endpoint is written into 64 characters, the last one NUL.\<close>

definition qq_init :: "'z zmq \<Rightarrow> string \<Rightarrow> string \<Rightarrow> mqueue \<Rightarrow> 'z \<Rightarrow> bool \<times> 'z" where
  "qq_init Z address port q z =
     (let buffer = take 63 (endpoint address port);
          (rc, z1) = (case qq_socket_type q of
             ZMQ_SERVER \<Rightarrow> zmq_bind Z (qq_socket q) buffer z
           | ZMQ_CLIENT \<Rightarrow> zmq_connect Z (qq_socket q) buffer z)
      in (rc = 0, z1))"

text \<open>A message is only logged, as a C string: its bytes up to the first NUL.\<close>

definition qq_handleMessage :: "'z zmq \<Rightarrow> nat \<Rightarrow> 'z \<Rightarrow> ((nat \<times> u32 \<times> bytes) list \<times> 'z) res" where
  "qq_handleMessage Z sock z =
     (let (rc, z1) = zmq_msg_init Z z
      in if rc \<noteq> 0 then Inr ([], z1)
         else let (rc1, msg, z2) = zmq_msg_recv Z sock z1
              in if rc1 < 0 then Inr ([], zmq_msg_close Z msg z2)
                 else if 0 \<notin> set (zm_data msg) then Inl HeapOverrun
                 else Inr ([(length (zm_data msg), zm_route msg, takeWhile (\<lambda>b. b \<noteq> 0) (zm_data msg))],
                           zmq_msg_close Z msg z2))"

definition qq_run :: "'z zmq \<Rightarrow> mqueue \<Rightarrow> 'z \<Rightarrow> ((nat \<times> u32 \<times> bytes) list \<times> 'z) res" where
  "qq_run Z q z =
     (let (events, readable, z1) = zmq_poll Z (qq_socket q) z
      in if events < 0 then Inr ([], z1)
         else bindE (if 0 < events \<and> readable then qq_handleMessage Z (qq_socket q) z1 else Inr ([], z1)) (\<lambda>(log, z2).
              if 1 < events then Inl HeapOverrun else Inr (log, z2)))"

section \<open>What the service and the client do\<close>

text \<open>
  What ZeroMQ documents for server and client sockets, over the messages \<open>sent\<close> by the socket.
  They do not accept parts of a message with more to follow; a whole message is queued, or the call
  fails (no memory, the high water mark, no such route) and nothing is queued. Making a message may
  fail too, and neither it nor releasing one sends anything.
\<close>

definition zmq_transport :: "'z zmq \<Rightarrow> nat \<Rightarrow> ('z \<Rightarrow> zmq_msg list) \<Rightarrow> bool" where
  "zmq_transport Z sock sent \<longleftrightarrow>
     (\<forall>m z. fst (zmq_msg_send Z m sock ZMQ_SNDMORE z) = -1 \<and> sent (snd (zmq_msg_send Z m sock ZMQ_SNDMORE z)) = sent z) \<and>
     (\<forall>m z. sent (snd (zmq_msg_send Z m sock ZMQ_NOBLOCK z)) =
       (if fst (zmq_msg_send Z m sock ZMQ_NOBLOCK z) = -1 then sent z else sent z @ [m])) \<and>
     (\<forall>m z. sent (zmq_msg_close Z m z) = sent z) \<and>
     (\<forall>n z. sent (snd (zmq_msg_init_size Z n z)) = sent z) \<and>
     (\<forall>r m. r \<noteq> 0 \<longrightarrow> zmq_msg_set_routing_id Z r m = (0, m\<lparr>zm_route := r\<rparr>))"

text \<open>The library takes a message: it has the memory for it, and queues it when it is sent whole.\<close>

definition zmq_takes :: "'z zmq \<Rightarrow> nat \<Rightarrow> zmq_msg \<Rightarrow> 'z \<Rightarrow> bool" where
  "zmq_takes Z sock msg z \<longleftrightarrow>
     (let (rc, z1) = zmq_msg_init_size Z (length (zm_data msg)) z
      in rc = 0 \<and> fst (zmq_msg_send Z msg sock ZMQ_NOBLOCK (snd (zmq_msg_send Z msg sock ZMQ_SNDMORE z1))) \<noteq> -1)"

lemma zmq_transport_send_message:
  assumes "zmq_transport Z sock sent"
  shows "sent (zmq_send_message Z sock msg z) = sent z @
    (if fst (zmq_msg_send Z msg sock ZMQ_NOBLOCK (snd (zmq_msg_send Z msg sock ZMQ_SNDMORE z))) = -1 then [] else [msg])"
  using assms by (auto simp: zmq_transport_def zmq_send_message_def split_def Let_def)

lemma zmq_transport_init_size:
  "zmq_transport Z sock sent \<Longrightarrow> sent (snd (zmq_msg_init_size Z n z)) = sent z"
  by (simp add: zmq_transport_def)

lemma mq_send_once:
  assumes "zmq_transport Z (mq_socket mq) sent" and "mq_socket mq \<noteq> 0" and "routeid \<noteq> 0" and "payload \<noteq> []"
    and "msg = \<lparr>zm_data = payload, zm_route = routeid\<rparr>"
  shows "sent (mq_send Z routeid payload mq z) = sent z @ (if zmq_takes Z (mq_socket mq) msg z then [msg] else [])"
proof -
  have "zmq_msg_set_routing_id Z routeid \<lparr>zm_data = payload, zm_route = 0\<rparr> = (0, msg)"
    using assms(1,3,5) by (simp add: zmq_transport_def)
  then show ?thesis
    using assms(2-5) zmq_transport_init_size [OF assms(1), of "length payload" z]
    by (simp add: mq_send_def Let_def split_def zmq_takes_def zmq_transport_send_message [OF assms(1)])
qed

lemma mc_send_once:
  assumes "zmq_transport Z (mc_socket mc) sent" and "payload \<noteq> []" and "msg = \<lparr>zm_data = payload, zm_route = 0\<rparr>"
  shows "sent (mc_send Z payload mc z) = sent z @ (if zmq_takes Z (mc_socket mc) msg z then [msg] else [])"
  using assms(2,3) zmq_transport_init_size [OF assms(1), of "length payload" z]
  by (simp add: mc_send_def Let_def split_def zmq_takes_def zmq_transport_send_message [OF assms(1)])

lemma net_encode_nonempty [simp]: "net_encode msgid data \<noteq> []"
proof -
  have "length (net_encode msgid data) \<noteq> 0" by (simp add: net_encode_def sizeof_Netmessage_def)
  then show ?thesis by auto
qed

text \<open>The messages that pass the checks.\<close>

definition mq_wellformed :: "bytes \<Rightarrow> bool" where
  "mq_wellformed raw \<longleftrightarrow> sizeof_Netmessage \<le> length raw \<and> length raw = unat (netmsg_len raw)"

lemma mq_check_wellformed: "4 \<le> length raw \<Longrightarrow> mq_check raw = Inr (mq_wellformed raw)"
  by (auto simp: mq_check_def mq_wellformed_def)

lemma net_encode_wellformed: "encodable (msgid, data) \<Longrightarrow> mq_wellformed (net_encode msgid data)"
proof -
  let ?n = "sizeof_Netmessage + length data"
  assume "encodable (msgid, data)"
  then have "unat (of_nat ?n :: u32) = ?n" by (intro unat_of_nat_u32) (simp add: encodable_def)
  then show ?thesis by (simp add: mq_wellformed_def net_encode_def del: of_nat_add)
qed

definition mq_inv :: "mqservice \<Rightarrow> bool" where
  "mq_inv mq \<longleftrightarrow> (\<forall>r t. mq_tasks mq r = Some t \<longrightarrow> t = r)"

lemma mq_new_inv: "mq_inv mq_new"
  by (simp add: mq_inv_def mq_new_def)

lemma mq_deliver_spec:
  assumes "mq_inv mq" and "4 \<le> length (zm_data msg)"
  shows "mq_deliver True msg mq = Inr
    (if mq_wellformed (zm_data msg) then [(zm_route msg, zm_data msg)] else [],
     if mq_wellformed (zm_data msg) then mq\<lparr>mq_tasks := (mq_tasks mq)(zm_route msg \<mapsto> zm_route msg)\<rparr> else mq)"
proof (cases "mq_tasks mq (zm_route msg)")
  case None
  then show ?thesis
    using assms(2) by (simp add: mq_deliver_def mq_check_wellformed mq_getNetworkInterface_def mq_spawnConnection_def)
next
  case (Some t)
  then have "t = zm_route msg" using assms(1) by (simp add: mq_inv_def)
  with Some have "mq\<lparr>mq_tasks := (mq_tasks mq)(zm_route msg \<mapsto> zm_route msg)\<rparr> = mq"
    by (simp add: fun_upd_idem)
  then show ?thesis
    using assms(2) Some \<open>t = zm_route msg\<close> by (simp add: mq_deliver_def mq_check_wellformed mq_getNetworkInterface_def)
qed

lemma mq_inv_spawn: "mq_inv mq \<Longrightarrow> mq_inv (mq\<lparr>mq_tasks := (mq_tasks mq)(r \<mapsto> r)\<rparr>)"
  by (simp add: mq_inv_def)

text \<open>
  C20: a request over the message queue. The client puts a message on the wire at most once,
  although the code sends it twice: once when the library has the memory for it and queues it, and
  not at all when the library refuses (no memory, the high water mark, no such route), which the
  code only logs. The service that receives the message calls the parser exactly once, with the
  bytes the client sent and the task of the route they came by; and what that task sends back
  is put on the wire once with the same route, or not at all when the library refuses it.
\<close>

theorem mq_request_answered:
  assumes "zmq_transport Z (mc_socket mc) sent" and "mc_socket mc \<noteq> 0" and "encodable (msgid, data)"
    and "zmq_msg_init Y y = (0, y1)" and "zmq_msg_recv Y (mq_socket mq) y1 = (rc, \<lparr>zm_data = net_encode msgid data, zm_route = r\<rparr>, y2)"
    and "0 \<le> rc" and "mq_inv mq"
    and "zmq_transport Y (mq_socket mq) answers" and "mq_socket mq \<noteq> 0" and "r \<noteq> 0"
    and "request = \<lparr>zm_data = net_encode msgid data, zm_route = 0\<rparr>" and "answer = \<lparr>zm_data = net_encode msgid' data', zm_route = r\<rparr>"
  shows "sent (mc_sendProto Z msgid (Some data) mc z) = sent z @ (if zmq_takes Z (mc_socket mc) request z then [request] else []) \<and>
    (\<exists>mq' y'. mq_handleMessage Y True (mq_socket mq) mq y = Inr ([(r, net_encode msgid data)], mq', y') \<and>
       mq_getNetworkInterface r mq' = Some r \<and> mq_inv mq' \<and> answers y' = answers y2 \<and>
       answers (mq_sendProto Y r msgid' (Some data') mq' y') =
         answers y2 @ (if zmq_takes Y (mq_socket mq') answer y' then [answer] else []))"
proof (intro conjI)
  show "sent (mc_sendProto Z msgid (Some data) mc z) = sent z @ (if zmq_takes Z (mc_socket mc) request z then [request] else [])"
    using assms(2) by (simp add: mc_sendProto_def mc_send_once [OF assms(1) _ assms(11)])
  let ?m = "\<lparr>zm_data = net_encode msgid data, zm_route = r\<rparr>"
  let ?mq = "mq\<lparr>mq_tasks := (mq_tasks mq)(r \<mapsto> r)\<rparr>" and ?y = "zmq_msg_close Y ?m y2"
  have wf: "mq_wellformed (net_encode msgid data)" using assms(3) by (rule net_encode_wellformed)
  then have "4 \<le> length (net_encode msgid data)" by (simp add: mq_wellformed_def sizeof_Netmessage_def)
  then have handled: "mq_handleMessage Y True (mq_socket mq) mq y = Inr ([(r, net_encode msgid data)], ?mq, ?y)"
    using assms(4,5,6) wf by (simp add: mq_handleMessage_def mq_deliver_spec [OF assms(7)])
  have quiet: "answers ?y = answers y2" using assms(8) by (simp add: zmq_transport_def)
  have known: "mq_getNetworkInterface r ?mq = Some r" by (simp add: mq_getNetworkInterface_def)
  have "answers (mq_sendProto Y r msgid' (Some data') ?mq ?y) = answers ?y @ (if zmq_takes Y (mq_socket ?mq) answer ?y then [answer] else [])"
    unfolding mq_sendProto_def option.case using assms(8,9,10,12) by (intro mq_send_once) simp_all
  then show "\<exists>mq' y'. mq_handleMessage Y True (mq_socket mq) mq y = Inr ([(r, net_encode msgid data)], mq', y') \<and>
       mq_getNetworkInterface r mq' = Some r \<and> mq_inv mq' \<and> answers y' = answers y2 \<and>
       answers (mq_sendProto Y r msgid' (Some data') mq' y') =
         answers y2 @ (if zmq_takes Y (mq_socket mq') answer y' then [answer] else [])"
    using handled quiet known mq_inv_spawn [OF assms(7)] by (intro exI [of _ ?mq] exI [of _ ?y]) simp
qed

text \<open>
  A library whose state is the messages to receive and the messages sent. It takes messages of at
  most 4096 bytes, and holds at most two that were sent.
\<close>

definition zmq_pipe :: "(zmq_msg list \<times> zmq_msg list) zmq" where
  "zmq_pipe = \<lparr>
     zmq_ctx_new = (\<lambda>z. (1, z)), zmq_socket = (\<lambda>ctx t z. (2, z)), zmq_bind = (\<lambda>s e z. (if e = ''tcp://:0'' then -1 else 0, z)),
     zmq_connect = (\<lambda>s e z. (0, z)), zmq_close = (\<lambda>s z. z), zmq_ctx_destroy = (\<lambda>c z. z),
     zmq_poll = (\<lambda>s z. (if fst z = [] then 0 else 1, fst z \<noteq> [], z)),
     zmq_msg_init = (\<lambda>z. (0, z)), zmq_msg_init_size = (\<lambda>n z. (if n \<le> 4096 then 0 else -1, z)),
     zmq_msg_set_routing_id = (\<lambda>r m. (0, m\<lparr>zm_route := r\<rparr>)),
     zmq_msg_send = (\<lambda>m s f z. case f of ZMQ_SNDMORE \<Rightarrow> (-1, z)
       | ZMQ_NOBLOCK \<Rightarrow> (if length (snd z) < 2 then (int (length (zm_data m)), (fst z, snd z @ [m])) else (-1, z))),
     zmq_msg_recv = (\<lambda>s z. case fst z of [] \<Rightarrow> (-1, \<lparr>zm_data = [], zm_route = 0\<rparr>, z) | m # ms \<Rightarrow> (int (length (zm_data m)), m, (ms, snd z))),
     zmq_msg_close = (\<lambda>m z. z)\<rparr>"

lemma zmq_pipe_transport: "zmq_transport zmq_pipe s snd"
  by (simp add: zmq_transport_def zmq_pipe_def)

theorem mq_request_answered_witness:
  "snd (mc_sendProto zmq_pipe 7 (Some [1]) \<lparr>mc_isstop = False, mc_ctx = 1, mc_socket = 2\<rparr> ([], [\<lparr>zm_data = [0], zm_route = 0\<rparr>, \<lparr>zm_data = [1], zm_route = 0\<rparr>])) = [\<lparr>zm_data = [0], zm_route = 0\<rparr>, \<lparr>zm_data = [1], zm_route = 0\<rparr>] \<and>
   (\<exists>mq' y'. mq_handleMessage zmq_pipe True 2 (mq_new\<lparr>mq_socket := 2\<rparr>) ([\<lparr>zm_data = net_encode 7 [1], zm_route = 9\<rparr>], []) =
      Inr ([(9, net_encode 7 [1])], mq', y') \<and>
    snd (mq_sendProto zmq_pipe 9 8 (Some [2]) mq' y') = [\<lparr>zm_data = net_encode 8 [2], zm_route = 9\<rparr>])"
proof -
  let ?mq = "mq_new\<lparr>mq_socket := 2\<rparr>" and ?m = "\<lparr>zm_data = net_encode 7 [1], zm_route = 9\<rparr>"
  have "mq_inv ?mq" using mq_new_inv by (simp add: mq_inv_def)
  moreover have "zmq_msg_init zmq_pipe ([?m], []) = (0, ([?m], []))" by (simp add: zmq_pipe_def)
  moreover have "zmq_msg_recv zmq_pipe (mq_socket ?mq) ([?m], []) = (int (length (net_encode 7 [1])), ?m, ([], []))"
    by (simp add: zmq_pipe_def)
  moreover have "\<not> zmq_takes zmq_pipe 2 m ([], [\<lparr>zm_data = [0], zm_route = 0\<rparr>, \<lparr>zm_data = [1], zm_route = 0\<rparr>])" for m by (simp add: zmq_takes_def zmq_pipe_def)
  moreover have "zmq_takes zmq_pipe s \<lparr>zm_data = net_encode 8 [2], zm_route = 9\<rparr> y" if "snd y = []" for s y
    using that by (simp add: zmq_takes_def zmq_pipe_def net_encode_def sizeof_Netmessage_def)
  ultimately show ?thesis
    using mq_request_answered [of zmq_pipe "\<lparr>mc_isstop = False, mc_ctx = 1, mc_socket = 2\<rparr>" snd 7 "[1]" zmq_pipe
        "([?m], [])" "([?m], [])" ?mq _ 9 "([], [])" snd _ _ 8 "[2]" "([], [\<lparr>zm_data = [0], zm_route = 0\<rparr>, \<lparr>zm_data = [1], zm_route = 0\<rparr>])", OF _ _ _ _ _ _ _ _ _ _ refl refl] zmq_pipe_transport
    by (auto simp: encodable_def sizeof_Netmessage_def)
qed

text \<open>
  C27: what a service does with a sequence of messages. The parser is called for exactly the
  messages whose length field is their size and that have a whole header, in their order, each
  with the task of its own route; and the tasks are those of before and one for each of these
  routes. No task is ever taken away.
\<close>

theorem mq_messages_delivered:
  assumes "mq_inv mq" and "list_all (\<lambda>m. 4 \<le> length (zm_data m)) msgs"
  shows "\<exists>cbs mq'. traverseE (mq_deliver True) msgs mq = Inr (cbs, mq') \<and>
    concat cbs = map (\<lambda>m. (zm_route m, zm_data m)) (filter (\<lambda>m. mq_wellformed (zm_data m)) msgs) \<and>
    dom (mq_tasks mq') = dom (mq_tasks mq) \<union> zm_route ` {m \<in> set msgs. mq_wellformed (zm_data m)} \<and> mq_inv mq'"
  using assms
proof (induction msgs arbitrary: mq)
  case Nil
  then show ?case by simp
next
  case (Cons m msgs)
  let ?mq = "if mq_wellformed (zm_data m) then mq\<lparr>mq_tasks := (mq_tasks mq)(zm_route m \<mapsto> zm_route m)\<rparr> else mq"
  have "mq_inv ?mq" using Cons.prems(1) mq_inv_spawn [OF Cons.prems(1)] by simp
  from Cons.IH [OF this] Cons.prems(2) obtain cbs mq' where IH:
    "traverseE (mq_deliver True) msgs ?mq = Inr (cbs, mq')"
    "concat cbs = map (\<lambda>m. (zm_route m, zm_data m)) (filter (\<lambda>m. mq_wellformed (zm_data m)) msgs)"
    "dom (mq_tasks mq') = dom (mq_tasks ?mq) \<union> zm_route ` {m \<in> set msgs. mq_wellformed (zm_data m)}" "mq_inv mq'"
    by auto
  have "mq_deliver True m mq = Inr (if mq_wellformed (zm_data m) then [(zm_route m, zm_data m)] else [], ?mq)"
    using Cons.prems by (intro mq_deliver_spec) simp_all
  with IH show ?case by (auto simp: image_iff)
qed

theorem mq_messages_delivered_witness:
  "\<exists>cbs mq'. traverseE (mq_deliver True) [\<lparr>zm_data = net_encode 7 [1], zm_route = 9\<rparr>, \<lparr>zm_data = [5, 0, 0, 0], zm_route = 3\<rparr>] mq_new =
     Inr (cbs, mq') \<and> concat cbs = [(9, net_encode 7 [1])] \<and> dom (mq_tasks mq') = {9} \<and> mq_inv mq'"
proof -
  have wf: "mq_wellformed (net_encode 7 [1])" by (rule net_encode_wellformed) (simp add: encodable_def sizeof_Netmessage_def)
  moreover have "\<not> mq_wellformed [5, 0, 0, 0]" by (simp add: mq_wellformed_def sizeof_Netmessage_def)
  moreover have "{m. (m = \<lparr>zm_data = net_encode 7 [1], zm_route = 9 :: u32\<rparr> \<or> m = \<lparr>zm_data = [5, 0, 0, 0], zm_route = 3\<rparr>) \<and> mq_wellformed (zm_data m)} =
      {\<lparr>zm_data = net_encode 7 [1], zm_route = 9\<rparr>}" using calculation by auto
  moreover have "4 \<le> length (net_encode 7 [1])" by (simp add: net_encode_def sizeof_Netmessage_def)
  ultimately show ?thesis
    using mq_messages_delivered [OF mq_new_inv, of "[\<lparr>zm_data = net_encode 7 [1], zm_route = 9\<rparr>, \<lparr>zm_data = [5, 0, 0, 0], zm_route = 3\<rparr>]"]
    by (simp add: mq_new_def)
qed

text \<open>
  a service that could not bind its address keeps its context and its socket for ever:
  it counts as stopped, so that neither stopping it nor its destructor closes them, and a
  later start replaces the handles without closing them.
\<close>

theorem mq_failed_start_leaks:
  assumes "mq_start Z address port mq z = (False, mq', z')" and "\<forall>ctx t z. fst (zmq_socket Z ctx t z) \<noteq> 0"
  shows "mq_socket mq' \<noteq> 0 \<and> mq_stop Z mq' z' = (mq', z') \<and>
    mq_start Z address port mq' z' =
      (let (ctx, z2) = zmq_ctx_new Z z'; (sock, z3) = zmq_socket Z ctx ZMQ_SERVER z2;
           (rc, z4) = zmq_bind Z sock (endpoint address port) z3
       in (rc = 0, mq'\<lparr>mq_isstop := rc \<noteq> 0, mq_ctx := ctx, mq_socket := sock\<rparr>, z4))"
proof -
  have "mq_isstop (fst (mq_stop Z mq z))" by (simp add: mq_stop_def Let_def)
  moreover have "mq_socket mq' \<noteq> 0 \<and> mq_isstop mq' = mq_isstop (fst (mq_stop Z mq z))"
    using assms by (auto simp: mq_start_def Let_def split_def split: if_splits)
  ultimately have "mq_isstop mq'" "mq_socket mq' \<noteq> 0" by simp_all
  then show ?thesis by (auto simp: mq_stop_def mq_start_def split_def Let_def)
qed

theorem mq_failed_start_leaks_witness:
  "\<exists>mq'. mq_start zmq_pipe '''' ''0'' mq_new ([], []) = (False, mq', [], []) \<and> mq_socket mq' = 2 \<and>
     mq_stop zmq_pipe mq' ([], []) = (mq', [], [])"
proof -
  let ?mq = "\<lparr>mq_isstop = True, mq_ctx = 1, mq_socket = 2, mq_tasks = Map.empty\<rparr>"
  have "mq_start zmq_pipe '''' ''0'' mq_new ([], []) = (False, ?mq, [], [])"
    by (simp add: mq_start_def mq_stop_def mq_new_def zmq_pipe_def endpoint_def)
  moreover have "\<forall>ctx t z. fst (zmq_socket zmq_pipe ctx t z) \<noteq> 0" by (simp add: zmq_pipe_def)
  ultimately show ?thesis using mq_failed_start_leaks by fastforce
qed

end
