(* ===== verification/Easylog.thy ===== *)
theory Easylog
  imports Clock_Time
begin

text \<open>
  \<^verbatim>\<open>src/easylog/Easylog.cpp\<close>, \<^verbatim>\<open>Easylog.h\<close> and \<^verbatim>\<open>LockfreeQueue.h\<close>, as they are compiled:
  messages are sent asynchronously, with date, level and place as prefix, and without the
  layouts of \<^verbatim>\<open>HAS_LOG_LAYOUT\<close>. Readings of the clock are arguments, and so is which files
  can be opened; what was written is part of the state.
\<close>

section \<open>Levels\<close>

datatype EasylogSeverityLevel =
  GLOBAL | LEVEL_DEBUG | LEVEL_TRACE | LEVEL_ALARM | LEVEL_ERROR | LEVEL_PANIC | LEVEL_SYSTEM | MAX_LEVEL

fun level_number :: "EasylogSeverityLevel \<Rightarrow> nat" where
  "level_number GLOBAL = 0"
| "level_number LEVEL_DEBUG = 1"
| "level_number LEVEL_TRACE = 2"
| "level_number LEVEL_ALARM = 3"
| "level_number LEVEL_ERROR = 4"
| "level_number LEVEL_PANIC = 5"
| "level_number LEVEL_SYSTEM = 6"
| "level_number MAX_LEVEL = 7"

lemma level_number_inject: "level_number a = level_number b \<longleftrightarrow> a = b"
  by (cases a; cases b) simp_all

instantiation EasylogSeverityLevel :: linorder
begin

definition less_eq_EasylogSeverityLevel :: "EasylogSeverityLevel \<Rightarrow> EasylogSeverityLevel \<Rightarrow> bool" where
  "less_eq_EasylogSeverityLevel a b \<longleftrightarrow> level_number a \<le> level_number b"

definition less_EasylogSeverityLevel :: "EasylogSeverityLevel \<Rightarrow> EasylogSeverityLevel \<Rightarrow> bool" where
  "less_EasylogSeverityLevel a b \<longleftrightarrow> level_number a < level_number b"

instance
  by standard (auto simp: less_eq_EasylogSeverityLevel_def less_EasylogSeverityLevel_def level_number_inject)

end

text \<open>The keys of \<^verbatim>\<open>_levels\<close> in the order a \<^verbatim>\<open>std::map\<close> visits them.\<close>

definition levels_in_order :: "EasylogSeverityLevel list" where
  "levels_in_order = [GLOBAL, LEVEL_DEBUG, LEVEL_TRACE, LEVEL_ALARM, LEVEL_ERROR, LEVEL_PANIC, LEVEL_SYSTEM, MAX_LEVEL]"

lemma levels_in_order: "sorted levels_in_order" "distinct levels_in_order" "set levels_in_order = UNIV"
proof -
  show "sorted levels_in_order" "distinct levels_in_order" by (simp_all add: levels_in_order_def less_eq_EasylogSeverityLevel_def)
  have "l \<in> set levels_in_order" for l by (cases l) (simp_all add: levels_in_order_def)
  then show "set levels_in_order = UNIV" by blast
qed

text \<open>The table ends before \<open>MAX_LEVEL\<close>.\<close>

fun levelshort_string :: "EasylogSeverityLevel \<Rightarrow> string res" where
  "levelshort_string GLOBAL = Inr ''G''"
| "levelshort_string LEVEL_DEBUG = Inr ''D''"
| "levelshort_string LEVEL_TRACE = Inr ''T''"
| "levelshort_string LEVEL_ALARM = Inr ''ALM''"
| "levelshort_string LEVEL_ERROR = Inr ''ERR''"
| "levelshort_string LEVEL_PANIC = Inr ''PANIC''"
| "levelshort_string LEVEL_SYSTEM = Inr ''SYS''"
| "levelshort_string MAX_LEVEL = Inl HeapOverrun"

fun level_string :: "EasylogSeverityLevel \<Rightarrow> string res" where
  "level_string GLOBAL = Inr ''GLOBAL''"
| "level_string LEVEL_DEBUG = Inr ''DEBUG''"
| "level_string LEVEL_TRACE = Inr ''TRACE''"
| "level_string LEVEL_ALARM = Inr ''ALARM''"
| "level_string LEVEL_ERROR = Inr ''ERROR''"
| "level_string LEVEL_PANIC = Inr ''PANIC''"
| "level_string LEVEL_SYSTEM = Inr ''SYSTEM''"
| "level_string MAX_LEVEL = Inl HeapOverrun"

text \<open>A colour is its number: 30 to 37, and 41 to 47 for the bright ones.\<close>

definition GREY :: nat where
  "GREY = 37"

definition LRED :: nat where
  "LRED = 41"

text \<open>
  A file stream is the name it was opened with, and whether that succeeded: a stream that
  did not open loses what is written to it.
\<close>

record levelnode =
  ln_level :: EasylogSeverityLevel
  ln_color :: nat
  ln_to_stdout :: bool
  ln_filename :: string
  ln_fullname :: string
  ln_fs :: "(string \<times> bool) option"
  ln_launchtime :: nat

record easylog =
  el_stop :: bool
  el_level :: EasylogSeverityLevel
  el_dest_dir :: string
  el_autosplit_day :: bool
  el_autosplit_hour :: bool
  el_levels :: "EasylogSeverityLevel \<rightharpoonup> levelnode"

record sink =
  out_stdout :: string
  out_files :: "string \<rightharpoonup> string"

definition ln_init :: "EasylogSeverityLevel \<Rightarrow> nat \<Rightarrow> levelnode" where
  "ln_init l c = \<lparr>ln_level = l, ln_color = c, ln_to_stdout = True, ln_filename = [], ln_fullname = [], ln_fs = None, ln_launchtime = 0\<rparr>"

definition el_new :: "bool \<Rightarrow> string \<Rightarrow> easylog" where
  "el_new debug currentDirectory =
     \<lparr>el_stop = False, el_level = (if debug then LEVEL_DEBUG else LEVEL_TRACE), el_dest_dir = currentDirectory,
      el_autosplit_day = True, el_autosplit_hour = False,
      el_levels = [LEVEL_DEBUG \<mapsto> ln_init LEVEL_DEBUG 36, LEVEL_TRACE \<mapsto> ln_init LEVEL_TRACE GREY,
        LEVEL_ALARM \<mapsto> ln_init LEVEL_ALARM 43, LEVEL_ERROR \<mapsto> ln_init LEVEL_ERROR LRED,
        LEVEL_PANIC \<mapsto> ln_init LEVEL_PANIC 45, LEVEL_SYSTEM \<mapsto> ln_init LEVEL_SYSTEM 46]\<rparr>"

text \<open>\<^verbatim>\<open>_levels[level]\<close> adds a node of zeros where there is none.\<close>

definition ln_zero :: levelnode where
  "ln_zero = \<lparr>ln_level = GLOBAL, ln_color = 0, ln_to_stdout = False, ln_filename = [], ln_fullname = [], ln_fs = None, ln_launchtime = 0\<rparr>"

definition el_node :: "EasylogSeverityLevel \<Rightarrow> easylog \<Rightarrow> levelnode \<times> easylog" where
  "el_node l el = (case el_levels el l of Some n \<Rightarrow> (n, el)
     | None \<Rightarrow> (ln_zero, el\<lparr>el_levels := (el_levels el)(l \<mapsto> ln_zero)\<rparr>))"

definition el_put :: "EasylogSeverityLevel \<Rightarrow> levelnode \<Rightarrow> easylog \<Rightarrow> easylog" where
  "el_put l n el = el\<lparr>el_levels := (el_levels el)(l \<mapsto> n)\<rparr>"

section \<open>Settings\<close>

definition el_set_level :: "EasylogSeverityLevel \<Rightarrow> easylog \<Rightarrow> easylog" where
  "el_set_level l el = el\<lparr>el_level := l\<rparr>"

definition el_set_autosplit_day :: "bool \<Rightarrow> easylog \<Rightarrow> easylog" where
  "el_set_autosplit_day b el = el\<lparr>el_autosplit_day := b\<rparr>"

definition el_set_autosplit_hour :: "bool \<Rightarrow> easylog \<Rightarrow> easylog" where
  "el_set_autosplit_hour b el = el\<lparr>el_autosplit_hour := b\<rparr>"

definition el_color :: "EasylogSeverityLevel \<Rightarrow> easylog \<Rightarrow> nat \<times> easylog" where
  "el_color l el = (let (n, el1) = el_node l el in (ln_color n, el1))"

definition current_log_filename :: "EasylogSeverityLevel \<Rightarrow> easylog \<Rightarrow> string \<times> easylog" where
  "current_log_filename l el = (let (n, el1) = el_node l el in (ln_fullname n, el1))"

text \<open>The loop over the nodes that are meant: those of the level, or all for \<open>GLOBAL\<close>.\<close>

definition el_each :: "EasylogSeverityLevel \<Rightarrow> (levelnode \<Rightarrow> levelnode) \<Rightarrow> easylog \<Rightarrow> easylog" where
  "el_each l f el = el\<lparr>el_levels := \<lambda>k. map_option (\<lambda>n. if ln_level n = l \<or> l = GLOBAL then f n else n) (el_levels el k)\<rparr>"

definition el_set_color :: "EasylogSeverityLevel \<Rightarrow> nat \<Rightarrow> easylog \<Rightarrow> easylog" where
  "el_set_color l c el = el_each l (\<lambda>n. n\<lparr>ln_color := c\<rparr>) el"

definition el_set_tostdout :: "EasylogSeverityLevel \<Rightarrow> bool \<Rightarrow> easylog \<Rightarrow> easylog" where
  "el_set_tostdout l enable el = el_each l (\<lambda>n. n\<lparr>ln_to_stdout := enable\<rparr>) el"

text \<open>
  \<^verbatim>\<open>set_destination\<close>: \<open>realdir\<close> is the answer of \<^verbatim>\<open>absoluteDirectory\<close>, and \<open>created\<close>, \<open>existing\<close>,
  \<open>usable\<close> what the file system says of that directory.
\<close>

definition el_set_destination :: "string option \<Rightarrow> bool \<Rightarrow> bool \<Rightarrow> bool \<Rightarrow> easylog \<Rightarrow> bool \<times> easylog" where
  "el_set_destination realdir existing created usable el =
     (case realdir of None \<Rightarrow> (False, el)
      | Some d \<Rightarrow> if \<not> existing \<and> \<not> created then (False, el)
                  else if \<not> usable then (False, el) else (True, el\<lparr>el_dest_dir := d\<rparr>))"

definition full_filename :: "nat \<Rightarrow> easylog \<Rightarrow> string \<Rightarrow> string option" where
  "full_filename now el filename =
     (let base = el_dest_dir el @ ''/'' @ filename
      in if el_autosplit_hour el then map_option ((@) base) (timestamp now 64 0 (Some ''.%Y-%02m-%02d.%02H''))
         else if el_autosplit_day el then map_option ((@) base) (timestamp now 64 0 (Some ''.%Y-%02m-%02d''))
         else Some base)"

text \<open>
  \<^verbatim>\<open>openfile\<close> closes the old stream and opens, for appending, the file of this moment; a file
  that is opened exists from then on. The name is \<open>None\<close> only where the date does not fit.
\<close>

definition openfile :: "(string \<Rightarrow> bool) \<Rightarrow> nat \<Rightarrow> easylog \<Rightarrow> levelnode \<Rightarrow> sink \<Rightarrow> (levelnode \<times> sink) res" where
  "openfile openable now el n out =
     (case full_filename now el (ln_filename n) of None \<Rightarrow> Inl UninitRead
      | Some name \<Rightarrow> Inr (n\<lparr>ln_fullname := name, ln_fs := Some (name, openable name), ln_launchtime := now\<rparr>,
          if openable name \<and> out_files out name = None then out\<lparr>out_files := (out_files out)(name \<mapsto> [])\<rparr> else out))"

fun el_open_missing :: "(string \<Rightarrow> bool) \<Rightarrow> nat \<Rightarrow> EasylogSeverityLevel list \<Rightarrow> easylog \<Rightarrow> sink \<Rightarrow> (easylog \<times> sink) res" where
  "el_open_missing openable now [] el out = Inr (el, out)"
| "el_open_missing openable now (l # ls) el out =
     (case el_levels el l of
        Some n \<Rightarrow> (if ln_filename n \<noteq> [] \<and> ln_fs n = None
                   then bindE (openfile openable now el n out) (\<lambda>(n1, out1). el_open_missing openable now ls (el_put l n1 el) out1)
                   else el_open_missing openable now ls el out)
      | None \<Rightarrow> el_open_missing openable now ls el out)"

definition el_set_tofile :: "(string \<Rightarrow> bool) \<Rightarrow> nat \<Rightarrow> EasylogSeverityLevel \<Rightarrow> string \<Rightarrow> easylog \<Rightarrow> sink \<Rightarrow> (easylog \<times> sink) res" where
  "el_set_tofile openable now l filename el out =
     el_open_missing openable now levels_in_order (el_each l (\<lambda>n. n\<lparr>ln_filename := filename\<rparr>) el) out"

section \<open>Messages\<close>

text \<open>The prefix that the constructor writes; \<open>sec\<close> and \<open>ms\<close> are the parts of \<^verbatim>\<open>sTime\<close>.\<close>

definition message_prefix :: "nat \<Rightarrow> nat \<Rightarrow> nat \<Rightarrow> EasylogSeverityLevel \<Rightarrow> string \<Rightarrow> int \<Rightarrow> string res" where
  "message_prefix now sec ms l file line =
     (case timestamp now 64 sec (Some ''[%02H:%02M:%02S'') of None \<Rightarrow> Inl UninitRead
      | Some t \<Rightarrow> bindE (if l \<noteq> LEVEL_TRACE then bindE (levelshort_string l) (\<lambda>s. Inr (''<'' @ s @ ''> '')) else Inr [])
          (\<lambda>lev. Inr (t @ ''|'' @ pad0 3 ms @ ''] '' @ lev @
             (if l = LEVEL_ERROR \<or> l = LEVEL_PANIC then ''('' @ file @ '':'' @ dec_int line @ '') '' else []))))"

text \<open>\<^verbatim>\<open>cout\<close> writes at most 65535 characters of its text.\<close>

definition message_cout :: "string \<Rightarrow> string \<Rightarrow> string" where
  "message_cout text buf = buf @ take 65535 text"

text \<open>A message in the queue points to the node of its level and has its text.\<close>

type_synonym lognode = "EasylogSeverityLevel \<times> string"

datatype log_result = Logged "lognode list" | Ignored | Aborted "lognode list"

text \<open>
  \<^verbatim>\<open>flush\<close> and \<^verbatim>\<open>log_message\<close>: a message that is not logged is dropped with its node. At level
  \<open>PANIC\<close> the log is stopped, which waits for the queue to be written, and the process aborts.
\<close>

definition log_message :: "EasylogSeverityLevel \<Rightarrow> string \<Rightarrow> easylog \<Rightarrow> lognode list \<Rightarrow> log_result \<times> easylog" where
  "log_message l buf el queue =
     (if buf = [] then (Ignored, el)
      else if \<not> el_stop el \<and> el_level el \<le> l then
        let (n, el1) = el_node l el; queue1 = queue @ [(l, buf @ [CHR 0x0A])]
        in if l = LEVEL_PANIC then (Aborted queue1, el1\<lparr>el_stop := True\<rparr>) else (Logged queue1, el1)
      else (Ignored, el))"

definition send_to_stdout :: "levelnode \<Rightarrow> string \<Rightarrow> sink \<Rightarrow> sink" where
  "send_to_stdout n s out =
     (if \<not> ln_to_stdout n then out
      else if ln_color n \<noteq> GREY then
        out\<lparr>out_stdout := out_stdout out @ [CHR 0x1B] @ ''['' @ dec_nat (if LRED \<le> ln_color n then ln_color n - 10 else ln_color n) @
          (if LRED \<le> ln_color n then '';1'' else []) @ ''m'' @ butlast s @ [CHR 0x1B] @ ''[0m'' @ [CHR 0x0A]\<rparr>
      else out\<lparr>out_stdout := out_stdout out @ s\<rparr>)"

text \<open>
  A file is split when day or hour have changed, by the calendar of Greenwich; \<open>sec\<close> is
  \<^verbatim>\<open>sTime.secondPart()\<close> and \<open>now\<close> the clock that \<^verbatim>\<open>openfile\<close> reads.
\<close>

definition autosplit_due :: "nat \<Rightarrow> easylog \<Rightarrow> levelnode \<Rightarrow> bool" where
  "autosplit_due sec el n \<longleftrightarrow>
     el_autosplit_day el \<and> tm_mday (gmtime sec) \<noteq> tm_mday (gmtime (ln_launchtime n)) \<or>
     el_autosplit_hour el \<and> tm_hour (gmtime sec) \<noteq> tm_hour (gmtime (ln_launchtime n))"

definition autosplit_file :: "(string \<Rightarrow> bool) \<Rightarrow> nat \<Rightarrow> nat \<Rightarrow> easylog \<Rightarrow> levelnode \<Rightarrow> sink \<Rightarrow> (levelnode \<times> sink) res" where
  "autosplit_file openable now sec el n out =
     (if autosplit_due sec el n then openfile openable now el n out else Inr (n, out))"

definition fs_write :: "string \<times> bool \<Rightarrow> string \<Rightarrow> sink \<Rightarrow> sink" where
  "fs_write fs s out =
     (if snd fs then out\<lparr>out_files := (out_files out)(fst fs \<mapsto> (case out_files out (fst fs) of None \<Rightarrow> [] | Some c \<Rightarrow> c) @ s)\<rparr>
      else out)"

definition send_to_file :: "(string \<Rightarrow> bool) \<Rightarrow> nat \<Rightarrow> nat \<Rightarrow> easylog \<Rightarrow> levelnode \<Rightarrow> string \<Rightarrow> sink \<Rightarrow> (levelnode \<times> sink) res" where
  "send_to_file openable now sec el n s out =
     (if ln_fs n = None then Inr (n, out)
      else bindE (autosplit_file openable now sec el n out) (\<lambda>(n1, out1).
        case ln_fs n1 of None \<Rightarrow> Inl NullDeref | Some fs \<Rightarrow> Inr (n1, fs_write fs s out1)))"

text \<open>One round of \<^verbatim>\<open>logProcess\<close> that has a message, and the rounds for a sequence of them.\<close>

definition log_write :: "(string \<Rightarrow> bool) \<Rightarrow> nat \<times> nat \<Rightarrow> lognode \<Rightarrow> easylog \<times> sink \<Rightarrow> (easylog \<times> sink) res" where
  "log_write openable = (\<lambda>(now, sec) (l, s) (el, out).
     let (n, el1) = el_node l el
     in bindE (send_to_file openable now sec el1 n s (send_to_stdout n s out)) (\<lambda>(n1, out1). Inr (el_put l n1 el1, out1)))"

definition log_write_all :: "(string \<Rightarrow> bool) \<Rightarrow> ((nat \<times> nat) \<times> lognode) list \<Rightarrow> easylog \<times> sink \<Rightarrow> (easylog \<times> sink) res" where
  "log_write_all openable = foldE (\<lambda>(t, m). log_write openable t m)"

text \<open>The destructor closes the files.\<close>

definition el_delete :: "easylog \<Rightarrow> easylog" where
  "el_delete el = el\<lparr>el_levels := \<lambda>k. map_option (\<lambda>n. n\<lparr>ln_fs := None\<rparr>) (el_levels el k)\<rparr>"

section \<open>Where messages go\<close>

definition content :: "sink \<Rightarrow> string \<Rightarrow> string" where
  "content out f = (case out_files out f of None \<Rightarrow> [] | Some c \<Rightarrow> c)"

text \<open>
  What a terminal shows of a text: the control sequences that set the colour, from an escape to the
  next letter m, take no place. A message as \<^verbatim>\<open>log_message\<close> makes it ends with a line feed;
  \<open>printable\<close> asks also that it has no control sequences of its own.
\<close>

lemma length_dropWhile_Suc [termination_simp]: "length (dropWhile P xs) - Suc 0 < Suc (length xs)"
  using length_dropWhile_le [of P xs] by linarith

fun seen :: "string \<Rightarrow> string" where
  "seen [] = []"
| "seen (c # cs) = (if c = CHR 0x1B then seen (tl (dropWhile (\<lambda>d. d \<noteq> CHR ''m'') cs)) else c # seen cs)"

definition printable :: "string \<Rightarrow> bool" where
  "printable s \<longleftrightarrow> s \<noteq> [] \<and> last s = CHR 0x0A \<and> CHR 0x1B \<notin> set s"

lemma seen_plain: "CHR 0x1B \<notin> set xs \<Longrightarrow> seen (xs @ ys) = xs @ seen ys"
  by (induction xs) auto

lemma seen_escape:
  assumes "CHR ''m'' \<notin> set xs"
  shows "seen (CHR 0x1B # xs @ CHR ''m'' # ys) = seen ys"
proof -
  have "dropWhile (\<lambda>d. d \<noteq> CHR ''m'') (xs @ CHR ''m'' # ys) = CHR ''m'' # ys"
    using assms by (subst dropWhile_append2) auto
  then show ?thesis by simp
qed

lemma seen_coloured:
  assumes "printable s" and "CHR ''m'' \<notin> set code"
  shows "seen ([CHR 0x1B] @ code @ ''m'' @ butlast s @ [CHR 0x1B] @ ''[0m'' @ [CHR 0x0A] @ ys) = s @ seen ys"
proof -
  have s: "s = butlast s @ [CHR 0x0A]" and "CHR 0x1B \<notin> set (butlast s)"
    using assms(1) append_butlast_last_id [of s] by (auto simp: printable_def dest: in_set_butlastD)
  have "seen ([CHR 0x1B] @ code @ ''m'' @ butlast s @ [CHR 0x1B] @ ''[0m'' @ [CHR 0x0A] @ ys) =
      butlast s @ seen (CHR 0x1B # ''[0'' @ CHR ''m'' # CHR 0x0A # ys)"
    using seen_escape [OF assms(2)] seen_plain [OF \<open>CHR 0x1B \<notin> set (butlast s)\<close>] by simp
  also have "\<dots> = (butlast s @ [CHR 0x0A]) @ seen ys" by (subst seen_escape) simp_all
  finally show ?thesis using s by simp
qed

lemma send_to_stdout_effect:
  assumes "ln_to_stdout n \<longrightarrow> printable s"
  shows "\<exists>tx. send_to_stdout n s out = out\<lparr>out_stdout := out_stdout out @ tx\<rparr> \<and>
    (\<forall>ys. seen (tx @ ys) = (if ln_to_stdout n then s else []) @ seen ys)"
proof (cases "ln_to_stdout n \<and> ln_color n \<noteq> GREY")
  case True
  let ?code = "''['' @ dec_nat (if LRED \<le> ln_color n then ln_color n - 10 else ln_color n) @ (if LRED \<le> ln_color n then '';1'' else [])"
  let ?tx = "[CHR 0x1B] @ ?code @ ''m'' @ butlast s @ [CHR 0x1B] @ ''[0m'' @ [CHR 0x0A]"
  have "CHR ''m'' \<notin> set ?code" using isdigit_dec_nat [of "CHR ''m''"] by (auto simp: isdigit_def)
  then have "\<forall>ys. seen (?tx @ ys) = s @ seen ys" using seen_coloured [of s ?code] True assms by simp
  moreover have "send_to_stdout n s out = out\<lparr>out_stdout := out_stdout out @ ?tx\<rparr>" using True by (simp add: send_to_stdout_def)
  ultimately show ?thesis using True by (intro exI [of _ ?tx]) simp
next
  case False
  let ?tx = "if ln_to_stdout n then s else []"
  have "send_to_stdout n s out = out\<lparr>out_stdout := out_stdout out @ ?tx\<rparr>" using False by (auto simp: send_to_stdout_def)
  moreover have "CHR 0x1B \<notin> set ?tx" using assms by (simp add: printable_def)
  ultimately show ?thesis using seen_plain [of ?tx] by blast
qed

lemma fs_write_effect:
  "out_stdout (fs_write fs s out) = out_stdout out"
  "content (fs_write fs s out) f = content out f @ (if fs = (f, True) then s else [])"
  by (cases fs; auto simp: fs_write_def content_def)+

text \<open>A message that its level can take: no split is due of its file, if it has one, and the console can show it, if it goes there.\<close>

definition plain_message :: "easylog \<Rightarrow> (nat \<times> nat) \<times> lognode \<Rightarrow> bool" where
  "plain_message el = (\<lambda>((now, sec), l, s). case el_levels el l of None \<Rightarrow> False
     | Some n \<Rightarrow> (ln_fs n = None \<or> \<not> autosplit_due sec el n) \<and> (\<not> ln_to_stdout n \<or> printable s))"

lemma log_write_plain:
  assumes "el_levels el l = Some n" and "plain_message el ((now, sec), l, s)"
  shows "\<exists>out' tx. log_write openable (now, sec) (l, s) (el, out) = Inr (el, out') \<and>
    out_stdout out' = out_stdout out @ tx \<and> (\<forall>ys. seen (tx @ ys) = (if ln_to_stdout n then s else []) @ seen ys) \<and>
    (\<forall>f. content out' f = content out f @ (if ln_fs n = Some (f, True) then s else []))"
proof -
  have p: "ln_fs n = None \<or> \<not> autosplit_due sec el n" "ln_to_stdout n \<longrightarrow> printable s"
    using assms by (auto simp: plain_message_def)
  obtain tx where tx: "send_to_stdout n s out = out\<lparr>out_stdout := out_stdout out @ tx\<rparr>"
    "\<forall>ys. seen (tx @ ys) = (if ln_to_stdout n then s else []) @ seen ys"
    using send_to_stdout_effect [OF p(2)] by blast
  let ?out = "case ln_fs n of None \<Rightarrow> out\<lparr>out_stdout := out_stdout out @ tx\<rparr> | Some fs \<Rightarrow> fs_write fs s (out\<lparr>out_stdout := out_stdout out @ tx\<rparr>)"
  have "el_put l n el = el" using assms(1) by (simp add: el_put_def fun_upd_idem)
  then have "log_write openable (now, sec) (l, s) (el, out) = Inr (el, ?out)"
    using assms(1) p(1) by (cases "ln_fs n") (auto simp: log_write_def el_node_def send_to_file_def autosplit_file_def tx(1))
  moreover have "out_stdout ?out = out_stdout out @ tx" by (cases "ln_fs n") (simp_all add: fs_write_effect)
  moreover have "content ?out f = content out f @ (if ln_fs n = Some (f, True) then s else [])" for f
    by (cases "ln_fs n") (simp_all add: fs_write_effect, simp_all add: content_def)
  ultimately show ?thesis using tx(2) by blast
qed

text \<open>
  C24: while no open file has to be split, what is written is what was logged: each file has
  grown by exactly the messages of the levels that are directed to it, whole and in order, and what
  the terminal shows has grown by exactly the messages of the levels shown there, in order,
  whatever their colours; the settings are as before. Levels without a file may be among them. The
  messages for the console end with a line feed, as those of \<^verbatim>\<open>log_message\<close> do, and
  have no control sequences of their own.
\<close>

theorem log_files_have_messages:
  assumes "list_all (plain_message el) msgs"
  shows "\<exists>out' tx. log_write_all openable msgs (el, out) = Inr (el, out') \<and>
    (\<forall>f. content out' f = content out f @
      concat (map (\<lambda>(t, l, s). s) (filter (\<lambda>(t, l, s). ln_fs (the (el_levels el l)) = Some (f, True)) msgs))) \<and>
    out_stdout out' = out_stdout out @ tx \<and>
    seen tx = concat (map (\<lambda>(t, l, s). s) (filter (\<lambda>(t, l, s). ln_to_stdout (the (el_levels el l))) msgs))"
  using assms
proof (induction msgs arbitrary: out)
  case Nil
  then show ?case by (simp add: log_write_all_def)
next
  case (Cons m msgs)
  obtain now sec l s where m: "m = ((now, sec), l, s)" by (metis prod.exhaust)
  with Cons.prems obtain n where n: "el_levels el l = Some n" by (auto simp: plain_message_def split: option.splits)
  obtain out1 tx where w: "log_write openable (now, sec) (l, s) (el, out) = Inr (el, out1)"
    "out_stdout out1 = out_stdout out @ tx" "\<forall>ys. seen (tx @ ys) = (if ln_to_stdout n then s else []) @ seen ys"
    "\<forall>f. content out1 f = content out f @ (if ln_fs n = Some (f, True) then s else [])"
    using log_write_plain [OF n, of now sec s openable out] Cons.prems m by auto
  have "log_write_all openable (m # msgs) (el, out) = log_write_all openable msgs (el, out1)"
    by (simp add: log_write_all_def m w(1))
  moreover obtain out' tx' where r: "log_write_all openable msgs (el, out1) = Inr (el, out')"
    "\<forall>f. content out' f = content out1 f @
      concat (map (\<lambda>(t, l, s). s) (filter (\<lambda>(t, l, s). ln_fs (the (el_levels el l)) = Some (f, True)) msgs))"
    "out_stdout out' = out_stdout out1 @ tx'"
    "seen tx' = concat (map (\<lambda>(t, l, s). s) (filter (\<lambda>(t, l, s). ln_to_stdout (the (el_levels el l))) msgs))"
    using Cons.IH [of out1] Cons.prems by auto
  ultimately show ?case using w(2-4) n by (intro exI [of _ out'] exI [of _ "tx @ tx'"]) (simp add: m)
qed

theorem log_files_have_messages_witness:
  "\<exists>out' tx. log_write_all (\<lambda>f. True) [((5, 5), LEVEL_TRACE, ''a'' @ [CHR 0x0A]), ((86406, 86406), LEVEL_ERROR, ''b'' @ [CHR 0x0A]), ((7, 7), LEVEL_TRACE, ''c'' @ [CHR 0x0A])]
      (el_put LEVEL_TRACE (ln_init LEVEL_TRACE GREY\<lparr>ln_fs := Some (''x'', True), ln_to_stdout := False\<rparr>) (el_new True []), \<lparr>out_stdout = [], out_files = [''x'' \<mapsto> ''0'']\<rparr>) =
    Inr (el_put LEVEL_TRACE (ln_init LEVEL_TRACE GREY\<lparr>ln_fs := Some (''x'', True), ln_to_stdout := False\<rparr>) (el_new True []), out') \<and>
    content out' ''x'' = ''0a'' @ [CHR 0x0A] @ ''c'' @ [CHR 0x0A] \<and> out_stdout out' = tx \<and> seen tx = ''b'' @ [CHR 0x0A]"
proof -
  let ?el = "el_put LEVEL_TRACE (ln_init LEVEL_TRACE GREY\<lparr>ln_fs := Some (''x'', True), ln_to_stdout := False\<rparr>) (el_new True [])"
  let ?msgs = "[((5, 5), LEVEL_TRACE, ''a'' @ [CHR 0x0A]), ((86406, 86406), LEVEL_ERROR, ''b'' @ [CHR 0x0A]), ((7, 7), LEVEL_TRACE, ''c'' @ [CHR 0x0A])]"
  have "\<not> autosplit_due s ?el n" if "s < 86400" "ln_launchtime n = 0" for s n
    using that by (simp add: autosplit_due_def el_put_def el_new_def gmtime_def year_of.simps year_days_def month_lengths_def Let_def)
  then have "list_all (plain_message ?el) ?msgs"
    by (simp add: plain_message_def printable_def el_put_def el_new_def ln_init_def)
  from log_files_have_messages [OF this, of "\<lambda>f. True" "\<lparr>out_stdout = [], out_files = [''x'' \<mapsto> ''0'']\<rparr>"]
  show ?thesis by (fastforce simp: el_put_def el_new_def ln_init_def content_def)
qed

lemma gmtime_same_day: "s div 86400 = t div 86400 \<Longrightarrow> tm_mday (gmtime s) = tm_mday (gmtime t)"
  by (simp add: gmtime_def Let_def split_def)

text \<open>
  a log file is split at the midnight of Greenwich, not at that of the date in its name.
  A message of the same day in Greenwich goes to the file that is open, also when the date in
  file names has changed in the meantime: that date is the one of China, eight hours ahead.
\<close>

theorem log_split_at_wrong_midnight:
  assumes "el_autosplit_day el" and "\<not> el_autosplit_hour el" and "ln_fs n = Some fs"
    and "sec div 86400 = ln_launchtime n div 86400"
  shows "send_to_file openable now sec el n s out = Inr (n, fs_write fs s out)"
  using assms gmtime_same_day [OF assms(4)] by (simp add: send_to_file_def autosplit_file_def autosplit_due_def)

theorem log_split_at_wrong_midnight_witness:
  "full_filename 57599 (el_new True ''/l'') ''f'' = Some ''/l/f.1970-01-01'' \<and>
   full_filename 57600 (el_new True ''/l'') ''f'' = Some ''/l/f.1970-01-02'' \<and>
   (\<exists>n out'. openfile (\<lambda>f. True) 57599 (el_new True ''/l'') (ln_init LEVEL_TRACE GREY\<lparr>ln_filename := ''f''\<rparr>) \<lparr>out_stdout = [], out_files = Map.empty\<rparr> = Inr (n, out') \<and>
     send_to_file (\<lambda>f. True) 57600 57600 (el_new True ''/l'') n ''m'' out' = Inr (n, fs_write (''/l/f.1970-01-01'', True) ''m'' out'))"
proof -
  have "pad0 2 1 = ''01''" "pad0 2 2 = ''02''" "dec_nat 1970 = ''1970''" by code_simp+
  moreover have g: "gmtime 86399 = \<lparr>tm_year = 1970, tm_mon = 1, tm_mday = 1, tm_hour = 23, tm_min = 59, tm_sec = 59\<rparr>"
    "gmtime 86400 = \<lparr>tm_year = 1970, tm_mon = 1, tm_mday = 2, tm_hour = 0, tm_min = 0, tm_sec = 0\<rparr>"
    by (simp_all add: gmtime_def year_of.simps year_days_def month_lengths_def)
  moreover have "timestamp now 64 0 (Some ''.%Y-%02m-%02d'') =
      (let t = gmtime (now + 28800); s = ''.'' @ dec_nat (tm_year t) @ ''-'' @ pad0 2 (tm_mon t) @ ''-'' @ pad0 2 (tm_mday t)
       in if length s < 64 then Some s else None)" for now
    by (simp add: timestamp_def strftime_into_def strftime_def strftime_field_def isdigit_def cst_offset_def pad0_def [of 0] numeral_2_eq_2 Let_def)
  ultimately have f: "full_filename 57599 (el_new True ''/l'') ''f'' = Some ''/l/f.1970-01-01''"
    "full_filename 57600 (el_new True ''/l'') ''f'' = Some ''/l/f.1970-01-02''"
    by (simp_all add: full_filename_def el_new_def)
  let ?n = "ln_init LEVEL_TRACE GREY\<lparr>ln_filename := ''f'', ln_fullname := ''/l/f.1970-01-01'', ln_fs := Some (''/l/f.1970-01-01'', True), ln_launchtime := 57599\<rparr>"
  have "openfile (\<lambda>f. True) 57599 (el_new True ''/l'') (ln_init LEVEL_TRACE GREY\<lparr>ln_filename := ''f''\<rparr>) \<lparr>out_stdout = [], out_files = Map.empty\<rparr> =
      Inr (?n, \<lparr>out_stdout = [], out_files = [''/l/f.1970-01-01'' \<mapsto> []]\<rparr>)"
    using f(1) by (simp add: openfile_def)
  moreover have "send_to_file (\<lambda>f. True) 57600 57600 (el_new True ''/l'') ?n ''m'' out = Inr (?n, fs_write (''/l/f.1970-01-01'', True) ''m'' out)" for out
    by (rule log_split_at_wrong_midnight) (simp_all add: el_new_def)
  ultimately show ?thesis using f by blast
qed

lemma el_open_missing_keeps:
  "el_levels el l = Some n \<Longrightarrow> ln_fs n = Some fs \<Longrightarrow>
     okE (\<lambda>(el', out'). el_levels el' l = Some n) (el_open_missing openable now ls el out)"
proof (induction ls arbitrary: el out)
  case (Cons k ls)
  show ?case
  proof (cases "el_levels el k")
    case None
    then show ?thesis using Cons by simp
  next
    case (Some m)
    show ?thesis
    proof (cases "ln_filename m \<noteq> [] \<and> ln_fs m = None")
      case True
      then have "k \<noteq> l" using Some Cons.prems by auto
      then show ?thesis
        using True Some Cons by (auto simp: el_put_def intro!: okE_bind_pure)
    next
      case False
      then show ?thesis using Some Cons by auto
    qed
  qed
qed simp

text \<open>
  a level whose file is open keeps writing to it when it is given a new file name: the
  stream is left as it is, until the file is split.
\<close>

theorem log_new_name_ignored:
  assumes "el_levels el l = Some n" and "ln_fs n = Some fs"
    and "el_set_tofile openable now l filename el out = Inr (el', out')"
  shows "\<exists>n'. el_levels el' l = Some n' \<and> ln_fs n' = Some fs"
proof -
  let ?el = "el_each l (\<lambda>n. n\<lparr>ln_filename := filename\<rparr>) el"
  obtain n' where n': "el_levels ?el l = Some n'" "ln_fs n' = Some fs" using assms(1,2) by (auto simp: el_each_def)
  then show ?thesis
    using el_open_missing_keeps [OF n', of openable now levels_in_order out] assms(3)
    by (auto simp: el_set_tofile_def okE_def)
qed

theorem log_new_name_ignored_witness:
  "\<exists>el' out' n'. el_set_tofile (\<lambda>f. True) 0 LEVEL_TRACE ''new'' (el_put LEVEL_TRACE (ln_init LEVEL_TRACE GREY\<lparr>ln_fs := Some (''old'', True)\<rparr>) (el_new True [])) \<lparr>out_stdout = [], out_files = Map.empty\<rparr> = Inr (el', out') \<and>
     el_levels el' LEVEL_TRACE = Some n' \<and> ln_fs n' = Some (''old'', True)"
proof -
  let ?n = "ln_init LEVEL_TRACE GREY\<lparr>ln_fs := Some (''old'', True)\<rparr>" and ?out = "\<lparr>out_stdout = [], out_files = Map.empty\<rparr>"
  let ?el = "el_put LEVEL_TRACE ?n (el_new True [])"
  have "\<exists>el'. el_set_tofile (\<lambda>f. True) 0 LEVEL_TRACE ''new'' ?el ?out = Inr (el', ?out)"
    by (simp add: el_set_tofile_def levels_in_order_def el_each_def el_put_def el_new_def ln_init_def)
  moreover have "el_levels ?el LEVEL_TRACE = Some ?n" "ln_fs ?n = Some (''old'', True)" by (simp_all add: el_put_def)
  ultimately show ?thesis using log_new_name_ignored [of ?el LEVEL_TRACE ?n "(''old'', True)" "\<lambda>f. True" 0 "''new''" ?out] by blast
qed

section \<open>The queue and the thread that writes\<close>

text \<open>
  The operations of \<^verbatim>\<open>LockfreeQueue\<close>. The lock makes each one atomic; the test for an empty
  queue before a \<open>pop\<close> is outside of it.
\<close>

definition lq_push_back :: "'a \<Rightarrow> 'a list \<Rightarrow> 'a list" where
  "lq_push_back x q = q @ [x]"

definition lq_push_front :: "'a \<Rightarrow> 'a list \<Rightarrow> 'a list" where
  "lq_push_front x q = x # q"

definition lq_pop_front :: "'a list \<Rightarrow> ('a \<times> 'a list) res" where
  "lq_pop_front q = assertE (q \<noteq> []) (Inr (hd q, tl q))"

lemma lq_pop_front_Inr [simp]: "lq_pop_front q = Inr (m, r) \<longleftrightarrow> q = m # r"
  by (cases q) (auto simp: lq_pop_front_def)

definition lq_pop_back :: "'a list \<Rightarrow> ('a \<times> 'a list) res" where
  "lq_pop_back q = assertE (q \<noteq> []) (Inr (last q, butlast q))"

definition lq_empty :: "'a list \<Rightarrow> bool" where
  "lq_empty q \<longleftrightarrow> q = []"

text \<open>
  Where the thread of \<^verbatim>\<open>logProcess\<close> is: looking at the queue, about to take a message, writing
  one, past an empty queue, past the test of \<open>_stop\<close>, blocked in \<^verbatim>\<open>wait\<close>, and gone.
\<close>

datatype log_pc = LP_look | LP_pop | LP_write lognode | LP_idle | LP_sleep | LP_waiting | LP_exit

text \<open>
  \<open>lt_entering\<close> are the messages of threads that have passed the test of \<^verbatim>\<open>log_message\<close>,
  \<open>lt_notify\<close> how many threads are about to call \<^verbatim>\<open>notify_all\<close>, and \<open>lt_pushed\<close> the messages
  queued so far.
\<close>

record log_threads =
  lt_queue :: "lognode list"
  lt_stop :: bool
  lt_pc :: log_pc
  lt_entering :: "lognode list"
  lt_notify :: nat
  lt_pushed :: "lognode list"
  lt_written :: "lognode list"

definition log_start :: log_threads where
  "log_start = \<lparr>lt_queue = [], lt_stop = False, lt_pc = LP_look, lt_entering = [], lt_notify = 0, lt_pushed = [], lt_written = []\<rparr>"

text \<open>
  The steps of all threads, one at a time; the log is stopped once. \<open>spurious\<close> says whether
  a wait may end without having been notified, which C++ allows and does not promise.
\<close>

inductive log_step :: "bool \<Rightarrow> log_threads \<Rightarrow> log_threads \<Rightarrow> bool" for spurious :: bool where
  enter: "\<not> lt_stop s \<Longrightarrow> log_step spurious s (s\<lparr>lt_entering := lt_entering s @ [m]\<rparr>)"
| push: "m \<in> set (lt_entering s) \<Longrightarrow>
    log_step spurious s (s\<lparr>lt_entering := remove1 m (lt_entering s), lt_queue := lq_push_back m (lt_queue s),
      lt_pushed := lt_pushed s @ [m], lt_notify := Suc (lt_notify s)\<rparr>)"
| notify: "lt_notify s = Suc k \<Longrightarrow>
    log_step spurious s (s\<lparr>lt_notify := k, lt_pc := (if lt_pc s = LP_waiting then LP_look else lt_pc s)\<rparr>)"
| stop: "\<not> lt_stop s \<Longrightarrow> log_step spurious s (s\<lparr>lt_stop := True, lt_notify := Suc (lt_notify s)\<rparr>)"
| look_some: "lt_pc s = LP_look \<Longrightarrow> \<not> lq_empty (lt_queue s) \<Longrightarrow> log_step spurious s (s\<lparr>lt_pc := LP_pop\<rparr>)"
| look_none: "lt_pc s = LP_look \<Longrightarrow> lq_empty (lt_queue s) \<Longrightarrow> log_step spurious s (s\<lparr>lt_pc := LP_idle\<rparr>)"
| pop: "lt_pc s = LP_pop \<Longrightarrow> lq_pop_front (lt_queue s) = Inr (m, q) \<Longrightarrow>
    log_step spurious s (s\<lparr>lt_pc := LP_write m, lt_queue := q\<rparr>)"
| put: "lt_pc s = LP_write m \<Longrightarrow> log_step spurious s (s\<lparr>lt_pc := LP_look, lt_written := lt_written s @ [m]\<rparr>)"
| idle_stop: "lt_pc s = LP_idle \<Longrightarrow> lt_stop s \<Longrightarrow> log_step spurious s (s\<lparr>lt_pc := LP_exit\<rparr>)"
| idle_wait: "lt_pc s = LP_idle \<Longrightarrow> \<not> lt_stop s \<Longrightarrow> log_step spurious s (s\<lparr>lt_pc := LP_sleep\<rparr>)"
| wait: "lt_pc s = LP_sleep \<Longrightarrow> log_step spurious s (s\<lparr>lt_pc := LP_waiting\<rparr>)"
| wake: "spurious \<Longrightarrow> lt_pc s = LP_waiting \<Longrightarrow> log_step spurious s (s\<lparr>lt_pc := LP_look\<rparr>)"

inductive_cases log_stepE: "log_step spurious s s'"

fun in_hand :: "log_pc \<Rightarrow> lognode list" where
  "in_hand (LP_write m) = [m]"
| "in_hand _ = []"

definition log_inv :: "log_threads \<Rightarrow> bool" where
  "log_inv s \<longleftrightarrow> lt_pushed s = lt_written s @ in_hand (lt_pc s) @ lt_queue s \<and>
     (lt_pc s = LP_pop \<longrightarrow> lt_queue s \<noteq> []) \<and> (lt_pc s = LP_exit \<longrightarrow> lt_stop s)"

lemma log_step_inv: "log_step w s s' \<Longrightarrow> log_inv s \<Longrightarrow> log_inv s'"
  by (induction rule: log_step.induct)
    (auto simp: log_inv_def lq_push_back_def lq_empty_def split: if_splits)

lemma log_run1: "log_step w s t \<Longrightarrow> (log_step w)\<^sup>*\<^sup>* s t"
  by (rule r_into_rtranclp)

lemma log_run: "log_step w s t \<Longrightarrow> (log_step w)\<^sup>*\<^sup>* t u \<Longrightarrow> (log_step w)\<^sup>*\<^sup>* s u"
  by (rule converse_rtranclp_into_rtranclp)

lemma log_reach_inv: "(log_step w)\<^sup>*\<^sup>* log_start s \<Longrightarrow> log_inv s"
  by (induction rule: rtranclp_induct) (auto simp: log_start_def log_inv_def dest: log_step_inv)

text \<open>
  C12: whatever the interleaving of the threads that log with the one that writes, the
  messages written are the first ones queued, in the order they were queued, none twice and
  none left out; the rest is in the queue, but for the one in the writer's hand. The writer
  never takes from an empty queue.
\<close>

theorem log_order_kept:
  assumes "(log_step spurious)\<^sup>*\<^sup>* log_start s"
  shows "lt_pushed s = lt_written s @ in_hand (lt_pc s) @ lt_queue s \<and>
    (lt_pc s = LP_pop \<longrightarrow> lq_pop_front (lt_queue s) = Inr (hd (lt_queue s), tl (lt_queue s)))"
  using log_reach_inv [OF assms] by (simp add: log_inv_def)

theorem log_order_kept_witness:
  "\<exists>s. (log_step False)\<^sup>*\<^sup>* log_start s \<and> lt_pushed s = [(LEVEL_TRACE, ''a'')] \<and>
     lt_pushed s = lt_written s @ in_hand (lt_pc s) @ lt_queue s"
proof -
  let ?m = "(LEVEL_TRACE, ''a'')"
  let ?s = "log_start\<lparr>lt_entering := [?m]\<rparr>"
  have "log_step False log_start ?s" using log_step.enter [of log_start False ?m] by (simp add: log_start_def)
  moreover have "log_step False ?s (?s\<lparr>lt_entering := [], lt_queue := [?m], lt_pushed := [?m], lt_notify := 1\<rparr>)"
    using log_step.push [of ?m ?s False] by (simp add: log_start_def lq_push_back_def)
  ultimately have r: "(log_step False)\<^sup>*\<^sup>* log_start (?s\<lparr>lt_entering := [], lt_queue := [?m], lt_pushed := [?m], lt_notify := 1\<rparr>)"
    by (rule rtranclp.rtrancl_into_rtrancl [OF r_into_rtranclp])
  moreover note log_order_kept [OF r]
  ultimately show ?thesis by (intro exI [of _ "?s\<lparr>lt_entering := [], lt_queue := [?m], lt_pushed := [?m], lt_notify := 1\<rparr>"]) simp
qed

text \<open>
  the log can hang. The writer looks at the queue and at \<open>_stop\<close>, and only then waits,
  without looking again: a message queued and a stop announced in between wake nobody. The
  message is never written, the log is never left, and the thread that called \<open>stop\<close> waits
  for it for ever: no thread can take a step.
\<close>

theorem log_stop_may_hang:
  "\<exists>s. (log_step False)\<^sup>*\<^sup>* log_start s \<and> lt_stop s \<and> lt_pc s = LP_waiting \<and> lt_queue s = [m] \<and> lt_written s = [] \<and>
     (\<forall>s'. \<not> log_step False s s')"
proof -
  let ?s1 = "log_start\<lparr>lt_pc := LP_idle\<rparr>"
  let ?s2 = "log_start\<lparr>lt_pc := LP_sleep\<rparr>"
  let ?s3 = "?s2\<lparr>lt_entering := [m]\<rparr>"
  let ?s4 = "?s2\<lparr>lt_queue := [m], lt_pushed := [m], lt_notify := 1\<rparr>"
  let ?s5 = "?s2\<lparr>lt_queue := [m], lt_pushed := [m], lt_notify := 2, lt_stop := True\<rparr>"
  let ?s6 = "?s5\<lparr>lt_notify := 1\<rparr>"
  let ?s7 = "?s5\<lparr>lt_notify := 0\<rparr>"
  let ?s8 = "?s7\<lparr>lt_pc := LP_waiting\<rparr>"
  note [simp] = log_start_def lq_empty_def lq_push_back_def
  have h1: "log_step False log_start ?s1" using log_step.look_none [of log_start False] by simp
  have h2: "log_step False ?s1 ?s2" using log_step.idle_wait [of ?s1 False] by simp
  have h3: "log_step False ?s2 ?s3" using log_step.enter [of ?s2 False m] by simp
  have h4: "log_step False ?s3 ?s4" using log_step.push [of m ?s3 False] by simp
  have h5: "log_step False ?s4 ?s5" using log_step.stop [of ?s4 False] by (simp add: numeral_2_eq_2)
  have h6: "log_step False ?s5 ?s6" using log_step.notify [of ?s5 1 False] by (simp add: numeral_2_eq_2)
  have h7: "log_step False ?s6 ?s7" using log_step.notify [of ?s6 0 False] by simp
  have h8: "log_step False ?s7 ?s8" using log_step.wait [of ?s7 False] by simp
  have "(log_step False)\<^sup>*\<^sup>* log_start ?s8"
    by (rule log_run [OF h1 log_run [OF h2 log_run [OF h3 log_run [OF h4 log_run [OF h5 log_run [OF h6 log_run [OF h7 log_run1 [OF h8]]]]]]]])
  moreover have "\<not> log_step False ?s8 s'" for s' by (auto elim: log_stepE)
  ultimately show ?thesis by (intro exI [of _ ?s8]) simp
qed

text \<open>
  Schedules: any steps of the threads, and how many of them the writer took. A step of the writer
  is one that changes where it is while it does not wait; every other thread leaves that alone,
  but for a notification, which ends a wait.
\<close>

definition writer_moves :: "log_threads \<Rightarrow> log_threads \<Rightarrow> bool" where
  "writer_moves s t \<longleftrightarrow> lt_pc s \<noteq> LP_waiting \<and> lt_pc t \<noteq> lt_pc s"

inductive log_sched :: "bool \<Rightarrow> log_threads \<Rightarrow> nat \<Rightarrow> log_threads \<Rightarrow> bool" for spurious :: bool and s :: log_threads where
  sched_start: "log_sched spurious s 0 s"
| sched_step: "log_sched spurious s n t \<Longrightarrow> log_step spurious t u \<Longrightarrow>
    log_sched spurious s (if writer_moves t u then Suc n else n) u"

text \<open>A writer at work, and the steps it still has to take until the first \<open>k\<close> messages are written.\<close>

fun writer_works :: "log_pc \<Rightarrow> bool" where
  "writer_works LP_look = True"
| "writer_works LP_pop = True"
| "writer_works (LP_write m) = True"
| "writer_works _ = False"

fun steps_left :: "nat \<Rightarrow> log_pc \<Rightarrow> nat" where
  "steps_left r LP_pop = 3 * r - 1"
| "steps_left r (LP_write m) = 3 * r - 2"
| "steps_left r _ = 3 * r"

text \<open>Either all messages of \<open>p\<close> are written, or the writer is at work on them and has come as far as its steps.\<close>

definition on_the_way :: "lognode list \<Rightarrow> nat \<Rightarrow> nat \<Rightarrow> log_threads \<Rightarrow> bool" where
  "on_the_way p w n t \<longleftrightarrow> writer_works (lt_pc t) \<and> length (lt_written t) < length p \<and>
     n + steps_left (length p - length (lt_written t)) (lt_pc t) = w"

definition all_written :: "lognode list \<Rightarrow> log_threads \<Rightarrow> bool" where
  "all_written p t \<longleftrightarrow> take (length p) (lt_written t) = p"

lemma take_append_whole: "take (length p) xs = p \<Longrightarrow> take (length p) (xs @ ys) = p"
  by (metis append_Nil2 diff_is_0_eq length_take min.cobounded1 take_0 take_append)

lemma all_written_step: "log_step w t u \<Longrightarrow> all_written p t \<Longrightarrow> all_written p u"
  by (induction rule: log_step.induct) (auto simp: all_written_def intro: take_append_whole simp del: take_append)

lemma pushed_step: "log_step w t u \<Longrightarrow> take (length p) (lt_pushed t) = p \<Longrightarrow> take (length p) (lt_pushed u) = p"
  by (induction rule: log_step.induct) (auto intro: take_append_whole simp del: take_append)

lemma written_of_pushed:
  assumes "log_inv t" and "take (length p) (lt_pushed t) = p" and "length p \<le> length (lt_written t)"
  shows "all_written p t"
  using assms by (simp add: log_inv_def all_written_def)

lemma on_the_way_step:
  assumes "log_step spurious t u" and "log_inv t" and "take (length p) (lt_pushed t) = p" and "on_the_way p w n t"
  shows "all_written p u \<or> on_the_way p w (if writer_moves t u then Suc n else n) u"
  using assms(1)
proof cases
  case look_none
  then have "lt_written t = lt_pushed t" using assms(2) by (simp add: log_inv_def lq_empty_def)
  then have "length p \<le> length (lt_written t)" using assms(3) by (metis length_take min.cobounded1)
  then show ?thesis using assms(4) by (simp add: on_the_way_def)
next
  case (put m)
  have inv: "log_inv u" using log_step_inv [OF assms(1,2)] .
  have "take (length p) (lt_pushed u) = p" using pushed_step [OF assms(1,3)] .
  then show ?thesis
    using put assms(4) written_of_pushed [OF inv, of p]
    by (cases "length (lt_written u) < length p") (auto simp: on_the_way_def writer_moves_def)
qed (use assms(4) in \<open>auto simp: on_the_way_def writer_moves_def\<close>)

lemma log_sched_way:
  assumes "log_sched spurious s n t" and "log_inv s" and "writer_works (lt_pc s)"
    and "w = steps_left (length (lt_pushed s) - length (lt_written s)) (lt_pc s)"
  shows "log_inv t \<and> take (length (lt_pushed s)) (lt_pushed t) = lt_pushed s \<and>
    (all_written (lt_pushed s) t \<or> on_the_way (lt_pushed s) w n t)"
  using assms
proof (induction rule: log_sched.induct)
  case sched_start
  then show ?case
    using written_of_pushed [of s "lt_pushed s"]
    by (cases "length (lt_written s) < length (lt_pushed s)") (auto simp: on_the_way_def)
next
  case (sched_step n t u)
  then show ?case
    using log_step_inv pushed_step all_written_step on_the_way_step by metis
qed

lemma writer_can_move:
  assumes "log_inv t" and "writer_works (lt_pc t)"
  shows "\<exists>u. log_step spurious t u \<and> writer_moves t u"
proof (cases "lt_pc t")
  case LP_look
  then show ?thesis
    using log_step.look_some [OF LP_look, of spurious] log_step.look_none [OF LP_look, of spurious]
    by (cases "lq_empty (lt_queue t)") (auto simp: writer_moves_def intro!: exI)
next
  case LP_pop
  then obtain m q where "lt_queue t = m # q" using assms(1) by (cases "lt_queue t") (auto simp: log_inv_def)
  then show ?thesis
    using log_step.pop [OF LP_pop, of m q spurious] LP_pop
    by (intro exI [of _ "t\<lparr>lt_pc := LP_write m, lt_queue := q\<rparr>"]) (simp add: writer_moves_def)
next
  case (LP_write m)
  then show ?thesis
    using log_step.put [OF LP_write, of spurious]
    by (intro exI [of _ "t\<lparr>lt_pc := LP_look, lt_written := lt_written t @ [m]\<rparr>"]) (simp add: writer_moves_def)
qed (use assms(2) in simp_all)

text \<open>
  C34: a writer that is not on its way to sleep writes everything that is queued, in every
  schedule. From a moment at which it looks at the queue, takes a message or has one in its hand,
  let the threads go on in any way, more messages and the stop of the log included: once the writer
  has taken three steps of its own for every message that was queued and not written, all these are
  written, in order; and until then the writer can take its next step.
\<close>

theorem log_writer_drains:
  assumes "(log_step spurious)\<^sup>*\<^sup>* log_start s" and "writer_works (lt_pc s)" and "log_sched spurious s n t"
  shows "(3 * (length (lt_pushed s) - length (lt_written s)) \<le> n \<longrightarrow> take (length (lt_pushed s)) (lt_written t) = lt_pushed s) \<and>
    (take (length (lt_pushed s)) (lt_written t) \<noteq> lt_pushed s \<longrightarrow> (\<exists>u. log_step spurious t u \<and> writer_moves t u))"
proof -
  let ?r = "length (lt_pushed s) - length (lt_written s)"
  have way: "log_inv t" "all_written (lt_pushed s) t \<or> on_the_way (lt_pushed s) (steps_left ?r (lt_pc s)) n t"
    using log_sched_way [OF assms(3) log_reach_inv [OF assms(1)] assms(2) refl] by auto
  have "steps_left ?r (lt_pc s) \<le> 3 * ?r" by (cases "lt_pc s") simp_all
  moreover have "0 < steps_left k pc" if "0 < k" for k pc using that by (cases pc) simp_all
  ultimately have "n < 3 * ?r" if "on_the_way (lt_pushed s) (steps_left ?r (lt_pc s)) n t"
    using that [unfolded on_the_way_def] \<open>\<And>pc k. 0 < k \<Longrightarrow> 0 < steps_left k pc\<close> [of "length (lt_pushed s) - length (lt_written t)" "lt_pc t"] by linarith
  moreover have "\<exists>u. log_step spurious t u \<and> writer_moves t u" if "writer_works (lt_pc t)"
    using that writer_can_move [OF way(1)] by blast
  ultimately show ?thesis using way(2) by (auto simp: all_written_def on_the_way_def)
qed

theorem log_writer_drains_witness:
  "\<exists>s t. (log_step False)\<^sup>*\<^sup>* log_start s \<and> lt_queue s = [(LEVEL_TRACE, ''a'')] \<and> log_sched False s 3 t \<and>
     take 1 (lt_written t) = [(LEVEL_TRACE, ''a'')]"
proof -
  let ?m = "(LEVEL_TRACE, ''a'')"
  let ?entered = "log_start\<lparr>lt_entering := [?m]\<rparr>"
  let ?s = "log_start\<lparr>lt_queue := [?m], lt_pushed := [?m], lt_notify := 1\<rparr>"
  let ?t1 = "?s\<lparr>lt_pc := LP_pop\<rparr>" and ?t2 = "?s\<lparr>lt_pc := LP_write ?m, lt_queue := []\<rparr>"
  let ?t3 = "?s\<lparr>lt_queue := [], lt_pc := LP_look, lt_written := [?m]\<rparr>"
  note [simp] = log_start_def lq_empty_def lq_push_back_def writer_moves_def
  have "log_step False log_start ?entered" using log_step.enter [of log_start False ?m] by simp
  moreover have "log_step False ?entered ?s" using log_step.push [of ?m ?entered False] by simp
  ultimately have r: "(log_step False)\<^sup>*\<^sup>* log_start ?s" by (meson log_run log_run1)
  have "log_step False ?s ?t1" using log_step.look_some [of ?s False] by simp
  then have "log_sched False ?s 1 ?t1" using sched_step [OF sched_start, of False ?s ?t1] by simp
  moreover have "log_step False ?t1 ?t2" using log_step.pop [of ?t1 ?m "[]" False] by simp
  ultimately have "log_sched False ?s 2 ?t2" using sched_step [of False ?s 1 ?t1 ?t2] by (simp add: numeral_2_eq_2)
  moreover have "log_step False ?t2 ?t3" using log_step.put [of ?t2 ?m False] by simp
  ultimately have t: "log_sched False ?s 3 ?t3" using sched_step [of False ?s 2 ?t2 ?t3] by simp
  have "take (length (lt_pushed ?s)) (lt_written ?t3) = lt_pushed ?s" using log_writer_drains [OF r _ t] by simp
  with r t show ?thesis by (intro exI [of _ ?s] exI [of _ ?t3]) simp
qed

text \<open>
  a message can be lost at the end: a thread that passed the test of \<open>log_message\<close> before
  the log was stopped may queue its message after the writer has left.
\<close>

theorem log_message_lost_at_stop:
  "\<exists>s. (log_step False)\<^sup>*\<^sup>* log_start s \<and> lt_pc s = LP_exit \<and> lt_queue s = [m] \<and> lt_written s = []"
proof -
  let ?s1 = "log_start\<lparr>lt_entering := [m]\<rparr>"
  let ?s2 = "?s1\<lparr>lt_pc := LP_idle\<rparr>"
  let ?s3 = "?s2\<lparr>lt_stop := True, lt_notify := 1\<rparr>"
  let ?s4 = "?s3\<lparr>lt_pc := LP_exit\<rparr>"
  let ?s5 = "?s4\<lparr>lt_entering := [], lt_queue := [m], lt_pushed := [m], lt_notify := 2\<rparr>"
  note [simp] = log_start_def lq_empty_def lq_push_back_def
  have h1: "log_step False log_start ?s1" using log_step.enter [of log_start False m] by simp
  have h2: "log_step False ?s1 ?s2" using log_step.look_none [of ?s1 False] by simp
  have h3: "log_step False ?s2 ?s3" using log_step.stop [of ?s2 False] by simp
  have h4: "log_step False ?s3 ?s4" using log_step.idle_stop [of ?s3 False] by simp
  have h5: "log_step False ?s4 ?s5" using log_step.push [of m ?s4 False] by (simp add: numeral_2_eq_2)
  have "(log_step False)\<^sup>*\<^sup>* log_start ?s5"
    by (rule log_run [OF h1 log_run [OF h2 log_run [OF h3 log_run [OF h4 log_run1 [OF h5]]]]])
  then show ?thesis by (intro exI [of _ ?s5]) simp
qed

end
