(* ===== verification/Csv_Lines.thy ===== *)
theory Csv_Lines
  imports Tools_Text
begin

text \<open>
  The line reader of \<^verbatim>\<open>csv/CsvReader.h\<close>: a file is read through a buffer of three blocks,
  the third of which a thread fills while lines are cut from the first two. \<open>B\<close> is the block
  length (\<^verbatim>\<open>1 << 24\<close> in the code). The bytes of the file are the argument \<open>src\<close>; the
  memory of the buffer is not initialised and starts as \<open>junk\<close>. The thread writes to the third
  block only, which nobody reads before \<^verbatim>\<open>finish_read\<close>, so that its read is modelled as done
  when it is started. The texts of the exceptions are not modelled.
\<close>

section \<open>Errors\<close>

datatype csv_error =
  can_not_open_file | line_length_limit_exceeded | extra_column_in_header string | missing_column_in_header string
| duplicated_column_in_header string | header_missing | too_few_columns | too_many_columns | escaped_string_not_closed
| no_digit | integer_overflow | integer_underflow | invalid_single_character

text \<open>What ends a call: an exception, a fault, or waiting for a thread that is gone.\<close>

datatype csv_stop = Throws csv_error | Faults fault | Hangs

type_synonym 'a csv = "csv_stop + 'a"

fun bindC :: "'a csv \<Rightarrow> ('a \<Rightarrow> 'b csv) \<Rightarrow> 'b csv" where
  "bindC (Inl e) f = Inl e"
| "bindC (Inr x) f = f x"

section \<open>The reader\<close>

definition block_len :: nat where
  "block_len = 2 ^ 24"

abbreviation newline :: char where
  "newline \<equiv> CHR 0x0A"

abbreviation carriage :: char where
  "carriage \<equiv> CHR 0x0D"

abbreviation NUL :: char where
  "NUL \<equiv> CHR 0x00"

text \<open>
  \<open>lr_reader\<close> is \<open>None\<close> while the asynchronous reader is not in use. Otherwise it has the bytes
  that are still in the file and the answer of the last read, \<open>None\<close> where the thread has ended
  and none will come.
\<close>

record linereader =
  lr_buffer :: string
  lr_begin :: nat
  lr_end :: nat
  lr_reader :: "(string \<times> nat option) option"
  lr_line :: u32

text \<open>\<open>alive\<close>: the thread ends after a read that gets nothing.\<close>

definition start_read :: "nat \<Rightarrow> string \<Rightarrow> bool \<Rightarrow> string \<Rightarrow> string \<times> (string \<times> nat option)" where
  "start_read B src alive buf =
     (if alive then (put_at (2 * B) (take B src) buf, (drop B src, Some (length (take B src)))) else (buf, (src, None)))"

definition bom :: string where
  "bom = [CHR 0xEF, CHR 0xBB, CHR 0xBF]"

definition lr_init :: "nat \<Rightarrow> string \<Rightarrow> string \<Rightarrow> linereader" where
  "lr_init B junk src =
     (let bytes = take (2 * B) src; buf = put_at 0 bytes junk; n = length bytes;
          start = if 3 \<le> n \<and> take 3 buf = bom then 3 else 0
      in if n = 2 * B
         then let (buf1, r) = start_read B (drop (2 * B) src) True buf
              in \<lparr>lr_buffer = buf1, lr_begin = start, lr_end = n, lr_reader = Some r, lr_line = 0\<rparr>
         else \<lparr>lr_buffer = buf, lr_begin = start, lr_end = n, lr_reader = None, lr_line = 0\<rparr>)"

text \<open>The first block is used up: the second one takes its place, and the third the second's.\<close>

definition lr_shift :: "nat \<Rightarrow> linereader \<Rightarrow> linereader csv" where
  "lr_shift B lr =
     (let buf = put_at 0 (window B (2 * B) (lr_buffer lr)) (lr_buffer lr)
      in case lr_reader lr of
           None \<Rightarrow> Inr (lr\<lparr>lr_buffer := buf, lr_begin := lr_begin lr - B, lr_end := lr_end lr - B\<rparr>)
         | Some (src, None) \<Rightarrow> Inl Hangs
         | Some (src, Some n) \<Rightarrow>
             let buf1 = put_at B (window (2 * B) (3 * B) buf) buf; (buf2, r) = start_read B src (0 < n) buf1
             in Inr (lr\<lparr>lr_buffer := buf2, lr_begin := lr_begin lr - B, lr_end := lr_end lr - B + n, lr_reader := Some r\<rparr>))"

definition line_end :: "linereader \<Rightarrow> nat" where
  "line_end lr = lr_begin lr + length (takeWhile (\<lambda>c. c \<noteq> newline) (window (lr_begin lr) (lr_end lr) (lr_buffer lr)))"

text \<open>
  The line that begins here. The byte after the data is taken for a line feed if it happens
  to be one. The result is the C string at the beginning of the line.
\<close>

definition lr_cut :: "nat \<Rightarrow> linereader \<Rightarrow> (string \<times> linereader) csv" where
  "lr_cut B lr =
     (let e = line_end lr
      in if B < e - lr_begin lr + 1 then Inl (Throws line_length_limit_exceeded)
         else let fin = if lr_buffer lr ! e = newline then lr_end lr else lr_end lr + 1;
                  buf = (lr_buffer lr)[e := NUL];
                  buf1 = if e \<noteq> lr_begin lr \<and> buf ! (e - 1) = carriage then buf[e - 1 := NUL] else buf
              in Inr (cstring (drop (lr_begin lr) buf1), lr\<lparr>lr_buffer := buf1, lr_begin := e + 1, lr_end := fin\<rparr>))"

definition lr_next_line :: "nat \<Rightarrow> linereader \<Rightarrow> (string option \<times> linereader) csv" where
  "lr_next_line B lr =
     (if lr_begin lr = lr_end lr then Inr (None, lr)
      else let lr1 = lr\<lparr>lr_line := lr_line lr + 1\<rparr>
           in if \<not> (lr_begin lr1 < lr_end lr1 \<and> lr_end lr1 \<le> 2 * B) then Inl (Faults AssertFailed)
              else bindC (if B \<le> lr_begin lr1 then lr_shift B lr1 else Inr lr1) (\<lambda>lr2.
                   bindC (lr_cut B lr2) (\<lambda>(l, lr3). Inr (Some l, lr3))))"

section \<open>What the reader has still to return\<close>

definition lr_more :: "nat \<Rightarrow> linereader \<Rightarrow> string" where
  "lr_more B lr = (case lr_reader lr of Some (src, Some n) \<Rightarrow> window (2 * B) (2 * B + n) (lr_buffer lr) @ src | _ \<Rightarrow> [])"

definition lr_rest :: "nat \<Rightarrow> linereader \<Rightarrow> string" where
  "lr_rest B lr = window (lr_begin lr) (lr_end lr) (lr_buffer lr) @ lr_more B lr"

definition reader_inv :: "nat \<Rightarrow> linereader \<Rightarrow> bool" where
  "reader_inv B lr \<longleftrightarrow> (case lr_reader lr of None \<Rightarrow> True
     | Some (src, None) \<Rightarrow> src = [] \<and> lr_end lr \<le> B
     | Some (src, Some n) \<Rightarrow> n \<le> B \<and> (n < B \<longrightarrow> src = []) \<and> (0 < n \<longrightarrow> lr_end lr = 2 * B \<and> lr_begin lr < lr_end lr))"

definition lr_inv :: "nat \<Rightarrow> linereader \<Rightarrow> bool" where
  "lr_inv B lr \<longleftrightarrow> 2 \<le> B \<and> length (lr_buffer lr) = 3 * B \<and> lr_begin lr \<le> lr_end lr \<and> lr_end lr \<le> 2 * B \<and> reader_inv B lr"

lemma window_split: "r \<le> m \<Longrightarrow> m \<le> w \<Longrightarrow> window r w xs = window r m xs @ window m w xs"
proof -
  assume "r \<le> m" "m \<le> w"
  moreover have "take (w - r) (drop r xs) = take (m - r) (drop r xs) @ take (w - m) (drop (m - r) (drop r xs))"
    using \<open>r \<le> m\<close> \<open>m \<le> w\<close> by (metis diff_diff_left le_add_diff_inverse le_add_diff_inverse2 le_diff_iff ordered_cancel_comm_monoid_diff_class.add_diff_assoc2 take_add)
  ultimately show ?thesis by (simp add: window_def)
qed

lemma start_read_rest:
  assumes "length buf = 3 * B"
  shows "\<exists>buf1 src1 n. start_read B src True buf = (buf1, (src1, Some n)) \<and> length buf1 = 3 * B \<and>
    window (2 * B) (2 * B + n) buf1 @ src1 = src \<and> (\<forall>r w. w \<le> 2 * B \<longrightarrow> window r w buf1 = window r w buf) \<and>
    n \<le> B \<and> (n < B \<longrightarrow> src1 = [])"
proof -
  have "window (2 * B) (2 * B + length (take B src)) (put_at (2 * B) (take B src) buf) = take B src"
    using assms by (intro window_put_at_same) simp
  then show ?thesis
    using assms by (auto simp: start_read_def window_put_at_before)
qed

lemma lr_init_spec:
  assumes "2 \<le> B" and "length junk = 3 * B"
  shows "lr_inv B (lr_init B junk src) \<and> lr_rest B (lr_init B junk src) = (if take 3 src = bom then drop 3 src else src)"
proof -
  let ?bytes = "take (2 * B) src" and ?buf = "put_at 0 (take (2 * B) src) junk"
  let ?start = "if 3 \<le> length ?bytes \<and> take 3 ?buf = bom then 3 else (0 :: nat)"
  have len: "length ?buf = 3 * B" using assms by simp
  have head: "?start = (if take 3 src = bom then 3 else 0)"
  proof -
    have "take 3 ?buf = take 3 src" if "3 \<le> length ?bytes" using that assms(1) by (simp add: put_at_def min_def)
    moreover have "length src \<ge> 3" if "take 3 src = bom" using arg_cong [OF that, of length] by (simp add: bom_def)
    ultimately show ?thesis using assms(1) by auto
  qed
  have win: "window b (length ?bytes) ?buf = drop b ?bytes" if "b \<le> length ?bytes" for b
    using that assms by (auto simp: put_at_def window_def drop_take min_def split: if_splits)
  define b where "b = (if take 3 src = bom then 3 else (0 :: nat))"
  have goal: "(if take 3 src = bom then drop 3 src else src) = drop b src" by (simp add: b_def)
  have b: "b \<le> length ?bytes" "b < 2 * B" using assms(1) unfolding b_def head [symmetric] by auto
  show ?thesis
  proof (cases "length ?bytes = 2 * B")
    case True
    obtain buf1 src1 n where r: "start_read B (drop (2 * B) src) True ?buf = (buf1, (src1, Some n))" "length buf1 = 3 * B"
      "window (2 * B) (2 * B + n) buf1 @ src1 = drop (2 * B) src" "\<And>r. window r (2 * B) buf1 = window r (2 * B) ?buf"
      "n \<le> B" "n < B \<longrightarrow> src1 = []" using start_read_rest [OF len] by (metis order_refl)
    have init: "lr_init B junk src = \<lparr>lr_buffer = buf1, lr_begin = b, lr_end = 2 * B, lr_reader = Some (src1, Some n), lr_line = 0\<rparr>"
      unfolding lr_init_def Let_def head b_def [symmetric] using True r(1) by simp
    have "window b (2 * B) buf1 = drop b ?bytes" using win [OF b(1)] unfolding True r(4) .
    moreover have "drop b ?bytes @ drop (2 * B) src = drop b src"
      using b(1) by (metis append_take_drop_id drop_append diff_is_0_eq drop_0)
    ultimately show ?thesis
      unfolding goal init using r(2,3,5,6) b(2) assms(1)
      by (simp add: lr_inv_def reader_inv_def lr_rest_def lr_more_def)
  next
    case False
    then have short: "length src < 2 * B" by (simp add: min_def split: if_splits)
    then have bytes: "?bytes = src" by simp
    have init: "lr_init B junk src = \<lparr>lr_buffer = ?buf, lr_begin = b, lr_end = length src, lr_reader = None, lr_line = 0\<rparr>"
      unfolding lr_init_def Let_def head b_def [symmetric] using False bytes by simp
    show ?thesis
      unfolding goal init using win [OF b(1)] b(1) len assms(1) short bytes
      by (simp add: lr_inv_def reader_inv_def lr_rest_def lr_more_def)
  qed
qed

text \<open>The byte behind the data of a file that fits into the first two blocks.\<close>

definition lr_behind :: "nat \<Rightarrow> char \<Rightarrow> linereader \<Rightarrow> bool" where
  "lr_behind B c lr \<longleftrightarrow> lr_reader lr = None \<and> lr_end lr < 2 * B \<and> lr_buffer lr ! lr_end lr = c"

lemma lr_init_behind:
  assumes "length src < 2 * B" and "length junk = 3 * B"
  shows "lr_behind B (junk ! length src) (lr_init B junk src)"
proof -
  have "put_at 0 src junk ! length src = junk ! length src" using assms by (simp add: put_at_def nth_append)
  then show ?thesis using assms(1) by (simp add: lr_init_def Let_def lr_behind_def)
qed

lemma lr_shift_behind:
  assumes "lr_inv B lr" and "B \<le> lr_begin lr" and "lr_behind B c lr" and "lr_shift B lr = Inr lr'"
  shows "lr_behind B c lr'"
proof -
  let ?buf = "lr_buffer lr"
  have len: "length ?buf = 3 * B" and e: "B \<le> lr_end lr" "lr_end lr < 2 * B" using assms(1-3) by (auto simp: lr_inv_def lr_behind_def)
  have half: "length (window B (2 * B) ?buf) = B" using len by simp
  have "put_at 0 (window B (2 * B) ?buf) ?buf ! (lr_end lr - B) = window B (2 * B) ?buf ! (lr_end lr - B)"
    unfolding put_at_def using half e by (subst nth_append) (auto simp: nth_append)
  also have "\<dots> = ?buf ! lr_end lr" using e len by (simp add: window_def)
  finally show ?thesis using assms(3,4) by (auto simp: lr_shift_def Let_def lr_behind_def)
qed

lemma lr_shift_spec:
  assumes inv: "lr_inv B lr" and b: "B \<le> lr_begin lr" "lr_begin lr < lr_end lr"
  shows "\<exists>lr'. lr_shift B lr = Inr lr' \<and> lr_inv B lr' \<and> lr_rest B lr' = lr_rest B lr \<and> lr_begin lr' < B \<and> lr_begin lr' < lr_end lr'"
proof -
  let ?buf = "lr_buffer lr" and ?b = "lr_begin lr - B"
  let ?first = "put_at 0 (window B (2 * B) ?buf) ?buf"
  have len: "length ?buf = 3 * B" and e: "lr_end lr \<le> 2 * B" and B: "2 \<le> B" using inv by (auto simp: lr_inv_def)
  have half: "length (window B (2 * B) ?buf) = B" using len by simp
  have len0: "length ?first = 3 * B" using len half by simp
  have low: "window ?b (lr_end lr - B) ?first = window (lr_begin lr) (lr_end lr) ?buf"
  proof -
    have "window ?b (lr_end lr - B) ?first = window ?b (lr_end lr - B) (window B (2 * B) ?buf)"
      using half e by (simp add: put_at_def window_append1)
    also have "\<dots> = window (lr_begin lr) (lr_end lr) ?buf"
      using b e by (simp add: window_def drop_take min_def)
    finally show ?thesis .
  qed
  have high: "window (2 * B) w ?first = window (2 * B) w ?buf" for w
    using half len by (intro window_put_at_after) auto
  show ?thesis
  proof (cases "lr_reader lr")
    case None
    then show ?thesis using len0 low b e B
      by (auto simp: lr_shift_def Let_def lr_inv_def reader_inv_def lr_rest_def lr_more_def)
  next
    case (Some r)
    obtain src m where r: "r = (src, m)" by (cases r)
    show ?thesis
    proof (cases m)
      case None
      then show ?thesis using inv Some r b by (auto simp: lr_inv_def reader_inv_def)
    next
      case m: (Some n)
      have n: "n \<le> B" "n < B \<longrightarrow> src = []" "0 < n \<longrightarrow> lr_end lr = 2 * B" using inv Some r m by (auto simp: lr_inv_def reader_inv_def)
      let ?third = "window (2 * B) (3 * B) ?first"
      let ?second = "put_at B ?third ?first"
      have third: "length ?third = B" using len0 by simp
      have len1: "length ?second = 3 * B" using len0 third by simp
      have "?third = window (2 * B) (2 * B + n) ?buf @ window (2 * B + n) (3 * B) ?buf"
        unfolding high using n(1) by (intro window_split) auto
      then have "window B (B + n) ?second = window (2 * B) (2 * B + n) ?buf"
        using len0 n(1) len by (simp add: put_at_def window_def min_def)
      moreover have "window ?b (lr_end lr - B) ?second = window ?b (lr_end lr - B) ?first"
        using e len0 by (intro window_put_at_before) auto
      ultimately have join: "window ?b (lr_end lr - B + n) ?second =
          window (lr_begin lr) (lr_end lr) ?buf @ window (2 * B) (2 * B + n) ?buf"
        using n(3) low b by (cases "n = 0") (auto simp: window_split [of ?b B "B + n"])
      show ?thesis
      proof (cases "0 < n")
        case True
        obtain buf2 src1 k where s: "start_read B src True ?second = (buf2, (src1, Some k))" "length buf2 = 3 * B"
          "window (2 * B) (2 * B + k) buf2 @ src1 = src" "\<And>r w. w \<le> 2 * B \<Longrightarrow> window r w buf2 = window r w ?second"
          "k \<le> B" "k < B \<longrightarrow> src1 = []" using start_read_rest [OF len1] by metis
        have "length (window (2 * B) (2 * B + k) buf2) = k" using s(2,5) by simp
        then have "n = B" if "0 < k" using n(1,2) s(3) that by (cases "n < B") auto
        then show ?thesis
          using Some r m True s n join b e B s(4) [of "lr_end lr - B + n" ?b]
          by (auto simp: lr_shift_def Let_def lr_inv_def reader_inv_def lr_rest_def lr_more_def)
      next
        case False
        then show ?thesis
          using Some r m n join b e B len1
          by (auto simp: lr_shift_def Let_def start_read_def lr_inv_def reader_inv_def lr_rest_def lr_more_def)
      qed
    qed
  qed
qed

text \<open>A line without a carriage return at its end, as the C string it is returned as.\<close>

definition line_text :: "string \<Rightarrow> string" where
  "line_text l = cstring (if l \<noteq> [] \<and> last l = carriage then butlast l else l)"

lemma cstring_stop: "cstring (xs @ NUL # ys) = cstring xs"
  by (induction xs) (simp_all add: cstring_def)

definition line_nul :: "string \<Rightarrow> string" where
  "line_nul l = (if l \<noteq> [] \<and> last l = carriage then butlast l @ [NUL] else l)"

lemma length_line_nul [simp]: "length (line_nul l) = length l"
  by (simp add: line_nul_def)

lemma cut_line:
  assumes "length pre = b"
  shows "(let buf = (pre @ l @ c # post)[b + length l := NUL]
      in if b + length l \<noteq> b \<and> buf ! (b + length l - 1) = carriage then buf[b + length l - 1 := NUL] else buf) =
    pre @ line_nul l @ NUL # post"
    and "cstring (drop b (pre @ line_nul l @ NUL # post)) = line_text l"
proof -
  have cut: "(pre @ l @ c # post)[b + length l := NUL] = pre @ l @ NUL # post"
    using assms by (simp add: list_update_append)
  show "(let buf = (pre @ l @ c # post)[b + length l := NUL]
      in if b + length l \<noteq> b \<and> buf ! (b + length l - 1) = carriage then buf[b + length l - 1 := NUL] else buf) =
    pre @ line_nul l @ NUL # post"
    unfolding cut using assms by (cases l rule: rev_cases) (simp_all add: line_nul_def nth_append list_update_append)
  show "cstring (drop b (pre @ line_nul l @ NUL # post)) = line_text l"
    using assms by (simp add: cstring_stop line_nul_def line_text_def)
qed

lemma lr_cut_eq:
  assumes "lr_buffer lr = pre @ l @ c # post" and "length pre = lr_begin lr" and "line_end lr = lr_begin lr + length l" and "length l < B"
  shows "lr_cut B lr = Inr (line_text l, lr\<lparr>lr_buffer := pre @ line_nul l @ NUL # post, lr_begin := lr_begin lr + length l + 1,
    lr_end := (if c = newline then lr_end lr else lr_end lr + 1)\<rparr>)"
proof -
  have c: "(pre @ l @ c # post) ! (lr_begin lr + length l) = c" using assms(2) by (simp add: nth_append)
  have ok: "\<not> B < lr_begin lr + length l - lr_begin lr + 1" using assms(4) by simp
  show ?thesis
    unfolding lr_cut_def assms(1,3) Let_def c
    using cut_line [OF assms(2), where l = l and post = post] cut_line(1) [OF assms(2), where l = l and c = c and post = post, unfolded Let_def] ok
    by (simp only: if_False)
qed

lemma lr_more_high:
  "lr_reader lr' = lr_reader lr \<Longrightarrow> drop (2 * B) (lr_buffer lr') = drop (2 * B) (lr_buffer lr) \<Longrightarrow> lr_more B lr' = lr_more B lr"
  by (auto simp: lr_more_def window_def split: option.split prod.split)

lemma lr_cut_spec:
  assumes inv: "lr_inv B lr" and b: "lr_begin lr < B" "lr_begin lr < lr_end lr"
    and l: "lr_rest B lr = l @ newline # rest" "newline \<notin> set l" "length l < B"
  shows "\<exists>lr'. lr_cut B lr = Inr (line_text l, lr') \<and> lr_inv B lr' \<and> lr_rest B lr' = rest \<and> (\<forall>c. lr_behind B c lr \<longrightarrow> lr_behind B c lr')"
proof -
  let ?buf = "lr_buffer lr" and ?b = "lr_begin lr"
  let ?win = "window ?b (lr_end lr) ?buf" and ?e = "lr_begin lr + length l"
  have len: "length ?buf = 3 * B" and e: "lr_end lr \<le> 2 * B" using inv by (auto simp: lr_inv_def)
  have lenw: "length ?win = lr_end lr - ?b" using len e b by simp
  have "\<exists>w. ?win = l @ newline # w"
  proof (cases "lr_more B lr = []")
    case True
    then show ?thesis using l(1) by (simp add: lr_rest_def)
  next
    case False
    then have "lr_end lr = 2 * B" using inv by (auto simp: lr_more_def lr_inv_def reader_inv_def split: option.splits prod.splits)
    then have "length l < length ?win" using lenw b(1) l(3) by simp
    then have "take (Suc (length l)) (?win @ lr_more B lr) = take (Suc (length l)) ?win" by simp
    moreover have "take (Suc (length l)) (?win @ lr_more B lr) = l @ [newline]" using l(1) by (simp add: lr_rest_def)
    ultimately have "?win = (l @ [newline]) @ drop (Suc (length l)) ?win" by (metis append_take_drop_id)
    then show ?thesis by auto
  qed
  then obtain w where w: "?win = l @ newline # w" by blast
  have buf: "?buf = take ?b ?buf @ l @ newline # w @ drop (lr_end lr) ?buf"
    using drop_eq_take_append [of ?b "lr_end lr" ?buf] b(2) w unfolding window_def by (metis append_Cons append_assoc append_take_drop_id less_imp_le)
  have lt: "length (take ?b ?buf) = ?b" using len b(1) by simp
  have "takeWhile (\<lambda>c. c \<noteq> newline) (l @ newline # w) = l" using l(2) by (induction l) auto
  then have ends: "line_end lr = ?e" using w by (simp add: line_end_def)
  have e_lt: "?e < lr_end lr" using lenw w by simp
  let ?buf' = "take ?b ?buf @ line_nul l @ NUL # w @ drop (lr_end lr) ?buf"
  let ?lr' = "lr\<lparr>lr_buffer := ?buf', lr_begin := ?e + 1, lr_end := lr_end lr\<rparr>"
  have "lr_cut B lr = Inr (line_text l, ?lr')"
    using lr_cut_eq [OF buf lt ends l(3)] by simp
  have drop_e: "drop (?e + 1) ?buf' = w @ drop (lr_end lr) ?buf" using lt by simp
  have lw: "length w = lr_end lr - (?e + 1)" using lenw w by simp
  have "drop (lr_end lr) ?buf' = drop (lr_end lr - (?e + 1)) (drop (?e + 1) ?buf')"
    using e_lt by (simp only: drop_drop le_add_diff_inverse2 Suc_leI Suc_eq_plus1)
  then have high: "drop (lr_end lr) ?buf' = drop (lr_end lr) ?buf" unfolding drop_e using lw by simp
  have "drop (2 * B) ?buf' = drop (2 * B) ?buf"
    using arg_cong [OF high, of "drop (2 * B - lr_end lr)"] e by (simp only: drop_drop le_add_diff_inverse2)
  then have more: "lr_more B ?lr' = lr_more B lr" by (intro lr_more_high) (simp_all del: drop_append)
  have "window (?e + 1) (lr_end lr) ?buf' = w" unfolding window_def drop_e using lw by simp
  moreover have "rest = w @ lr_more B lr" using l(1) w by (simp add: lr_rest_def)
  ultimately have "lr_rest B ?lr' = rest" using more by (simp add: lr_rest_def)
  moreover have "lr_inv B ?lr'"
  proof -
    have "length ?buf' = 3 * B" using arg_cong [OF buf, of length] len by simp
    moreover have "reader_inv B ?lr'"
      using inv b(1) l(3) e_lt by (auto simp: lr_inv_def reader_inv_def split: option.splits prod.splits)
    ultimately show ?thesis using inv e_lt by (simp add: lr_inv_def)
  qed
  moreover have "lr_behind B c ?lr'" if "lr_behind B c lr" for c
  proof -
    have "drop (lr_end lr) ?buf' ! 0 = drop (lr_end lr) ?buf ! 0" using high by simp
    moreover have "length ?buf' = length ?buf" using arg_cong [OF buf, of length] by simp
    moreover have "lr_end lr \<le> length ?buf" using len e by simp
    ultimately have "?buf' ! lr_end lr = ?buf ! lr_end lr" by (metis add.right_neutral nth_drop)
    then show ?thesis using that by (simp add: lr_behind_def)
  qed
  ultimately show ?thesis using \<open>lr_cut B lr = Inr (line_text l, ?lr')\<close> by blast
qed

text \<open>The last line of a file that does not end with a line feed.\<close>

lemma lr_cut_last:
  assumes inv: "lr_inv B lr" and b: "lr_begin lr < B" "lr_begin lr < lr_end lr"
    and l: "lr_rest B lr = l" "newline \<notin> set l" "length l < B"
  shows "\<exists>lr'. lr_cut B lr = Inr (line_text l, lr') \<and> lr_begin lr' = lr_end lr + 1 \<and>
    lr_end lr' = (if lr_buffer lr ! lr_end lr = newline then lr_end lr else lr_end lr + 1) \<and>
    length (lr_buffer lr') = 3 * B \<and> lr_reader lr' = lr_reader lr"
proof -
  let ?buf = "lr_buffer lr" and ?b = "lr_begin lr" and ?c = "lr_buffer lr ! lr_end lr"
  let ?win = "window ?b (lr_end lr) ?buf"
  have len: "length ?buf = 3 * B" and e: "lr_end lr \<le> 2 * B" using inv by (auto simp: lr_inv_def)
  have lenw: "length ?win = lr_end lr - ?b" using len e b by simp
  have "lr_more B lr = []"
  proof (rule ccontr)
    assume "lr_more B lr \<noteq> []"
    then have "lr_end lr = 2 * B" using inv by (auto simp: lr_more_def lr_inv_def reader_inv_def split: option.splits prod.splits)
    then have "B < length ?win" using lenw b(1) by simp
    moreover have "length ?win \<le> length l" using l(1) by (auto simp: lr_rest_def)
    ultimately show False using l(3) by simp
  qed
  then have w: "?win = l" using l(1) by (simp add: lr_rest_def)
  have "drop (lr_end lr) ?buf = ?c # drop (Suc (lr_end lr)) ?buf" using len e b by (intro Cons_nth_drop_Suc [symmetric]) simp
  then have buf: "?buf = take ?b ?buf @ l @ ?c # drop (Suc (lr_end lr)) ?buf"
    using drop_eq_take_append [of ?b "lr_end lr" ?buf] b(2) w unfolding window_def by (metis append_assoc append_take_drop_id less_imp_le)
  have lt: "length (take ?b ?buf) = ?b" using len b(1) by simp
  have tw: "takeWhile (\<lambda>c. c \<noteq> newline) l = l" using l(2) by (intro takeWhile_eq_all_conv [THEN iffD2]) auto
  have ends: "line_end lr = ?b + length l" by (simp only: line_end_def w tw)
  have "?b + length l = lr_end lr" using lenw w b(2) by simp
  moreover have "length (take ?b ?buf @ line_nul l @ NUL # drop (Suc (lr_end lr)) ?buf) = 3 * B"
    using arg_cong [OF buf, of length] len by simp
  ultimately show ?thesis using lr_cut_eq [OF buf lt ends l(3)] by simp
qed

lemma reader_inv_line: "reader_inv B (lr\<lparr>lr_line := n\<rparr>) = reader_inv B lr"
  by (auto simp: reader_inv_def split: option.split prod.split)

lemma lr_more_line: "lr_more B (lr\<lparr>lr_line := n\<rparr>) = lr_more B lr"
  by (auto simp: lr_more_def split: option.split prod.split)

lemma lr_begin_end: "lr_inv B lr \<Longrightarrow> lr_rest B lr \<noteq> [] \<Longrightarrow> lr_begin lr < lr_end lr \<and> lr_end lr \<le> 2 * B"
proof -
  assume inv: "lr_inv B lr" and rest: "lr_rest B lr \<noteq> []"
  have "lr_begin lr \<noteq> lr_end lr"
  proof
    assume eq: "lr_begin lr = lr_end lr"
    then have "lr_more B lr = []"
      using inv by (auto simp: lr_inv_def reader_inv_def lr_more_def split: option.splits prod.splits)
    with eq rest show False by (simp add: lr_rest_def)
  qed
  then show ?thesis using inv by (auto simp: lr_inv_def)
qed

text \<open>The state in which the line is cut.\<close>

lemma lr_next_line_shift:
  assumes inv: "lr_inv B lr" and rest: "lr_rest B lr \<noteq> []"
  shows "\<exists>lr2. lr_next_line B lr = bindC (lr_cut B lr2) (\<lambda>(l, lr3). Inr (Some l, lr3)) \<and> lr_inv B lr2 \<and> lr_rest B lr2 = lr_rest B lr \<and>
    lr_begin lr2 < B \<and> lr_begin lr2 < lr_end lr2 \<and> (\<forall>c. lr_behind B c lr \<longrightarrow> lr_behind B c lr2)"
proof -
  have b: "lr_begin lr < lr_end lr" and e: "lr_end lr \<le> 2 * B" using lr_begin_end [OF assms] by simp_all
  let ?lr = "lr\<lparr>lr_line := lr_line lr + 1\<rparr>"
  have inv1: "lr_inv B ?lr" and rest1: "lr_rest B ?lr = lr_rest B lr" and beh: "lr_behind B c ?lr = lr_behind B c lr" for c
    using inv by (simp_all add: lr_inv_def lr_rest_def lr_behind_def reader_inv_line lr_more_line)
  show ?thesis
  proof (cases "B \<le> lr_begin ?lr")
    case True
    from lr_shift_spec [OF inv1 True] b obtain lr2 where lr2: "lr_shift B ?lr = Inr lr2" "lr_inv B lr2" "lr_rest B lr2 = lr_rest B ?lr"
      "lr_begin lr2 < B" "lr_begin lr2 < lr_end lr2" by auto
    have "lr_next_line B lr = bindC (lr_cut B lr2) (\<lambda>(l, lr3). Inr (Some l, lr3))"
      using b e lr2(1) True by (simp add: lr_next_line_def Let_def)
    moreover have "lr_behind B c lr2" if "lr_behind B c lr" for c
      using lr_shift_behind [OF inv1 True _ lr2(1)] that beh by blast
    ultimately show ?thesis using lr2(2-5) unfolding rest1 by blast
  next
    case False
    then have "lr_next_line B lr = bindC (lr_cut B ?lr) (\<lambda>(l, lr3). Inr (Some l, lr3))"
      using b e by (simp add: lr_next_line_def Let_def)
    then show ?thesis using inv1 rest1 beh b False by (intro exI [of _ ?lr]) simp
  qed
qed

lemma lr_next_line_spec:
  assumes inv: "lr_inv B lr" and l: "lr_rest B lr = l @ newline # rest" "newline \<notin> set l" "length l < B"
  shows "\<exists>lr'. lr_next_line B lr = Inr (Some (line_text l), lr') \<and> lr_inv B lr' \<and> lr_rest B lr' = rest \<and>
    (\<forall>c. lr_behind B c lr \<longrightarrow> lr_behind B c lr')"
proof -
  obtain lr2 where lr2: "lr_next_line B lr = bindC (lr_cut B lr2) (\<lambda>(l, lr3). Inr (Some l, lr3))"
    "lr_inv B lr2" "lr_rest B lr2 = lr_rest B lr" "lr_begin lr2 < B" "lr_begin lr2 < lr_end lr2" "\<forall>c. lr_behind B c lr \<longrightarrow> lr_behind B c lr2"
    using lr_next_line_shift [OF inv] l(1) by auto
  with lr_cut_spec [OF lr2(2,4,5), of l rest] l show ?thesis by auto
qed

lemma lr_next_line_last:
  assumes inv: "lr_inv B lr" and l: "lr_rest B lr = l" "l \<noteq> []" "newline \<notin> set l" "length l < B"
  shows "\<exists>lr' c. lr_next_line B lr = Inr (Some (line_text l), lr') \<and>
    lr_next_line B lr' = (if c = newline then Inl (Faults AssertFailed) else Inr (None, lr')) \<and>
    (\<forall>d. lr_behind B d lr \<longrightarrow> c = d \<and> (d \<noteq> newline \<longrightarrow> lr_inv B lr' \<and> lr_rest B lr' = []))"
proof -
  obtain lr2 where lr2: "lr_next_line B lr = bindC (lr_cut B lr2) (\<lambda>(l, lr3). Inr (Some l, lr3))"
    "lr_inv B lr2" "lr_rest B lr2 = lr_rest B lr" "lr_begin lr2 < B" "lr_begin lr2 < lr_end lr2" "\<forall>c. lr_behind B c lr \<longrightarrow> lr_behind B c lr2"
    using lr_next_line_shift [OF inv] l(1,2) by auto
  let ?c = "lr_buffer lr2 ! lr_end lr2"
  obtain lr' where lr': "lr_cut B lr2 = Inr (line_text l, lr')" "lr_begin lr' = lr_end lr2 + 1"
    "lr_end lr' = (if ?c = newline then lr_end lr2 else lr_end lr2 + 1)" "length (lr_buffer lr') = 3 * B" "lr_reader lr' = lr_reader lr2"
    using lr_cut_last [OF lr2(2,4,5), of l] lr2(3) l by auto
  have "lr_next_line B lr' = (if ?c = newline then Inl (Faults AssertFailed) else Inr (None, lr'))"
    using lr'(2,3) by (simp add: lr_next_line_def Let_def)
  moreover have "lr_inv B lr' \<and> lr_rest B lr' = []" if "lr_behind B d lr" "d \<noteq> newline" for d
  proof -
    have "lr_reader lr2 = None" "lr_end lr2 < 2 * B" "?c \<noteq> newline" using that lr2(6) by (auto simp: lr_behind_def)
    then show ?thesis using lr' lr2(2) by (simp add: lr_inv_def reader_inv_def lr_rest_def lr_more_def window_def)
  qed
  moreover have "?c = d" if "lr_behind B d lr" for d using that lr2(6) by (simp add: lr_behind_def)
  ultimately show ?thesis using lr2(1) lr'(1) by (intro exI [of _ lr'] exI [of _ ?c]) simp
qed

lemma lr_next_line_end: "lr_inv B lr \<Longrightarrow> lr_rest B lr = [] \<Longrightarrow> lr_next_line B lr = Inr (None, lr)"
  by (auto simp: lr_inv_def lr_rest_def lr_next_line_def window_def)

text \<open>
  Reading until there is no line left, with the lines that were read and what ended the reading
  if it was not the end of the file; a file gives at most as many lines as it has bytes.
\<close>

fun read_lines :: "nat \<Rightarrow> nat \<Rightarrow> linereader \<Rightarrow> (string list \<times> csv_stop option) option" where
  "read_lines B 0 lr = None"
| "read_lines B (Suc k) lr =
     (case lr_next_line B lr of
        Inl e \<Rightarrow> Some ([], Some e)
      | Inr (None, lr1) \<Rightarrow> Some ([], None)
      | Inr (Some l, lr1) \<Rightarrow> map_option (\<lambda>(ls, e). (l # ls, e)) (read_lines B k lr1))"

definition text_of_lines :: "string list \<Rightarrow> string" where
  "text_of_lines ls = concat (map (\<lambda>l. l @ [newline]) ls)"

text \<open>The lines of a file with what stands behind its last line feed, a line of its own unless it is empty.\<close>

definition file_lines :: "string list \<Rightarrow> string \<Rightarrow> string list" where
  "file_lines ls tail = (if tail = [] then ls else ls @ [tail])"

lemma file_lines_Cons: "file_lines (l # ls) tail = l # file_lines ls tail"
  by (simp add: file_lines_def)

lemma read_lines_spec:
  assumes "lr_inv B lr" and "lr_rest B lr = text_of_lines ls @ tail" and "\<forall>l\<in>set (tail # ls). newline \<notin> set l \<and> length l < B"
    and "length ls + 1 < k"
  shows "\<exists>c. read_lines B k lr = Some (map line_text (file_lines ls tail), if tail \<noteq> [] \<and> c = newline then Some (Faults AssertFailed) else None) \<and>
    (\<forall>d. lr_behind B d lr \<longrightarrow> c = d)"
  using assms
proof (induction ls arbitrary: lr k)
  case Nil
  then obtain j where k: "k = Suc (Suc j)" by (cases k; cases "k - 1") auto
  have rest: "lr_rest B lr = tail" using Nil.prems(2) by (simp add: text_of_lines_def)
  show ?case
  proof (cases "tail = []")
    case True
    then show ?thesis
      using k rest Nil.prems(1) by (intro exI [of _ "lr_buffer lr ! lr_end lr"]) (simp add: lr_next_line_end file_lines_def lr_behind_def)
  next
    case False
    with lr_next_line_last [OF Nil.prems(1) rest] Nil.prems(3) obtain lr' c where "lr_next_line B lr = Inr (Some (line_text tail), lr')"
      "lr_next_line B lr' = (if c = newline then Inl (Faults AssertFailed) else Inr (None, lr'))" "\<forall>d. lr_behind B d lr \<longrightarrow> c = d" by auto
    then show ?thesis using k False by (intro exI [of _ c]) (simp add: file_lines_def)
  qed
next
  case (Cons l ls)
  then obtain j where k: "k = Suc j" by (cases k) auto
  have "lr_rest B lr = l @ newline # (text_of_lines ls @ tail)" using Cons.prems(2) by (simp add: text_of_lines_def)
  with Cons.prems obtain lr' where lr': "lr_next_line B lr = Inr (Some (line_text l), lr')" "lr_inv B lr'" "lr_rest B lr' = text_of_lines ls @ tail"
    "\<forall>c. lr_behind B c lr \<longrightarrow> lr_behind B c lr'"
    using lr_next_line_spec [of B lr l "text_of_lines ls @ tail"] by auto
  from Cons.IH [OF lr'(2,3), of j] Cons.prems(3,4) k obtain c where
    "read_lines B j lr' = Some (map line_text (file_lines ls tail), if tail \<noteq> [] \<and> c = newline then Some (Faults AssertFailed) else None)"
    "\<forall>d. lr_behind B d lr' \<longrightarrow> c = d" by auto
  then show ?case using lr'(1,4) k by (intro exI [of _ c]) (auto simp: file_lines_Cons)
qed

text \<open>
  C17: a file whose lines are shorter than a block is read as its lines, each once and in order,
  whatever its length and however the lines lie in the blocks; a mark at the beginning of the
  file and a carriage return at the end of a line are taken off. The last line need not end with
  a line feed: it is read too. What follows then is the end, or a failed assertion in the one case
  that a line is not ended by a line feed and the memory behind the data happens to hold one,
  which for a file shorter than two blocks is the byte that was there before.
\<close>

theorem csv_lines_read:
  assumes "2 \<le> B" and "length junk = 3 * B" and "\<forall>l\<in>set (tail # ls). newline \<notin> set l \<and> length l < B" and "length ls + 1 < k"
    and "file = text_of_lines ls @ tail \<and> take 3 file \<noteq> bom \<or> file = bom @ text_of_lines ls @ tail"
  shows "\<exists>stop. read_lines B k (lr_init B junk file) = Some (map line_text (file_lines ls tail), stop) \<and>
    (stop = None \<or> tail \<noteq> [] \<and> stop = Some (Faults AssertFailed)) \<and>
    (length file < 2 * B \<and> tail \<noteq> [] \<longrightarrow> (stop \<noteq> None \<longleftrightarrow> junk ! length file = newline))"
proof -
  have "take 3 bom = bom" "drop 3 bom = []" "length bom = 3" by (simp_all add: bom_def)
  then have "lr_inv B (lr_init B junk file)" "lr_rest B (lr_init B junk file) = text_of_lines ls @ tail"
    using lr_init_spec [OF assms(1,2), of "file"] assms(5) by auto
  from read_lines_spec [OF this assms(3,4)] obtain c where
    c: "read_lines B k (lr_init B junk file) = Some (map line_text (file_lines ls tail), if tail \<noteq> [] \<and> c = newline then Some (Faults AssertFailed) else None)"
    "\<forall>d. lr_behind B d (lr_init B junk file) \<longrightarrow> c = d" by blast
  have "c = junk ! length file" if "length file < 2 * B" using c(2) lr_init_behind [OF that assms(2)] by blast
  then show ?thesis using c(1) by auto
qed

theorem csv_lines_read_witness:
  "read_lines 4 7 (lr_init 4 (replicate 12 newline) (text_of_lines [''abc'', ''d'', '''', [CHR ''e'', carriage], ''f''])) =
    Some ([''abc'', ''d'', '''', ''e'', ''f''], None) \<and>
   read_lines 4 3 (lr_init 4 (replicate 12 (CHR ''x'')) ''ab\<newline>c'') = Some ([''ab'', ''c''], None) \<and>
   read_lines 4 3 (lr_init 4 (replicate 12 newline) ''ab\<newline>c'') = Some ([''ab'', ''c''], Some (Faults AssertFailed))"
proof (intro conjI)
  let ?ls = "[''abc'', ''d'', '''', [CHR ''e'', carriage], ''f'']"
  have "take 3 (text_of_lines ?ls) \<noteq> bom" by (simp add: text_of_lines_def bom_def)
  then show "read_lines 4 7 (lr_init 4 (replicate 12 newline) (text_of_lines ?ls)) = Some ([''abc'', ''d'', '''', ''e'', ''f''], None)"
    using csv_lines_read [of 4 "replicate 12 newline" "[]" ?ls 7 "text_of_lines ?ls"] by (simp add: line_text_def cstring_def file_lines_def)
next
  have f: "text_of_lines [''ab''] @ ''c'' = ''ab\<newline>c''" "take 3 ''ab\<newline>c'' \<noteq> bom" by (simp_all add: text_of_lines_def bom_def)
  show "read_lines 4 3 (lr_init 4 (replicate 12 (CHR ''x'')) ''ab\<newline>c'') = Some ([''ab'', ''c''], None)"
    "read_lines 4 3 (lr_init 4 (replicate 12 newline) ''ab\<newline>c'') = Some ([''ab'', ''c''], Some (Faults AssertFailed))"
    using csv_lines_read [of 4 "replicate 12 (CHR ''x'')" "''c''" "[''ab'']" 3 "''ab\<newline>c''"]
      csv_lines_read [of 4 "replicate 12 newline" "''c''" "[''ab'']" 3 "''ab\<newline>c''"] f
    by (auto simp: line_text_def cstring_def file_lines_def)
qed

text \<open>
  a file that does not end with a line feed can abort the program. Where the memory after
  its last byte happens to hold a line feed, that is taken for the end of the last line, the
  position is moved past the end of the data, and the next call fails its assertion.
\<close>

theorem csv_stale_newline_aborts:
  assumes "2 \<le> B" and "length junk = 3 * B" and "junk ! length l = newline"
    and "l \<noteq> []" and "newline \<notin> set l" and "length l < B" and "take 3 l \<noteq> bom"
  shows "\<exists>lr. lr_next_line B (lr_init B junk l) = Inr (Some (line_text l), lr) \<and> lr_next_line B lr = Inl (Faults AssertFailed)"
proof -
  let ?buf = "put_at 0 l junk"
  have short: "take (2 * B) l = l" "length l \<noteq> 2 * B" using assms(6) by simp_all
  have buf: "?buf = l @ newline # drop (Suc (length l)) junk"
    using Cons_nth_drop_Suc [of "length l" junk] assms(2,3,6) by (simp add: put_at_def)
  have init: "lr_init B junk l = \<lparr>lr_buffer = ?buf, lr_begin = 0, lr_end = length l, lr_reader = None, lr_line = 0\<rparr>"
    unfolding lr_init_def short Let_def using short assms(7) by (auto simp: put_at_def)
  let ?lr = "\<lparr>lr_buffer = ?buf, lr_begin = 0, lr_end = length l, lr_reader = None, lr_line = 1\<rparr>"
  have e: "line_end ?lr = length l"
    using assms(5) unfolding line_end_def by (simp add: window_def buf del: takeWhile_eq_all_conv) (subst takeWhile_eq_all_conv [THEN iffD2], auto)
  obtain lr where c: "lr_cut B ?lr = Inr (line_text l, lr)" and lr: "lr_begin lr = length l + 1" "lr_end lr = length l"
    using lr_cut_eq [of ?lr "[]" l newline "drop (Suc (length l)) junk" B] buf e assms(6) by simp
  have "lr_next_line B (lr_init B junk l) = Inr (Some (line_text l), lr)"
    using assms(1,4,6) c by (simp add: init lr_next_line_def)
  moreover have "lr_next_line B lr = Inl (Faults AssertFailed)" using lr by (simp add: lr_next_line_def Let_def)
  ultimately show ?thesis by blast
qed

theorem csv_stale_newline_aborts_witness:
  "\<exists>lr. lr_next_line 4 (lr_init 4 (replicate 12 newline) ''ab'') = Inr (Some ''ab'', lr) \<and> lr_next_line 4 lr = Inl (Faults AssertFailed)"
  using csv_stale_newline_aborts [of 4 "replicate 12 newline" "''ab''"] by (simp add: bom_def line_text_def cstring_def)

end
