(* ===== verification/Csv_Values.thy ===== *)
theory Csv_Values
  imports Csv_Lines Complex_Main
begin

text \<open>
  How \<^verbatim>\<open>csv/CsvReader.h\<close> reads the value of a column: characters, text, integers of every width,
  which are checked for overflow without computing it, and floating point numbers.
\<close>

section \<open>What to do on overflow\<close>

datatype overflow_policy = throw_on_overflow | ignore_overflow | set_to_max_on_overflow

section \<open>Values\<close>

text \<open>An integer type is its least and its greatest value.\<close>

datatype csv_type = CT_char | CT_string | CT_unsigned int | CT_signed int int | CT_float

text \<open>
  A floating point number is the term of the operations that compute it, in the arithmetic of its
  type: conversions from integers, the constant 0.1, sums, products, quotients and the sign. What
  a term is worth depends on the type; \<open>fval\<close> below is its exact value.
\<close>

datatype fterm = F_int int | F_tenth | F_add fterm fterm | F_mul fterm fterm | F_div fterm fterm | F_neg fterm

datatype csv_value = CV_char char | CV_string string | CV_int int | CV_float fterm

fun on_overflow :: "overflow_policy \<Rightarrow> int \<Rightarrow> int \<Rightarrow> int csv" where
  "on_overflow throw_on_overflow hi x = Inl (Throws integer_overflow)"
| "on_overflow ignore_overflow hi x = Inr x"
| "on_overflow set_to_max_on_overflow hi x = Inr hi"

fun on_underflow :: "overflow_policy \<Rightarrow> int \<Rightarrow> int \<Rightarrow> int csv" where
  "on_underflow throw_on_overflow lo x = Inl (Throws integer_underflow)"
| "on_underflow ignore_overflow lo x = Inr x"
| "on_underflow set_to_max_on_overflow lo x = Inr lo"

fun parse_up :: "overflow_policy \<Rightarrow> int \<Rightarrow> int \<Rightarrow> string \<Rightarrow> int csv" where
  "parse_up op hi x [] = Inr x"
| "parse_up op hi x (c # cs) =
     (if isdigit c
      then let y = of_char c - 48 in if x > (hi - y) div 10 then on_overflow op hi x else parse_up op hi (10 * x + y) cs
      else Inl (Throws no_digit))"

text \<open>The quotient is negative and is rounded towards zero.\<close>

fun parse_down :: "overflow_policy \<Rightarrow> int \<Rightarrow> int \<Rightarrow> string \<Rightarrow> int csv" where
  "parse_down op lo x [] = Inr x"
| "parse_down op lo x (c # cs) =
     (if isdigit c
      then let y = of_char c - 48 in if x < - (- (lo + y) div 10) then on_underflow op lo x else parse_down op lo (10 * x - y) cs
      else Inl (Throws no_digit))"

definition parse_unsigned_integer :: "overflow_policy \<Rightarrow> int \<Rightarrow> string \<Rightarrow> int csv" where
  "parse_unsigned_integer op hi col = parse_up op hi 0 col"

definition parse_signed_integer :: "overflow_policy \<Rightarrow> int \<Rightarrow> int \<Rightarrow> string \<Rightarrow> int csv" where
  "parse_signed_integer op lo hi col =
     (case col of [] \<Rightarrow> parse_unsigned_integer op hi col
      | c # cs \<Rightarrow> if c = CHR ''-'' then parse_down op lo 0 cs
                  else if c = CHR ''+'' then parse_unsigned_integer op hi cs
                  else parse_unsigned_integer op hi col)"

text \<open>The loops of \<^verbatim>\<open>parse_float\<close>: digits, digits behind the point, and the power.\<close>

fun float_digits :: "fterm \<Rightarrow> string \<Rightarrow> fterm \<times> string" where
  "float_digits x [] = (x, [])"
| "float_digits x (c # cs) =
     (if isdigit c then float_digits (F_add (F_mul x (F_int 10)) (F_int (of_char c - 48))) cs else (x, c # cs))"

fun float_fraction :: "fterm \<Rightarrow> fterm \<Rightarrow> string \<Rightarrow> fterm \<times> string" where
  "float_fraction pos x [] = (x, [])"
| "float_fraction pos x (c # cs) =
     (if isdigit c
      then let pos1 = F_div pos (F_int 10) in float_fraction pos1 (F_add x (F_mul (F_int (of_char c - 48)) pos1)) cs
      else (x, c # cs))"

fun float_power :: "fterm \<Rightarrow> fterm \<Rightarrow> nat \<Rightarrow> fterm" where
  "float_power x base e =
     (if e \<le> 1 then F_mul x base
      else if even e then float_power x (F_mul base base) (e div 2)
      else float_power (F_mul x base) base (e - 1))"

declare float_power.simps [simp del]

text \<open>The exponent is an \<^verbatim>\<open>int\<close>; the least one cannot be negated.\<close>

definition float_exponent :: "fterm \<Rightarrow> string \<Rightarrow> fterm csv" where
  "float_exponent x col =
     bindC (parse_signed_integer set_to_max_on_overflow (- (2 ^ 31)) (2 ^ 31 - 1) col) (\<lambda>e.
       if e = 0 then Inr x
       else if e < 0 then if e = - (2 ^ 31) then Inl (Faults IntOverflow) else Inr (float_power x F_tenth (nat (- e)))
       else Inr (float_power x (F_int 10) (nat e)))"

definition parse_float :: "string \<Rightarrow> fterm csv" where
  "parse_float col =
     (let (is_neg, s) = (case col of [] \<Rightarrow> (False, []) | c # cs \<Rightarrow>
            if c = CHR ''-'' then (True, cs) else if c = CHR ''+'' then (False, cs) else (False, col));
          (x, s1) = float_digits (F_int 0) s;
          (x1, s2) = (case s1 of [] \<Rightarrow> (x, []) | c # cs \<Rightarrow>
            if c = CHR ''.'' \<or> c = CHR '','' then float_fraction (F_int 1) x cs else (x, s1))
      in bindC (case s2 of [] \<Rightarrow> Inr x1 | c # cs \<Rightarrow>
           if c = CHR ''e'' \<or> c = CHR ''E'' then float_exponent x1 cs else Inl (Throws no_digit)) (\<lambda>y.
         Inr (if is_neg then F_neg y else y)))"

fun parse_value :: "overflow_policy \<Rightarrow> csv_type \<Rightarrow> string \<Rightarrow> csv_value csv" where
  "parse_value op CT_char col = (case col of [c] \<Rightarrow> Inr (CV_char c) | _ \<Rightarrow> Inl (Throws invalid_single_character))"
| "parse_value op CT_string col = Inr (CV_string col)"
| "parse_value op (CT_unsigned hi) col = bindC (parse_unsigned_integer op hi col) (\<lambda>x. Inr (CV_int x))"
| "parse_value op (CT_signed lo hi) col = bindC (parse_signed_integer op lo hi col) (\<lambda>x. Inr (CV_int x))"
| "parse_value op CT_float col = bindC (parse_float col) (\<lambda>x. Inr (CV_float x))"

text \<open>A value that is not of its type is an exception; only an exponent can be a fault.\<close>

lemma overflow_stops: "on_overflow op hi x = Inl e \<Longrightarrow> \<exists>err. e = Throws err"
  by (cases op) auto

lemma underflow_stops: "on_underflow op lo x = Inl e \<Longrightarrow> \<exists>err. e = Throws err"
  by (cases op) auto

lemma parse_up_stops: "parse_up op hi x s = Inl e \<Longrightarrow> \<exists>err. e = Throws err"
  by (induction op hi x s rule: parse_up.induct) (auto simp: Let_def dest: overflow_stops split: if_splits)

lemma parse_down_stops: "parse_down op lo x s = Inl e \<Longrightarrow> \<exists>err. e = Throws err"
  by (induction op lo x s rule: parse_down.induct) (auto simp: Let_def dest: underflow_stops split: if_splits)

lemma parse_signed_stops: "parse_signed_integer op lo hi col = Inl e \<Longrightarrow> \<exists>err. e = Throws err"
  unfolding parse_signed_integer_def parse_unsigned_integer_def
  by (auto simp del: parse_up.simps parse_down.simps dest: parse_up_stops parse_down_stops split: list.splits if_splits)

lemma bindC_Inl: "bindC r f = Inl e \<longleftrightarrow> r = Inl e \<or> (\<exists>x. r = Inr x \<and> f x = Inl e)"
  by (cases r) auto

lemma parse_value_stops:
  assumes "parse_value op t col = Inl e"
  shows "(\<exists>err. e = Throws err) \<or> t = CT_float \<and> e = Faults IntOverflow"
proof (cases t)
  case CT_float
  then show ?thesis using assms
    by (auto simp: parse_float_def float_exponent_def Let_def bindC_Inl dest: parse_signed_stops split: prod.splits list.splits if_splits)
qed (use assms in \<open>auto simp: bindC_Inl parse_unsigned_integer_def dest: parse_up_stops parse_signed_stops split: list.splits\<close>)

section \<open>Integers\<close>

lemma isdigit_int: "isdigit c \<Longrightarrow> 48 \<le> (of_char c :: int) \<and> (of_char c :: int) \<le> 57"
proof -
  have "(of_char c :: int) = int (of_char c)" by (metis of_nat_of_char)
  then show "isdigit c \<Longrightarrow> 48 \<le> (of_char c :: int) \<and> (of_char c :: int) \<le> 57" by (simp add: isdigit_def)
qed

lemma digits_value_ge: "0 \<le> x \<Longrightarrow> \<forall>c\<in>set s. isdigit c \<Longrightarrow> x \<le> digits_value x s"
proof (induction s arbitrary: x)
  case (Cons c cs)
  then have "0 \<le> of_char c - (48 :: int)" using isdigit_int [of c] by simp
  then show ?case using Cons.IH [of "10 * x + (of_char c - 48)"] Cons.prems by auto
qed simp

lemma parse_up_digits:
  "0 \<le> x \<Longrightarrow> x \<le> hi \<Longrightarrow> \<forall>c\<in>set s. isdigit c \<Longrightarrow>
   parse_up throw_on_overflow hi x s = (if digits_value x s \<le> hi then Inr (digits_value x s) else Inl (Throws integer_overflow))"
proof (induction s arbitrary: x)
  case (Cons c cs)
  let ?y = "of_char c - (48 :: int)"
  have y: "0 \<le> ?y" "?y \<le> 9" using Cons.prems(3) isdigit_int [of c] by simp_all
  have grow: "10 * x + ?y \<le> digits_value (10 * x + ?y) cs" using digits_value_ge [of "10 * x + ?y" cs] Cons.prems y by auto
  have iff: "(hi - ?y) div 10 < x \<longleftrightarrow> hi < 10 * x + ?y" by presburger
  show ?case
  proof (cases "hi < 10 * x + ?y")
    case True
    then show ?thesis using iff grow Cons.prems by (simp add: Let_def)
  next
    case False
    then show ?thesis using iff Cons.IH [of "10 * x + ?y"] Cons.prems y by (simp add: Let_def)
  qed
qed simp

lemma parse_down_digits:
  "x \<le> 0 \<Longrightarrow> lo \<le> x \<Longrightarrow> \<forall>c\<in>set s. isdigit c \<Longrightarrow>
   parse_down throw_on_overflow lo x s =
     (if lo \<le> - digits_value (- x) s then Inr (- digits_value (- x) s) else Inl (Throws integer_underflow))"
proof (induction s arbitrary: x)
  case (Cons c cs)
  let ?y = "of_char c - (48 :: int)"
  have y: "0 \<le> ?y" "?y \<le> 9" using Cons.prems(3) isdigit_int [of c] by simp_all
  have next_x: "- (10 * x - ?y) = 10 * - x + ?y" by simp
  have grow: "10 * - x + ?y \<le> digits_value (10 * - x + ?y) cs" using digits_value_ge [of "10 * - x + ?y" cs] Cons.prems y by auto
  have iff: "x < - (- (lo + ?y) div 10) \<longleftrightarrow> 10 * x - ?y < lo" by presburger
  have step: "parse_down throw_on_overflow lo x (c # cs) =
      (if 10 * x - ?y < lo then Inl (Throws integer_underflow) else parse_down throw_on_overflow lo (10 * x - ?y) cs)"
    using Cons.prems(3) unfolding parse_down.simps Let_def iff by simp
  show ?case
  proof (cases "10 * x - ?y < lo")
    case True
    then show ?thesis using grow unfolding step by simp
  next
    case False
    then have "parse_down throw_on_overflow lo x (c # cs) = parse_down throw_on_overflow lo (10 * x - ?y) cs" unfolding step by simp
    also have "\<dots> = (if lo \<le> - digits_value (10 * - x + ?y) cs then Inr (- digits_value (10 * - x + ?y) cs) else Inl (Throws integer_underflow))"
      using Cons.IH [of "10 * x - ?y"] Cons.prems y False unfolding next_x by simp
    finally show ?thesis by simp
  qed
qed simp

lemma parse_signed_dec:
  assumes "lo \<le> 0" and "0 \<le> hi"
  shows "parse_signed_integer throw_on_overflow lo hi (dec_int i) =
    (if hi < i then Inl (Throws integer_overflow) else if i < lo then Inl (Throws integer_underflow) else Inr i)"
proof -
  have digits: "\<forall>c\<in>set (dec_nat n). isdigit c" for n using isdigit_dec_nat by blast
  have first: "\<exists>c cs. dec_nat n = c # cs \<and> c \<noteq> CHR ''-'' \<and> c \<noteq> CHR ''+''" for n
  proof -
    obtain c cs where c: "dec_nat n = c # cs" by (cases "dec_nat n") auto
    with digits [of n] have "isdigit c" by simp
    then have "c \<noteq> CHR ''-'' \<and> c \<noteq> CHR ''+''" by (auto simp: isdigit_def)
    with c show ?thesis by blast
  qed
  show ?thesis
  proof (cases "i < 0")
    case True
    then have "digits_value (- 0) (dec_nat (nat (- i))) = - i" by (simp add: digits_value_dec_nat)
    then have "parse_down throw_on_overflow lo 0 (dec_nat (nat (- i))) = (if lo \<le> i then Inr i else Inl (Throws integer_underflow))"
      using parse_down_digits [of 0 lo "dec_nat (nat (- i))"] digits assms(1) by simp
    then show ?thesis using True assms(2) by (auto simp: parse_signed_integer_def dec_int_def)
  next
    case False
    then have "digits_value 0 (dec_nat (nat i)) = i" by (simp add: digits_value_dec_nat)
    then have "parse_up throw_on_overflow hi 0 (dec_nat (nat i)) = (if i \<le> hi then Inr i else Inl (Throws integer_overflow))"
      using parse_up_digits [of 0 hi "dec_nat (nat i)"] digits assms(2) by simp
    moreover obtain c cs where "dec_nat (nat i) = c # cs" "c \<noteq> CHR ''-''" "c \<noteq> CHR ''+''" using first by blast
    ultimately show ?thesis using False assms(1) by (auto simp: parse_signed_integer_def parse_unsigned_integer_def dec_int_def)
  qed
qed

section \<open>Floating point numbers\<close>

text \<open>The exact value of a term, in any field.\<close>

fun fval :: "fterm \<Rightarrow> 'a::field_char_0" where
  "fval (F_int i) = of_int i"
| "fval F_tenth = 1 / 10"
| "fval (F_add a b) = fval a + fval b"
| "fval (F_mul a b) = fval a * fval b"
| "fval (F_div a b) = fval a / fval b"
| "fval (F_neg a) = - fval a"

lemma float_digits_spec:
  assumes "\<forall>c \<in> set ds. isdigit c" "rest = [] \<or> \<not> isdigit (hd rest)"
  shows "\<exists>y. float_digits x (ds @ rest) = (y, rest) \<and>
    (fval x = (of_int n :: 'a) \<longrightarrow> fval y = (of_int (digits_value n ds) :: 'a::field_char_0))"
  using assms(1)
proof (induction ds arbitrary: x n)
  case Nil
  then show ?case using assms(2) by (cases rest) auto
next
  case (Cons c ds)
  show ?case
    using Cons.IH [of "F_add (F_mul x (F_int 10)) (F_int (of_char c - 48))" "10 * n + (of_char c - 48)"] Cons.prems
    by (auto simp: algebra_simps)
qed

lemma digits_value_shift: "digits_value a ds = a * 10 ^ length ds + digits_value 0 ds"
proof (induction ds arbitrary: a)
  case (Cons c ds)
  show ?case using Cons.IH [of "10 * a + (of_char c - 48)"] Cons.IH [of "of_char c - 48"] by (simp add: algebra_simps)
qed simp

lemma float_fraction_spec:
  assumes "\<forall>c \<in> set ds. isdigit c" "rest = [] \<or> \<not> isdigit (hd rest)"
  shows "\<exists>y. float_fraction pos x (ds @ rest) = (y, rest) \<and>
    fval y = (fval x + fval pos * of_int (digits_value 0 ds) / 10 ^ length ds :: 'a::field_char_0)"
  using assms(1)
proof (induction ds arbitrary: pos x)
  case Nil
  then show ?case using assms(2) by (cases rest) auto
next
  case (Cons c ds)
  let ?pos = "F_div pos (F_int 10)" and ?d = "of_char c - 48 :: int"
  obtain y where y: "float_fraction ?pos (F_add x (F_mul (F_int ?d) ?pos)) (ds @ rest) = (y, rest)"
    "fval y = (fval (F_add x (F_mul (F_int ?d) ?pos)) + fval ?pos * of_int (digits_value 0 ds) / 10 ^ length ds :: 'a)"
    using Cons.IH [of ?pos "F_add x (F_mul (F_int ?d) ?pos)"] Cons.prems by auto
  have "digits_value 0 (c # ds) = ?d * 10 ^ length ds + digits_value 0 ds" using digits_value_shift [of ?d ds] by simp
  then have v: "of_int (digits_value 0 (c # ds)) = (of_int ?d * 10 ^ length ds + of_int (digits_value 0 ds) :: 'a)"
    by (simp only: of_int_add of_int_mult of_int_power of_int_numeral)
  have "fval y = (fval x + fval pos * of_int (digits_value 0 (c # ds)) / 10 ^ length (c # ds) :: 'a)"
    unfolding v using y(2) by (simp add: field_simps)
  then show ?case using y(1) Cons.prems by auto
qed

lemma float_power_spec: "1 \<le> e \<Longrightarrow> fval (float_power x base e) = (fval x * fval base ^ e :: 'a::field_char_0)"
proof (induction x base e rule: float_power.induct)
  case (1 x base e)
  consider "e = 1" | "1 < e" "even e" | "1 < e" "odd e" using 1(3) by linarith
  then show ?case
  proof cases
    case 2
    then have "fval (float_power x base e) = (fval x * fval (F_mul base base) ^ (e div 2) :: 'a)"
      using 1(1) by (subst float_power.simps) auto
    also have "\<dots> = fval x * fval base ^ e" using 2(2) by (simp add: power_mult_distrib flip: power_add mult_2)
    finally show ?thesis .
  next
    case 3
    then have "fval (float_power x base e) = (fval (F_mul x base) * fval base ^ (e - 1) :: 'a)"
      using 1(2) by (subst float_power.simps) auto
    then show ?thesis using 3(1) by (simp add: power_eq_if)
  qed (simp add: float_power.simps)
qed

lemma parse_up_any: "parse_up throw_on_overflow hi x s = Inr v \<Longrightarrow> parse_up op hi x s = Inr v"
  by (induction op hi x s rule: parse_up.induct) (auto simp: Let_def split: if_splits)

lemma parse_down_any: "parse_down throw_on_overflow lo x s = Inr v \<Longrightarrow> parse_down op lo x s = Inr v"
  by (induction op lo x s rule: parse_down.induct) (auto simp: Let_def split: if_splits)

lemma parse_signed_any:
  "parse_signed_integer throw_on_overflow lo hi s = Inr v \<Longrightarrow> parse_signed_integer op lo hi s = Inr v"
  by (auto simp: parse_signed_integer_def parse_unsigned_integer_def simp del: parse_up.simps parse_down.simps intro: parse_up_any parse_down_any split: list.splits if_splits)

text \<open>The power of ten for an exponent.\<close>

definition ten_to :: "int \<Rightarrow> 'a::field_char_0" where
  "ten_to e = (if 0 \<le> e then 10 ^ nat e else (1 / 10) ^ nat (- e))"

lemma float_exponent_spec:
  assumes "\<bar>e\<bar> < 2 ^ 31"
  shows "\<exists>y. float_exponent x (dec_int e) = Inr y \<and> fval y = (fval x * ten_to e :: 'a::field_char_0)"
proof -
  have "parse_signed_integer throw_on_overflow (- (2 ^ 31)) (2 ^ 31 - 1) (dec_int e) = Inr e"
    using parse_signed_dec [of "- (2 ^ 31)" "2 ^ 31 - 1" e] assms by auto
  then have "parse_signed_integer set_to_max_on_overflow (- (2 ^ 31)) (2 ^ 31 - 1) (dec_int e) = Inr e" by (rule parse_signed_any)
  then show ?thesis
    using assms float_power_spec [of "nat e" x "F_int 10", where ?'a = 'a] float_power_spec [of "nat (- e)" x F_tenth, where ?'a = 'a]
    by (auto simp: float_exponent_def ten_to_def)
qed

text \<open>A number in decimal notation: sign, digits, perhaps a point and digits, perhaps an exponent.\<close>

definition float_text :: "string \<Rightarrow> string \<Rightarrow> string option \<Rightarrow> int option \<Rightarrow> string" where
  "float_text sign ds fs e = sign @ ds @ (case fs of None \<Rightarrow> [] | Some f \<Rightarrow> ''.'' @ f) @ (case e of None \<Rightarrow> [] | Some i \<Rightarrow> ''e'' @ dec_int i)"

definition decimal_value :: "string \<Rightarrow> string \<Rightarrow> string option \<Rightarrow> int option \<Rightarrow> 'a::field_char_0" where
  "decimal_value sign ds fs e =
     (let v = of_int (digits_value 0 ds) + (case fs of None \<Rightarrow> 0 | Some f \<Rightarrow> of_int (digits_value 0 f) / 10 ^ length f);
          w = v * (case e of None \<Rightarrow> 1 | Some i \<Rightarrow> ten_to i)
      in if sign = ''-'' then - w else w)"

lemma parse_float_sign:
  assumes "sign \<in> {[], ''-'', ''+''}" "s = [] \<or> hd s \<noteq> CHR ''-'' \<and> hd s \<noteq> CHR ''+''"
  shows "(case sign @ s of [] \<Rightarrow> (False, []) | c # cs \<Rightarrow>
    if c = CHR ''-'' then (True, cs) else if c = CHR ''+'' then (False, cs) else (False, sign @ s)) = (sign = ''-'', s)"
  using assms by (cases s) auto

lemma parse_float_text:
  assumes "sign \<in> {[], ''-'', ''+''}" "\<forall>c \<in> set ds. isdigit c" "\<forall>f. fs = Some f \<longrightarrow> (\<forall>c \<in> set f. isdigit c)"
    "\<forall>i. e = Some i \<longrightarrow> \<bar>i\<bar> < 2 ^ 31"
  shows "\<exists>y. parse_float (float_text sign ds fs e) = Inr y \<and> fval y = (decimal_value sign ds fs e :: 'a::field_char_0)"
proof -
  define ex where "ex = (case e of None \<Rightarrow> [] | Some i \<Rightarrow> ''e'' @ dec_int i)"
  define tail where "tail = (case fs of None \<Rightarrow> [] | Some f \<Rightarrow> ''.'' @ f) @ ex"
  have nd: "ex = [] \<or> \<not> isdigit (hd ex)" "tail = [] \<or> \<not> isdigit (hd tail)"
    by (auto simp: ex_def tail_def isdigit_def split: option.splits)
  have start: "ds @ tail = [] \<or> hd (ds @ tail) \<noteq> CHR ''-'' \<and> hd (ds @ tail) \<noteq> CHR ''+''"
    using assms(2) by (cases ds) (auto simp: tail_def ex_def isdigit_def split: option.splits)
  obtain x where x: "float_digits (F_int 0) (ds @ tail) = (x, tail)" "fval x = (of_int (digits_value 0 ds) :: 'a)"
    using float_digits_spec [OF assms(2) nd(2), of "F_int 0" 0, where ?'a = 'a] by auto
  have "\<exists>y. (case tail of [] \<Rightarrow> (x, []) | c # cs \<Rightarrow> if c = CHR ''.'' \<or> c = CHR '','' then float_fraction (F_int 1) x cs else (x, tail)) = (y, ex) \<and>
      fval y = (of_int (digits_value 0 ds) + (case fs of None \<Rightarrow> 0 | Some f \<Rightarrow> of_int (digits_value 0 f) / 10 ^ length f) :: 'a)"
  proof (cases fs)
    case None
    then show ?thesis using x(2) by (auto simp: tail_def ex_def split: option.splits)
  next
    case (Some f)
    then show ?thesis using float_fraction_spec [of f ex "F_int 1" x, where ?'a = 'a] assms(3) nd(1) x(2) by (auto simp: tail_def)
  qed
  then obtain y where y: "(case tail of [] \<Rightarrow> (x, []) | c # cs \<Rightarrow> if c = CHR ''.'' \<or> c = CHR '','' then float_fraction (F_int 1) x cs else (x, tail)) = (y, ex)"
    "fval y = (of_int (digits_value 0 ds) + (case fs of None \<Rightarrow> 0 | Some f \<Rightarrow> of_int (digits_value 0 f) / 10 ^ length f) :: 'a)" by blast
  obtain z where z: "(case ex of [] \<Rightarrow> Inr y | c # cs \<Rightarrow> if c = CHR ''e'' \<or> c = CHR ''E'' then float_exponent y cs else Inl (Throws no_digit)) = Inr z"
    "fval z = (fval y * (case e of None \<Rightarrow> 1 | Some i \<Rightarrow> ten_to i) :: 'a)"
    using float_exponent_spec [of _ y, where ?'a = 'a] assms(4) by (cases e) (auto simp: ex_def)
  have "parse_float (float_text sign ds fs e) = Inr (if sign = ''-'' then F_neg z else z)"
    using parse_float_sign [OF assms(1) start] x(1) y(1) z(1)
    by (simp add: parse_float_def float_text_def tail_def [symmetric] ex_def [symmetric] del: append_assoc)
  then show ?thesis using y(2) z(2) by (simp add: decimal_value_def)
qed

section \<open>Properties\<close>

text \<open>
  an integer column is read exactly. The decimal text of a number is read as that number
  if the type of the column holds it, and as an overflow or an underflow if not, although the
  code never computes a value outside the type.
\<close>

theorem csv_integer_exact:
  assumes "lo \<le> 0" and "0 \<le> hi"
  shows "parse_signed_integer throw_on_overflow lo hi (dec_int i) =
    (if hi < i then Inl (Throws integer_overflow) else if i < lo then Inl (Throws integer_underflow) else Inr i)"
  by (rule parse_signed_dec [OF assms])

theorem csv_integer_exact_witness:
  "parse_signed_integer throw_on_overflow (-128) 127 (dec_int (-128)) = Inr (-128) \<and>
   parse_signed_integer throw_on_overflow (-128) 127 (dec_int 128) = Inl (Throws integer_overflow)"
  using csv_integer_exact [of "-128" 127 "-128"] csv_integer_exact [of "-128" 127 128] by simp

text \<open>
  C33: a floating point column in decimal notation, with sign, digits behind a point and exponent, is
  read by operations whose exact value is the number that is written: rounding is all that the
  arithmetic of the type adds.
\<close>

theorem csv_float_exact:
  assumes "sign \<in> {[], ''-'', ''+''}" "\<forall>c \<in> set ds. isdigit c" "\<forall>f. fs = Some f \<longrightarrow> (\<forall>c \<in> set f. isdigit c)"
    "\<forall>i. e = Some i \<longrightarrow> \<bar>i\<bar> < 2 ^ 31"
  shows "\<exists>y. parse_float (float_text sign ds fs e) = Inr y \<and> fval y = (decimal_value sign ds fs e :: 'a::field_char_0)"
  using assms by (rule parse_float_text)

theorem csv_float_exact_witness: "\<exists>y. parse_float ''-12.50e-1'' = Inr y \<and> fval y = (- 125 / 100 :: rat)"
proof -
  have t: "float_text ''-'' ''12'' (Some ''50'') (Some (- 1)) = ''-12.50e-1''" by code_simp
  have v: "decimal_value ''-'' ''12'' (Some ''50'') (Some (- 1)) = (- 125 / 100 :: rat)"
    by (simp add: decimal_value_def ten_to_def numeral_2_eq_2)
  have "\<exists>y. parse_float (float_text ''-'' ''12'' (Some ''50'') (Some (- 1))) = Inr y \<and>
      fval y = (decimal_value ''-'' ''12'' (Some ''50'') (Some (- 1)) :: rat)"
    by (rule csv_float_exact) (simp_all add: isdigit_def)
  then show ?thesis unfolding t v .
qed

text \<open>
  an exponent at or below the least \<^verbatim>\<open>int\<close> is clipped to it and then negated, which overflows.
\<close>

theorem csv_float_exponent_overflows: "parse_float ''1e-2147483648'' = Inl (Faults IntOverflow) \<and> parse_float ''1e-9999999999'' = Inl (Faults IntOverflow)"
  by code_simp

end
