(* ===== verification/Csv_Reader.thy ===== *)
theory Csv_Reader
  imports Csv_Values "HOL-Library.Monad_Syntax"
begin

text \<open>
  \<^verbatim>\<open>CSVReader\<close> of \<^verbatim>\<open>csv/CsvReader.h\<close> with its policies, and \<^verbatim>\<open>parseCsv\<close> of \<^verbatim>\<open>csv/CsvParser.h\<close>.
  A template with a column count and a list of column types is a function of the list of names
  and the list of types, so that the twenty overloads of \<^verbatim>\<open>parseCsv\<close> are one. A line is a C
  string; pointers into it are the strings they point to.
\<close>

section \<open>Policies\<close>

text \<open>Separator, and separator with quote.\<close>

datatype quote_policy = no_quote_escape char | double_quote_escape char char

datatype comment_policy =
  no_comment | single_line_comment "char list" | empty_line_comment | single_and_empty_line_comment "char list"

definition is_single_comment :: "char list \<Rightarrow> string \<Rightarrow> bool" where
  "is_single_comment starts line = (case line of [] \<Rightarrow> NUL \<in> set starts | c # _ \<Rightarrow> c \<in> set starts)"

definition is_empty_line :: "string \<Rightarrow> bool" where
  "is_empty_line line \<longleftrightarrow> dropWhile (\<lambda>c. c = CHR '' '' \<or> c = CHR 0x09) line = []"

fun is_comment :: "comment_policy \<Rightarrow> string \<Rightarrow> bool" where
  "is_comment no_comment line = False"
| "is_comment (single_line_comment starts) line = is_single_comment starts line"
| "is_comment empty_line_comment line = is_empty_line line"
| "is_comment (single_and_empty_line_comment starts) line = (is_single_comment starts line \<or> is_empty_line line)"

definition trim :: "char list \<Rightarrow> string \<Rightarrow> string" where
  "trim cs s = rev (dropWhile (\<lambda>c. c \<in> set cs) (rev (dropWhile (\<lambda>c. c \<in> set cs) s)))"

text \<open>
  The column and what follows it, from the separator on. \<open>quoted\<close> says whether the position
  is inside quotes; a quote that is doubled leaves and enters again.
\<close>

fun quoted_end :: "bool \<Rightarrow> char \<Rightarrow> char \<Rightarrow> string \<Rightarrow> (string \<times> string) csv" where
  "quoted_end quoted sep q [] = (if quoted then Inl (Throws escaped_string_not_closed) else Inr ([], []))"
| "quoted_end quoted sep q (c # cs) =
     (if \<not> quoted \<and> c = sep then Inr ([], c # cs)
      else bindC (quoted_end (if c = q then \<not> quoted else quoted) sep q cs) (\<lambda>(col, rest). Inr (c # col, rest)))"

fun find_next_column_end :: "quote_policy \<Rightarrow> string \<Rightarrow> (string \<times> string) csv" where
  "find_next_column_end (no_quote_escape sep) s = Inr (takeWhile (\<lambda>c. c \<noteq> sep) s, dropWhile (\<lambda>c. c \<noteq> sep) s)"
| "find_next_column_end (double_quote_escape sep q) s = quoted_end False sep q s"

fun undouble :: "char \<Rightarrow> string \<Rightarrow> string" where
  "undouble q (c # d # cs) = (if c = q \<and> d = q then q # undouble q cs else c # undouble q (d # cs))"
| "undouble q s = s"

fun unescape :: "quote_policy \<Rightarrow> string \<Rightarrow> string" where
  "unescape (no_quote_escape sep) s = s"
| "unescape (double_quote_escape sep q) s =
     (if 2 \<le> length s \<and> hd s = q \<and> last s = q then undouble q (butlast (tl s)) else s)"

text \<open>\<open>None\<close> for the rest of the line when the column was the last one.\<close>

definition chop_next_column :: "quote_policy \<Rightarrow> string \<Rightarrow> (string \<times> string option) csv" where
  "chop_next_column qp line =
     bindC (find_next_column_end qp line) (\<lambda>(col, rest). Inr (col, case rest of [] \<Rightarrow> None | _ # r \<Rightarrow> Some r))"

section \<open>Lines\<close>

text \<open>\<^verbatim>\<open>col_order\<close> has -1 for a column that is not wanted: \<open>None\<close>.\<close>

fun parse_line :: "char list \<Rightarrow> quote_policy \<Rightarrow> string option \<Rightarrow> nat option list \<Rightarrow> string option list \<Rightarrow> string option list csv" where
  "parse_line tr qp line [] row = (if line \<noteq> None then Inl (Throws too_many_columns) else Inr row)"
| "parse_line tr qp line (i # order) row =
     (case line of None \<Rightarrow> Inl (Throws too_few_columns)
      | Some l \<Rightarrow> bindC (chop_next_column qp l) (\<lambda>(col, rest).
          parse_line tr qp rest order (case i of None \<Rightarrow> row | Some k \<Rightarrow> row[k := Some (unescape qp (trim tr col))])))"

lemma quoted_end_shorter: "quoted_end quoted sep q s = Inr (col, rest) \<Longrightarrow> length rest \<le> length s"
proof (induction s arbitrary: quoted col rest)
  case Nil
  then show ?case by (simp split: if_splits)
next
  case (Cons c cs)
  show ?case
  proof (cases "quoted_end (if c = q then \<not> quoted else quoted) sep q cs")
    case (Inr r)
    obtain col' rest' where "r = (col', rest')" by (cases r)
    then show ?thesis using Cons.prems Cons.IH [of "if c = q then \<not> quoted else quoted" col' rest'] Inr by (auto split: if_splits)
  qed (use Cons.prems in \<open>auto split: if_splits\<close>)
qed

lemma chop_shorter: "chop_next_column qp line = Inr (col, Some rest) \<Longrightarrow> length rest < length line"
proof -
  assume c: "chop_next_column qp line = Inr (col, Some rest)"
  then obtain r where r: "find_next_column_end qp line = Inr r" by (cases "find_next_column_end qp line") (auto simp: chop_next_column_def)
  obtain a b where ab: "r = (a, b)" by (cases r)
  have "length b \<le> length line"
    using r ab quoted_end_shorter by (cases qp) (auto simp: length_dropWhile_le)
  then show ?thesis using c r ab by (auto simp: chop_next_column_def split: list.splits)
qed

text \<open>The loop over the columns of the header: which of them are wanted, in the order they stand.\<close>

definition column_index :: "string list \<Rightarrow> string \<Rightarrow> nat option" where
  "column_index names col = find (\<lambda>i. names ! i = col) [0..<length names]"

function header_columns ::
  "char list \<Rightarrow> quote_policy \<Rightarrow> bool \<Rightarrow> string list \<Rightarrow> string option \<Rightarrow> bool list \<Rightarrow> nat option list \<Rightarrow> (nat option list \<times> bool list) csv" where
  "header_columns tr qp ignore_extra names None found order = Inr (order, found)"
| "header_columns tr qp ignore_extra names (Some line) found order =
     (case chop_next_column qp line of
        Inl e \<Rightarrow> Inl e
      | Inr (col, rest) \<Rightarrow>
          let name = unescape qp (trim tr col)
          in case column_index names name of
               Some i \<Rightarrow> if found ! i then Inl (Throws (duplicated_column_in_header name))
                         else header_columns tr qp ignore_extra names rest (found[i := True]) (order @ [Some i])
             | None \<Rightarrow> if ignore_extra then header_columns tr qp ignore_extra names rest found (order @ [None])
                       else Inl (Throws (extra_column_in_header name)))"
  by pat_completeness auto
termination
  by (relation "measure (\<lambda>(tr, qp, ign, names, line, found, order). case line of None \<Rightarrow> 0 | Some l \<Rightarrow> Suc (length l))")
    (auto simp: chop_shorter split: option.splits)

definition parse_header_line :: "char list \<Rightarrow> quote_policy \<Rightarrow> bool \<Rightarrow> bool \<Rightarrow> string list \<Rightarrow> string \<Rightarrow> nat option list csv" where
  "parse_header_line tr qp ignore_extra ignore_missing names line =
     bindC (header_columns tr qp ignore_extra names (Some line) (replicate (length names) False) []) (\<lambda>(order, found).
       if ignore_missing then Inr order
       else case find (\<lambda>i. \<not> found ! i) [0..<length names] of
              None \<Rightarrow> Inr order | Some i \<Rightarrow> Inl (Throws (missing_column_in_header (names ! i))))"

section \<open>Rows\<close>

text \<open>The recursion of \<^verbatim>\<open>parse_helper\<close>: a column that is not in the file leaves its variable alone.\<close>

fun parse_helper :: "overflow_policy \<Rightarrow> string option list \<Rightarrow> csv_type list \<Rightarrow> csv_value option list \<Rightarrow> csv_value option list csv" where
  "parse_helper op (col # row) (t # types) (v # vals) =
     bindC (case col of None \<Rightarrow> Inr v | Some s \<Rightarrow> bindC (parse_value op t s) (\<lambda>x. Inr (Some x))) (\<lambda>v1.
     bindC (parse_helper op row types vals) (\<lambda>vs. Inr (v1 # vs)))"
| "parse_helper op row types vals = Inr []"

section \<open>The reader\<close>

record 's csvreader =
  cs_in :: 's
  cs_row :: "string option list"
  cs_names :: "string list"
  cs_order :: "nat option list"

text \<open>\<open>getline\<close> is \<^verbatim>\<open>LineReader::next_line\<close>, on a reader of type \<open>'s\<close>.\<close>

definition csv_new :: "nat \<Rightarrow> 's \<Rightarrow> 's csvreader" where
  "csv_new n s = \<lparr>cs_in = s, cs_row = replicate n None, cs_names = map (\<lambda>i. ''col'' @ dec_nat (Suc i)) [0..<n],
     cs_order = map Some [0..<n]\<rparr>"

definition csv_set_header :: "string list \<Rightarrow> 's csvreader \<Rightarrow> 's csvreader" where
  "csv_set_header names r = r\<lparr>cs_names := names, cs_row := replicate (length names) None, cs_order := map Some [0..<length names]\<rparr>"

definition csv_has_column :: "string \<Rightarrow> 's csvreader \<Rightarrow> bool" where
  "csv_has_column name r = (case column_index (cs_names r) name of None \<Rightarrow> False | Some i \<Rightarrow> Some i \<in> set (cs_order r))"

text \<open>The loop over comments, which ends when there is another line or none.\<close>

partial_function (option) data_line ::
  "('s \<Rightarrow> (string option \<times> 's) csv) \<Rightarrow> comment_policy \<Rightarrow> 's \<Rightarrow> (string option \<times> 's) csv option" where
  "data_line getline cp s =
     (case getline s of
        Inl e \<Rightarrow> Some (Inl e)
      | Inr (None, s1) \<Rightarrow> Some (Inr (None, s1))
      | Inr (Some l, s1) \<Rightarrow> if is_comment cp l then data_line getline cp s1 else Some (Inr (Some l, s1)))"

definition csv_read_header ::
  "('s \<Rightarrow> (string option \<times> 's) csv) \<Rightarrow> char list \<Rightarrow> quote_policy \<Rightarrow> comment_policy \<Rightarrow> bool \<Rightarrow> bool \<Rightarrow> string list \<Rightarrow> 's csvreader \<Rightarrow>
   's csvreader csv option" where
  "csv_read_header getline tr qp cp ignore_extra ignore_missing names r =
     map_option (\<lambda>res. bindC res (\<lambda>(line, s). case line of
         None \<Rightarrow> Inl (Throws header_missing)
       | Some l \<Rightarrow> bindC (parse_header_line tr qp ignore_extra ignore_missing names l) (\<lambda>order.
           Inr (r\<lparr>cs_in := s, cs_names := names, cs_order := order\<rparr>)))) (data_line getline cp (cs_in r))"

text \<open>Returns \<open>None\<close> inside when there is no row left.\<close>

definition csv_read_row ::
  "('s \<Rightarrow> (string option \<times> 's) csv) \<Rightarrow> char list \<Rightarrow> quote_policy \<Rightarrow> overflow_policy \<Rightarrow> comment_policy \<Rightarrow>
   csv_type list \<Rightarrow> csv_value option list \<Rightarrow> 's csvreader \<Rightarrow> (csv_value option list option \<times> 's csvreader) csv option" where
  "csv_read_row getline tr qp op cp types vals r =
     map_option (\<lambda>res. bindC res (\<lambda>(line, s). case line of
         None \<Rightarrow> Inr (None, r\<lparr>cs_in := s\<rparr>)
       | Some l \<Rightarrow> bindC (parse_line tr qp (Some l) (cs_order r) (cs_row r)) (\<lambda>row.
           bindC (parse_helper op row types vals) (\<lambda>vals1. Inr (Some vals1, r\<lparr>cs_in := s, cs_row := row\<rparr>))))) (data_line getline cp (cs_in r))"

section \<open>Parsing a file\<close>

text \<open>
  The function is called with the number of the row and its values; the calls are a log.
  An exception ends the loop and the result is false, a fault ends the program.
\<close>

definition default_trim :: "char list" where
  "default_trim = [CHR '' '', CHR 0x09]"

abbreviation comma_policy :: quote_policy where
  "comma_policy \<equiv> no_quote_escape (CHR '','')"

type_synonym csv_log = "(nat \<times> csv_value option list) list"

partial_function (option) parseCsv_rows ::
  "('s \<Rightarrow> (string option \<times> 's) csv) \<Rightarrow> csv_type list \<Rightarrow> nat \<Rightarrow> csv_value option list \<Rightarrow> 's csvreader \<Rightarrow> csv_log \<Rightarrow> (csv_stop option \<times> csv_log) option" where
  "parseCsv_rows getline types row vals r done_calls =
     Option.bind (csv_read_row getline default_trim comma_policy throw_on_overflow no_comment types vals r) (\<lambda>res.
       case res of
         Inl e \<Rightarrow> Some (Some e, done_calls)
       | Inr (None, r1) \<Rightarrow> Some (None, done_calls)
       | Inr (Some vals1, r1) \<Rightarrow> parseCsv_rows getline types (Suc row) vals1 r1 (done_calls @ [(row, vals1)]))"

fun csv_caught :: "csv_stop option \<times> csv_log \<Rightarrow> (bool \<times> csv_log) csv" where
  "csv_caught (None, done_calls) = Inr (True, done_calls)"
| "csv_caught (Some (Throws e), done_calls) = Inr (False, done_calls)"
| "csv_caught (Some stop, done_calls) = Inl stop"

text \<open>The first line is a comment and is skipped. A file that cannot be opened throws.\<close>

definition parseCsv ::
  "('s \<Rightarrow> (string option \<times> 's) csv) \<Rightarrow> string list \<Rightarrow> csv_type list \<Rightarrow> 's option \<Rightarrow> (bool \<times> csv_log) csv option" where
  "parseCsv getline names types file =
     map_option csv_caught
       (case file of None \<Rightarrow> Some (Some (Throws can_not_open_file), [])
        | Some s \<Rightarrow>
            (case getline s of
               Inl e \<Rightarrow> Some (Some e, [])
             | Inr (first, s1) \<Rightarrow>
                 Option.bind (csv_read_header getline default_trim comma_policy no_comment True False names (csv_new (length names) s1)) (\<lambda>res.
                   case res of Inl e \<Rightarrow> Some (Some e, [])
                   | Inr r \<Rightarrow> parseCsv_rows getline types 0 (replicate (length names) None) r [])))"

section \<open>Columns\<close>

abbreviation columns :: "char \<Rightarrow> string \<Rightarrow> string list" where
  "columns \<equiv> Tools_Text.fields"

lemma chop_comma:
  "chop_next_column (no_quote_escape sep) l =
     Inr (hd (columns sep l), case tl (columns sep l) of [] \<Rightarrow> None | fs \<Rightarrow> Some (join sep fs))"
proof -
  have f: "columns sep l = takeWhile (\<lambda>c. c \<noteq> sep) l # (case dropWhile (\<lambda>c. c \<noteq> sep) l of [] \<Rightarrow> [] | _ # p \<Rightarrow> columns sep p)"
    by (rule fields_step)
  show ?thesis
  proof (cases "dropWhile (\<lambda>c. c \<noteq> sep) l")
    case Nil
    then show ?thesis using f by (simp add: chop_next_column_def del: dropWhile_eq_Nil_conv)
  next
    case (Cons c p)
    moreover obtain g gs where "columns sep p = g # gs" by (cases "columns sep p") simp_all
    moreover from this have "join sep (g # gs) = p" by (metis join_fields)
    ultimately show ?thesis using f by (simp add: chop_next_column_def)
  qed
qed

text \<open>Putting the columns of a line in their places.\<close>

fun place :: "nat option list \<Rightarrow> string list \<Rightarrow> string option list \<Rightarrow> string option list" where
  "place (i # order) (f # fs) row = place order fs (case i of None \<Rightarrow> row | Some k \<Rightarrow> row[k := Some f])"
| "place order fs row = row"

lemma fields_tl:
  assumes "tl (columns sep l) \<noteq> []"
  shows "columns sep (join sep (tl (columns sep l))) = tl (columns sep l)"
proof -
  obtain p where "tl (columns sep l) = columns sep p"
    using assms fields_step [of sep l] by (cases "dropWhile (\<lambda>c. c \<noteq> sep) l") auto
  then show ?thesis by (simp add: join_fields)
qed

lemma parse_line_fields:
  "order \<noteq> [] \<Longrightarrow> parse_line tr (no_quote_escape sep) (Some l) order row =
    (if length (columns sep l) < length order then Inl (Throws too_few_columns)
     else if length order < length (columns sep l) then Inl (Throws too_many_columns)
     else Inr (place order (map (trim tr) (columns sep l)) row))"
proof (induction order arbitrary: l row)
  case (Cons i order)
  obtain f fs where f: "columns sep l = f # fs" by (cases "columns sep l") simp_all
  let ?row = "case i of None \<Rightarrow> row | Some k \<Rightarrow> row[k := Some (trim tr f)]"
  have step: "parse_line tr (no_quote_escape sep) (Some l) (i # order) row =
      parse_line tr (no_quote_escape sep) (case fs of [] \<Rightarrow> None | _ \<Rightarrow> Some (join sep fs)) order ?row"
    by (cases fs) (simp_all add: chop_comma f cong: option.case_cong)
  show ?case
  proof (cases fs)
    case Nil
    then show ?thesis using f unfolding step by (cases order) simp_all
  next
    case (Cons g gs)
    then have "columns sep (join sep fs) = fs" using fields_tl [of sep l] f by simp
    moreover have "(case fs of [] \<Rightarrow> None | _ \<Rightarrow> Some (join sep fs)) = Some (join sep fs)" using Cons by simp
    ultimately show ?thesis
      using f Cons Cons.IH [of "join sep fs" ?row] unfolding step by (cases "order = []") auto
  qed
qed simp

lemma column_index_Some: "column_index names c = Some i \<Longrightarrow> i < length names \<and> names ! i = c"
  by (auto simp: column_index_def find_Some_iff)

lemma column_index_None: "column_index names c = None \<longleftrightarrow> c \<notin> set names"
  by (auto simp: column_index_def find_None_iff in_set_conv_nth)

text \<open>The names that are wanted stand in the header at most once.\<close>

definition header_ok :: "string list \<Rightarrow> string list \<Rightarrow> bool" where
  "header_ok names hs \<longleftrightarrow> distinct (filter (\<lambda>h. h \<in> set names) hs)"

lemma place_lookup:
  assumes "header_ok names hs" and "length hs = length fs" and "length row = length names" and "k < length names"
    and "distinct names"
  shows "place (map (column_index names) hs) fs row ! k =
    (case map_of (zip hs fs) (names ! k) of None \<Rightarrow> row ! k | Some f \<Rightarrow> Some f)"
  using assms
proof (induction hs arbitrary: fs row)
  case (Cons h hs)
  then obtain f fs' where fs: "fs = f # fs'" by (cases fs) auto
  have ok: "header_ok names hs" using Cons.prems(1) by (simp add: header_ok_def split: if_splits)
  let ?row = "case column_index names h of None \<Rightarrow> row | Some i \<Rightarrow> row[i := Some f]"
  have IH: "place (map (column_index names) hs) fs' ?row ! k =
      (case map_of (zip hs fs') (names ! k) of None \<Rightarrow> ?row ! k | Some f \<Rightarrow> Some f)"
    using Cons.prems fs by (intro Cons.IH [OF ok]) (auto split: option.splits)
  show ?case
  proof (cases "h = names ! k")
    case True
    then have "h \<in> set names" using Cons.prems(4) by simp
    then have "h \<notin> set hs" using Cons.prems(1) by (auto simp: header_ok_def)
    then have "map_of (zip hs fs') (names ! k) = None" using True by (auto simp: map_of_eq_None_iff dest: set_zip_leftD)
    moreover obtain i where i: "column_index names h = Some i" using \<open>h \<in> set names\<close> column_index_None by fastforce
    moreover have "i = k"
      using column_index_Some [OF i] True Cons.prems(4,5) nth_eq_iff_index_eq [of names i k] by auto
    ultimately show ?thesis using IH True fs Cons.prems(3,4) by simp
  next
    case False
    then have "?row ! k = row ! k"
      using column_index_Some [of names h] by (cases "column_index names h") (auto intro: nth_list_update_neq)
    then show ?thesis using IH False fs by (cases "map_of (zip hs fs') (names ! k)") simp_all
  qed
qed simp

lemma length_place [simp]: "length (place order fs row) = length row"
  by (induction order fs row rule: place.induct) (auto split: option.splits)

lemma header_loop_fields:
  assumes "header_ok names (map (trim tr) (columns sep l))" and "length found = length names"
    and "\<forall>i<length names. found ! i \<longrightarrow> names ! i \<notin> set (map (trim tr) (columns sep l))"
    and "distinct names"
  shows "\<exists>found'. header_columns tr (no_quote_escape sep) True names (Some l) found order =
      Inr (order @ map (column_index names) (map (trim tr) (columns sep l)), found') \<and>
    (\<forall>i<length names. found' ! i \<longleftrightarrow> found ! i \<or> names ! i \<in> set (map (trim tr) (columns sep l)))"
  using assms
proof (induction "columns sep l" arbitrary: l found order)
  case Nil
  then show ?case by (metis fields_nonempty)
next
  case (Cons f fs)
  note f = Cons.hyps(2) [symmetric]
  let ?h = "trim tr f"
  let ?found = "case column_index names ?h of None \<Rightarrow> found | Some i \<Rightarrow> found[i := True]"
  let ?rest = "case fs of [] \<Rightarrow> None | _ \<Rightarrow> Some (join sep fs)"
  have step: "header_columns tr (no_quote_escape sep) True names (Some l) found order =
      header_columns tr (no_quote_escape sep) True names ?rest ?found (order @ [column_index names ?h])"
  proof (cases "column_index names ?h")
    case None
    then show ?thesis by (cases fs) (simp_all add: chop_comma f)
  next
    case (Some i)
    then have "\<not> found ! i" using Cons.prems(3) column_index_Some [OF Some] f by auto
    then show ?thesis using Some by (cases fs) (simp_all add: chop_comma f)
  qed
  have found: "?found ! i \<longleftrightarrow> found ! i \<or> names ! i = ?h" if "i < length names" for i
  proof (cases "column_index names ?h")
    case None
    then have "names ! i \<noteq> ?h" using that column_index_None [of names ?h] nth_mem [of i names] by metis
    then show ?thesis using None by simp
  next
    case (Some k)
    then have "k = i \<longleftrightarrow> names ! i = ?h"
      using column_index_Some [OF Some] that Cons.prems(4) nth_eq_iff_index_eq [of names k i] by auto
    then show ?thesis using Some column_index_Some [OF Some] Cons.prems(2) by (cases "k = i") auto
  qed
  show ?case
  proof (cases fs)
    case Nil
    then show ?thesis using found unfolding step by (auto simp: f)
  next
    case (Cons g gs)
    then have l': "columns sep (join sep fs) = fs" using fields_tl [of sep l] f by simp
    have rest: "?rest = Some (join sep fs)" using Cons by simp
    have unique: "?h \<in> set names \<longrightarrow> ?h \<notin> trim tr ` set fs" and ok: "header_ok names (map (trim tr) fs)"
      using Cons.prems(1) f by (auto simp: header_ok_def split: if_splits)
    have "\<forall>i<length names. ?found ! i \<longrightarrow> names ! i \<notin> trim tr ` set fs"
    proof (intro allI impI)
      fix i assume i: "i < length names" and "?found ! i"
      then have "found ! i \<or> names ! i = ?h" using found by blast
      moreover have "?h \<in> set names" if "names ! i = ?h" using nth_mem [OF i] that by metis
      ultimately show "names ! i \<notin> trim tr ` set fs" using i Cons.prems(3) f unique by auto
    qed
    then have "\<exists>found'. header_columns tr (no_quote_escape sep) True names (Some (join sep fs)) ?found (order @ [column_index names ?h]) =
        Inr ((order @ [column_index names ?h]) @ map (column_index names) (map (trim tr) fs), found') \<and>
      (\<forall>i<length names. found' ! i \<longleftrightarrow> ?found ! i \<or> names ! i \<in> set (map (trim tr) fs))"
      using Cons.hyps(1) [of "join sep fs" ?found "order @ [column_index names ?h]"] ok Cons.prems(2,4) l'
      by (auto split: option.splits)
    then show ?thesis unfolding step rest using found by (auto simp: f)
  qed
qed

lemma parse_header_fields:
  assumes "header_ok names (map (trim tr) (columns sep l))" and "distinct names" and "set names \<subseteq> set (map (trim tr) (columns sep l))"
  shows "parse_header_line tr (no_quote_escape sep) True False names l = Inr (map (column_index names) (map (trim tr) (columns sep l)))"
proof -
  obtain found where h: "header_columns tr (no_quote_escape sep) True names (Some l) (replicate (length names) False) [] =
      Inr (map (column_index names) (map (trim tr) (columns sep l)), found)" and
    f: "\<forall>i<length names. found ! i \<longleftrightarrow> names ! i \<in> set (map (trim tr) (columns sep l))"
    using header_loop_fields [OF assms(1), of "replicate (length names) False" "[]"] assms(2) by auto
  have "find (\<lambda>i. \<not> found ! i) [0..<length names] = None" using f assms(3) nth_mem by (fastforce simp: find_None_iff)
  then show ?thesis using h by (simp add: parse_header_line_def)
qed

section \<open>Tables\<close>

text \<open>
  What a row is meant to be: as many columns as the header, and in each wanted column, found
  by its name, a value of its type.
\<close>

fun parse_row :: "csv_type list \<Rightarrow> string list \<Rightarrow> csv_value list csv" where
  "parse_row (t # types) (c # cs) =
     bindC (parse_value throw_on_overflow t c) (\<lambda>v. bindC (parse_row types cs) (\<lambda>vs. Inr (v # vs)))"
| "parse_row types cs = Inr []"

definition csv_row :: "string list \<Rightarrow> string list \<Rightarrow> csv_type list \<Rightarrow> string \<Rightarrow> csv_value list csv" where
  "csv_row hs names types line =
     (let fs = map (trim default_trim) (columns (CHR '','') line)
      in if length fs < length hs then Inl (Throws too_few_columns)
         else if length hs < length fs then Inl (Throws too_many_columns)
         else parse_row types (map (\<lambda>n. the (map_of (zip hs fs) n)) names))"

text \<open>The rows up to the first one that is wrong.\<close>

fun csv_rows :: "(string \<Rightarrow> csv_value list csv) \<Rightarrow> string list \<Rightarrow> csv_stop option \<times> csv_value list list" where
  "csv_rows f [] = (None, [])"
| "csv_rows f (l # ls) = (case f l of Inl e \<Rightarrow> (Some e, []) | Inr v \<Rightarrow> (let (e, vs) = csv_rows f ls in (e, v # vs)))"

definition csv_calls :: "nat \<Rightarrow> csv_value list list \<Rightarrow> csv_log" where
  "csv_calls k vs = zip [k..<k + length vs] (map (map Some) vs)"

lemma csv_calls_Cons: "csv_calls k (v # vs) = (k, map Some v) # csv_calls (Suc k) vs"
proof -
  have "[k..<k + length (v # vs)] = k # [Suc k..<Suc k + length vs]" by (simp add: upt_rec)
  then show ?thesis unfolding csv_calls_def by simp
qed

lemma parse_helper_row:
  "length types = length cs \<Longrightarrow> length vals = length cs \<Longrightarrow>
   parse_helper throw_on_overflow (map Some cs) types vals = bindC (parse_row types cs) (\<lambda>vs. Inr (map Some vs))"
proof (induction types cs arbitrary: vals rule: parse_row.induct)
  case (1 t types c cs)
  then obtain v vs where vals: "vals = v # vs" by (cases vals) auto
  show ?case
  proof (cases "parse_value throw_on_overflow t c")
    case (Inr x)
    then show ?thesis using 1 vals by (cases "parse_row types cs") auto
  qed (simp add: vals)
qed auto

lemma parse_row_stops: "parse_row types cs = Inl e \<Longrightarrow> (\<exists>err. e = Throws err) \<or> CT_float \<in> set types \<and> e = Faults IntOverflow"
proof (induction types cs rule: parse_row.induct)
  case (1 t types c cs)
  then show ?case by (auto simp: bindC_Inl dest: parse_value_stops)
qed auto

lemma csv_rows_stop:
  "fst (csv_rows (csv_row hs names types) ls) = Some e \<Longrightarrow> (\<exists>err. e = Throws err) \<or> CT_float \<in> set types \<and> e = Faults IntOverflow"
proof (induction ls)
  case (Cons l ls)
  then show ?case
    by (cases "csv_row hs names types l") (auto simp: csv_row_def Let_def split_def dest: parse_row_stops split: if_splits)
qed simp

lemma csv_caught_rows:
  assumes "rows = csv_rows (csv_row hs names types) ls"
  shows "csv_caught (fst rows, calls) = Inr (fst rows = None, calls) \<or>
    CT_float \<in> set types \<and> fst rows = Some (Faults IntOverflow) \<and> csv_caught (fst rows, calls) = Inl (Faults IntOverflow)"
  using csv_rows_stop [of hs names types ls] assms by (cases "fst rows") auto

lemma length_parse_row: "length types = length cs \<Longrightarrow> parse_row types cs = Inr vs \<Longrightarrow> length vs = length cs"
proof (induction types cs arbitrary: vs rule: parse_row.induct)
  case (1 t types c cs)
  obtain v where v: "parse_value throw_on_overflow t c = Inr v" using 1(3) by (cases "parse_value throw_on_overflow t c") auto
  obtain us where "parse_row types cs = Inr us" using 1(3) v by (cases "parse_row types cs") auto
  then show ?case using 1 v by auto
qed auto

text \<open>
  A source of lines: \<open>remains s ls\<close> says that the lines \<open>ls\<close> are still to come, and \<open>getline\<close>
  delivers them one by one. This is what the reader of tables needs of the reader of lines.
\<close>

locale line_source =
  fixes getline :: "'s \<Rightarrow> (string option \<times> 's) csv"
    and remains :: "'s \<Rightarrow> string list \<Rightarrow> bool"
  assumes next_Cons: "remains s (l # ls) \<Longrightarrow> \<exists>s'. getline s = Inr (Some l, s') \<and> remains s' ls"
    and next_Nil: "remains s [] \<Longrightarrow> \<exists>s'. getline s = Inr (None, s') \<and> remains s' []"
begin

lemma data_line_skips:
  "remains s ls \<Longrightarrow> \<exists>s'. data_line getline cp s =
     Some (Inr (case dropWhile (is_comment cp) ls of [] \<Rightarrow> None | l # _ \<Rightarrow> Some l, s')) \<and> remains s' (tl (dropWhile (is_comment cp) ls))"
proof (induction ls arbitrary: s)
  case Nil
  then show ?case using next_Nil [OF Nil] by (auto simp: data_line.simps)
next
  case (Cons l ls)
  obtain s1 where s1: "getline s = Inr (Some l, s1)" "remains s1 ls" using next_Cons [OF Cons.prems] by blast
  show ?case
  proof (cases "is_comment cp l")
    case True
    then show ?thesis using Cons.IH [OF s1(2)] s1(1) by (subst data_line.simps) simp
  next
    case False
    then show ?thesis using s1 by (subst data_line.simps) auto
  qed
qed

lemma data_line_plain:
  "remains s (l # ls) \<Longrightarrow> \<exists>s'. data_line getline no_comment s = Some (Inr (Some l, s')) \<and> remains s' ls"
  "remains s [] \<Longrightarrow> \<exists>s'. data_line getline no_comment s = Some (Inr (None, s')) \<and> remains s' []"
  using data_line_skips [of s "l # ls" no_comment] data_line_skips [of s "[]" no_comment] by auto

text \<open>A row, whatever the variables held before.\<close>

lemma read_row_line:
  assumes "remains (cs_in r) (l # ls)" and "header_ok names hs" and "distinct names" and "set names \<subseteq> set hs" and "hs \<noteq> []"
    and "cs_order r = map (column_index names) hs" and "length (cs_row r) = length names"
    and "length types = length names" and "length vals = length names"
  shows "\<exists>s'. remains s' ls \<and> csv_read_row getline default_trim comma_policy throw_on_overflow no_comment types vals r =
    Some (case csv_row hs names types l of Inl e \<Rightarrow> Inl e
      | Inr vs \<Rightarrow> Inr (Some (map Some vs), r\<lparr>cs_in := s', cs_row := map (\<lambda>n. map_of (zip hs (map (trim default_trim) (columns (CHR '','') l))) n) names\<rparr>))"
proof -
  obtain s' where s': "data_line getline no_comment (cs_in r) = Some (Inr (Some l, s'))" "remains s' ls"
    using data_line_plain(1) [OF assms(1)] by blast
  let ?fs = "map (trim default_trim) (columns (CHR '','') l)"
  have "map (column_index names) hs \<noteq> []" using assms(5) by simp
  note p = parse_line_fields [OF this, of default_trim "CHR '',''" l "cs_row r"]
  show ?thesis
  proof (cases "length ?fs = length hs")
    case False
    then show ?thesis using s' p assms(6) by (auto simp: csv_read_row_def csv_row_def Let_def)
  next
    case True
    have dom: "fst ` set (zip hs ?fs) = set hs" using True by (metis list.set_map map_fst_zip)
    have "place (map (column_index names) hs) ?fs (cs_row r) = map (\<lambda>n. map_of (zip hs ?fs) n) names"
    proof (rule nth_equalityI)
      fix k assume "k < length (place (map (column_index names) hs) ?fs (cs_row r))"
      then have k: "k < length names" using assms(7) by simp
      then have "names ! k \<in> set hs" using assms(4) nth_mem by blast
      then have "map_of (zip hs ?fs) (names ! k) \<noteq> None" using dom by (simp add: map_of_eq_None_iff)
      then show "place (map (column_index names) hs) ?fs (cs_row r) ! k = map (\<lambda>n. map_of (zip hs ?fs) n) names ! k"
        using place_lookup [OF assms(2) True [symmetric] assms(7) k assms(3)] k by auto
    qed (use assms(7) in simp)
    moreover have "map (\<lambda>n. map_of (zip hs ?fs) n) names = map Some (map (\<lambda>n. the (map_of (zip hs ?fs) n)) names)"
    proof -
      have "map_of (zip hs ?fs) n = Some (the (map_of (zip hs ?fs) n))" if "n \<in> set names" for n
        using that assms(4) dom by (cases "map_of (zip hs ?fs) n") (auto simp: map_of_eq_None_iff)
      then show ?thesis by simp
    qed
    ultimately have "bindC (parse_line default_trim comma_policy (Some l) (cs_order r) (cs_row r)) (\<lambda>row.
        bindC (parse_helper throw_on_overflow row types vals) (\<lambda>vals1. Inr (Some vals1, r\<lparr>cs_in := s', cs_row := row\<rparr>))) =
      (case csv_row hs names types l of Inl e \<Rightarrow> Inl e | Inr vs \<Rightarrow> Inr (Some (map Some vs), r\<lparr>cs_in := s', cs_row := map (\<lambda>n. map_of (zip hs ?fs) n) names\<rparr>))"
      using p True assms(6,8,9) parse_helper_row [of types "map (\<lambda>n. the (map_of (zip hs ?fs) n)) names" vals]
      by (cases "parse_row types (map (\<lambda>n. the (map_of (zip hs ?fs) n)) names)") (auto simp: csv_row_def Let_def)
    then show ?thesis using s' by (auto simp: csv_read_row_def)
  qed
qed

lemma rows_read:
  assumes "remains (cs_in r) ls" and "header_ok names hs" and "distinct names" and "set names \<subseteq> set hs" and "hs \<noteq> []"
    and "cs_order r = map (column_index names) hs" and "length (cs_row r) = length names"
    and "length types = length names" and "length vals = length names"
  shows "parseCsv_rows getline types k vals r done_calls =
    Some (fst (csv_rows (csv_row hs names types) ls), done_calls @ csv_calls k (snd (csv_rows (csv_row hs names types) ls)))"
  using assms
proof (induction ls arbitrary: r vals k done_calls)
  case Nil
  then show ?case
    using data_line_plain(2) [OF Nil(1)] by (subst parseCsv_rows.simps) (auto simp: csv_read_row_def csv_calls_def)
next
  case (Cons l ls)
  obtain s' where s': "remains s' ls" and row: "csv_read_row getline default_trim comma_policy throw_on_overflow no_comment types vals r =
    Some (case csv_row hs names types l of Inl e \<Rightarrow> Inl e
      | Inr vs \<Rightarrow> Inr (Some (map Some vs), r\<lparr>cs_in := s', cs_row := map (\<lambda>n. map_of (zip hs (map (trim default_trim) (columns (CHR '','') l))) n) names\<rparr>))"
    using read_row_line [OF Cons.prems] by blast
  show ?case
  proof (cases "csv_row hs names types l")
    case (Inl e)
    then show ?thesis using row by (subst parseCsv_rows.simps) (simp add: csv_calls_def)
  next
    case (Inr vs)
    let ?r = "r\<lparr>cs_in := s', cs_row := map (\<lambda>n. map_of (zip hs (map (trim default_trim) (columns (CHR '','') l))) n) names\<rparr>"
    have "length vs = length names"
      using Inr Cons.prems(8) length_parse_row [of types "map (\<lambda>n. the (map_of (zip hs (map (trim default_trim) (columns (CHR '','') l))) n)) names" vs]
      by (auto simp: csv_row_def Let_def split: if_splits)
    then have "parseCsv_rows getline types (Suc k) (map Some vs) ?r (done_calls @ [(k, map Some vs)]) =
        Some (fst (csv_rows (csv_row hs names types) ls), (done_calls @ [(k, map Some vs)]) @ csv_calls (Suc k) (snd (csv_rows (csv_row hs names types) ls)))"
      using Cons.prems s' by (intro Cons.IH) simp_all
    moreover have "parseCsv_rows getline types k vals r done_calls = parseCsv_rows getline types (Suc k) (map Some vs) ?r (done_calls @ [(k, map Some vs)])"
      using row Inr by (subst parseCsv_rows.simps) simp
    ultimately show ?thesis using Inr by (simp add: csv_calls_Cons split_def Let_def)
  qed
qed

lemma table_read:
  assumes "remains s (comment # header # ls)" and "hs = map (trim default_trim) (columns (CHR '','') header)"
    and "header_ok names hs" and "distinct names" and "set names \<subseteq> set hs" and "length types = length names"
  shows "parseCsv getline names types (Some s) =
    Some (csv_caught (fst (csv_rows (csv_row hs names types) ls), csv_calls 0 (snd (csv_rows (csv_row hs names types) ls))))"
proof -
  obtain s1 where s1: "getline s = Inr (Some comment, s1)" "remains s1 (header # ls)" using next_Cons [OF assms(1)] by blast
  obtain s2 where s2: "data_line getline no_comment s1 = Some (Inr (Some header, s2))" "remains s2 ls"
    using data_line_plain(1) [OF s1(2)] by blast
  let ?r = "(csv_new (length names) s1)\<lparr>cs_in := s2, cs_names := names, cs_order := map (column_index names) hs\<rparr>"
  have "parse_header_line default_trim comma_policy True False names header = Inr (map (column_index names) hs)"
    using parse_header_fields [of names default_trim "CHR '',''" header] assms(2-5) by simp
  then have "csv_read_header getline default_trim comma_policy no_comment True False names (csv_new (length names) s1) = Some (Inr ?r)"
    using s2(1) by (simp add: csv_read_header_def csv_new_def)
  moreover have "parseCsv_rows getline types 0 (replicate (length names) None) ?r [] =
      Some (fst (csv_rows (csv_row hs names types) ls), [] @ csv_calls 0 (snd (csv_rows (csv_row hs names types) ls)))"
    using s2(2) assms by (intro rows_read) (simp_all add: csv_new_def)
  ultimately show ?thesis using s1(1) by (simp add: parseCsv_def)
qed

end

text \<open>The reader of lines delivers the lines of its file.\<close>

definition lr_remains :: "nat \<Rightarrow> linereader \<Rightarrow> string list \<Rightarrow> bool" where
  "lr_remains B lr ls \<longleftrightarrow> lr_inv B lr \<and>
     (\<exists>raw tail. lr_rest B lr = text_of_lines raw @ tail \<and> (\<forall>l\<in>set (tail # raw). newline \<notin> set l \<and> length l < B) \<and>
        ls = map line_text (file_lines raw tail) \<and> (tail \<noteq> [] \<longrightarrow> (\<exists>c. c \<noteq> newline \<and> lr_behind B c lr)))"

lemma lr_remains_more:
  assumes inv: "lr_inv B lr" and rest: "lr_rest B lr = text_of_lines (m # raw) @ tail"
    and short: "\<forall>l\<in>set (tail # m # raw). newline \<notin> set l \<and> length l < B"
    and c: "tail \<noteq> [] \<longrightarrow> (\<exists>c. c \<noteq> newline \<and> lr_behind B c lr)"
  shows "\<exists>lr'. lr_next_line B lr = Inr (Some (line_text m), lr') \<and> lr_remains B lr' (map line_text (file_lines raw tail))"
proof -
  have "lr_rest B lr = m @ newline # (text_of_lines raw @ tail)" using rest by (simp add: text_of_lines_def)
  from lr_next_line_spec [OF inv this] short obtain lr' where "lr_next_line B lr = Inr (Some (line_text m), lr')"
    "lr_inv B lr'" "lr_rest B lr' = text_of_lines raw @ tail" "\<forall>c. lr_behind B c lr \<longrightarrow> lr_behind B c lr'" by auto
  then show ?thesis using short c unfolding lr_remains_def by (intro exI [of _ lr'] conjI exI [of _ raw] exI [of _ tail]) auto
qed

lemma lr_remains_end: "lr_inv B lr \<Longrightarrow> lr_rest B lr = [] \<Longrightarrow> 0 < B \<Longrightarrow> lr_remains B lr []"
  unfolding lr_remains_def by (intro conjI exI [of _ "[]"]) (simp_all add: text_of_lines_def file_lines_def)

interpretation lr: line_source "lr_next_line B" "lr_remains B" for B
proof
  fix lr l ls
  assume "lr_remains B lr (l # ls)"
  then obtain raw tail where inv: "lr_inv B lr" and rest: "lr_rest B lr = text_of_lines raw @ tail"
    and short: "\<forall>l\<in>set (tail # raw). newline \<notin> set l \<and> length l < B" and ls: "l # ls = map line_text (file_lines raw tail)"
    and c: "tail \<noteq> [] \<longrightarrow> (\<exists>c. c \<noteq> newline \<and> lr_behind B c lr)"
    unfolding lr_remains_def by (elim conjE exE)
  show "\<exists>lr'. lr_next_line B lr = Inr (Some l, lr') \<and> lr_remains B lr' ls"
  proof (cases raw)
    case Nil
    then have t: "tail \<noteq> []" "l = line_text tail" "ls = []" using ls by (auto simp: file_lines_def split: if_splits)
    have "lr_rest B lr = tail" using rest Nil by (simp add: text_of_lines_def)
    from lr_next_line_last [OF inv this t(1)] short c t(1) obtain lr' where
      "lr_next_line B lr = Inr (Some (line_text tail), lr')" "lr_inv B lr'" "lr_rest B lr' = []" by auto
    then show ?thesis using t inv lr_remains_end [of B lr'] by (auto simp: lr_inv_def)
  next
    case (Cons m raw')
    then show ?thesis using lr_remains_more [OF inv _ _ c, of m raw'] rest short ls by (auto simp: file_lines_Cons)
  qed
next
  fix lr
  assume "lr_remains B lr []"
  then have "lr_inv B lr" "lr_rest B lr = []"
    by (auto simp: lr_remains_def text_of_lines_def file_lines_def split: if_splits)
  then show "\<exists>lr'. lr_next_line B lr = Inr (None, lr') \<and> lr_remains B lr' []"
    using lr_next_line_end [of B lr] lr_remains_end [of B lr] by (auto simp: lr_inv_def)
qed



section \<open>Quotes\<close>

text \<open>A column written between quotes, each quote in it doubled.\<close>

fun redouble :: "char \<Rightarrow> string \<Rightarrow> string" where
  "redouble q [] = []"
| "redouble q (c # cs) = (if c = q then q # q # redouble q cs else c # redouble q cs)"

definition csv_quote :: "char \<Rightarrow> string \<Rightarrow> string" where
  "csv_quote q s = q # redouble q s @ [q]"

lemma undouble_other: "c \<noteq> q \<Longrightarrow> undouble q (c # cs) = c # undouble q cs"
  by (cases cs) simp_all

lemma undouble_redouble: "undouble q (redouble q s) = s"
  by (induction s) (auto simp: undouble_other)

lemma quoted_end_redouble:
  assumes "sep \<noteq> q" and "rest = [] \<or> hd rest = sep"
  shows "quoted_end True sep q (redouble q s @ q # rest) = Inr (redouble q s @ [q], rest)"
proof (induction s)
  case Nil
  then show ?case using assms by (cases rest) auto
next
  case (Cons c cs)
  then show ?case using assms(1) by simp
qed

text \<open>
  what is written between quotes, with its quotes doubled, is read back as it was:
  the column ends at its closing quote, whatever separators it has, and unescaping gives
  the text again.
\<close>

theorem csv_quote_read_back:
  assumes "sep \<noteq> q" and "rest = [] \<or> hd rest = sep"
  shows "bindC (chop_next_column (double_quote_escape sep q) (csv_quote q s @ rest))
           (\<lambda>(col, line). Inr (unescape (double_quote_escape sep q) col, line)) =
         Inr (s, if rest = [] then None else Some (tl rest))"
proof -
  have "quoted_end False sep q (csv_quote q s @ rest) = Inr (csv_quote q s, rest)"
    using quoted_end_redouble [OF assms, of s] assms(1) by (simp add: csv_quote_def)
  moreover have "unescape (double_quote_escape sep q) (csv_quote q s) = s"
    by (simp add: csv_quote_def undouble_redouble)
  ultimately show ?thesis by (cases rest) (simp_all add: chop_next_column_def)
qed

theorem csv_quote_read_back_witness:
  "bindC (chop_next_column (double_quote_escape (CHR '','') (CHR 0x22)) ([CHR 0x22] @ ''a,'' @ [CHR 0x22, CHR 0x22] @ ''b'' @ [CHR 0x22] @ '',c''))
     (\<lambda>(col, line). Inr (unescape (double_quote_escape (CHR '','') (CHR 0x22)) col, line)) = Inr (''a,'' @ [CHR 0x22] @ ''b'', Some ''c'')"
  using csv_quote_read_back [of "CHR '',''" "CHR 0x22" "'',c''" "''a,'' @ [CHR 0x22] @ ''b''"] by (simp add: csv_quote_def)

end
