(* ===== verification/Thread_Pool.thy ===== *)
theory Thread_Pool
  imports Bundle_Prelude "HOL-Library.Multiset"
begin

text \<open>
  \<^verbatim>\<open>threadpool/ThreadPool.h\<close>: worker threads that take tasks from a queue, callers that add
  tasks to it, and the destructor that stops the workers and joins them. Every access to the
  mutex, the queue, the flag and the condition variable is a step of its own, in any
  interleaving. A task is a value: what it does is not a matter of the pool.
\<close>

section \<open>Threads\<close>

text \<open>
  Where a worker is: at the test of its loop, before the mutex, at the predicate of the wait
  (with the mutex), about to sleep (with the mutex), asleep, past the wait (with the mutex),
  running a task, returned.
\<close>

datatype 't pool_worker = W_test | W_lock | W_pred | W_going | W_sleep | W_check | W_run 't | W_done

text \<open>Where a call of \<^verbatim>\<open>add\<close> is; it throws when the pool has stopped.\<close>

datatype 't pool_caller = A_start 't | A_hold 't | A_notify 't | A_done 't | A_thrown 't

text \<open>Where the destructor is; \<open>O_idle\<close> when the pool is not deleted.\<close>

datatype owner = O_idle | O_stop | O_notify | O_join | O_done

datatype holder = Worker nat | Caller nat

text \<open>
  \<open>tp_added\<close>, \<open>tp_taken\<close> and \<open>tp_run\<close> record the tasks that were queued, taken from the queue
  and run, in this order.
\<close>

record 't pool =
  tp_stop :: bool
  tp_mtx :: "holder option"
  tp_tasks :: "'t list"
  tp_threads :: "'t pool_worker list"
  tp_callers :: "'t pool_caller list"
  tp_owner :: owner
  tp_added :: "'t list"
  tp_taken :: "'t list"
  tp_run :: "'t list"

text \<open>\<open>hw\<close> is what \<^verbatim>\<open>hardware_concurrency\<close> returns, zero where it is not known.\<close>

definition pool_size :: "int \<Rightarrow> nat \<Rightarrow> nat" where
  "pool_size n hw = (if n \<le> 0 then hw else nat n)"

definition pool_new :: "int \<Rightarrow> nat \<Rightarrow> 't list \<Rightarrow> owner \<Rightarrow> 't pool" where
  "pool_new n hw ts ow =
     \<lparr>tp_stop = False, tp_mtx = None, tp_tasks = [], tp_threads = replicate (pool_size n hw) W_test,
      tp_callers = map A_start ts, tp_owner = ow, tp_added = [], tp_taken = [], tp_run = []\<rparr>"

abbreviation set_worker :: "nat \<Rightarrow> 't pool_worker \<Rightarrow> 't pool \<Rightarrow> 't pool" where
  "set_worker i w s \<equiv> s\<lparr>tp_threads := (tp_threads s)[i := w]\<rparr>"

abbreviation set_caller :: "nat \<Rightarrow> 't pool_caller \<Rightarrow> 't pool \<Rightarrow> 't pool" where
  "set_caller j c s \<equiv> s\<lparr>tp_callers := (tp_callers s)[j := c]\<rparr>"

abbreviation worker_at :: "'t pool \<Rightarrow> nat \<Rightarrow> 't pool_worker \<Rightarrow> bool" where
  "worker_at s i w \<equiv> i < length (tp_threads s) \<and> tp_threads s ! i = w"

abbreviation caller_at :: "'t pool \<Rightarrow> nat \<Rightarrow> 't pool_caller \<Rightarrow> bool" where
  "caller_at s j c \<equiv> j < length (tp_callers s) \<and> tp_callers s ! j = c"

definition wake :: "'t pool_worker \<Rightarrow> 't pool_worker" where
  "wake w = (if w = W_sleep then W_lock else w)"

text \<open>
  \<open>spurious\<close> says whether a worker may wake without having been notified, which the standard
  permits. A notification wakes one of the sleeping workers, and nobody when none sleeps.
\<close>

inductive pool_step :: "bool \<Rightarrow> 't pool \<Rightarrow> 't pool \<Rightarrow> bool" for spurious :: bool where
  test: "worker_at s i W_test \<Longrightarrow> pool_step spurious s (set_worker i (if tp_stop s then W_done else W_lock) s)"
| lock: "worker_at s i W_lock \<Longrightarrow> tp_mtx s = None \<Longrightarrow>
    pool_step spurious s (set_worker i W_pred (s\<lparr>tp_mtx := Some (Worker i)\<rparr>))"
| pred: "worker_at s i W_pred \<Longrightarrow>
    pool_step spurious s (set_worker i (if tp_stop s \<or> tp_tasks s \<noteq> [] then W_check else W_going) s)"
| sleep: "worker_at s i W_going \<Longrightarrow> pool_step spurious s (set_worker i W_sleep (s\<lparr>tp_mtx := None\<rparr>))"
| wake_up: "spurious \<Longrightarrow> worker_at s i W_sleep \<Longrightarrow> pool_step spurious s (set_worker i W_lock s)"
| quit: "worker_at s i W_check \<Longrightarrow> tp_stop s \<Longrightarrow> pool_step spurious s (set_worker i W_done (s\<lparr>tp_mtx := None\<rparr>))"
| take: "worker_at s i W_check \<Longrightarrow> \<not> tp_stop s \<Longrightarrow> tp_tasks s = t # ts \<Longrightarrow>
    pool_step spurious s (set_worker i (W_run t) (s\<lparr>tp_mtx := None, tp_tasks := ts, tp_taken := tp_taken s @ [t]\<rparr>))"
| run: "worker_at s i (W_run t) \<Longrightarrow> pool_step spurious s (set_worker i W_test (s\<lparr>tp_run := tp_run s @ [t]\<rparr>))"
| add_lock: "caller_at s j (A_start t) \<Longrightarrow> tp_mtx s = None \<Longrightarrow>
    pool_step spurious s (set_caller j (A_hold t) (s\<lparr>tp_mtx := Some (Caller j)\<rparr>))"
| add_throw: "caller_at s j (A_hold t) \<Longrightarrow> tp_stop s \<Longrightarrow> pool_step spurious s (set_caller j (A_thrown t) (s\<lparr>tp_mtx := None\<rparr>))"
| add_push: "caller_at s j (A_hold t) \<Longrightarrow> \<not> tp_stop s \<Longrightarrow>
    pool_step spurious s (set_caller j (A_notify t) (s\<lparr>tp_mtx := None, tp_tasks := tp_tasks s @ [t], tp_added := tp_added s @ [t]\<rparr>))"
| add_notify: "caller_at s j (A_notify t) \<Longrightarrow> worker_at s i W_sleep \<Longrightarrow>
    pool_step spurious s (set_caller j (A_done t) (set_worker i W_lock s))"
| add_notify_none: "caller_at s j (A_notify t) \<Longrightarrow> W_sleep \<notin> set (tp_threads s) \<Longrightarrow>
    pool_step spurious s (set_caller j (A_done t) s)"
| stop: "tp_owner s = O_stop \<Longrightarrow> pool_step spurious s (s\<lparr>tp_stop := True, tp_owner := O_notify\<rparr>)"
| notify_all: "tp_owner s = O_notify \<Longrightarrow> pool_step spurious s (s\<lparr>tp_threads := map wake (tp_threads s), tp_owner := O_join\<rparr>)"
| join: "tp_owner s = O_join \<Longrightarrow> set (tp_threads s) \<subseteq> {W_done} \<Longrightarrow> pool_step spurious s (s\<lparr>tp_owner := O_done\<rparr>)"

inductive_cases pool_stepE: "pool_step spurious s s'"

section \<open>Invariant\<close>

fun worker_holds :: "'t pool_worker \<Rightarrow> bool" where
  "worker_holds W_pred = True" | "worker_holds W_going = True" | "worker_holds W_check = True" | "worker_holds _ = False"

fun caller_holds :: "'t pool_caller \<Rightarrow> bool" where
  "caller_holds (A_hold t) = True" | "caller_holds _ = False"

text \<open>The mutex is held by the one thread that is inside a critical section.\<close>

definition mutex_ok :: "'t pool_worker list \<Rightarrow> 't pool_caller list \<Rightarrow> holder option \<Rightarrow> bool" where
  "mutex_ok ws cs m \<longleftrightarrow>
     (\<forall>i<length ws. m \<noteq> Some (Worker i) \<longrightarrow> \<not> worker_holds (ws ! i)) \<and>
     (\<forall>j<length cs. m \<noteq> Some (Caller j) \<longrightarrow> \<not> caller_holds (cs ! j)) \<and>
     (\<forall>i. m = Some (Worker i) \<longrightarrow> i < length ws \<and> worker_holds (ws ! i)) \<and>
     (\<forall>j. m = Some (Caller j) \<longrightarrow> j < length cs \<and> caller_holds (cs ! j))"

lemma nth_update_pred: "P x = P (xs ! i) \<Longrightarrow> P (xs[i := x] ! k) = P (xs ! k)"
  by (cases "i < length xs"; cases "k = i") (simp_all add: list_update_beyond)

lemma mutex_worker_keep: "mutex_ok ws cs m \<Longrightarrow> worker_holds w = worker_holds (ws ! i) \<Longrightarrow> mutex_ok (ws[i := w]) cs m"
  using nth_update_pred [of worker_holds w ws i] by (simp add: mutex_ok_def)

lemma mutex_caller_keep: "mutex_ok ws cs m \<Longrightarrow> caller_holds c = caller_holds (cs ! j) \<Longrightarrow> mutex_ok ws (cs[j := c]) m"
  using nth_update_pred [of caller_holds c cs j] by (simp add: mutex_ok_def)

lemma mutex_worker_release:
  assumes ok: "mutex_ok ws cs m" and i: "i < length ws" "worker_holds (ws ! i)" and w: "\<not> worker_holds w"
  shows "mutex_ok (ws[i := w]) cs None"
proof -
  have "m = Some (Worker i)" using ok i unfolding mutex_ok_def by blast
  then show ?thesis using ok w by (simp add: mutex_ok_def nth_list_update)
qed

lemma mutex_caller_release:
  assumes ok: "mutex_ok ws cs m" and j: "j < length cs" "caller_holds (cs ! j)" and c: "\<not> caller_holds c"
  shows "mutex_ok ws (cs[j := c]) None"
proof -
  have "m = Some (Caller j)" using ok j unfolding mutex_ok_def by blast
  then show ?thesis using ok c by (simp add: mutex_ok_def nth_list_update)
qed

lemma mutex_worker_acquire: "mutex_ok ws cs None \<Longrightarrow> i < length ws \<Longrightarrow> worker_holds w \<Longrightarrow> mutex_ok (ws[i := w]) cs (Some (Worker i))"
  by (auto simp: mutex_ok_def nth_list_update)

lemma mutex_caller_acquire: "mutex_ok ws cs None \<Longrightarrow> j < length cs \<Longrightarrow> caller_holds c \<Longrightarrow> mutex_ok ws (cs[j := c]) (Some (Caller j))"
  by (auto simp: mutex_ok_def nth_list_update)

lemma worker_holds_wake [simp]: "worker_holds (wake w) = worker_holds w"
  by (cases w) (simp_all add: wake_def)

lemma mutex_wake: "mutex_ok ws cs m \<Longrightarrow> mutex_ok (map wake ws) cs m"
  by (simp add: mutex_ok_def)

lemmas mutex_moves = mutex_worker_keep mutex_worker_release mutex_worker_acquire
  mutex_caller_keep mutex_caller_release mutex_caller_acquire mutex_wake

lemma mutex_step:
  "pool_step sp s s' \<Longrightarrow> mutex_ok (tp_threads s) (tp_callers s) (tp_mtx s) \<Longrightarrow> mutex_ok (tp_threads s') (tp_callers s') (tp_mtx s')"
  by (induction rule: pool_step.induct) (simp_all add: mutex_moves)

section \<open>The queue\<close>

text \<open>A worker past its wait finds a task or a stopped pool; one about to sleep has seen an empty queue.\<close>

definition queue_inv :: "'t pool \<Rightarrow> bool" where
  "queue_inv s \<longleftrightarrow> mutex_ok (tp_threads s) (tp_callers s) (tp_mtx s) \<and>
     (\<forall>i. worker_at s i W_check \<longrightarrow> tp_stop s \<or> tp_tasks s \<noteq> []) \<and>
     (\<forall>i. worker_at s i W_going \<longrightarrow> tp_tasks s = [])"

lemma mutex_one_worker:
  "mutex_ok ws cs m \<Longrightarrow> i < length ws \<Longrightarrow> worker_holds (ws ! i) \<Longrightarrow> k < length ws \<Longrightarrow> worker_holds (ws ! k) \<Longrightarrow> k = i"
  unfolding mutex_ok_def by (metis holder.inject(1) option.inject)

lemma mutex_caller_alone:
  "mutex_ok ws cs m \<Longrightarrow> j < length cs \<Longrightarrow> caller_holds (cs ! j) \<Longrightarrow> k < length ws \<Longrightarrow> \<not> worker_holds (ws ! k)"
  unfolding mutex_ok_def by (metis holder.distinct(1) option.inject)

lemma wake_eq [simp]: "wake w = W_check \<longleftrightarrow> w = W_check" "wake w = W_going \<longleftrightarrow> w = W_going" "wake w = W_done \<longleftrightarrow> w = W_done"
  by (simp_all add: wake_def)

lemma queue_step: "pool_step sp s s' \<Longrightarrow> queue_inv s \<Longrightarrow> queue_inv s'"
proof -
  assume step: "pool_step sp s s'" and inv: "queue_inv s"
  have m: "mutex_ok (tp_threads s) (tp_callers s) (tp_mtx s)" using inv by (simp add: queue_inv_def)
  have "(\<forall>i. worker_at s' i W_check \<longrightarrow> tp_stop s' \<or> tp_tasks s' \<noteq> []) \<and> (\<forall>i. worker_at s' i W_going \<longrightarrow> tp_tasks s' = [])"
    using step inv m
  proof cases
    case (take i t ts)
    have "k = i" if "worker_at s k W_check \<or> worker_at s k W_going" for k
      using mutex_one_worker [OF m, of i k] take that by auto
    then show ?thesis using take by (auto simp: nth_list_update split: if_splits)
  next
    case (add_push j t)
    then show ?thesis using mutex_caller_alone [OF m, of j] by force
  qed (auto simp: queue_inv_def nth_list_update split: if_splits)
  then show ?thesis using mutex_step [OF step m] by (simp add: queue_inv_def)
qed

section \<open>Every task once\<close>

text \<open>Sums over the threads, when one of them moves.\<close>

lemma sum_map_update:
  fixes f :: "'a \<Rightarrow> 'b::comm_monoid_add"
  shows "i < length xs \<Longrightarrow> sum_list (map f (xs[i := x])) + f (xs ! i) = sum_list (map f xs) + f x"
proof (induction xs arbitrary: i)
  case (Cons a xs)
  then show ?case by (cases i) (simp_all add: ac_simps)
qed simp

lemma sum_map_same:
  fixes f :: "'a \<Rightarrow> 'b::cancel_comm_monoid_add"
  shows "i < length xs \<Longrightarrow> f x = f (xs ! i) \<Longrightarrow> sum_list (map f (xs[i := x])) = sum_list (map f xs)"
  using sum_map_update [of i xs f x] by simp

lemma sum_map_gain:
  fixes f :: "'a \<Rightarrow> 'b::cancel_comm_monoid_add"
  shows "i < length xs \<Longrightarrow> f (xs ! i) = 0 \<Longrightarrow> sum_list (map f (xs[i := x])) = sum_list (map f xs) + f x"
  using sum_map_update [of i xs f x] by simp

fun worker_hand :: "'t pool_worker \<Rightarrow> 't multiset" where
  "worker_hand (W_run t) = {#t#}" | "worker_hand _ = {#}"

fun caller_queued :: "'t pool_caller \<Rightarrow> 't multiset" where
  "caller_queued (A_notify t) = {#t#}" | "caller_queued (A_done t) = {#t#}" | "caller_queued _ = {#}"

definition hands :: "'t pool \<Rightarrow> 't multiset" where
  "hands s = sum_list (map worker_hand (tp_threads s))"

definition queued :: "'t pool \<Rightarrow> 't multiset" where
  "queued s = sum_list (map caller_queued (tp_callers s))"

definition count_inv :: "'t pool \<Rightarrow> bool" where
  "count_inv s \<longleftrightarrow> tp_added s = tp_taken s @ tp_tasks s \<and> mset (tp_taken s) = mset (tp_run s) + hands s \<and> mset (tp_added s) = queued s"

lemma worker_hand_wake [simp]: "worker_hand (wake w) = worker_hand w"
  by (simp add: wake_def)

lemma count_step: "pool_step sp s s' \<Longrightarrow> count_inv s \<Longrightarrow> count_inv s'"
proof (induction rule: pool_step.induct)
  case (run s i t)
  then show ?case using sum_map_update [of i "tp_threads s" worker_hand W_test] by (auto simp: count_inv_def hands_def queued_def)
qed (auto simp: count_inv_def hands_def queued_def comp_def sum_map_same sum_map_gain)

lemma count_new: "count_inv (pool_new n hw ts ow)"
proof -
  have "sum_list (map worker_hand (replicate k W_test)) = {#}" for k by (induction k) simp_all
  moreover have "sum_list (map caller_queued (map A_start ts)) = {#}" by (induction ts) simp_all
  ultimately show ?thesis by (simp add: count_inv_def hands_def queued_def pool_new_def)
qed

lemma queue_new: "queue_inv (pool_new n hw ts ow)"
  by (auto simp: queue_inv_def mutex_ok_def pool_new_def)

lemma pool_reach_inv: "(pool_step sp)\<^sup>*\<^sup>* (pool_new n hw ts ow) s \<Longrightarrow> queue_inv s \<and> count_inv s"
  by (induction rule: rtranclp_induct) (auto simp: queue_new count_new dest: queue_step count_step)

text \<open>
  C13: whatever the interleaving of callers, workers and destructor, tasks are taken from the
  queue in the order they were queued, each once, and the rest is in the queue; those taken
  have been run or are in the hands of a worker. At most one thread is in a critical section,
  and a worker that takes a task finds one.
\<close>

theorem pool_tasks_once:
  assumes "(pool_step spurious)\<^sup>*\<^sup>* (pool_new n hw ts ow) s"
  shows "tp_added s = tp_taken s @ tp_tasks s \<and> mset (tp_taken s) = mset (tp_run s) + hands s \<and>
    (\<forall>i k. i < length (tp_threads s) \<and> worker_holds (tp_threads s ! i) \<and> k < length (tp_threads s) \<and> worker_holds (tp_threads s ! k) \<longrightarrow> k = i) \<and>
    (\<forall>i. worker_at s i W_check \<and> \<not> tp_stop s \<longrightarrow> tp_tasks s \<noteq> [])"
  using pool_reach_inv [OF assms] mutex_one_worker by (simp add: count_inv_def queue_inv_def) blast

text \<open>A caller that queued a task and a caller that waits for the mutex; the second task is taken second.\<close>

theorem pool_tasks_once_witness:
  "\<exists>s. (pool_step False)\<^sup>*\<^sup>* (pool_new 1 0 [''a'', ''b''] O_idle) s \<and> tp_added s = [''a''] \<and> tp_added s = tp_taken s @ tp_tasks s"
proof -
  let ?s0 = "pool_new 1 0 [''a'', ''b''] O_idle"
  let ?s1 = "set_caller 0 (A_hold ''a'') (?s0\<lparr>tp_mtx := Some (Caller 0)\<rparr>)"
  let ?s2 = "set_caller 0 (A_notify ''a'') (?s1\<lparr>tp_mtx := None, tp_tasks := tp_tasks ?s1 @ [''a''], tp_added := tp_added ?s1 @ [''a'']\<rparr>)"
  have "pool_step False ?s0 ?s1" by (rule pool_step.add_lock) (simp_all add: pool_new_def)
  moreover have "pool_step False ?s1 ?s2" by (rule pool_step.add_push) (simp_all add: pool_new_def)
  ultimately have run: "(pool_step False)\<^sup>*\<^sup>* ?s0 ?s2" by (meson converse_rtranclp_into_rtranclp rtranclp.rtrancl_refl)
  moreover have "tp_added ?s2 = [''a'']" by (simp add: pool_new_def)
  ultimately show ?thesis using pool_tasks_once [OF run] by blast
qed

section \<open>Every task is run\<close>

definition awake :: "'t pool_worker \<Rightarrow> bool" where
  "awake w \<longleftrightarrow> w \<noteq> W_sleep \<and> w \<noteq> W_done"

fun caller_task :: "'t pool_caller \<Rightarrow> 't" where
  "caller_task (A_start t) = t" | "caller_task (A_hold t) = t" | "caller_task (A_notify t) = t"
| "caller_task (A_done t) = t" | "caller_task (A_thrown t) = t"

text \<open>
  While the pool is not deleted: where there is a task, some worker is awake or some caller
  has still to notify.
\<close>

definition attended :: "'t pool \<Rightarrow> bool" where
  "attended s \<longleftrightarrow> (\<exists>i<length (tp_threads s). awake (tp_threads s ! i)) \<or> (\<exists>j t. caller_at s j (A_notify t))"

definition idle_inv :: "'t list \<Rightarrow> 't pool \<Rightarrow> bool" where
  "idle_inv ts s \<longleftrightarrow> tp_owner s = O_idle \<and> \<not> tp_stop s \<and> W_done \<notin> set (tp_threads s) \<and> (\<forall>t. A_thrown t \<notin> set (tp_callers s)) \<and>
     tp_threads s \<noteq> [] \<and> map caller_task (tp_callers s) = ts \<and> (tp_tasks s \<noteq> [] \<longrightarrow> attended s)"

lemma attended_worker: "i < length (tp_threads s) \<Longrightarrow> awake (tp_threads s ! i) \<Longrightarrow> attended s"
  by (auto simp: attended_def)

lemma attended_caller: "caller_at s j (A_notify t) \<Longrightarrow> attended s"
  by (auto simp: attended_def)

lemma attended_step: "pool_step sp s s' \<Longrightarrow> queue_inv s \<Longrightarrow> idle_inv ts s \<Longrightarrow> tp_tasks s' \<noteq> [] \<longrightarrow> attended s'"
proof (induction rule: pool_step.induct)
  case (sleep s i)
  then show ?case by (auto simp: queue_inv_def)
next
  case (add_lock s j t)
  have "caller_at (set_caller j (A_hold t) (s\<lparr>tp_mtx := Some (Caller j)\<rparr>)) k c" if "caller_at s k c" "c = A_notify u" for k c u
    using that add_lock by (auto simp: nth_list_update)
  then show ?case using add_lock by (auto simp: idle_inv_def attended_def)
next
  case (add_push s j t)
  then show ?case by (intro impI attended_caller [where j = j and t = t]) simp
next
  case (add_notify s j t i)
  then show ?case by (intro impI attended_worker [of i]) (simp_all add: awake_def)
next
  case (add_notify_none s j t)
  then have pos: "0 < length (tp_threads s)" by (simp add: idle_inv_def)
  then have "awake (tp_threads s ! 0)" using add_notify_none nth_mem [OF pos] by (metis awake_def idle_inv_def)
  then show ?case using pos by (intro impI attended_worker [of 0]) simp_all
next
  case (take s i t ts')
  then show ?case by (intro impI attended_worker [of i]) (simp_all add: awake_def)
next
  case (test s i)
  then show ?case by (intro impI attended_worker [of i]) (auto simp: awake_def idle_inv_def)
qed (auto simp: idle_inv_def intro!: attended_worker simp: awake_def split: if_splits)

lemma map_update_same: "j < length xs \<Longrightarrow> f x = f (xs ! j) \<Longrightarrow> map f (xs[j := x]) = map f xs"
  by (metis list_update_id map_update)

lemma not_in_update: "z \<notin> set xs \<Longrightarrow> x \<noteq> z \<Longrightarrow> z \<notin> set (xs[i := x])"
  using set_update_subset_insert [of xs i x] by auto

lemma idle_step: "pool_step sp s s' \<Longrightarrow> queue_inv s \<Longrightarrow> idle_inv ts s \<Longrightarrow> idle_inv ts s'"
proof -
  assume step: "pool_step sp s s'" and inv: "queue_inv s" "idle_inv ts s"
  have "tp_owner s' = O_idle \<and> \<not> tp_stop s' \<and> W_done \<notin> set (tp_threads s') \<and> (\<forall>t. A_thrown t \<notin> set (tp_callers s')) \<and>
     tp_threads s' \<noteq> [] \<and> map caller_task (tp_callers s') = ts"
    using step inv(2) by cases (auto simp: idle_inv_def map_update_same not_in_update split: if_splits)
  then show ?thesis using attended_step [OF step inv] by (simp add: idle_inv_def)
qed

lemma idle_new: "0 < pool_size n hw \<Longrightarrow> idle_inv ts (pool_new n hw ts O_idle)"
  by (auto simp: idle_inv_def pool_new_def comp_def)

lemma idle_reach:
  "(pool_step sp)\<^sup>*\<^sup>* (pool_new n hw ts O_idle) s \<Longrightarrow> 0 < pool_size n hw \<Longrightarrow> idle_inv ts s"
  by (induction rule: rtranclp_induct) (auto simp: idle_new dest: idle_step pool_reach_inv)

text \<open>A pool that is not deleted and in which no thread can take a step has done its work.\<close>

lemma stuck_mutex_free:
  assumes "queue_inv s" and "\<not> tp_stop s" and stuck: "\<And>s'. \<not> pool_step sp s s'"
  shows "tp_mtx s = None"
proof (cases "tp_mtx s")
  case (Some h)
  have ok: "mutex_ok (tp_threads s) (tp_callers s) (Some h)" using assms(1) Some by (simp add: queue_inv_def)
  show ?thesis
  proof (cases h)
    case (Worker i)
    then have i: "i < length (tp_threads s)" "worker_holds (tp_threads s ! i)" using ok by (simp_all add: mutex_ok_def)
    show ?thesis
    proof (cases "tp_threads s ! i")
      case W_check
      then obtain t ts where "tp_tasks s = t # ts" using assms(1,2) i(1) by (cases "tp_tasks s") (auto simp: queue_inv_def)
      then show ?thesis using pool_step.take [where s = s and i = i and t = t and ts = ts and spurious = sp] W_check i(1) assms(2) stuck by blast
    qed (use i stuck pool_step.pred [where s = s and i = i and spurious = sp] pool_step.sleep [where s = s and i = i and spurious = sp] in auto)
  next
    case (Caller j)
    then have j: "j < length (tp_callers s)" "caller_holds (tp_callers s ! j)" using ok by (simp_all add: mutex_ok_def)
    then show ?thesis using pool_step.add_push [where s = s and j = j and spurious = sp] assms(2) stuck by (cases "tp_callers s ! j") auto
  qed
qed simp

lemma stuck_done:
  assumes "queue_inv s" and "idle_inv ts s" and "count_inv s" and stuck: "\<And>s'. \<not> pool_step sp s s'"
  shows "tp_tasks s = [] \<and> mset (tp_run s) = mset ts"
proof -
  have free: "tp_mtx s = None" using stuck_mutex_free [OF assms(1) _ stuck] assms(2) by (simp add: idle_inv_def)
  have m: "mutex_ok (tp_threads s) (tp_callers s) None" using assms(1) free by (simp add: queue_inv_def)
  have asleep: "tp_threads s ! i = W_sleep" if i: "i < length (tp_threads s)" for i
  proof (cases "tp_threads s ! i")
    case W_done
    then show ?thesis using i assms(2) nth_mem [OF i] by (simp add: idle_inv_def)
  qed (use i m free stuck pool_step.test [where s = s and i = i and spurious = sp] pool_step.lock [where s = s and i = i and spurious = sp] pool_step.run [where s = s and i = i and spurious = sp] in \<open>auto simp: mutex_ok_def\<close>)
  have fin: "\<exists>t. tp_callers s ! j = A_done t" if j: "j < length (tp_callers s)" for j
  proof (cases "tp_callers s ! j")
    case (A_thrown t)
    then show ?thesis using j assms(2) nth_mem [OF j] by (simp add: idle_inv_def)
  next
    case (A_notify t)
    have "0 < length (tp_threads s)" using assms(2) by (simp add: idle_inv_def)
    then show ?thesis using pool_step.add_notify [where s = s and j = j and t = t and i = 0 and spurious = sp] asleep [of 0] A_notify j stuck by blast
  qed (use j m free stuck pool_step.add_lock [where s = s and j = j and spurious = sp] in \<open>auto simp: mutex_ok_def\<close>)
  have "\<not> attended s" using asleep fin by (fastforce simp: attended_def awake_def)
  then have empty: "tp_tasks s = []" using assms(2) by (auto simp: idle_inv_def)
  have "worker_hand w = {#}" if "w \<in> set (tp_threads s)" for w using that asleep by (auto simp: in_set_conv_nth)
  then have "hands s = {#}" by (simp add: hands_def sum_list_0 cong: map_cong)
  moreover have "caller_queued c = {#caller_task c#}" if "c \<in> set (tp_callers s)" for c using that fin by (force simp: in_set_conv_nth)
  then have "queued s = sum_list (map (\<lambda>c. {#caller_task c#}) (tp_callers s))" by (simp add: queued_def cong: map_cong)
  moreover have "sum_list (map (\<lambda>c. {#caller_task c#}) cs) = mset (map caller_task cs)" for cs :: "'a pool_caller list"
    by (induction cs) simp_all
  ultimately show ?thesis using assms(2,3) empty by (auto simp: count_inv_def idle_inv_def)
qed

text \<open>How many steps the threads can still take, unless a worker wakes without reason.\<close>

fun worker_work :: "'t pool_worker \<Rightarrow> nat" where
  "worker_work (W_run t) = 8" | "worker_work W_test = 7" | "worker_work W_lock = 6" | "worker_work W_pred = 5"
| "worker_work W_check = 4" | "worker_work W_going = 1" | "worker_work _ = 0"

fun caller_work :: "'t pool_caller \<Rightarrow> nat" where
  "caller_work (A_start t) = 14" | "caller_work (A_hold t) = 13" | "caller_work (A_notify t) = 7" | "caller_work _ = 0"

fun owner_work :: "nat \<Rightarrow> owner \<Rightarrow> nat" where
  "owner_work n O_stop = 6 * n + 3" | "owner_work n O_notify = 6 * n + 2" | "owner_work n O_join = 1" | "owner_work n _ = 0"

definition pool_work :: "'t pool \<Rightarrow> nat" where
  "pool_work s = sum_list (map worker_work (tp_threads s)) + sum_list (map caller_work (tp_callers s)) +
     5 * length (tp_tasks s) + owner_work (length (tp_threads s)) (tp_owner s)"

lemma sum_map_less:
  fixes f :: "'a \<Rightarrow> nat"
  shows "i < length xs \<Longrightarrow> f x < f (xs ! i) \<Longrightarrow> sum_list (map f (xs[i := x])) < sum_list (map f xs)"
  using sum_map_update [of i xs f x] by simp

lemma work_wake: "sum_list (map worker_work (map wake ws)) \<le> sum_list (map worker_work ws) + 6 * length ws"
proof (induction ws)
  case (Cons w ws)
  then show ?case by (cases w) (simp_all add: wake_def)
qed simp

lemma work_step: "pool_step False s s' \<Longrightarrow> pool_work s' < pool_work s"
proof (induction rule: pool_step.induct)
  case (take s i t ts)
  then show ?case using sum_map_update [of i "tp_threads s" worker_work "W_run t"] by (simp add: pool_work_def)
next
  case (add_push s j t)
  then show ?case using sum_map_update [of j "tp_callers s" caller_work "A_notify t"] by (simp add: pool_work_def)
next
  case (add_notify s j t i)
  then show ?case using sum_map_update [of j "tp_callers s" caller_work "A_done t"]
      sum_map_update [of i "tp_threads s" worker_work W_lock] by (simp add: pool_work_def)
next
  case (notify_all s)
  then show ?case using work_wake [of "tp_threads s"] by (simp add: pool_work_def)
qed (simp_all add: pool_work_def sum_map_less)

text \<open>
  A schedule with spurious wake-ups: \<open>pool_schedule k n s s'\<close> leads from \<open>s\<close> to \<open>s'\<close> in \<open>k\<close> steps of
  the threads and \<open>n\<close> wake-ups without a notification, in any order.
\<close>

inductive pool_schedule :: "nat \<Rightarrow> nat \<Rightarrow> 't pool \<Rightarrow> 't pool \<Rightarrow> bool" where
  start: "pool_schedule 0 0 s s"
| proper: "pool_schedule k n s u \<Longrightarrow> pool_step False u s' \<Longrightarrow> pool_schedule (Suc k) n s s'"
| spurious: "pool_schedule k n s u \<Longrightarrow> worker_at u i W_sleep \<Longrightarrow> pool_schedule k (Suc n) s (set_worker i W_lock u)"

lemma proper_step: "pool_step False s s' \<Longrightarrow> pool_step sp s s'"
  by (induction rule: pool_step.induct) (blast intro: pool_step.intros)+

lemma spurious_step: "pool_step True s s' \<Longrightarrow> pool_step False s s' \<or> (\<exists>i. worker_at s i W_sleep \<and> s' = set_worker i W_lock s)"
  by (induction rule: pool_step.induct) (blast intro: pool_step.intros)+

lemma pool_schedules: "(pool_step True)\<^sup>*\<^sup>* s s' \<longleftrightarrow> (\<exists>k n. pool_schedule k n s s')"
proof
  assume "(pool_step True)\<^sup>*\<^sup>* s s'"
  then show "\<exists>k n. pool_schedule k n s s'"
  proof (induction rule: rtranclp_induct)
    case (step u v)
    from spurious_step [OF step(2)] step(3) show ?case by (blast intro: pool_schedule.intros)
  qed (blast intro: pool_schedule.intros)
next
  assume "\<exists>k n. pool_schedule k n s s'"
  then obtain k n where "pool_schedule k n s s'" by blast
  then show "(pool_step True)\<^sup>*\<^sup>* s s'"
  proof induction
    case (proper k n s u s')
    then show ?case using proper_step [of u s' True] by auto
  next
    case (spurious k n s u i)
    then show ?case using pool_step.wake_up [where s = u and i = i and spurious = True] by auto
  qed simp
qed

lemma schedule_work: "pool_schedule k n s s' \<Longrightarrow> k + pool_work s' \<le> pool_work s + 6 * n"
proof (induction rule: pool_schedule.induct)
  case (proper k n s u s')
  then show ?case using work_step [of u s'] by simp
next
  case (spurious k n s u i)
  then show ?case using sum_map_update [of i "tp_threads u" worker_work W_lock] by (simp add: pool_work_def)
qed simp

lemma no_threads_step: "pool_step sp s s' \<Longrightarrow> tp_threads s = [] \<Longrightarrow> tp_threads s' = [] \<and> tp_run s' = tp_run s"
  by (induction rule: pool_step.induct) auto

lemma no_threads_reach: "(pool_step sp)\<^sup>*\<^sup>* (pool_new n hw ts ow) s \<Longrightarrow> pool_size n hw = 0 \<Longrightarrow> tp_threads s = [] \<and> tp_run s = []"
  by (induction rule: rtranclp_induct) (auto simp: pool_new_def dest: no_threads_step)

text \<open>
  C5: as long as the pool is not deleted and has a worker thread, every task that is added is
  run, also when workers wake up without having been notified. However the threads are
  scheduled, from a state that is reached they take at most as many steps as \<open>pool_work\<close> says and
  six more for every spurious wake-up, and when only spurious wake-ups are left to happen, the
  queue is empty and exactly the tasks of the callers have been run, each once. A pool without a
  thread, which \<^verbatim>\<open>hardware_concurrency\<close> does not exclude, never runs a task.
\<close>

theorem pool_completes:
  assumes "(pool_step True)\<^sup>*\<^sup>* (pool_new n hw ts O_idle) s"
  shows "(\<forall>k m s'. pool_schedule k m s s' \<longrightarrow> k \<le> pool_work s + 6 * m \<and>
       ((\<nexists>s''. pool_step False s' s'') \<and> 0 < pool_size n hw \<longrightarrow> tp_tasks s' = [] \<and> mset (tp_run s') = mset ts)) \<and>
    (pool_size n hw = 0 \<longrightarrow> tp_run s = [])"
proof (intro conjI allI impI)
  fix k m s' assume sched: "pool_schedule k m s s'"
  then show "k \<le> pool_work s + 6 * m" using schedule_work [of k m s s'] by simp
  assume stuck: "(\<nexists>s''. pool_step False s' s'') \<and> 0 < pool_size n hw"
  have reach: "(pool_step True)\<^sup>*\<^sup>* (pool_new n hw ts O_idle) s'"
    using assms sched pool_schedules [of s s'] by (meson rtranclp_trans)
  have "tp_tasks s' = [] \<and> mset (tp_run s') = mset ts"
    using pool_reach_inv [OF reach] stuck by (intro stuck_done [OF _ idle_reach [OF reach], of False]) simp_all
  then show "tp_tasks s' = []" "mset (tp_run s') = mset ts" by simp_all
next
  assume "pool_size n hw = 0"
  then show "tp_run s = []" using no_threads_reach [OF assms] by blast
qed

lemma pool_stops: "\<exists>s'. (pool_step True)\<^sup>*\<^sup>* s s' \<and> (\<nexists>s''. pool_step False s' s'')"
proof (induction "pool_work s" arbitrary: s rule: less_induct)
  case less
  show ?case
  proof (cases "\<exists>u. pool_step False s u")
    case True
    then show ?thesis using less work_step proper_step [of s _ True] by (meson converse_rtranclp_into_rtranclp)
  qed auto
qed

theorem pool_completes_witness:
  "(\<exists>s. (pool_step True)\<^sup>*\<^sup>* (pool_new 0 2 [''a'', ''b''] O_idle) s \<and> tp_tasks s = [] \<and> mset (tp_run s) = {#''a'', ''b''#}) \<and>
   tp_run (pool_new 0 0 [''a''] O_idle) = []"
proof
  obtain s where "(pool_step True)\<^sup>*\<^sup>* (pool_new 0 2 [''a'', ''b''] O_idle) s" "\<nexists>s'. pool_step False s s'"
    using pool_stops by blast
  then show "\<exists>s. (pool_step True)\<^sup>*\<^sup>* (pool_new 0 2 [''a'', ''b''] O_idle) s \<and> tp_tasks s = [] \<and> mset (tp_run s) = {#''a'', ''b''#}"
    using pool_completes [of 0 2 "[''a'', ''b'']" s] pool_schedule.start [of s] by (auto simp: pool_size_def)
  show "tp_run (pool_new 0 0 [''a''] O_idle) = []"
    using pool_completes [of 0 0 "[''a'']" "pool_new 0 0 [''a''] O_idle"] by (simp add: pool_size_def)
qed

section \<open>Deleting the pool\<close>

lemma joined_step: "pool_step sp s s' \<Longrightarrow> (tp_owner s = O_done \<longrightarrow> set (tp_threads s) \<subseteq> {W_done}) \<Longrightarrow>
  tp_owner s' = O_done \<longrightarrow> set (tp_threads s') \<subseteq> {W_done}"
proof (induction rule: pool_step.induct)
  case (add_notify s j t i)
  then show ?case using nth_mem by fastforce
qed (use nth_mem in \<open>fastforce+\<close>)

text \<open>
  when the destructor has returned, every worker has left its loop, and every task that
  was taken has been run to its end. Tasks that were still queued are dropped.
\<close>

theorem pool_deleted_quiet:
  assumes "(pool_step spurious)\<^sup>*\<^sup>* (pool_new n hw ts O_stop) s" and "tp_owner s = O_done"
  shows "set (tp_threads s) \<subseteq> {W_done} \<and> mset (tp_added s) = mset (tp_run s) + mset (tp_tasks s)"
proof -
  have "tp_owner s = O_done \<longrightarrow> set (tp_threads s) \<subseteq> {W_done}"
    using assms(1) by (induction rule: rtranclp_induct) (simp add: pool_new_def, blast dest: joined_step)
  then have fin: "set (tp_threads s) \<subseteq> {W_done}" using assms(2) by simp
  then have "worker_hand w = {#}" if "w \<in> set (tp_threads s)" for w using that by auto
  then have "hands s = {#}" by (simp add: hands_def sum_list_0 cong: map_cong)
  then show ?thesis using fin pool_reach_inv [OF assms(1)] by (simp add: count_inv_def)
qed

theorem pool_deleted_quiet_witness:
  "\<exists>s. (pool_step False)\<^sup>*\<^sup>* (pool_new 1 0 [''a''] O_stop) s \<and> tp_owner s = O_done \<and>
     set (tp_threads s) \<subseteq> {W_done} \<and> mset (tp_added s) = mset (tp_run s) + mset (tp_tasks s) \<and> tp_tasks s = [''a'']"
proof -
  let ?s = "\<lambda>b m ts w c ow. \<lparr>tp_stop = b, tp_mtx = m, tp_tasks = ts, tp_threads = [w], tp_callers = [c], tp_owner = ow,
    tp_added = ts, tp_taken = [], tp_run = []\<rparr>"
  let ?a = "''a''"
  have new: "pool_new 1 0 [?a] O_stop = ?s False None [] W_test (A_start ?a) O_stop" by (simp add: pool_new_def pool_size_def)
  have "pool_step False (?s False None [] W_test (A_start ?a) O_stop) (?s False (Some (Caller 0)) [] W_test (A_hold ?a) O_stop)"
    using pool_step.add_lock [where s = "?s False None [] W_test (A_start ?a) O_stop" and j = 0 and t = ?a] by simp
  moreover have "pool_step False (?s False (Some (Caller 0)) [] W_test (A_hold ?a) O_stop) (?s False None [?a] W_test (A_notify ?a) O_stop)"
    using pool_step.add_push [where s = "?s False (Some (Caller 0)) [] W_test (A_hold ?a) O_stop" and j = 0 and t = ?a] by simp
  moreover have "pool_step False (?s False None [?a] W_test (A_notify ?a) O_stop) (?s True None [?a] W_test (A_notify ?a) O_notify)"
    using pool_step.stop [where s = "?s False None [?a] W_test (A_notify ?a) O_stop"] by simp
  moreover have "pool_step False (?s True None [?a] W_test (A_notify ?a) O_notify) (?s True None [?a] W_test (A_notify ?a) O_join)"
    using pool_step.notify_all [where s = "?s True None [?a] W_test (A_notify ?a) O_notify"] by (simp add: wake_def)
  moreover have "pool_step False (?s True None [?a] W_test (A_notify ?a) O_join) (?s True None [?a] W_done (A_notify ?a) O_join)"
    using pool_step.test [where s = "?s True None [?a] W_test (A_notify ?a) O_join" and i = 0] by simp
  moreover have "pool_step False (?s True None [?a] W_done (A_notify ?a) O_join) (?s True None [?a] W_done (A_notify ?a) O_done)"
    using pool_step.join [where s = "?s True None [?a] W_done (A_notify ?a) O_join"] by simp
  ultimately have run: "(pool_step False)\<^sup>*\<^sup>* (pool_new 1 0 [?a] O_stop) (?s True None [?a] W_done (A_notify ?a) O_done)"
    unfolding new by (meson converse_rtranclp_into_rtranclp rtranclp.rtrancl_refl)
  show ?thesis
    using pool_deleted_quiet [OF run] run by (intro exI [of _ "?s True None [?a] W_done (A_notify ?a) O_done"]) simp
qed

text \<open>
  the destructor may never return. It sets the flag and notifies without the mutex; a
  worker that has tested the predicate and not yet gone to sleep misses both, sleeps, and is
  joined for ever. Such a state is reachable, and in it no thread can take a step.
\<close>

theorem pool_delete_may_hang:
  "\<exists>s. (pool_step False)\<^sup>*\<^sup>* (pool_new 1 hw ([] :: 't list) O_stop) s \<and> tp_owner s = O_join \<and>
     tp_threads s = [W_sleep] \<and> (\<nexists>s'. pool_step False s s')"
proof -
  let ?s = "\<lambda>b m w ow. \<lparr>tp_stop = b, tp_mtx = m, tp_tasks = [], tp_threads = [w], tp_callers = [], tp_owner = ow,
    tp_added = [], tp_taken = [], tp_run = []\<rparr> :: 't pool"
  have new: "pool_new 1 hw [] O_stop = ?s False None W_test O_stop" by (simp add: pool_new_def pool_size_def)
  have "pool_step False (?s False None W_test O_stop) (?s False None W_lock O_stop)"
    using pool_step.test [where s = "?s False None W_test O_stop" and i = 0] by simp
  moreover have "pool_step False (?s False None W_lock O_stop) (?s False (Some (Worker 0)) W_pred O_stop)"
    using pool_step.lock [where s = "?s False None W_lock O_stop" and i = 0] by simp
  moreover have "pool_step False (?s False (Some (Worker 0)) W_pred O_stop) (?s False (Some (Worker 0)) W_going O_stop)"
    using pool_step.pred [where s = "?s False (Some (Worker 0)) W_pred O_stop" and i = 0] by simp
  moreover have "pool_step False (?s False (Some (Worker 0)) W_going O_stop) (?s True (Some (Worker 0)) W_going O_notify)"
    using pool_step.stop [where s = "?s False (Some (Worker 0)) W_going O_stop"] by simp
  moreover have "pool_step False (?s True (Some (Worker 0)) W_going O_notify) (?s True (Some (Worker 0)) W_going O_join)"
    using pool_step.notify_all [where s = "?s True (Some (Worker 0)) W_going O_notify"] by (simp add: wake_def)
  moreover have "pool_step False (?s True (Some (Worker 0)) W_going O_join) (?s True None W_sleep O_join)"
    using pool_step.sleep [where s = "?s True (Some (Worker 0)) W_going O_join" and i = 0] by simp
  ultimately have "(pool_step False)\<^sup>*\<^sup>* (pool_new 1 hw [] O_stop) (?s True None W_sleep O_join)"
    unfolding new by (meson converse_rtranclp_into_rtranclp rtranclp.rtrancl_refl)
  moreover have "\<not> pool_step False (?s True None W_sleep O_join) s'" for s'
    by (rule notI, erule pool_stepE) auto
  ultimately show ?thesis by (intro exI [of _ "?s True None W_sleep O_join"]) simp
qed

end
