(* ===== verification/Entry_Manager.thy ===== *)
theory Entry_Manager
  imports Bundle_Prelude "HOL-Library.Multiset"
begin

text \<open>
  \<^verbatim>\<open>entry/Entry.h\<close> and \<^verbatim>\<open>entry/Manager.h\<close>: entries with an identifier, and the table that keeps
  them by it. The table is a \<^verbatim>\<open>std::unordered_map\<close>: the list of its pairs in the order of
  iteration. An insertion may change that order in any way, which is the argument \<open>rehash\<close>;
  the standard keeps the order of the others when an element is erased.
\<close>

section \<open>Operations\<close>

record ('id, 'd) entry =
  e_id :: 'id
  e_data :: 'd

type_synonym ('id, 'd) entry_manager = "('id \<times> ('id, 'd) entry) list"

definition mg_add :: "(('id, 'd) entry_manager \<Rightarrow> ('id, 'd) entry_manager) \<Rightarrow> ('id, 'd) entry \<Rightarrow> ('id, 'd) entry_manager \<Rightarrow> bool \<times> ('id, 'd) entry_manager" where
  "mg_add rehash e m = (if e_id e \<in> fst ` set m then (False, m) else (True, rehash ((e_id e, e) # m)))"

text \<open>
  \<^verbatim>\<open>find\<close> of the hash table returns a position, here the number of the element, and \<^verbatim>\<open>erase\<close> takes the
  element at a position out. An entry that is not found is reported and nothing changes.
\<close>

fun table_find :: "'id \<Rightarrow> ('id, 'd) entry_manager \<Rightarrow> nat option" where
  "table_find i [] = None"
| "table_find i ((j, e) # m) = (if j = i then Some 0 else map_option Suc (table_find i m))"

definition table_erase :: "nat \<Rightarrow> ('id, 'd) entry_manager \<Rightarrow> ('id, 'd) entry_manager" where
  "table_erase n m = take n m @ drop (Suc n) m"

definition mg_remove :: "('id, 'd) entry \<Rightarrow> ('id, 'd) entry_manager \<Rightarrow> ('id, 'd) entry_manager" where
  "mg_remove e m = (case table_find (e_id e) m of None \<Rightarrow> m | Some n \<Rightarrow> table_erase n m)"

definition mg_size :: "('id, 'd) entry_manager \<Rightarrow> nat" where
  "mg_size m = length m"

definition mg_empty :: "('id, 'd) entry_manager \<Rightarrow> bool" where
  "mg_empty m = (m = [])"

definition mg_clear :: "('id, 'd) entry_manager \<Rightarrow> ('id, 'd) entry_manager" where
  "mg_clear m = []"

definition mg_find :: "'id \<Rightarrow> ('id, 'd) entry_manager \<Rightarrow> ('id, 'd) entry option" where
  "mg_find i m = map_of m i"

text \<open>\<open>invoke\<close> is the callback, on a state of its own.\<close>

fun mg_traverse :: "(('id, 'd) entry \<Rightarrow> 's \<Rightarrow> bool \<times> 's) \<Rightarrow> ('id, 'd) entry_manager \<Rightarrow> 's \<Rightarrow> bool \<times> 's" where
  "mg_traverse invoke [] s = (True, s)"
| "mg_traverse invoke ((i, e) # m) s = (case invoke e s of (ok, s1) \<Rightarrow> if ok then mg_traverse invoke m s1 else (False, s1))"

text \<open>The first element of an empty table does not exist.\<close>

fun mg_pop_front :: "('id, 'd) entry_manager \<Rightarrow> (('id, 'd) entry \<times> ('id, 'd) entry_manager) res" where
  "mg_pop_front [] = Inl HeapOverrun"
| "mg_pop_front ((i, e) # m) = Inr (e, m)"

section \<open>A table by identifier\<close>

text \<open>A user's calls and what they return.\<close>

datatype ('id, 'd) table_op = Add "('id, 'd) entry" | Remove "('id, 'd) entry" | Find 'id

datatype ('id, 'd) table_answer = Added bool | Removed | Found "('id, 'd) entry option"

fun run_table ::
  "(('id, 'd) entry \<Rightarrow> 'm \<Rightarrow> bool \<times> 'm) \<Rightarrow> (('id, 'd) entry \<Rightarrow> 'm \<Rightarrow> 'm) \<Rightarrow> ('id \<Rightarrow> 'm \<Rightarrow> ('id, 'd) entry option) \<Rightarrow>
   ('id, 'd) table_op list \<Rightarrow> 'm \<Rightarrow> ('id, 'd) table_answer list \<times> 'm" where
  "run_table ins del look [] m = ([], m)"
| "run_table ins del look (Add e # ops) m = (let r = run_table ins del look ops (snd (ins e m)) in (Added (fst (ins e m)) # fst r, snd r))"
| "run_table ins del look (Remove e # ops) m = (let r = run_table ins del look ops (del e m) in (Removed # fst r, snd r))"
| "run_table ins del look (Find i # ops) m = (let r = run_table ins del look ops m in (Found (look i m) # fst r, snd r))"

text \<open>The same calls on a finite map.\<close>

fun run_map :: "('id, 'd) table_op list \<Rightarrow> ('id \<rightharpoonup> ('id, 'd) entry) \<Rightarrow> ('id, 'd) table_answer list \<times> ('id \<rightharpoonup> ('id, 'd) entry)" where
  "run_map [] f = ([], f)"
| "run_map (Add e # ops) f =
     (let r = run_map ops (if f (e_id e) = None then f(e_id e \<mapsto> e) else f) in (Added (f (e_id e) = None) # fst r, snd r))"
| "run_map (Remove e # ops) f = (let r = run_map ops (f(e_id e := None)) in (Removed # fst r, snd r))"
| "run_map (Find i # ops) f = (let r = run_map ops f in (Found (f i) # fst r, snd r))"

text \<open>What users of a table rely on.\<close>

locale entry_table =
  fixes ok :: "'m \<Rightarrow> bool" and look :: "'id \<Rightarrow> 'm \<Rightarrow> ('id, 'd) entry option"
    and ins :: "('id, 'd) entry \<Rightarrow> 'm \<Rightarrow> bool \<times> 'm" and del :: "('id, 'd) entry \<Rightarrow> 'm \<Rightarrow> 'm"
  assumes ins_ok: "ok m \<Longrightarrow> ok (snd (ins e m))"
    and ins_fst: "ok m \<Longrightarrow> fst (ins e m) = (look (e_id e) m = None)"
    and ins_look: "ok m \<Longrightarrow> (\<lambda>i. look i (snd (ins e m))) =
          (if look (e_id e) m = None then (\<lambda>i. look i m)(e_id e \<mapsto> e) else (\<lambda>i. look i m))"
    and del_ok: "ok m \<Longrightarrow> ok (del e m)"
    and del_look: "ok m \<Longrightarrow> (\<lambda>i. look i (del e m)) = (\<lambda>i. look i m)(e_id e := None)"
begin

lemma table_run_refines:
  "ok m \<Longrightarrow> fst (run_table ins del look ops m) = fst (run_map ops (\<lambda>i. look i m)) \<and>
     (\<lambda>i. look i (snd (run_table ins del look ops m))) = snd (run_map ops (\<lambda>i. look i m)) \<and> ok (snd (run_table ins del look ops m))"
proof (induction ops arbitrary: m)
  case (Cons op ops)
  then show ?case by (cases op) (simp_all add: Let_def ins_ok ins_fst ins_look del_ok del_look)
qed simp

end

section \<open>The manager\<close>

definition manager_ok :: "('id, 'd) entry_manager \<Rightarrow> bool" where
  "manager_ok m \<longleftrightarrow> distinct (map fst m) \<and> (\<forall>p\<in>set m. e_id (snd p) = fst p)"

lemma mg_remove_filter: "distinct (map fst m) \<Longrightarrow> mg_remove e m = filter (\<lambda>p. fst p \<noteq> e_id e) m"
proof (induction m)
  case (Cons p m)
  obtain j d where p: "p = (j, d)" by (cases p)
  show ?case
  proof (cases "j = e_id e")
    case True
    then have "filter (\<lambda>q. fst q \<noteq> e_id e) m = m" using Cons.prems p by (intro filter_True) force
    then show ?thesis using p True by (simp add: mg_remove_def table_erase_def)
  next
    case False
    then show ?thesis using Cons p by (auto simp: mg_remove_def table_erase_def split: option.splits)
  qed
qed (simp add: mg_remove_def)

locale hash_order =
  fixes rehash :: "('id, 'd) entry_manager \<Rightarrow> ('id, 'd) entry_manager"
  assumes rehash_mset: "mset (rehash m) = mset m"
begin

lemma rehash_set: "set (rehash m) = set m"
  using mset_eq_setD [OF rehash_mset] .

lemma rehash_distinct: "distinct (map fst (rehash m)) = distinct (map fst m)"
  using rehash_mset [of m] by (metis mset_eq_imp_distinct_iff mset_map)

lemma rehash_look: "distinct (map fst m) \<Longrightarrow> map_of (rehash m) = map_of m"
  using map_of_inject_set [of "rehash m" m] by (simp add: rehash_distinct rehash_set)

end

sublocale hash_order \<subseteq> mg: entry_table manager_ok mg_find "mg_add rehash" mg_remove
proof
  fix m :: "('id, 'd) entry_manager" and e :: "('id, 'd) entry"
  assume m: "manager_ok m"
  have absent: "e_id e \<notin> fst ` set m \<longleftrightarrow> map_of m (e_id e) = None" by (simp add: map_of_eq_None_iff)
  show "manager_ok (snd (mg_add rehash e m))"
    using m by (auto simp: manager_ok_def mg_add_def rehash_distinct rehash_set)
  show "fst (mg_add rehash e m) = (mg_find (e_id e) m = None)" using absent by (auto simp: mg_add_def mg_find_def)
  show "(\<lambda>i. mg_find i (snd (mg_add rehash e m))) = (if mg_find (e_id e) m = None then (\<lambda>i. mg_find i m)(e_id e \<mapsto> e) else (\<lambda>i. mg_find i m))"
    using m absent by (auto simp: mg_add_def mg_find_def manager_ok_def rehash_look fun_eq_iff)
  have rm: "mg_remove e m = filter (\<lambda>p. fst p \<noteq> e_id e) m" using m by (simp add: mg_remove_filter manager_ok_def)
  show "manager_ok (mg_remove e m)" using m by (auto simp: manager_ok_def rm distinct_map_filter)
  show "(\<lambda>i. mg_find i (mg_remove e m)) = (\<lambda>i. mg_find i m)(e_id e := None)"
    unfolding rm by (induction m) (auto simp: mg_find_def fun_eq_iff)
qed

context hash_order
begin

lemma manager_run:
  "manager_ok m \<Longrightarrow> fst (run_table (mg_add rehash) mg_remove mg_find ops m) = fst (run_map ops (\<lambda>i. mg_find i m)) \<and>
     (\<lambda>i. mg_find i (snd (run_table (mg_add rehash) mg_remove mg_find ops m))) = snd (run_map ops (\<lambda>i. mg_find i m))"
  using mg.table_run_refines by blast

end

text \<open>A table that puts new elements in front, as those of the usual library do until they grow.\<close>

interpretation front: hash_order "\<lambda>m. m"
  by unfold_locales simp

text \<open>
  C28: the manager is a finite map from identifiers to entries. Whatever calls are made on an
  empty manager and however the table orders its elements, every call returns what it would
  on the map: an entry is refused when there is one with its identifier, and removing an
  entry removes the one with its identifier, be it another.
\<close>

theorem manager_refines_map:
  assumes "\<forall>m. mset (rehash m) = mset m"
  shows "fst (run_table (mg_add rehash) mg_remove mg_find ops []) = fst (run_map ops Map.empty) \<and>
    (\<lambda>i. mg_find i (snd (run_table (mg_add rehash) mg_remove mg_find ops []))) = snd (run_map ops Map.empty)"
proof -
  have h: "hash_order rehash" using assms by (simp add: hash_order_def)
  have "manager_ok []" and look: "(\<lambda>i. mg_find i []) = Map.empty" by (simp_all add: manager_ok_def mg_find_def fun_eq_iff)
  then show ?thesis using hash_order.manager_run [OF h, of "[]" ops] unfolding look by blast
qed

theorem manager_refines_map_witness:
  "fst (run_table (mg_add rev) mg_remove mg_find
     [Add \<lparr>e_id = 1, e_data = ''a''\<rparr>, Add \<lparr>e_id = 1, e_data = ''b''\<rparr>, Add \<lparr>e_id = 2, e_data = ''c''\<rparr>, Find 1,
      Remove \<lparr>e_id = 1, e_data = ''b''\<rparr>, Find 1, Find (2 :: nat)] []) =
   [Added True, Added False, Added True, Found (Some \<lparr>e_id = 1, e_data = ''a''\<rparr>), Removed, Found None, Found (Some \<lparr>e_id = 2, e_data = ''c''\<rparr>)]"
  using manager_refines_map [of rev "[Add \<lparr>e_id = 1, e_data = ''a''\<rparr>, Add \<lparr>e_id = 1, e_data = ''b''\<rparr>, Add \<lparr>e_id = 2, e_data = ''c''\<rparr>, Find 1,
      Remove \<lparr>e_id = 1, e_data = ''b''\<rparr>, Find 1, Find (2 :: nat)]"] by (simp add: Let_def)

text \<open>
  Traversing visits the entries in order and stops after the first for which the callback
  answers no. Taking the first entry removes it, and only it.
\<close>

lemma mg_traverse_all: "\<forall>p\<in>set m. \<forall>s. fst (invoke (snd p) s) \<Longrightarrow> mg_traverse invoke m s = (True, fold (\<lambda>p s. snd (invoke (snd p) s)) m s)"
proof (induction invoke m s rule: mg_traverse.induct)
  case (2 invoke i e m s)
  have "fst (invoke e s)" using 2(2) by simp
  then show ?case using 2 by (cases "invoke e s") auto
qed simp

lemma mg_pop_front_takes:
  assumes "manager_ok m" and "mg_pop_front m = Inr (e, m')"
  shows "mg_find (e_id e) m = Some e \<and> mg_find (e_id e) m' = None \<and> m' = mg_remove e m \<and> manager_ok m'"
proof -
  obtain i where m: "m = (i, e) # m'" using assms(2) by (cases m rule: mg_pop_front.cases) auto
  then have "e_id e = i" "i \<notin> fst ` set m'" using assms(1) by (simp_all add: manager_ok_def)
  moreover from this have "filter (\<lambda>p. fst p \<noteq> i) m' = m'" by (intro filter_True) force
  ultimately show ?thesis using assms(1) m by (simp add: manager_ok_def mg_find_def mg_remove_def table_erase_def map_of_eq_None_iff)
qed

end
