(* ===== verification/My_Sql.thy ===== *)
theory My_Sql
  imports Tools_Text "HOL-Library.Char_ord" "HOL-Library.List_Lexorder"
begin

text \<open>
  \<^verbatim>\<open>db/MySQL.cpp\<close>, \<^verbatim>\<open>db/MySQLStatement.cpp\<close> and \<^verbatim>\<open>db/MySQLResult.cpp\<close>, the wrappers around the
  MySQL client library. The library is a record of functions on a state \<open>'h\<close>, which stands
  for the handle, the statement in use and the server behind them; results of queries have
  any type \<open>'r\<close>. A return code is the integer of the library, zero for success. What the
  theorems rely on of the library is the locale \<open>mysql_fetch\<close>.
\<close>

section \<open>The library\<close>

datatype my_option =
  MYSQL_OPT_CONNECT_TIMEOUT u32 | MYSQL_OPT_RECONNECT bool | MYSQL_INIT_COMMAND string | MYSQL_REPORT_DATA_TRUNCATION bool

record my_bind =
  mb_type :: nat
  mb_buffer :: string
  mb_length :: nat

record ('h, 'r) mysql_lib =
  ml_init :: "'h \<Rightarrow> 'h"
  ml_close :: "'h \<Rightarrow> 'h"
  ml_options :: "my_option \<Rightarrow> 'h \<Rightarrow> int \<times> 'h"
  ml_real_connect :: "string \<Rightarrow> string \<Rightarrow> string \<Rightarrow> string option \<Rightarrow> u32 \<Rightarrow> 'h \<Rightarrow> bool \<times> 'h"
  ml_real_query :: "string \<Rightarrow> 'h \<Rightarrow> int \<times> 'h"
  ml_store_result :: "'h \<Rightarrow> 'r option \<times> 'h"
  ml_select_db :: "string \<Rightarrow> 'h \<Rightarrow> int \<times> 'h"
  ml_insert_id :: "'h \<Rightarrow> u64"
  ml_stmt_init :: "'h \<Rightarrow> bool \<times> 'h"
  ml_stmt_prepare :: "string \<Rightarrow> 'h \<Rightarrow> int \<times> 'h"
  ml_stmt_bind_param :: "my_bind list \<Rightarrow> 'h \<Rightarrow> int \<times> 'h"
  ml_stmt_execute :: "'h \<Rightarrow> int \<times> 'h"
  ml_stmt_num_rows :: "'h \<Rightarrow> u64"
  ml_stmt_bind_result :: "nat \<Rightarrow> 'h \<Rightarrow> int \<times> 'h"
  ml_stmt_store_result :: "'h \<Rightarrow> int \<times> 'h"
  ml_stmt_fetch :: "nat \<Rightarrow> string \<Rightarrow> 'h \<Rightarrow> int \<times> string \<times> 'h"
  ml_stmt_free_result :: "'h \<Rightarrow> int \<times> 'h"
  ml_stmt_close :: "'h \<Rightarrow> int \<times> 'h"

text \<open>\<open>ml_stmt_fetch n buf\<close> fetches a row of one column into a bound buffer of \<open>n\<close> bytes that holds \<open>buf\<close>.\<close>

section \<open>Configuration\<close>

record MySQLConfig =
  mc_host :: string
  mc_user :: string
  mc_passwd :: string
  mc_database :: string
  mc_port :: u32

text \<open>The port is read as a \<^verbatim>\<open>long\<close> and kept as an \<^verbatim>\<open>int\<close>. The host is stored before the port is found wrong.\<close>

definition parsefrom :: "string \<Rightarrow> MySQLConfig \<Rightarrow> bool \<times> MySQLConfig" where
  "parsefrom conf c =
     (case splitString (cstring conf) (CHR '':'') [] of (rc, v) \<Rightarrow>
        if \<not> rc \<or> length v \<noteq> 5 then (False, c)
        else let c1 = c\<lparr>mc_host := v ! 0\<rparr>
             in case std_stol (v ! 1) of
                  None \<Rightarrow> (False, c1)
                | Some port \<Rightarrow> (True, c1\<lparr>mc_port := word_of_int port, mc_user := v ! 2, mc_passwd := v ! 3, mc_database := v ! 4\<rparr>))"

section \<open>Connections\<close>

record 'h mysql =
  my_handle :: 'h
  my_conf :: MySQLConfig

definition my_new :: "('h, 'r) mysql_lib \<Rightarrow> 'h \<Rightarrow> 'h mysql" where
  "my_new lib h = \<lparr>my_handle = ml_init lib h, my_conf = \<lparr>mc_host = [], mc_user = [], mc_passwd = [], mc_database = [], mc_port = - 1\<rparr>\<rparr>"

definition my_delete :: "('h, 'r) mysql_lib \<Rightarrow> 'h mysql \<Rightarrow> 'h" where
  "my_delete lib m = ml_close lib (my_handle m)"

definition my_closeDatabase :: "('h, 'r) mysql_lib \<Rightarrow> 'h mysql \<Rightarrow> 'h mysql" where
  "my_closeDatabase lib m = m\<lparr>my_handle := ml_init lib (ml_close lib (my_handle m))\<rparr>"

definition my_runCommand :: "('h, 'r) mysql_lib \<Rightarrow> string \<Rightarrow> 'h mysql \<Rightarrow> bool \<times> 'h mysql" where
  "my_runCommand lib s m = (case ml_real_query lib s (my_handle m) of (rc, h) \<Rightarrow> (rc = 0, m\<lparr>my_handle := h\<rparr>))"

definition my_runQuery :: "('h, 'r) mysql_lib \<Rightarrow> string \<Rightarrow> 'h mysql \<Rightarrow> 'r option \<times> 'h mysql" where
  "my_runQuery lib s m =
     (case ml_real_query lib s (my_handle m) of (rc, h) \<Rightarrow>
        if rc \<noteq> 0 then (None, m\<lparr>my_handle := h\<rparr>)
        else case ml_store_result lib h of (res, h1) \<Rightarrow> (res, m\<lparr>my_handle := h1\<rparr>))"

definition open_options :: "my_option list" where
  "open_options = [MYSQL_OPT_CONNECT_TIMEOUT 10, MYSQL_OPT_RECONNECT True, MYSQL_INIT_COMMAND (''set wait_timeout='' @ dec_nat 604800),
     MYSQL_INIT_COMMAND (''set interactive_timeout='' @ dec_nat 604800), MYSQL_REPORT_DATA_TRUNCATION True]"

fun set_options :: "('h, 'r) mysql_lib \<Rightarrow> my_option list \<Rightarrow> 'h \<Rightarrow> bool \<times> 'h" where
  "set_options lib [] h = (True, h)"
| "set_options lib (opt # opts) h = (case ml_options lib opt h of (rc, h1) \<Rightarrow> if rc \<noteq> 0 then (False, h1) else set_options lib opts h1)"

definition my_open :: "('h, 'r) mysql_lib \<Rightarrow> 'h mysql \<Rightarrow> bool \<times> 'h mysql" where
  "my_open lib m =
     (case set_options lib open_options (my_handle m) of (ok, h) \<Rightarrow>
        if \<not> ok then (False, my_closeDatabase lib (m\<lparr>my_handle := h\<rparr>))
        else let c = my_conf m
             in case ml_real_connect lib (cstring (mc_host c)) (cstring (mc_user c)) (cstring (mc_passwd c))
                       (if length (mc_database c) > 0 then Some (cstring (mc_database c)) else None) (mc_port c) h of (connected, h1) \<Rightarrow>
                  if \<not> connected then (False, my_closeDatabase lib (m\<lparr>my_handle := h1\<rparr>))
                  else my_runCommand lib ''SET NAMES UTF8'' (m\<lparr>my_handle := h1\<rparr>))"

definition my_openDatabase :: "('h, 'r) mysql_lib \<Rightarrow> string \<Rightarrow> 'h mysql \<Rightarrow> bool \<times> 'h mysql" where
  "my_openDatabase lib conf m =
     (case parsefrom conf (my_conf m) of (ok, c) \<Rightarrow> if \<not> ok then (False, m\<lparr>my_conf := c\<rparr>) else my_open lib (m\<lparr>my_conf := c\<rparr>))"

definition my_openDatabase_at ::
  "('h, 'r) mysql_lib \<Rightarrow> string \<Rightarrow> string \<Rightarrow> string \<Rightarrow> string \<Rightarrow> u32 \<Rightarrow> 'h mysql \<Rightarrow> bool \<times> 'h mysql" where
  "my_openDatabase_at lib host user passwd db port m =
     my_open lib (m\<lparr>my_conf := \<lparr>mc_host = cstring host, mc_user = cstring user, mc_passwd = cstring passwd, mc_database = cstring db, mc_port = port\<rparr>\<rparr>)"

definition my_resetDatabase :: "('h, 'r) mysql_lib \<Rightarrow> 'h mysql \<Rightarrow> bool \<times> 'h mysql" where
  "my_resetDatabase lib m = my_open lib (my_closeDatabase lib m)"

definition my_selectDatabase :: "('h, 'r) mysql_lib \<Rightarrow> string \<Rightarrow> 'h mysql \<Rightarrow> bool \<times> 'h mysql" where
  "my_selectDatabase lib database m =
     (case ml_select_db lib (cstring database) (my_handle m) of (rc, h) \<Rightarrow>
        if rc \<noteq> 0 then (False, m\<lparr>my_handle := h\<rparr>)
        else (True, m\<lparr>my_handle := h, my_conf := (my_conf m)\<lparr>mc_database := database\<rparr>\<rparr>))"

definition my_createDatabase :: "('h, 'r) mysql_lib \<Rightarrow> string \<Rightarrow> 'h mysql \<Rightarrow> bool \<times> 'h mysql" where
  "my_createDatabase lib database m =
     my_runCommand lib (''CREATE DATABASE IF NOT EXISTS '' @ [CHR 0x60] @ database @ [CHR 0x60] @
       '' DEFAULT CHARACTER SET utf8 COLLATE utf8_general_ci'') m"

definition my_insertId :: "('h, 'r) mysql_lib \<Rightarrow> 'h mysql \<Rightarrow> u64" where
  "my_insertId lib m = ml_insert_id lib (my_handle m)"

section \<open>Statements\<close>

text \<open>
  A statement is \<open>True\<close>, or \<open>False\<close> when the library had no memory for it: the operations then
  pass a null pointer on. \<open>lib_call\<close> is a call that reports by its return code.
\<close>

definition lib_call :: "bool \<Rightarrow> int \<times> 'h \<Rightarrow> (bool \<times> 'h) res" where
  "lib_call stmt r = (if \<not> stmt then Inl NullDeref else Inr (fst r = 0, snd r))"

definition st_prepare :: "('h, 'r) mysql_lib \<Rightarrow> bool \<Rightarrow> string \<Rightarrow> 'h \<Rightarrow> (bool \<times> 'h) res" where
  "st_prepare lib stmt s h = lib_call stmt (ml_stmt_prepare lib s h)"

definition st_bindParam :: "('h, 'r) mysql_lib \<Rightarrow> bool \<Rightarrow> my_bind list \<Rightarrow> 'h \<Rightarrow> (bool \<times> 'h) res" where
  "st_bindParam lib stmt b h = lib_call stmt (ml_stmt_bind_param lib b h)"

definition st_exec :: "('h, 'r) mysql_lib \<Rightarrow> bool \<Rightarrow> 'h \<Rightarrow> (bool \<times> 'h) res" where
  "st_exec lib stmt h = lib_call stmt (ml_stmt_execute lib h)"

text \<open>The number of rows is kept in an \<^verbatim>\<open>int\<close>.\<close>

definition st_rowCount :: "('h, 'r) mysql_lib \<Rightarrow> bool \<Rightarrow> 'h \<Rightarrow> int res" where
  "st_rowCount lib stmt h = (if \<not> stmt then Inl NullDeref else Inr (to_int (uint (ml_stmt_num_rows lib h))))"

definition st_bindResult :: "('h, 'r) mysql_lib \<Rightarrow> bool \<Rightarrow> nat \<Rightarrow> 'h \<Rightarrow> (bool \<times> 'h) res" where
  "st_bindResult lib stmt n h =
     bindE (lib_call stmt (ml_stmt_bind_result lib n h)) (\<lambda>(ok, h1).
       if \<not> ok then Inr (False, h1) else lib_call stmt (ml_stmt_store_result lib h1))"

text \<open>No more rows and an error are both \<open>False\<close>.\<close>

definition st_fetch :: "('h, 'r) mysql_lib \<Rightarrow> bool \<Rightarrow> nat \<Rightarrow> string \<Rightarrow> 'h \<Rightarrow> (bool \<times> string \<times> 'h) res" where
  "st_fetch lib stmt n buf h =
     (if \<not> stmt then Inl NullDeref else case ml_stmt_fetch lib n buf h of (rc, buf1, h1) \<Rightarrow> Inr (rc = 0, buf1, h1))"

definition st_freeResult :: "('h, 'r) mysql_lib \<Rightarrow> bool \<Rightarrow> 'h \<Rightarrow> (bool \<times> 'h) res" where
  "st_freeResult lib stmt h = lib_call stmt (ml_stmt_free_result lib h)"

definition st_delete :: "('h, 'r) mysql_lib \<Rightarrow> bool \<Rightarrow> 'h \<Rightarrow> 'h res" where
  "st_delete lib stmt h = bindE (lib_call stmt (ml_stmt_close lib h)) (\<lambda>(ok, h1). Inr h1)"

section \<open>Names of databases and tables\<close>

definition name_buffer :: nat where
  "name_buffer = 64"

text \<open>The loop over the rows. The buffer is taken for a C string; one that does not end within it is read beyond.\<close>

partial_function (option) fetch_names ::
  "('h, 'r) mysql_lib \<Rightarrow> bool \<Rightarrow> string \<Rightarrow> string set \<Rightarrow> 'h \<Rightarrow> (string set \<times> 'h) res option" where
  "fetch_names lib stmt buf results h =
     (case st_fetch lib stmt name_buffer buf h of
        Inl e \<Rightarrow> Some (Inl e)
      | Inr (ok, buf1, h1) \<Rightarrow>
          if \<not> ok then Some (Inr (results, h1))
          else if CHR 0x00 \<notin> set (take name_buffer buf1) then Some (Inl HeapOverrun)
          else fetch_names lib stmt buf1 (insert (cstring buf1) results) h1)"

text \<open>
  \<open>junk\<close> is what the buffer holds before. The statement is closed on every way out.
\<close>

definition my_show ::
  "('h, 'r) mysql_lib \<Rightarrow> string \<Rightarrow> string \<Rightarrow> string set \<Rightarrow> 'h mysql \<Rightarrow> (bool \<times> string set \<times> 'h mysql) res option" where
  "my_show lib junk s results m =
     (case ml_stmt_init lib (my_handle m) of (stmt, h0) \<Rightarrow>
        let leave = (\<lambda>ok res h. bindE (st_delete lib stmt h) (\<lambda>h1. Inr (ok, res, m\<lparr>my_handle := h1\<rparr>)))
        in case bindE (st_prepare lib stmt s h0) (\<lambda>(ok, h1). if \<not> ok then Inr (False, h1)
                else bindE (st_exec lib stmt h1) (\<lambda>(ok, h2). if \<not> ok then Inr (False, h2)
                else st_bindResult lib stmt name_buffer h2)) of
             Inl e \<Rightarrow> Some (Inl e)
           | Inr (ok, h3) \<Rightarrow>
               if \<not> ok then Some (leave False results h3)
               else map_option (\<lambda>r. bindE r (\<lambda>(res, h4).
                      bindE (st_freeResult lib stmt h4) (\<lambda>(ok, h5). leave ok res h5))) (fetch_names lib stmt junk results h3))"

definition my_loadDatabase ::
  "('h, 'r) mysql_lib \<Rightarrow> string \<Rightarrow> string \<Rightarrow> string set \<Rightarrow> 'h mysql \<Rightarrow> (bool \<times> string set \<times> 'h mysql) res option" where
  "my_loadDatabase lib junk pat results m = my_show lib junk (''SHOW DATABASES LIKE '' @ [CHR 0x27] @ pat @ [CHR 0x27]) results m"

definition my_loadTable ::
  "('h, 'r) mysql_lib \<Rightarrow> string \<Rightarrow> string \<Rightarrow> string set \<Rightarrow> 'h mysql \<Rightarrow> (bool \<times> string set \<times> 'h mysql) res option" where
  "my_loadTable lib junk pat results m = my_show lib junk (''SHOW TABLES LIKE '' @ [CHR 0x27] @ pat @ [CHR 0x27]) results m"

section \<open>What is documented of fetching\<close>

text \<open>
  \<open>rows h\<close> are the rows still to be fetched. A value shorter than the buffer is stored with a
  zero byte after it, one that fills it without; one that is longer is cut and reported.
\<close>

definition stored :: "nat \<Rightarrow> string \<Rightarrow> string \<Rightarrow> string" where
  "stored n r buf = (if length r < n then r @ CHR 0x00 # drop (Suc (length r)) buf else take n r)"

lemma cstring_append_nul: "CHR 0x00 \<notin> set r \<Longrightarrow> cstring (r @ CHR 0x00 # ys) = r"
  by (induction r) (auto simp: cstring_def)

text \<open>A listing whose statement is prepared, executed and stored, with \<open>names\<close> as its rows.\<close>

definition my_answers :: "('h, 'r) mysql_lib \<Rightarrow> ('h \<Rightarrow> string list) \<Rightarrow> string \<Rightarrow> string list \<Rightarrow> 'h \<Rightarrow> bool" where
  "my_answers lib rows s names h0 \<longleftrightarrow>
     (let r1 = ml_stmt_init lib h0; r2 = ml_stmt_prepare lib s (snd r1); r3 = ml_stmt_execute lib (snd r2);
          r4 = ml_stmt_bind_result lib name_buffer (snd r3); r5 = ml_stmt_store_result lib (snd r4)
      in fst r1 \<and> fst r2 = 0 \<and> fst r3 = 0 \<and> fst r4 = 0 \<and> fst r5 = 0 \<and> rows (snd r5) = names)"

locale mysql_fetch =
  fixes lib :: "('h, 'r) mysql_lib" and rows :: "'h \<Rightarrow> string list"
  assumes fetch_none: "rows h = [] \<Longrightarrow> fst (ml_stmt_fetch lib n buf h) = 100"
    and fetch_row: "rows h = r # rs \<Longrightarrow>
      \<exists>h'. ml_stmt_fetch lib n buf h = (if length r \<le> n then 0 else 101, stored n r buf, h') \<and> rows h' = rs"
begin

lemma fetch_short:
  assumes "\<forall>r\<in>set rs. length r < name_buffer \<and> CHR 0x00 \<notin> set r"
  shows "rows h = rs @ rest \<Longrightarrow>
    \<exists>buf1 h1. fetch_names lib True buf results h = fetch_names lib True buf1 (results \<union> set rs) h1 \<and> rows h1 = rest"
  using assms
proof (induction rs arbitrary: h buf results)
  case (Cons r rs)
  obtain h' where h': "ml_stmt_fetch lib name_buffer buf h = (0, stored name_buffer r buf, h')" "rows h' = rs @ rest"
    using fetch_row [of h r "rs @ rest" name_buffer buf] Cons.prems by auto
  have nul: "CHR 0x00 \<in> set (take name_buffer (stored name_buffer r buf))" and str: "cstring (stored name_buffer r buf) = r"
    using Cons.prems(2) by (auto simp: stored_def cstring_append_nul take_Cons')
  obtain buf1 h1 where "fetch_names lib True (stored name_buffer r buf) (insert r results) h' = fetch_names lib True buf1 (insert r results \<union> set rs) h1"
    "rows h1 = rest" using Cons.IH [OF h'(2), of "stored name_buffer r buf" "insert r results"] Cons.prems(2) by auto
  moreover have "fetch_names lib True buf results h = fetch_names lib True (stored name_buffer r buf) (insert r results) h'"
    using h' nul str by (subst fetch_names.simps) (simp add: st_fetch_def)
  ultimately show ?case by auto
qed auto

lemma fetch_all:
  assumes "rows h = rs" and "\<forall>r\<in>set rs. length r < name_buffer \<and> CHR 0x00 \<notin> set r"
  shows "\<exists>h1. fetch_names lib True buf results h = Some (Inr (results \<union> set rs, h1))"
proof -
  obtain buf1 h1 where 1: "fetch_names lib True buf results h = fetch_names lib True buf1 (results \<union> set rs) h1" "rows h1 = []"
    using fetch_short [OF assms(2), of h "[]" buf results] assms(1) by auto
  have "fst (ml_stmt_fetch lib name_buffer buf1 h1) = 100" using fetch_none [OF 1(2)] .
  then have "fetch_names lib True buf1 (results \<union> set rs) h1 = Some (Inr (results \<union> set rs, snd (snd (ml_stmt_fetch lib name_buffer buf1 h1))))"
    by (subst fetch_names.simps) (simp add: st_fetch_def split_def)
  then show ?thesis using 1(1) by auto
qed

lemma fetch_long:
  assumes "rows h = rs @ r # rest" and "\<forall>r\<in>set rs. length r < name_buffer \<and> CHR 0x00 \<notin> set r" and "name_buffer \<le> length r" and "CHR 0x00 \<notin> set r"
  shows "\<exists>h1. fetch_names lib True buf results h =
    (if length r = name_buffer then Some (Inl HeapOverrun) else Some (Inr (results \<union> set rs, h1)))"
proof -
  obtain buf1 h1 where 1: "fetch_names lib True buf results h = fetch_names lib True buf1 (results \<union> set rs) h1" "rows h1 = r # rest"
    using fetch_short [OF assms(2), of h "r # rest" buf results] assms(1) by auto
  obtain h2 where 2: "ml_stmt_fetch lib name_buffer buf1 h1 = (if length r \<le> name_buffer then 0 else 101, take name_buffer r, h2)"
    using fetch_row [OF 1(2), of name_buffer buf1] assms(3) by (auto simp: stored_def)
  have "CHR 0x00 \<notin> set (take name_buffer r)" using assms(4) in_set_takeD by metis
  then have "fetch_names lib True buf1 (results \<union> set rs) h1 =
      (if length r = name_buffer then Some (Inl HeapOverrun) else Some (Inr (results \<union> set rs, h2)))"
    using 2 assms(3,4) by (subst fetch_names.simps) (simp add: st_fetch_def)
  then show ?thesis using 1(1) by auto
qed

lemma show_listing:
  assumes "my_answers lib rows s names (my_handle m)"
  shows "\<exists>h. rows h = names \<and> my_show lib junk s results m =
    map_option (\<lambda>r. bindE r (\<lambda>(res, h4). Inr (fst (ml_stmt_free_result lib h4) = 0, res,
      m\<lparr>my_handle := snd (ml_stmt_close lib (snd (ml_stmt_free_result lib h4)))\<rparr>))) (fetch_names lib True junk results h)"
  using assms unfolding my_answers_def Let_def
  by (intro exI [of _ "snd (ml_stmt_store_result lib (snd (ml_stmt_bind_result lib name_buffer (snd (ml_stmt_execute lib (snd (ml_stmt_prepare lib s (snd (ml_stmt_init lib (my_handle m))))))))))"])
    (simp add: my_show_def Let_def split_def st_prepare_def st_exec_def st_bindResult_def st_freeResult_def st_delete_def lib_call_def)

end

section \<open>Properties\<close>

lemma parsefrom_join:
  assumes "\<forall>f\<in>set [host, user, passwd, db]. CHR '':'' \<notin> set f \<and> CHR 0x00 \<notin> set f" and "- (2 ^ 31) \<le> port" and "port < 2 ^ 31"
  shows "parsefrom (join (CHR '':'') [host, dec_int port, user, passwd, db]) c =
    (True, c\<lparr>mc_host := host, mc_port := word_of_int port, mc_user := user, mc_passwd := passwd, mc_database := db\<rparr>)"
proof -
  have port: "CHR '':'' \<notin> set (dec_int port)" "CHR 0x00 \<notin> set (dec_int port)"
    using dec_int_chars [of "CHR '':''" port] dec_int_chars [of "CHR 0x00" port] by (auto simp: isdigit_def)
  let ?s = "join (CHR '':'') [host, dec_int port, user, passwd, db]"
  have nul: "CHR 0x00 \<notin> set ?s" using assms(1) port by simp
  have "Tools_Text.fields (CHR '':'') ?s = [host, dec_int port, user, passwd, db]" using assms(1) port by (intro fields_join) auto
  then have "splitString (cstring ?s) (CHR '':'') [] = (True, [host, dec_int port, user, passwd, db])"
    using nul by (simp add: splitString_def cstring_id split_strings_fields)
  moreover have "std_stol (dec_int port) = Some port" using assms(2,3) by (simp add: std_stol_def number_prefix_dec_int)
  ultimately show ?thesis unfolding parsefrom_def by (simp add: Let_def)
qed

text \<open>
  a configuration written as host, port, user, password and database with colons between
  them is read back, unless one of them has a colon itself.
\<close>

theorem mysql_conf_read_back:
  assumes "\<forall>f\<in>set [host, user, passwd, db]. CHR '':'' \<notin> set f \<and> CHR 0x00 \<notin> set f" and "- (2 ^ 31) \<le> port" and "port < 2 ^ 31"
  shows "parsefrom (join (CHR '':'') [host, dec_int port, user, passwd, db]) c =
    (True, c\<lparr>mc_host := host, mc_port := word_of_int port, mc_user := user, mc_passwd := passwd, mc_database := db\<rparr>)"
  using assms by (rule parsefrom_join)

theorem mysql_conf_read_back_witness:
  "parsefrom ''db1:3306:root:pw:shop'' \<lparr>mc_host = [], mc_user = [], mc_passwd = [], mc_database = [], mc_port = 0\<rparr> =
     (True, \<lparr>mc_host = ''db1'', mc_user = ''root'', mc_passwd = ''pw'', mc_database = ''shop'', mc_port = 3306\<rparr>)"
proof -
  have "dec_int 3306 = ''3306''" by (simp add: dec_int_def dec_nat.simps digit_char_def char_of_def bit_0)
  then show ?thesis
    using mysql_conf_read_back [of "''db1''" "''root''" "''pw''" "''shop''" 3306 "\<lparr>mc_host = [], mc_user = [], mc_passwd = [], mc_database = [], mc_port = 0\<rparr>"]
    by simp
qed

text \<open>
  the names of tables (and of databases) are all found when each is shorter than 64
  bytes. The names may have more: a name of 64 bytes fills the buffer and is read beyond its
  end; one that is longer, which is reported as truncated, ends the list there as if it were
  complete.
\<close>

theorem mysql_lists_names:
  assumes "mysql_fetch lib rows" and "my_answers lib rows (''SHOW TABLES LIKE '' @ [CHR 0x27] @ pat @ [CHR 0x27]) names (my_handle m)"
    and "\<forall>r\<in>set names. CHR 0x00 \<notin> set r"
  shows "\<exists>ok m'. my_loadTable lib junk pat results m =
    Some (case dropWhile (\<lambda>r. length r < 64) names of
            r # _ \<Rightarrow> if length r = 64 then Inl HeapOverrun else Inr (ok, results \<union> set (takeWhile (\<lambda>r. length r < 64) names), m')
          | [] \<Rightarrow> Inr (ok, results \<union> set names, m'))"
proof -
  obtain h where h: "rows h = names" and show_eq: "my_loadTable lib junk pat results m =
      map_option (\<lambda>r. bindE r (\<lambda>(res, h4). Inr (fst (ml_stmt_free_result lib h4) = 0, res,
        m\<lparr>my_handle := snd (ml_stmt_close lib (snd (ml_stmt_free_result lib h4)))\<rparr>))) (fetch_names lib True junk results h)"
    using mysql_fetch.show_listing [OF assms(1,2)] unfolding my_loadTable_def by blast
  let ?as = "takeWhile (\<lambda>r. length r < 64) names"
  have as: "\<forall>r\<in>set ?as. length r < name_buffer \<and> CHR 0x00 \<notin> set r"
    using assms(3) by (auto simp: name_buffer_def dest: set_takeWhileD)
  show ?thesis
  proof (cases "dropWhile (\<lambda>r. length r < 64) names")
    case Nil
    then have all: "?as = names" by (metis append_Nil2 takeWhile_dropWhile_id)
    obtain h1 where f: "fetch_names lib True junk results h = Some (Inr (results \<union> set names, h1))"
      using mysql_fetch.fetch_all [OF assms(1) h, of junk results] as unfolding all by blast
    show ?thesis unfolding show_eq f Nil by simp
  next
    case (Cons r bs)
    have names: "rows h = ?as @ r # bs" using h Cons by (metis takeWhile_dropWhile_id)
    have r: "name_buffer \<le> length r" using Cons hd_dropWhile [of "\<lambda>r. length r < 64" names] by (simp add: name_buffer_def)
    have "r \<in> set names" using h names by (metis in_set_conv_decomp)
    then have "CHR 0x00 \<notin> set r" using assms(3) by blast
    then obtain h1 where f: "fetch_names lib True junk results h = (if length r = name_buffer then Some (Inl HeapOverrun) else Some (Inr (results \<union> set ?as, h1)))"
      using mysql_fetch.fetch_long [OF assms(1) names as r, of junk results] by auto
    show ?thesis unfolding show_eq f Cons by (simp add: name_buffer_def)
  qed
qed

text \<open>A library that answers every call with success and has the rows as its state.\<close>

definition demo_lib :: "(string list, 'r) mysql_lib" where
  "demo_lib = \<lparr>ml_init = (\<lambda>h. h), ml_close = (\<lambda>h. h), ml_options = (\<lambda>_ h. (0, h)), ml_real_connect = (\<lambda>_ _ _ _ _ h. (True, h)),
     ml_real_query = (\<lambda>_ h. (0, h)), ml_store_result = (\<lambda>h. (None, h)), ml_select_db = (\<lambda>_ h. (0, h)), ml_insert_id = (\<lambda>_. 0),
     ml_stmt_init = (\<lambda>h. (True, h)), ml_stmt_prepare = (\<lambda>_ h. (0, h)), ml_stmt_bind_param = (\<lambda>_ h. (0, h)), ml_stmt_execute = (\<lambda>h. (0, h)),
     ml_stmt_num_rows = (\<lambda>_. 0), ml_stmt_bind_result = (\<lambda>_ h. (0, h)), ml_stmt_store_result = (\<lambda>h. (0, h)),
     ml_stmt_fetch = (\<lambda>n buf h. case h of [] \<Rightarrow> (100, buf, []) | r # rs \<Rightarrow> (if length r \<le> n then 0 else 101, stored n r buf, rs)),
     ml_stmt_free_result = (\<lambda>h. (0, h)), ml_stmt_close = (\<lambda>h. (0, h))\<rparr>"

lemma demo_lib_simps [simp]:
  "ml_init demo_lib h = h" "ml_close demo_lib h = h" "ml_options demo_lib opt h = (0, h)" "ml_real_connect demo_lib a b c d p h = (True, h)"
  "ml_real_query demo_lib s h = (0, h)" "ml_select_db demo_lib s h = (0, h)" "ml_stmt_init demo_lib h = (True, h)"
  "ml_stmt_prepare demo_lib s h = (0, h)" "ml_stmt_execute demo_lib h = (0, h)" "ml_stmt_bind_result demo_lib n h = (0, h)"
  "ml_stmt_store_result demo_lib h = (0, h)" "ml_stmt_free_result demo_lib h = (0, h)" "ml_stmt_close demo_lib h = (0, h)"
  "ml_stmt_fetch demo_lib n buf [] = (100, buf, [])"
  "ml_stmt_fetch demo_lib n buf (r # rs) = (if length r \<le> n then 0 else 101, stored n r buf, rs)"
  by (simp_all add: demo_lib_def)

interpretation demo: mysql_fetch demo_lib "\<lambda>h. h"
  by unfold_locales simp_all

theorem mysql_lists_names_witness:
  "\<exists>ok m'. my_loadTable demo_lib [] ''%'' {} \<lparr>my_handle = [''users'', replicate 70 (CHR ''x''), ''goods''],
     my_conf = \<lparr>mc_host = [], mc_user = [], mc_passwd = [], mc_database = [], mc_port = 0\<rparr>\<rparr> = Some (Inr (ok, {''users''}, m'))"
proof -
  let ?m = "\<lparr>my_handle = [''users'', replicate 70 (CHR ''x''), ''goods''],
     my_conf = \<lparr>mc_host = [], mc_user = [], mc_passwd = [], mc_database = [], mc_port = 0\<rparr>\<rparr>"
  have "my_answers demo_lib (\<lambda>h. h) (''SHOW TABLES LIKE '' @ [CHR 0x27] @ ''%'' @ [CHR 0x27]) (my_handle ?m) (my_handle ?m)"
    by (simp add: my_answers_def)
  then show ?thesis using mysql_lists_names [OF demo.mysql_fetch_axioms, of "''%''" "my_handle ?m" ?m "[]" "{}"] by simp
qed

end
