(* ===== verification/Xml_Nodes.thy ===== *)
theory Xml_Nodes
  imports Registry_Config Entity_Values
begin

text \<open>
  The accessors of \<^verbatim>\<open>xml/XmlParser.cpp\<close> and \<^verbatim>\<open>entity/EntityDescriptor.cpp\<close>, which reads the
  attributes of a kind of entity from a document. A pointer to a node is the list of the node
  and the siblings after it, empty for a null pointer.
\<close>

section \<open>Nodes\<close>

type_synonym XML_NODE = "xml_node list"

definition getRootNode :: "xml_node list \<Rightarrow> XML_NODE" where
  "getRootNode doc = doc"

definition from_name :: "string option \<Rightarrow> XML_NODE \<Rightarrow> XML_NODE" where
  "from_name name nodes = (case name of None \<Rightarrow> nodes | Some n \<Rightarrow> dropWhile (\<lambda>node. xml_name node \<noteq> n) nodes)"

definition getChildNode :: "XML_NODE \<Rightarrow> string option \<Rightarrow> XML_NODE res" where
  "getChildNode node name = (case node of [] \<Rightarrow> Inl NullDeref | n # _ \<Rightarrow> Inr (from_name name (xml_children n)))"

definition getNextNode :: "XML_NODE \<Rightarrow> string option \<Rightarrow> XML_NODE res" where
  "getNextNode node name = (case node of [] \<Rightarrow> Inl NullDeref | _ # rest \<Rightarrow> Inr (from_name name rest))"

definition first_attribute :: "xml_node \<Rightarrow> string option \<Rightarrow> string option" where
  "first_attribute node name =
     (case name of None \<Rightarrow> (case xml_attrs node of [] \<Rightarrow> None | a # _ \<Rightarrow> Some (snd a)) | Some n \<Rightarrow> map_of (xml_attrs node) n)"

definition getValueByString :: "xml_node \<Rightarrow> string option \<Rightarrow> string \<Rightarrow> string" where
  "getValueByString node name dflt = (case first_attribute node name of None \<Rightarrow> dflt | Some v \<Rightarrow> cstring v)"

definition getValueByInteger :: "xml_node \<Rightarrow> string option \<Rightarrow> u32 \<Rightarrow> u32" where
  "getValueByInteger node name dflt = (case first_attribute node name of None \<Rightarrow> dflt | Some v \<Rightarrow> ucast (strtoul (cstring v)))"

text \<open>The map is passed by value: what is inserted is lost to the caller, who keeps \<open>values\<close>.\<close>

definition getValues :: "xml_node \<Rightarrow> (string \<rightharpoonup> string) \<Rightarrow> (string \<rightharpoonup> string) \<times> (string \<rightharpoonup> string)" where
  "getValues node values =
     (fold (\<lambda>(k, v) m. if m k = None then m(k \<mapsto> v) else m) (xml_attrs node) values, values)"

text \<open>
  \<^verbatim>\<open>dump\<close>: the texts that go to the log one by one, each a message of its own.
\<close>

definition line_feed :: string where
  "line_feed = [CHR 0x0A]"

fun xml_dump :: "nat \<Rightarrow> XML_NODE \<Rightarrow> string list" where
  "xml_dump depth [] = []"
| "xml_dump depth (XmlNode name attrs children # siblings) =
     replicate depth [CHR 0x09] @ [''<'' @ name] @
     map (\<lambda>(k, v). '' '' @ k @ ''='' @ [CHR 0x22] @ v @ [CHR 0x22]) attrs @
     [(if children = [] then '' />'' else ''>'') @ line_feed] @
     xml_dump (depth + 1) children @
     (if children = [] then [] else replicate depth [CHR 0x09] @ [''</'' @ name @ ''>'' @ line_feed]) @
     xml_dump depth siblings"

lemma xml_dump_append: "xml_dump depth (xs @ ys) = xml_dump depth xs @ xml_dump depth ys"
proof (induction xs)
  case (Cons x xs)
  then show ?case by (cases x) simp
qed simp

text \<open>The loops over the nodes of a name visit exactly those.\<close>

fun named_nodes :: "string \<Rightarrow> XML_NODE \<Rightarrow> xml_node list" where
  "named_nodes name nodes = filter (\<lambda>node. xml_name node = name) nodes"

lemma from_name_next: "length (from_name (Some n) rest) < Suc (length rest)"
  by (simp add: from_name_def length_dropWhile_le less_Suc_eq_le)

lemma named_from_name [simp]: "filter (\<lambda>node. xml_name node = n) (from_name (Some n) nodes) = filter (\<lambda>node. xml_name node = n) nodes"
  by (induction nodes) (auto simp: from_name_def)

lemma from_name_cases: "from_name (Some n) nodes = [] \<or> (\<exists>node rest. from_name (Some n) nodes = node # rest \<and> xml_name node = n)"
  by (induction nodes) (auto simp: from_name_def)

section \<open>Descriptors\<close>

type_synonym descriptor = "string \<rightharpoonup> value_type"

definition descriptor_types :: "string \<rightharpoonup> value_type" where
  "descriptor_types = map_of [(''integer'', type_integer), (''float'', type_float), (''bool'', type_bool), (''string'', type_string)]"

function load_attributes :: "XML_NODE \<Rightarrow> descriptor \<Rightarrow> bool \<times> descriptor" where
  "load_attributes [] d = (True, d)"
| "load_attributes (node # rest) d =
     (let name = getValueByString node (Some ''name'') []; ty = getValueByString node (Some ''type'') []
      in if name = [] \<or> ty = [] then (False, d)
         else case descriptor_types ty of
                None \<Rightarrow> (False, d)
              | Some t \<Rightarrow> if d name \<noteq> None then (False, d)
                          else load_attributes (from_name (Some ''attribute'') rest) (d(name \<mapsto> t)))"
  by pat_completeness auto
termination
  by (relation "measure (\<lambda>(nodes, d). length nodes)") (simp_all add: from_name_next)

text \<open>\<open>open\<close> is what the parser makes of a file. The descriptor of the table is cleared before the document is looked at.\<close>

definition loadDescriptor ::
  "(string \<Rightarrow> xml_node list option) \<Rightarrow> u32 \<Rightarrow> string \<Rightarrow> (u32 \<rightharpoonup> descriptor) \<Rightarrow> bool \<times> (u32 \<rightharpoonup> descriptor)" where
  "loadDescriptor open tableid filename tables =
     (case open filename of
        None \<Rightarrow> (False, tables)
      | Some doc \<Rightarrow>
          (case getRootNode doc of
             [] \<Rightarrow> (False, tables(tableid \<mapsto> Map.empty))
           | root # _ \<Rightarrow> (case load_attributes (from_name (Some ''attribute'') (xml_children root)) Map.empty of
                 (ok, d) \<Rightarrow> (ok, tables(tableid \<mapsto> d)))))"

text \<open>A table without a descriptor gets an empty one.\<close>

definition getDescriptor :: "u32 \<Rightarrow> (u32 \<rightharpoonup> descriptor) \<Rightarrow> descriptor \<times> (u32 \<rightharpoonup> descriptor)" where
  "getDescriptor tableid tables = (case tables tableid of None \<Rightarrow> (Map.empty, tables(tableid \<mapsto> Map.empty)) | Some d \<Rightarrow> (d, tables))"

definition attr_name :: "xml_node \<Rightarrow> string" where
  "attr_name node = getValueByString node (Some ''name'') []"

definition attr_type :: "xml_node \<Rightarrow> value_type option" where
  "attr_type node = (let ty = getValueByString node (Some ''type'') [] in if ty = [] then None else descriptor_types ty)"

lemma load_attributes_step:
  "load_attributes (node # rest) d =
     (case attr_type node of None \<Rightarrow> (False, d)
      | Some t \<Rightarrow> if attr_name node = [] \<or> d (attr_name node) \<noteq> None then (False, d)
                  else load_attributes (from_name (Some ''attribute'') rest) (d(attr_name node \<mapsto> t)))"
  by (auto simp: attr_name_def attr_type_def Let_def split: option.splits)

text \<open>The same over the list of the nodes.\<close>

fun load_nodes :: "xml_node list \<Rightarrow> descriptor \<Rightarrow> bool \<times> descriptor" where
  "load_nodes [] d = (True, d)"
| "load_nodes (n # ns) d =
     (case attr_type n of None \<Rightarrow> (False, d)
      | Some t \<Rightarrow> if attr_name n = [] \<or> d (attr_name n) \<noteq> None then (False, d) else load_nodes ns (d(attr_name n \<mapsto> t)))"

lemma load_attributes_nodes: "load_attributes (from_name (Some ''attribute'') nodes) d = load_nodes (named_nodes ''attribute'' nodes) d"
proof (induction nodes arbitrary: d)
  case (Cons node nodes)
  show ?case
  proof (cases "xml_name node = ''attribute''")
    case True
    then have "from_name (Some ''attribute'') (node # nodes) = node # nodes" by (simp add: from_name_def)
    then show ?thesis using True Cons by (simp add: load_attributes_step fun_upd_def del: load_attributes.simps split: option.split)
  next
    case False
    then have "from_name (Some ''attribute'') (node # nodes) = from_name (Some ''attribute'') nodes" by (simp add: from_name_def)
    then show ?thesis using False Cons by simp
  qed
qed (simp add: from_name_def)

lemma load_nodes_ok:
  "fst (load_nodes ns d) \<longleftrightarrow> (\<forall>n\<in>set ns. attr_name n \<noteq> [] \<and> attr_type n \<noteq> None \<and> d (attr_name n) = None) \<and> distinct (map attr_name ns)"
proof (induction ns arbitrary: d)
  case (Cons n ns)
  show ?case
  proof (cases "attr_type n")
    case (Some t)
    have upd: "(d(attr_name n \<mapsto> t)) x = None \<longleftrightarrow> x \<noteq> attr_name n \<and> d x = None" for x by simp
    have new: "attr_name n \<notin> attr_name ` set ns \<longleftrightarrow> (\<forall>k\<in>set ns. attr_name k \<noteq> attr_name n)" by (metis imageE imageI)
    show ?thesis using Some Cons.IH [of "d(attr_name n \<mapsto> t)"] unfolding upd by (simp add: new fun_upd_def) blast
  qed simp
qed simp

lemma load_nodes_result:
  "fst (load_nodes ns d) \<Longrightarrow> snd (load_nodes ns d) = d ++ map_of (map (\<lambda>n. (attr_name n, the (attr_type n))) ns)"
proof (induction ns arbitrary: d)
  case (Cons n ns)
  then obtain t where t: "attr_type n = Some t" "attr_name n \<noteq> []" "d (attr_name n) = None" "fst (load_nodes ns (d(attr_name n \<mapsto> t)))"
    by (auto split: option.splits if_splits)
  have "attr_name n \<notin> attr_name ` set ns" using Cons.prems load_nodes_ok [of "n # ns" d] by simp
  then have new: "attr_name n \<notin> dom (map_of (map (\<lambda>n. (attr_name n, the (attr_type n))) ns))" by (auto simp: dom_map_of_conv_image_fst)
  have "snd (load_nodes (n # ns) d) = snd (load_nodes ns (d(attr_name n \<mapsto> t)))" using t by simp
  also have "\<dots> = d(attr_name n \<mapsto> t) ++ map_of (map (\<lambda>n. (attr_name n, the (attr_type n))) ns)" by (rule Cons.IH [OF t(4)])
  also have "\<dots> = d ++ map_of (map (\<lambda>n. (attr_name n, the (attr_type n))) (n # ns))" using t(1) map_add_upd_left [OF new, of d t] by simp
  finally show ?case .
qed simp

text \<open>
  a descriptor is loaded exactly when every \<^verbatim>\<open>attribute\<close> node below the root has a name and
  one of the four types and no name occurs twice; it then has exactly these attributes with
  their types, and the descriptors of other tables are unchanged.
\<close>

theorem descriptor_loaded:
  assumes "open filename = Some (root # others)" and "ns = named_nodes ''attribute'' (xml_children root)"
  shows "\<exists>d. loadDescriptor open tableid filename tables =
      ((\<forall>n\<in>set ns. attr_name n \<noteq> [] \<and> attr_type n \<noteq> None) \<and> distinct (map attr_name ns), tables(tableid \<mapsto> d)) \<and>
    ((\<forall>n\<in>set ns. attr_name n \<noteq> [] \<and> attr_type n \<noteq> None) \<and> distinct (map attr_name ns) \<longrightarrow>
      d = map_of (map (\<lambda>n. (attr_name n, the (attr_type n))) ns))"
proof -
  let ?r = "load_attributes (from_name (Some ''attribute'') (xml_children root)) Map.empty"
  have "fst ?r \<longleftrightarrow> (\<forall>n\<in>set ns. attr_name n \<noteq> [] \<and> attr_type n \<noteq> None) \<and> distinct (map attr_name ns)"
    using load_nodes_ok [of ns Map.empty] assms(2) by (simp add: load_attributes_nodes)
  moreover have "fst ?r \<Longrightarrow> snd ?r = map_of (map (\<lambda>n. (attr_name n, the (attr_type n))) ns)"
    using load_nodes_result [of ns Map.empty] assms(2) by (simp add: load_attributes_nodes)
  ultimately show ?thesis using assms(1) by (intro exI [of _ "snd ?r"]) (simp add: loadDescriptor_def getRootNode_def split_def)
qed

theorem descriptor_loaded_witness:
  "snd (loadDescriptor (\<lambda>_. Some [XmlNode ''player'' [] [XmlNode ''attribute'' [(''name'', ''hp''), (''type'', ''integer'')] [],
     XmlNode ''note'' [] [], XmlNode ''attribute'' [(''type'', ''string''), (''name'', ''nick'')] []]]) 1 ''p.xml'' Map.empty) 1 =
   Some [''hp'' \<mapsto> type_integer, ''nick'' \<mapsto> type_string]"
proof -
  let ?a = "XmlNode ''attribute'' [(''name'', ''hp''), (''type'', ''integer'')] []"
  let ?b = "XmlNode ''attribute'' [(''type'', ''string''), (''name'', ''nick'')] []"
  let ?root = "XmlNode ''player'' [] [?a, XmlNode ''note'' [] [], ?b]"
  have names: "attr_name ?a = ''hp''" "attr_name ?b = ''nick''" "attr_type ?a = Some type_integer" "attr_type ?b = Some type_string"
    by (simp_all add: attr_name_def attr_type_def getValueByString_def first_attribute_def descriptor_types_def cstring_def)
  have ns: "[?a, ?b] = named_nodes ''attribute'' (xml_children ?root)" by simp
  obtain d where d: "loadDescriptor (\<lambda>_. Some [?root]) 1 ''p.xml'' Map.empty = (True, [1 \<mapsto> d])"
    "d = map_of (map (\<lambda>n. (attr_name n, the (attr_type n))) [?a, ?b])"
    using descriptor_loaded [OF _ ns, of "\<lambda>_. Some [?root]" "''p.xml''" "[]" 1 Map.empty] names by auto
  show ?thesis unfolding d(1) using d(2) names by (auto simp: fun_eq_iff)
qed

end
