(* ===== verification/Record_Startup.thy ===== *)
theory Record_Startup
  imports Record_Server My_Sql Xml_Nodes
begin

text \<open>
  How the record server comes up and goes down: the databases of the slots
  (\<^verbatim>\<open>SlotDatabase::init\<close>, \<^verbatim>\<open>stop\<close>), the shards (\<^verbatim>\<open>RecordProcess::init\<close>, \<^verbatim>\<open>stop\<close>), the file that
  describes them (\<^verbatim>\<open>RecordProcessManager::init\<close>, \<^verbatim>\<open>update\<close>, \<^verbatim>\<open>stop\<close>). Each slot has a MySQL handle of
  its own. Loading the names of databases and tables may not return, hence the results in
  \<open>option\<close>.
\<close>

section \<open>Slots\<close>

definition bindO :: "'a res option \<Rightarrow> ('a \<Rightarrow> 'b res option) \<Rightarrow> 'b res option" where
  "bindO m f = (case m of None \<Rightarrow> None | Some (Inl e) \<Rightarrow> Some (Inl e) | Some (Inr x) \<Rightarrow> f x)"

lemma bindO_simps [simp]: "bindO None f = None" "bindO (Some (Inl e)) f = Some (Inl e)" "bindO (Some (Inr x)) f = f x"
  by (simp_all add: bindO_def)

lemma bindO_result: "bindO m f = Some (Inr y) \<longleftrightarrow> (\<exists>x. m = Some (Inr x) \<and> f x = Some (Inr y))"
  by (auto simp: bindO_def split: option.splits sum.splits)

text \<open>The statements of a slot go through its handle.\<close>

definition db_env :: "('h, db_result) mysql_lib \<Rightarrow> ('h mysql) surroundings \<Rightarrow> ('h mysql) surroundings" where
  "db_env lib env = env\<lparr>e_command := my_runCommand lib, e_query := my_runQuery lib\<rparr>"

definition slot_new :: "u32 \<Rightarrow> u32 \<Rightarrow> 'db \<Rightarrow> 'db slot_db" where
  "slot_new shard ident db = \<lparr>sl_shard = shard, sl_ident = ident, sl_db = db, sl_rlist = [], sl_wlist = [],
     sl_entities = Map.empty, sl_tables = Map.empty\<rparr>"

definition slot_database :: "u32 \<Rightarrow> u32 \<Rightarrow> string" where
  "slot_database shard ident = ''shard_'' @ dec_nat (unat shard) @ ''_'' @ dec_nat (unat ident)"

fun load_tables :: "'db surroundings \<Rightarrow> string list \<Rightarrow> 'db slot_db \<Rightarrow> (bool \<times> 'db slot_db) res" where
  "load_tables env [] sl = Inr (True, sl)"
| "load_tables env (t # ts) sl = bindE (loadField env t sl) (\<lambda>(ok, sl1). if \<not> ok then Inr (False, sl1) else load_tables env ts sl1)"

text \<open>\<open>junk\<close> is what the buffers for names hold before; \<open>h\<close> is the memory of the handle. The tables are taken in order.\<close>

definition slot_init ::
  "('h, db_result) mysql_lib \<Rightarrow> ('h mysql) surroundings \<Rightarrow> string \<Rightarrow> string \<Rightarrow> 'h \<Rightarrow> ('h mysql) slot_db \<Rightarrow> (bool \<times> ('h mysql) slot_db) res option" where
  "slot_init lib env junk conf h sl =
     (let database = slot_database (sl_shard sl) (sl_ident sl);
          (rc, m1) = my_openDatabase lib conf (my_new lib h)
      in if \<not> rc then Some (Inr (False, sl\<lparr>sl_db := m1\<rparr>))
         else bindO (my_loadDatabase lib junk database {} m1) (\<lambda>(rc, names, m2).
           if \<not> rc then Some (Inr (False, sl\<lparr>sl_db := m2\<rparr>))
           else let (rc, m3) = (if database \<notin> names then my_createDatabase lib database m2 else (True, m2))
                in if \<not> rc then Some (Inr (False, sl\<lparr>sl_db := m3\<rparr>))
                   else let (rc, m4) = my_selectDatabase lib database m3
                        in if \<not> rc then Some (Inr (False, sl\<lparr>sl_db := m4\<rparr>))
                           else bindO (my_loadTable lib junk ''%'' {} m4) (\<lambda>(rc, tables, m5).
                             if \<not> rc then Some (Inr (False, sl\<lparr>sl_db := m5\<rparr>))
                             else Some (load_tables (db_env lib env) (sorted_list_of_set tables) (sl\<lparr>sl_db := m5\<rparr>)))))"

text \<open>
  Stopping joins the worker, which works off the write list once more (\<open>n\<close> is how often it
  gets the lock), releases the entities and closes the connection.
\<close>

definition slot_stop :: "('h, db_result) mysql_lib \<Rightarrow> ('h mysql) surroundings \<Rightarrow> nat \<Rightarrow> ('h mysql) slot_db \<Rightarrow> (('h mysql) slot_db \<times> 'h) res" where
  "slot_stop lib env n sl =
     bindE (synchronous (db_env lib env) n sl) (\<lambda>sl1. Inr (sl1\<lparr>sl_entities := Map.empty\<rparr>, my_delete lib (sl_db sl1)))"

section \<open>Shards\<close>

text \<open>A slot that cannot be opened is not added, nor are those after it.\<close>

fun rp_open ::
  "('h, db_result) mysql_lib \<Rightarrow> ('h mysql) surroundings \<Rightarrow> string \<Rightarrow> (string \<times> 'h) list \<Rightarrow> ('h mysql) process \<Rightarrow> (bool \<times> ('h mysql) process) res option" where
  "rp_open lib env junk [] rp = Some (Inr (True, rp))"
| "rp_open lib env junk ((conf, h) # confs) rp =
     bindO (slot_init lib env junk conf h (slot_new (rp_ident rp) (of_nat (length (rp_slots rp))) (my_new lib h))) (\<lambda>(ok, sl).
       if \<not> ok then Some (Inr (False, rp)) else rp_open lib env junk confs (rp\<lparr>rp_slots := rp_slots rp @ [sl]\<rparr>))"

definition rp_init ::
  "('h, db_result) mysql_lib \<Rightarrow> ('h mysql) surroundings \<Rightarrow> string \<Rightarrow> u32 \<Rightarrow> (string \<times> 'h) list \<Rightarrow> ('h mysql) process \<Rightarrow> (bool \<times> ('h mysql) process) res option" where
  "rp_init lib env junk slots confs rp =
     (if length confs \<noteq> unat slots then Some (Inl AssertFailed)
      else bindO (rp_open lib env junk confs rp) (\<lambda>(ok, rp1).
             if ok \<and> length (rp_slots rp1) \<noteq> unat slots then Some (Inl AssertFailed) else Some (Inr (ok, rp1))))"

text \<open>All slots are stopped and deleted, with the answers that were not sent yet.\<close>

fun rp_stop :: "('h, db_result) mysql_lib \<Rightarrow> ('h mysql) surroundings \<Rightarrow> nat list \<Rightarrow> ('h mysql) slot_db list \<Rightarrow> 'h list res" where
  "rp_stop lib env (n # ns) (sl # sls) =
     bindE (slot_stop lib env n sl) (\<lambda>(sl1, h). bindE (rp_stop lib env ns sls) (\<lambda>hs. Inr (h # hs)))"
| "rp_stop lib env ns sls = Inr []"

section \<open>The manager\<close>

text \<open>The \<^verbatim>\<open>mysql\<close> nodes of a shard, and the \<^verbatim>\<open>shard\<close> nodes of the document.\<close>

definition shard_confs :: "xml_node \<Rightarrow> string list" where
  "shard_confs node = map (\<lambda>n. getValueByString n (Some ''conf'') []) (named_nodes ''mysql'' (xml_children node))"

fun read_shards :: "u32 \<Rightarrow> xml_node list \<Rightarrow> (u32 \<times> string list) list \<Rightarrow> bool \<times> (u32 \<times> string list) list" where
  "read_shards slots [] acc = (True, acc)"
| "read_shards slots (node # nodes) acc =
     (let shard = getValueByInteger node (Some ''id'') 0
      in if shard \<in> fst ` set acc then (False, acc)
         else if length (shard_confs node) \<noteq> unat slots then (False, acc)
         else read_shards slots nodes (acc @ [(shard, shard_confs node)]))"

definition process_new :: "u32 \<Rightarrow> 'db process" where
  "process_new shard = \<lparr>rp_ident = shard, rp_slots = []\<rparr>"

definition mgr_of :: "(u32 \<times> string list) list \<Rightarrow> ('h mysql) manager" where
  "mgr_of shards = (\<lambda>shard. if shard \<in> fst ` set shards then Some (process_new shard) else None)"

fun mgr_open ::
  "('h, db_result) mysql_lib \<Rightarrow> ('h mysql) surroundings \<Rightarrow> string \<Rightarrow> u32 \<Rightarrow> (u32 \<Rightarrow> nat \<Rightarrow> 'h) \<Rightarrow> (u32 \<times> string list) list \<Rightarrow> ('h mysql) manager \<Rightarrow>
   (bool \<times> ('h mysql) manager) res option" where
  "mgr_open lib env junk slots memory [] mgr = Some (Inr (True, mgr))"
| "mgr_open lib env junk slots memory ((shard, confs) # shards) mgr =
     bindO (rp_init lib env junk slots (zip confs (map (memory shard) [0..<length confs])) (process_new shard)) (\<lambda>(ok, rp).
       if \<not> ok then Some (Inr (False, mgr(shard \<mapsto> rp))) else mgr_open lib env junk slots memory shards (mgr(shard \<mapsto> rp)))"

text \<open>
  \<open>open\<close> is what the parser makes of the file, \<open>memory\<close> the memory of the handles; \<open>order\<close> is
  the order in which the hash table of the shards is traversed. The tree is read as the parser made
  it: that \<^verbatim>\<open>XmlParser::open\<close> has released the text its nodes point into by then is not modelled.
\<close>

definition mgr_init ::
  "('h, db_result) mysql_lib \<Rightarrow> ('h mysql) surroundings \<Rightarrow> string \<Rightarrow> u32 \<Rightarrow> (u32 \<Rightarrow> nat \<Rightarrow> 'h) \<Rightarrow>
   ((u32 \<times> string list) list \<Rightarrow> (u32 \<times> string list) list) \<Rightarrow> (string \<Rightarrow> xml_node list option) \<Rightarrow> string \<Rightarrow> (bool \<times> ('h mysql) manager) res option" where
  "mgr_init lib env junk slots memory order open file =
     (case open file of
        None \<Rightarrow> Some (Inr (False, Map.empty))
      | Some doc \<Rightarrow>
          (case getRootNode doc of
             [] \<Rightarrow> Some (Inr (False, Map.empty))
           | root # _ \<Rightarrow>
               let (ok, shards) = read_shards slots (named_nodes ''shard'' (xml_children root)) []
               in if \<not> ok then Some (Inr (False, mgr_of shards))
                  else mgr_open lib env junk slots memory (order shards) (mgr_of shards)))"

text \<open>\<open>turns\<close> has the shards in the order of the hash table, each with the number of answers its slots can send.\<close>

fun mgr_update :: "(u32 \<times> nat list) list \<Rightarrow> 'db manager \<Rightarrow> service \<Rightarrow> ('db manager \<times> service) res" where
  "mgr_update [] mgr srv = Inr (mgr, srv)"
| "mgr_update ((shard, ns) # turns) mgr srv =
     (case mgr shard of None \<Rightarrow> mgr_update turns mgr srv
      | Some rp \<Rightarrow> bindE (rp_update ns rp srv) (\<lambda>(rp1, srv1). mgr_update turns (mgr(shard \<mapsto> rp1)) srv1))"

fun mgr_stop :: "('h, db_result) mysql_lib \<Rightarrow> ('h mysql) surroundings \<Rightarrow> (u32 \<times> nat list) list \<Rightarrow> ('h mysql) manager \<Rightarrow> 'h list res" where
  "mgr_stop lib env [] mgr = Inr []"
| "mgr_stop lib env ((shard, ns) # turns) mgr =
     (case mgr shard of None \<Rightarrow> mgr_stop lib env turns mgr
      | Some rp \<Rightarrow> bindE (rp_stop lib env ns (rp_slots rp)) (\<lambda>hs. bindE (mgr_stop lib env turns mgr) (\<lambda>hs1. Inr (hs @ hs1))))"

section \<open>What a started server has\<close>

text \<open>A slot that belongs to a place of a shard: its queues are empty and its connection uses the database of that place.\<close>

definition slot_ready :: "u32 \<Rightarrow> u32 \<Rightarrow> ('h mysql) slot_db \<Rightarrow> bool" where
  "slot_ready shard ident sl \<longleftrightarrow> sl_shard sl = shard \<and> sl_ident sl = ident \<and> sl_rlist sl = [] \<and> sl_wlist sl = [] \<and>
     mc_database (my_conf (sl_db sl)) = slot_database shard ident"

lemma my_runQuery_conf [simp]: "my_conf (snd (my_runQuery lib s m)) = my_conf m"
  by (simp add: my_runQuery_def split_def)

lemma slot_ready_db: "slot_ready shard ident (sl\<lparr>sl_tables := t\<rparr>) = slot_ready shard ident sl"
  by (simp add: slot_ready_def)

lemma loadField_ready: "slot_ready shard ident sl \<Longrightarrow> okE (\<lambda>p. slot_ready shard ident (snd p)) (loadField (db_env lib env) t sl)"
  unfolding loadField_def Let_def split_def
  by (auto simp: slot_ready_db slot_ready_def db_env_def run_query_def touch_table_def Let_def split_def split: option.split)

lemma load_tables_ready: "slot_ready shard ident sl \<Longrightarrow> okE (\<lambda>p. slot_ready shard ident (snd p)) (load_tables (db_env lib env) ts sl)"
proof (induction ts arbitrary: sl)
  case (Cons t ts)
  show ?case unfolding load_tables.simps
    by (rule okE_bind [OF loadField_ready [OF Cons.prems]]) (auto simp: Cons.IH split: prod.split)
qed simp

lemma my_show_conf: "my_show lib junk s results m = Some (Inr (ok, names, m')) \<Longrightarrow> my_conf m' = my_conf m"
  by (auto simp: my_show_def Let_def split_def bindE_Inr_iff st_delete_def split: sum.splits if_splits)

lemma slot_init_ready:
  assumes "slot_init lib env junk conf h (slot_new shard ident db) = Some (Inr (True, sl))"
  shows "slot_ready shard ident sl"
proof -
  let ?d = "slot_database shard ident"
  obtain m4 tables m5 where m: "fst (my_selectDatabase lib ?d m4)" "my_loadTable lib junk ''%'' {} (snd (my_selectDatabase lib ?d m4)) = Some (Inr (True, tables, m5))"
    and l: "load_tables (db_env lib env) (sorted_list_of_set tables) ((slot_new shard ident db)\<lparr>sl_db := m5\<rparr>) = Inr (True, sl)"
    using assms unfolding slot_init_def Let_def split_def by (auto simp: bindO_result slot_new_def split: if_splits)
  have "mc_database (my_conf (snd (my_selectDatabase lib ?d m4))) = ?d"
    using m(1) by (auto simp: my_selectDatabase_def split_def split: if_splits)
  then have "mc_database (my_conf m5) = ?d" using my_show_conf m(2) unfolding my_loadTable_def by metis
  then have "slot_ready shard ident ((slot_new shard ident db)\<lparr>sl_db := m5\<rparr>)" by (simp add: slot_ready_def slot_new_def)
  from load_tables_ready [OF this, of lib env "sorted_list_of_set tables"] l show ?thesis by simp
qed

lemma rp_open_ready:
  assumes "rp_open lib env junk confs rp = Some (Inr (True, rp'))"
    and "\<forall>i<length (rp_slots rp). slot_ready (rp_ident rp) (of_nat i) (rp_slots rp ! i)"
  shows "rp_ident rp' = rp_ident rp \<and> length (rp_slots rp') = length (rp_slots rp) + length confs \<and>
    (\<forall>i<length (rp_slots rp'). slot_ready (rp_ident rp) (of_nat i) (rp_slots rp' ! i))"
  using assms
proof (induction confs arbitrary: rp)
  case (Cons c confs)
  obtain conf h where c: "c = (conf, h)" by (cases c)
  then obtain sl where sl: "slot_init lib env junk conf h (slot_new (rp_ident rp) (of_nat (length (rp_slots rp))) (my_new lib h)) = Some (Inr (True, sl))"
    and more: "rp_open lib env junk confs (rp\<lparr>rp_slots := rp_slots rp @ [sl]\<rparr>) = Some (Inr (True, rp'))"
    using Cons.prems(1) by (auto simp: bindO_result split: if_splits)
  then show ?case
    using Cons.IH [OF more] Cons.prems(2) slot_init_ready [OF sl] by (auto simp: nth_append less_Suc_eq)
qed simp

definition process_ready :: "u32 \<Rightarrow> u32 \<Rightarrow> ('h mysql) process \<Rightarrow> bool" where
  "process_ready slots shard rp \<longleftrightarrow> rp_ident rp = shard \<and> length (rp_slots rp) = unat slots \<and>
     (\<forall>i<length (rp_slots rp). slot_ready shard (of_nat i) (rp_slots rp ! i))"

lemma rp_init_ready:
  "rp_init lib env junk slots confs (process_new shard) = Some (Inr (True, rp)) \<Longrightarrow> process_ready slots shard rp"
  using rp_open_ready [of lib env junk confs "process_new shard" rp]
  by (auto simp: rp_init_def bindO_result process_ready_def process_new_def split: if_splits)

lemma mgr_open_ready:
  "mgr_open lib env junk slots memory shards mgr = Some (Inr (True, mgr')) \<Longrightarrow>
     dom mgr' = dom mgr \<union> fst ` set shards \<and> (\<forall>s. s \<notin> fst ` set shards \<longrightarrow> mgr' s = mgr s) \<and>
     (\<forall>s rp. s \<in> fst ` set shards \<and> mgr' s = Some rp \<longrightarrow> process_ready slots s rp)"
proof (induction shards arbitrary: mgr)
  case (Cons sc shards)
  obtain shard confs where sc: "sc = (shard, confs)" by (cases sc)
  then obtain rp where rp: "rp_init lib env junk slots (zip confs (map (memory shard) [0..<length confs])) (process_new shard) = Some (Inr (True, rp))"
    and more: "mgr_open lib env junk slots memory shards (mgr(shard \<mapsto> rp)) = Some (Inr (True, mgr'))"
    using Cons.prems by (auto simp: bindO_result split: if_splits)
  note ih = Cons.IH [OF more]
  have "process_ready slots s r" if "s \<in> fst ` set (sc # shards)" "mgr' s = Some r" for s r
  proof (cases "s \<in> fst ` set shards")
    case True
    then show ?thesis using ih that(2) by blast
  next
    case False
    then have "s = shard" "mgr' s = Some rp" using that(1) sc ih by simp_all
    then show ?thesis using rp_init_ready [OF rp] that(2) by simp
  qed
  moreover have "mgr' s = mgr s" if "s \<notin> fst ` set (sc # shards)" for s using that ih sc by simp
  ultimately show ?case using ih sc by auto
qed simp

text \<open>
  C16: a server that has started serves. When the manager has come up, every shard it has
  consists of exactly the configured number of slots, each on the database of its place, with
  empty queues, and a request for any object of the shard is accepted and queued in the slot
  of the object: no assertion can fail there.
\<close>

theorem record_started_serves:
  assumes "mgr_init lib env junk slots memory order open file = Some (Inr (True, mgr))" and "\<forall>xs. set (order xs) = set xs"
    and "mgr shard = Some rp" and "0 < unat slots"
  shows "process_ready slots shard rp \<and> (let i = unat oid mod unat slots in slot_ready shard (of_nat i) (rp_slots rp ! i) \<and>
    mgr_request slots shard oid s m mgr =
      Inr (True, mgr(shard \<mapsto> rp\<lparr>rp_slots := (rp_slots rp)[i := slot_push s m (rp_slots rp ! i)]\<rparr>)))"
proof -
  obtain root others where doc: "open file = Some (root # others)" using assms(1)
    by (auto simp: mgr_init_def getRootNode_def split: option.splits list.splits)
  let ?shards = "snd (read_shards slots (named_nodes ''shard'' (xml_children root)) [])"
  have up: "mgr_open lib env junk slots memory (order ?shards) (mgr_of ?shards) = Some (Inr (True, mgr))"
    using assms(1) doc by (auto simp: mgr_init_def getRootNode_def Let_def split_def split: if_splits)
  have "shard \<in> fst ` set (order ?shards)"
    using mgr_open_ready [OF up] assms(2,3) by (auto simp: mgr_of_def split: if_splits)
  then have ready: "process_ready slots shard rp" using mgr_open_ready [OF up] assms(3) by blast
  moreover have "unat oid mod unat slots < length (rp_slots rp)" using ready assms(4) by (simp add: process_ready_def)
  ultimately show ?thesis using assms(3) by (simp add: process_ready_def mgr_request_def rp_request_def Let_def)
qed

lemma demo_fetch: "fetch_names demo_lib True buf names [] = Some (Inr (names, []))"
  by (subst fetch_names.simps) (simp add: st_fetch_def)

lemma demo_show: "my_handle m = [] \<Longrightarrow> my_show demo_lib junk s names m = Some (Inr (True, names, m))"
  by (cases m) (simp add: my_show_def demo_fetch st_prepare_def st_exec_def st_bindResult_def st_freeResult_def st_delete_def lib_call_def)

lemma demo_options: "set_options demo_lib opts h = (True, h)"
  by (induction opts) simp_all

lemma demo_slot_init:
  assumes "parsefrom conf (my_conf (my_new (demo_lib :: (string list, db_result) mysql_lib) [])) = (True, c)"
  shows "\<exists>sl'. slot_init demo_lib env junk conf [] sl = Some (Inr (True, sl'))"
proof -
  let ?lib = "demo_lib :: (string list, db_result) mysql_lib"
  have new: "my_handle (my_new ?lib []) = []" by (simp add: my_new_def)
  have "my_openDatabase ?lib conf (my_new ?lib []) = (True, \<lparr>my_handle = [], my_conf = c\<rparr>)"
    using assms new by (simp add: my_openDatabase_def my_open_def my_runCommand_def Let_def my_new_def demo_options)
  then show ?thesis
    by (simp add: slot_init_def Let_def my_loadDatabase_def my_loadTable_def demo_show my_createDatabase_def my_runCommand_def my_selectDatabase_def)
qed

definition quiet_env :: "'db surroundings" where
  "quiet_env = \<lparr>e_command = (\<lambda>_ db. (True, db)), e_query = (\<lambda>_ db. (None, db)), e_order = (\<lambda>_. []), e_json = (\<lambda>_. None),
     e_text = (\<lambda>_. []), e_text2 = (\<lambda>_. []), e_stof = (\<lambda>_. None)\<rparr>"

theorem record_started_serves_witness:
  "\<exists>mgr rp. mgr_init demo_lib quiet_env [] 1 (\<lambda>_ _. []) (\<lambda>xs. xs)
       (\<lambda>_. Some [XmlNode ''db'' [] [XmlNode ''shard'' [(''id'', ''3'')] [XmlNode ''mysql'' [(''conf'', ''h:1:u:p:d'')] []]]]) ''db.xml'' =
     Some (Inr (True, mgr)) \<and> mgr 3 = Some rp \<and> process_ready 1 3 rp"
proof -
  let ?conf = "''h:1:u:p:d''"
  let ?node = "XmlNode ''shard'' [(''id'', ''3'')] [XmlNode ''mysql'' [(''conf'', ?conf)] []]"
  let ?open = "\<lambda>_. Some [XmlNode ''db'' [] [?node]]"
  have "dec_int 1 = ''1''" by (simp add: dec_int_def dec_nat.simps digit_char_def char_of_def bit_0)
  then have "\<exists>c. parsefrom ?conf (my_conf (my_new (demo_lib :: (string list, db_result) mysql_lib) [])) = (True, c)"
    using parsefrom_join [of "''h''" "''u''" "''p''" "''d''" 1] by auto
  then obtain sl where sl: "slot_init demo_lib quiet_env [] ?conf [] (slot_new 3 0 (my_new (demo_lib :: (string list, db_result) mysql_lib) [])) = Some (Inr (True, sl))"
    using demo_slot_init by metis
  let ?rp = "\<lparr>rp_ident = 3, rp_slots = [sl]\<rparr>"
  have ident: "getValueByInteger ?node (Some ''id'') 0 = 3"
    by (simp add: getValueByInteger_def first_attribute_def strtoul_def number_prefix_def isspace_def isdigit_def cstring_def)
  have "read_shards 1 [?node] [] = (True, [(3, [?conf])])"
    using ident by (simp add: shard_confs_def getValueByString_def first_attribute_def cstring_def)
  moreover have "rp_init demo_lib quiet_env [] 1 [(?conf, [])] (process_new 3) = Some (Inr (True, ?rp))"
    using sl by (simp add: rp_init_def process_new_def)
  ultimately have up: "mgr_init demo_lib quiet_env [] 1 (\<lambda>_ _. []) (\<lambda>xs. xs) ?open ''db.xml'' = Some (Inr (True, (mgr_of [(3, [?conf])])(3 \<mapsto> ?rp)))"
    by (simp add: mgr_init_def getRootNode_def)
  then show ?thesis
    using record_started_serves [OF up, of 3 ?rp] by (intro exI [of _ "(mgr_of [(3, [?conf])])(3 \<mapsto> ?rp)"] exI [of _ ?rp]) simp
qed

text \<open>
  no two slots share a database: the name of the database tells the shard and the slot.
  It fits the buffer in which it is written and the one in which it is looked up.
\<close>

theorem record_databases_distinct:
  "(slot_database shard ident = slot_database shard' ident' \<longleftrightarrow> shard = shard' \<and> ident = ident') \<and> length (slot_database shard ident) < 64"
proof -
  have inj: "dec_nat a = dec_nat b \<longleftrightarrow> a = b" for a b using digits_value_dec_nat by (metis of_nat_eq_iff)
  have pre: "takeWhile isdigit (dec_nat a @ CHR ''_'' # xs) = dec_nat a" for a xs
    using isdigit_dec_nat by (subst takeWhile_append2) (auto simp: isdigit_def)
  have "slot_database shard ident = slot_database shard' ident' \<Longrightarrow> dec_nat (unat shard) = dec_nat (unat shard')"
    unfolding slot_database_def using pre by (metis append_Cons append_Nil same_append_eq)
  moreover have "length (dec_nat (unat x)) \<le> 10" for x :: u32
    by (rule length_dec_nat, rule order_less_le_trans [OF unsigned_less]) simp_all
  from this [of shard] this [of ident] have "length (slot_database shard ident) < 64" by (simp add: slot_database_def)
  ultimately show ?thesis by (auto simp: slot_database_def inj word_unat_eq_iff)
qed

end
