(* ===== verification/Message_Dispatch.thy ===== *)
theory Message_Dispatch
  imports Record_Protocol Net_Service Registry_Config
begin

text \<open>
  The table of message handlers that \<^verbatim>\<open>net/Netmessage.h\<close> builds (\<^verbatim>\<open>DECLARE_MESSAGE\<close>, \<^verbatim>\<open>ON_MSG\<close>,
  \<^verbatim>\<open>DISPATCH_MESSAGE\<close>), and the services that use it: \<^verbatim>\<open>GatewayService\<close>, \<^verbatim>\<open>LogService\<close> and
  \<^verbatim>\<open>CentralClient\<close> of \<^verbatim>\<open>server/\<close>. What a handler does to the state of its service is a function;
  so is the protobuf parser.
\<close>

section \<open>The table\<close>

type_synonym 'st routine = "SOCKET \<Rightarrow> bytes \<Rightarrow> 'st \<Rightarrow> (bool \<times> 'st) res"

type_synonym 'st message_table = "nat \<rightharpoonup> 'st routine"

definition MAX_MESSAGE_ID :: nat where
  "MAX_MESSAGE_ID = 65535"

text \<open>
  The routine around a handler. \<open>parse\<close> is \<^verbatim>\<open>ParseFromArray\<close>: it gets the bytes from the payload
  on and their number, the length of the message less that of its head as an \<^verbatim>\<open>int\<close>.
\<close>

definition onMessage_raw :: "(bytes \<Rightarrow> int \<Rightarrow> 'm option) \<Rightarrow> (SOCKET \<Rightarrow> 'm \<Rightarrow> bytes \<Rightarrow> 'st \<Rightarrow> 'st) \<Rightarrow> 'st routine" where
  "onMessage_raw parse onMessage task netmsg st =
     (if length netmsg < sizeof_Netmessage then Inl HeapOverrun
      else case parse (drop sizeof_Netmessage netmsg) (sint (netmsg_len netmsg - of_nat sizeof_Netmessage)) of
             None \<Rightarrow> Inr (False, st)
           | Some msg \<Rightarrow> Inr (True, onMessage task msg netmsg st))"

text \<open>\<^verbatim>\<open>ON_MSG\<close> runs before \<^verbatim>\<open>main\<close>; a second handler for a message aborts the program.\<close>

definition ON_MSG :: "int \<Rightarrow> 'st routine \<Rightarrow> 'st message_table \<Rightarrow> 'st message_table res" where
  "ON_MSG msgid r t =
     assertE (0 \<le> msgid \<and> msgid < int MAX_MESSAGE_ID)
       (if t (nat msgid) \<noteq> None then Inl AssertFailed else Inr (t(nat msgid \<mapsto> r)))"

definition DISPATCH_MESSAGE :: "'st message_table \<Rightarrow> 'st routine" where
  "DISPATCH_MESSAGE t task netmsg st =
     bindE (rm_ident netmsg) (\<lambda>ident.
       if unat ident \<ge> MAX_MESSAGE_ID then Inr (False, st)
       else case t (unat ident) of None \<Rightarrow> Inr (True, st) | Some r \<Rightarrow> r task netmsg st)"

section \<open>The services\<close>

text \<open>
  What the gateway and the log service do with a message: one that is refused closes its
  connection. The message is always released. A lost connection is only looked up.
\<close>

definition gw_onMessage :: "'st message_table \<Rightarrow> SOCKET \<Rightarrow> bytes \<Rightarrow> 'st \<Rightarrow> service \<Rightarrow> (bool \<times> 'st \<times> service) res" where
  "gw_onMessage t task netmsg st ns =
     bindE (DISPATCH_MESSAGE t task netmsg st) (\<lambda>(rc, st1).
       if rc then Inr (True, st1, ns) else bindE (ns_close task ns) (\<lambda>ns1. Inr (True, st1, ns1)))"

text \<open>The client of the central server stops itself on a message that is refused; losing the server halts the program.\<close>

definition cc_onMessage :: "'st message_table \<Rightarrow> SOCKET \<Rightarrow> bytes \<Rightarrow> 'st \<Rightarrow> netclient \<Rightarrow> kern \<Rightarrow> (bool \<times> 'st \<times> netclient \<times> kern) res" where
  "cc_onMessage t task netmsg st nc k =
     bindE (DISPATCH_MESSAGE t task netmsg st) (\<lambda>(rc, st1).
       if rc then Inr (True, st1, nc, k) else bindE (nc_stopClient nc k) (\<lambda>(nc1, k1). Inr (True, st1, nc1, k1)))"

definition cc_onLost :: "config \<Rightarrow> config" where
  "cc_onLost c = cf_syshalt 0 c"

text \<open>Address, port and number of workers of a service, from the configuration.\<close>

definition service_endpoint :: "u32 \<Rightarrow> registry \<Rightarrow> string \<times> u32" where
  "service_endpoint port values =
     (reg_get (\<lambda>s. s) ''service.address'' ''0.0.0.0'' values, reg_get read_signed ''service.port'' port values)"

definition gateway_settings :: "u32 \<Rightarrow> registry \<Rightarrow> (string \<times> u32) \<times> u32" where
  "gateway_settings cpus values = (service_endpoint 9900 values, reg_get read_unsigned ''service.worker'' (cpus * 2) values)"

definition log_settings :: "registry \<Rightarrow> (string \<times> u32) \<times> u32" where
  "log_settings values = (service_endpoint 8800 values, reg_get read_signed ''service.worker'' 0 values)"

definition record_settings :: "registry \<Rightarrow> (string \<times> u32) \<times> u32" where
  "record_settings values = (service_endpoint 9990 values, reg_get read_signed ''service.worker'' 0 values)"

section \<open>Properties\<close>

definition register_all :: "(int \<times> 'st routine) list \<Rightarrow> 'st message_table res" where
  "register_all rs = foldE (\<lambda>(msgid, r) t. ON_MSG msgid r t) rs Map.empty"

lemma foldE_ON_MSG:
  assumes "distinct (map fst rs)" and "\<forall>p\<in>set rs. 0 \<le> fst p \<and> fst p < int MAX_MESSAGE_ID \<and> t (nat (fst p)) = None"
  shows "\<exists>t'. foldE (\<lambda>(msgid, r) t. ON_MSG msgid r t) rs t = Inr t' \<and>
    (\<forall>k. t' k = (case map_of rs (int k) of None \<Rightarrow> t k | Some r \<Rightarrow> Some r))"
  using assms
proof (induction rs arbitrary: t)
  case (Cons p rs)
  obtain msgid r where p: "p = (msgid, r)" by (cases p)
  let ?t = "t(nat msgid \<mapsto> r)"
  have "?t (nat (fst q)) = None" if "q \<in> set rs" for q
  proof -
    have "fst q \<noteq> msgid" "0 \<le> fst q" "0 \<le> msgid" "t (nat (fst q)) = None" using that Cons.prems p by force+
    then show ?thesis by (simp add: nat_eq_iff)
  qed
  then obtain t' where t': "foldE (\<lambda>(msgid, r) t. ON_MSG msgid r t) rs ?t = Inr t'"
      "\<forall>k. t' k = (case map_of rs (int k) of None \<Rightarrow> ?t k | Some r \<Rightarrow> Some r)"
    using Cons.IH [of ?t] Cons.prems by (metis (no_types, lifting) distinct.simps(2) list.set_intros(2) list.simps(9))
  have ids: "0 \<le> msgid" "map_of rs msgid = None" using Cons.prems p by (auto simp: map_of_eq_None_iff)
  have "t' k = (case map_of (p # rs) (int k) of None \<Rightarrow> t k | Some r \<Rightarrow> Some r)" for k
  proof (cases "int k = msgid")
    case False
    then have "k \<noteq> nat msgid" using ids(1) by auto
    then show ?thesis using t'(2) p False by (auto split: option.split)
  qed (use t'(2) ids p in auto)
  moreover have "foldE (\<lambda>(msgid, r) t. ON_MSG msgid r t) (p # rs) t = Inr t'"
    using t'(1) Cons.prems(2) p by (simp add: ON_MSG_def)
  ultimately show ?case by blast
qed simp

text \<open>
  a message goes to its handler. When the handlers are registered under different
  numbers below 65535, a message is given to the handler of its number, a message nobody
  handles is accepted and ignored, and only the number 65535 is refused.
\<close>

theorem messages_dispatched:
  assumes "distinct (map fst rs)" and "\<forall>p\<in>set rs. 0 \<le> fst p \<and> fst p < 65535" and "rm_ident netmsg = Inr ident"
  shows "\<exists>t. register_all rs = Inr t \<and> DISPATCH_MESSAGE t task netmsg st =
    (if ident = 65535 then Inr (False, st)
     else case map_of rs (uint ident) of None \<Rightarrow> Inr (True, st) | Some r \<Rightarrow> r task netmsg st)"
proof -
  obtain t where t: "register_all rs = Inr t" "\<forall>k. t k = (case map_of rs (int k) of None \<Rightarrow> None | Some r \<Rightarrow> Some r)"
    using foldE_ON_MSG [OF assms(1), of Map.empty] assms(2) by (auto simp: register_all_def MAX_MESSAGE_ID_def)
  have "unat ident \<ge> 65535 \<longleftrightarrow> ident = 65535"
  proof
    assume "65535 \<le> unat ident"
    moreover have "unat ident < 65536" using unsigned_less [where 'a = nat and w = ident] by simp
    ultimately have "unat ident = unat (65535 :: u16)" by simp
    then show "ident = 65535" by (simp only: word_unat_eq_iff)
  qed simp
  then show ?thesis using t assms(3)
    by (intro exI [of _ t]) (simp add: DISPATCH_MESSAGE_def MAX_MESSAGE_ID_def split: option.split)
qed

theorem messages_dispatched_witness:
  "\<exists>t. register_all [(1, \<lambda>_ _ n. Inr (True, n + 1)), (7, \<lambda>_ _ n. Inr (False, n + 10))] = Inr t \<and>
     DISPATCH_MESSAGE t 5 (net_encode 7 []) (0 :: nat) = Inr (False, 10)"
proof -
  have "rm_ident (net_encode 7 []) = Inr (7 :: u16)"
    unfolding rm_ident_def by (rule word_at_le_bytes) (simp_all add: net_encode_def netmessage_bytes_def)
  then show ?thesis
    using messages_dispatched [of "[(1, \<lambda>_ _ n. Inr (True, n + 1)), (7, \<lambda>_ _ n. Inr (False, n + 10))]" "net_encode 7 []" 7 5 "0 :: nat"] by simp
qed

text \<open>
  a client can make every such server read beyond a message. The length in the head of a
  message is taken as it is, down to a single byte; of a message shorter than six bytes the
  number is read from memory that does not belong to it.
\<close>

theorem short_message_overrun:
  assumes "12 \<le> length buffer" and "0 < unat (netmsg_len buffer)" and "unat (netmsg_len buffer) < 6"
  shows "0 < net_split buffer \<and> gw_onMessage t task (take (nat (net_split buffer)) buffer) st ns = Inl HeapOverrun"
proof -
  define n where "n = unat (netmsg_len buffer)"
  have n: "0 < n" "n < 6" "netmsg_len buffer = of_nat n" using assms by (simp_all add: n_def)
  then have "net_split buffer = int n"
    using assms(1) by (simp add: net_split_def sizeof_Netmessage_def sint_of_nat_u32 unat_of_nat_u32)
  then show ?thesis using n assms(1) by (simp add: gw_onMessage_def DISPATCH_MESSAGE_def rm_ident_def word_at_def)
qed

theorem short_message_overrun_witness:
  "gw_onMessage (Map.empty :: unit message_table) 5 (take (nat (net_split (le_bytes (4 :: u32) @ replicate 8 0))) (le_bytes (4 :: u32) @ replicate 8 0)) () ns_new =
     Inl HeapOverrun"
proof -
  let ?b = "le_bytes (4 :: u32) @ replicate 8 0"
  have "netmsg_len ?b = 4" by (simp add: netmsg_len_def le_word_le_bytes)
  then show ?thesis using short_message_overrun [of ?b Map.empty 5 "()" ns_new] by simp
qed

end
