(* ===== verification/Web_Server.thy ===== *)
theory Web_Server
  imports Bundle_Prelude
begin

text \<open>
  \<^verbatim>\<open>socket/WebServer.cpp\<close>: an HTTP server on top of libevent. The library is a record of functions:
  how it decodes and takes apart a URI and what it does with an answer. A turn of its loop
  delivers a list of requests.
\<close>

section \<open>The library\<close>

datatype ev_cmd = EVHTTP_REQ_GET | EVHTTP_REQ_POST | EVHTTP_REQ_OTHER nat

record ev_request =
  er_cmd :: ev_cmd
  er_uri :: string
  er_body :: string
  er_headers :: "(string \<times> string) list"
  er_host :: "string option"
  er_port :: int

text \<open>
  \<open>ev_decode\<close> is \<^verbatim>\<open>evhttp_decode_uri\<close>, \<open>ev_parse\<close> \<^verbatim>\<open>evhttp_uri_parse\<close> with the path and the query
  it finds, \<open>ev_query\<close> \<^verbatim>\<open>evhttp_parse_query_str\<close>, \<open>ev_find\<close> \<^verbatim>\<open>evhttp_find_header\<close>.
\<close>

record evlib =
  ev_decode :: "string \<Rightarrow> string option"
  ev_parse :: "string \<Rightarrow> (string option \<times> string option) option"
  ev_query :: "string option \<Rightarrow> (string \<times> string) list option"
  ev_find :: "string \<Rightarrow> (string \<times> string) list \<Rightarrow> string option"
  ev_add :: "string \<Rightarrow> string \<Rightarrow> (string \<times> string) list \<Rightarrow> (string \<times> string) list"
  ev_remove :: "string \<Rightarrow> (string \<times> string) list \<Rightarrow> (string \<times> string) list"

section \<open>Requests\<close>

text \<open>\<open>wr_ev\<close> is the request of the library with the headers of the answer, \<open>None\<close> once the answer is sent.\<close>

record webrequest =
  wr_id :: u32
  wr_path :: string
  wr_buffer :: string
  wr_ev :: "(ev_request \<times> (string \<times> string) list) option"
  wr_headers :: "string \<rightharpoonup> string"
  wr_variables :: "string \<rightharpoonup> string"

text \<open>\<^verbatim>\<open>insert\<close> keeps the value a key has.\<close>

definition insert_all :: "(string \<times> string) list \<Rightarrow> (string \<rightharpoonup> string) \<Rightarrow> (string \<rightharpoonup> string)" where
  "insert_all kvs m = fold (\<lambda>(k, v) m. if m k = None then m(k \<mapsto> v) else m) kvs m"

text \<open>A path that is a null pointer cannot be made a string.\<close>

definition wr_new :: "evlib \<Rightarrow> u32 \<Rightarrow> ev_request \<Rightarrow> string \<Rightarrow> webrequest res" where
  "wr_new lib i er decode_uri =
     (let r = \<lparr>wr_id = i, wr_path = [], wr_buffer = [], wr_ev = Some (er, []), wr_headers = Map.empty, wr_variables = Map.empty\<rparr>
      in case ev_parse lib decode_uri of
           None \<Rightarrow> Inr r
         | Some (path, query) \<Rightarrow>
             let vars = (case ev_query lib query of None \<Rightarrow> Map.empty | Some kvs \<Rightarrow> insert_all kvs Map.empty);
                 r1 = r\<lparr>wr_variables := vars, wr_headers := insert_all (er_headers er) Map.empty\<rparr>
             in case path of None \<Rightarrow> Inl NullDeref | Some p \<Rightarrow> Inr (r1\<lparr>wr_path := p\<rparr>))"

definition with_ev :: "webrequest \<Rightarrow> (ev_request \<times> (string \<times> string) list \<Rightarrow> 'a res) \<Rightarrow> 'a res" where
  "with_ev r f = (case wr_ev r of None \<Rightarrow> Inl NullDeref | Some e \<Rightarrow> f e)"

definition wr_cmd :: "webrequest \<Rightarrow> ev_cmd res" where
  "wr_cmd r = with_ev r (\<lambda>(er, out). Inr (er_cmd er))"

definition wr_url :: "webrequest \<Rightarrow> string res" where
  "wr_url r = with_ev r (\<lambda>(er, out). Inr (er_uri er))"

definition wr_header :: "evlib \<Rightarrow> string \<Rightarrow> webrequest \<Rightarrow> string option res" where
  "wr_header lib name r = with_ev r (\<lambda>(er, out). Inr (ev_find lib name (er_headers er)))"

definition wr_remote_host :: "webrequest \<Rightarrow> string res" where
  "wr_remote_host r = with_ev r (\<lambda>(er, out). Inr (case er_host er of None \<Rightarrow> ''UNDEFINED'' | Some h \<Rightarrow> h))"

definition wr_remote_port :: "webrequest \<Rightarrow> int res" where
  "wr_remote_port r = with_ev r (\<lambda>(er, out). Inr (er_port er))"

definition wr_variable :: "string \<Rightarrow> webrequest \<Rightarrow> string option" where
  "wr_variable name r = wr_variables r (cstring name)"

definition wr_addHeader :: "evlib \<Rightarrow> string \<Rightarrow> string \<Rightarrow> webrequest \<Rightarrow> webrequest res" where
  "wr_addHeader lib name v r = with_ev r (\<lambda>(er, out). Inr (r\<lparr>wr_ev := Some (er, ev_add lib name v out)\<rparr>))"

definition wr_removeHeader :: "evlib \<Rightarrow> string \<Rightarrow> webrequest \<Rightarrow> webrequest res" where
  "wr_removeHeader lib name r = with_ev r (\<lambda>(er, out). Inr (r\<lparr>wr_ev := Some (er, ev_remove lib name out)\<rparr>))"

definition wr_clearHeader :: "webrequest \<Rightarrow> webrequest res" where
  "wr_clearHeader r = with_ev r (\<lambda>(er, out). Inr (r\<lparr>wr_ev := Some (er, [])\<rparr>))"

definition wr_pushString :: "string \<Rightarrow> webrequest \<Rightarrow> webrequest" where
  "wr_pushString content r = r\<lparr>wr_buffer := wr_buffer r @ cstring content\<rparr>"

definition wr_pushBinary :: "string \<Rightarrow> webrequest \<Rightarrow> webrequest" where
  "wr_pushBinary content r = r\<lparr>wr_buffer := wr_buffer r @ content\<rparr>"

text \<open>What goes out: the request, the headers and the body, which leaves the buffer.\<close>

definition wr_send :: "webrequest \<Rightarrow> (webrequest \<times> ev_request \<times> (string \<times> string) list \<times> string) res" where
  "wr_send r = with_ev r (\<lambda>(er, out). Inr (r\<lparr>wr_ev := None, wr_buffer := []\<rparr>, er, out, wr_buffer r))"

section \<open>The server\<close>

record webserver =
  ws_baseid :: u32
  ws_stopped :: bool
  ws_evhttp :: bool
  ws_requests :: "webrequest list"

definition ws_new :: webserver where
  "ws_new = \<lparr>ws_baseid = 0, ws_stopped = False, ws_evhttp = True, ws_requests = []\<rparr>"

text \<open>The body is taken out in pieces of at most 1023 bytes, each of which is appended as a C string.\<close>

function post_text :: "string \<Rightarrow> string" where
  "post_text body = (if body = [] then [] else cstring (take 1023 body) @ post_text (drop 1023 body))"
  by auto
termination
  by (relation "measure length") auto

declare post_text.simps [simp del]

definition requestGet :: "evlib \<Rightarrow> ev_request \<Rightarrow> string option" where
  "requestGet lib er = ev_decode lib (er_uri er)"

definition requestPost :: "evlib \<Rightarrow> ev_request \<Rightarrow> string option" where
  "requestPost lib er = ev_decode lib (cstring (er_uri er @ ''?'' @ post_text (er_body er)))"

text \<open>A request of another kind is neither answered nor released; one that cannot be decoded is released.\<close>

definition createRequest :: "evlib \<Rightarrow> ev_request \<Rightarrow> webserver \<Rightarrow> webserver res" where
  "createRequest lib er ws =
     (case (case er_cmd er of EVHTTP_REQ_GET \<Rightarrow> requestGet lib er | EVHTTP_REQ_POST \<Rightarrow> requestPost lib er | EVHTTP_REQ_OTHER n \<Rightarrow> None) of
        None \<Rightarrow> Inr ws
      | Some uri \<Rightarrow> bindE (wr_new lib (ws_baseid ws) er uri) (\<lambda>r.
          Inr (ws\<lparr>ws_baseid := ws_baseid ws + 1, ws_requests := ws_requests ws @ [r]\<rparr>)))"

definition ws_start :: "bool \<Rightarrow> webserver \<Rightarrow> bool res" where
  "ws_start bound ws = (if ws_evhttp ws then Inr bound else Inl NullDeref)"

text \<open>\<open>arrived\<close> are the requests for which the loop calls back in this turn.\<close>

definition ws_run :: "evlib \<Rightarrow> ev_request list \<Rightarrow> webserver \<Rightarrow> webserver res" where
  "ws_run lib arrived ws = (if ws_stopped ws then Inr ws else foldE (createRequest lib) arrived ws)"

definition ws_getRequest :: "webserver \<Rightarrow> webrequest option \<times> webserver" where
  "ws_getRequest ws = (case ws_requests ws of [] \<Rightarrow> (None, ws) | r # rs \<Rightarrow> (Some r, ws\<lparr>ws_requests := rs\<rparr>))"

definition ws_stopServer :: "webserver \<Rightarrow> webserver" where
  "ws_stopServer ws = (if ws_stopped ws then ws else ws\<lparr>ws_stopped := True, ws_evhttp := False\<rparr>)"

section \<open>Properties\<close>

lemma cstring_take_nul: "CHR 0x00 \<notin> set s \<Longrightarrow> cstring (take n s) = take n s"
  by (rule cstring_id) (meson in_set_takeD)

lemma post_text_plain: "CHR 0x00 \<notin> set body \<Longrightarrow> post_text body = body"
proof (induction body rule: post_text.induct)
  case (1 body)
  have "CHR 0x00 \<notin> set (drop 1023 body)" using 1(2) by (meson in_set_dropD)
  then show ?case using 1 by (subst post_text.simps) (simp add: cstring_take_nul)
qed

text \<open>The text whose variables and path a request has.\<close>

fun request_text :: "ev_request \<Rightarrow> string option" where
  "request_text er = (case er_cmd er of EVHTTP_REQ_GET \<Rightarrow> Some (er_uri er)
     | EVHTTP_REQ_POST \<Rightarrow> Some (er_uri er @ ''?'' @ er_body er) | EVHTTP_REQ_OTHER n \<Rightarrow> None)"

definition accepted :: "evlib \<Rightarrow> ev_request \<Rightarrow> bool" where
  "accepted lib er \<longleftrightarrow> (case request_text er of None \<Rightarrow> False | Some s \<Rightarrow> ev_decode lib s \<noteq> None)"

lemma createRequest_plain:
  assumes "CHR 0x00 \<notin> set (er_uri er)" and "CHR 0x00 \<notin> set (er_body er)" and "\<forall>s p. ev_parse lib s = Some p \<longrightarrow> fst p \<noteq> None"
  shows "\<exists>r. createRequest lib er ws =
    Inr (if accepted lib er then ws\<lparr>ws_baseid := ws_baseid ws + 1, ws_requests := ws_requests ws @ [r]\<rparr> else ws) \<and>
    (accepted lib er \<longrightarrow> wr_new lib (ws_baseid ws) er (the (ev_decode lib (the (request_text er)))) = Inr r \<and> wr_id r = ws_baseid ws \<and> wr_ev r = Some (er, []))"
proof -
  have made: "\<exists>r. wr_new lib i er s = Inr r \<and> wr_id r = i \<and> wr_ev r = Some (er, [])" for i s
    using assms(3) by (fastforce simp: wr_new_def Let_def split: option.split prod.split)
  have "requestPost lib er = ev_decode lib (er_uri er @ ''?'' @ er_body er)"
    using assms(1,2) by (simp add: requestPost_def post_text_plain cstring_id)
  then have tx: "(case er_cmd er of EVHTTP_REQ_GET \<Rightarrow> requestGet lib er | EVHTTP_REQ_POST \<Rightarrow> requestPost lib er | EVHTTP_REQ_OTHER n \<Rightarrow> None) =
      (case request_text er of None \<Rightarrow> None | Some s \<Rightarrow> ev_decode lib s)"
    by (simp add: requestGet_def split: ev_cmd.split)
  obtain r where "wr_new lib (ws_baseid ws) er (the (ev_decode lib (the (request_text er)))) = Inr r" "wr_id r = ws_baseid ws" "wr_ev r = Some (er, [])"
    using made by blast
  then show ?thesis unfolding createRequest_def tx accepted_def
    by (intro exI [of _ r]) (auto split: option.split)
qed

definition plain_request :: "ev_request \<Rightarrow> bool" where
  "plain_request er \<longleftrightarrow> CHR 0x00 \<notin> set (er_uri er) \<and> CHR 0x00 \<notin> set (er_body er)"

text \<open>A request object made of an arrived request: its path and variables are those of the text.\<close>

definition made_of :: "evlib \<Rightarrow> ev_request \<Rightarrow> webrequest \<Rightarrow> bool" where
  "made_of lib er r \<longleftrightarrow> wr_new lib (wr_id r) er (the (ev_decode lib (the (request_text er)))) = Inr r"

lemma create_all:
  assumes "\<forall>s p. ev_parse lib s = Some p \<longrightarrow> fst p \<noteq> None"
  shows "\<forall>er\<in>set ers. plain_request er \<Longrightarrow>
    \<exists>rs. foldE (createRequest lib) ers ws = Inr (ws\<lparr>ws_baseid := ws_baseid ws + of_nat (length rs), ws_requests := ws_requests ws @ rs\<rparr>) \<and>
      list_all2 (made_of lib) (filter (accepted lib) ers) rs \<and> map wr_id rs = map (\<lambda>i. ws_baseid ws + of_nat i) [0..<length rs]"
proof (induction ers arbitrary: ws)
  case Nil
  then show ?case by (intro exI [of _ "[]"]) simp
next
  case (Cons er ers)
  obtain r where r: "createRequest lib er ws =
      Inr (if accepted lib er then ws\<lparr>ws_baseid := ws_baseid ws + 1, ws_requests := ws_requests ws @ [r]\<rparr> else ws)"
    "accepted lib er \<longrightarrow> made_of lib er r \<and> wr_id r = ws_baseid ws"
    using createRequest_plain [OF _ _ assms, of er ws] Cons.prems by (auto simp: plain_request_def made_of_def)
  show ?case
  proof (cases "accepted lib er")
    case False
    then show ?thesis using r Cons.IH [of ws] Cons.prems by simp
  next
    case True
    let ?ws = "ws\<lparr>ws_baseid := ws_baseid ws + 1, ws_requests := ws_requests ws @ [r]\<rparr>"
    obtain rs where rs: "foldE (createRequest lib) ers ?ws = Inr (?ws\<lparr>ws_baseid := ws_baseid ?ws + of_nat (length rs), ws_requests := ws_requests ?ws @ rs\<rparr>)"
      "list_all2 (made_of lib) (filter (accepted lib) ers) rs" "map wr_id rs = map (\<lambda>i. ws_baseid ?ws + of_nat i) [0..<length rs]"
      using Cons.IH [of ?ws] Cons.prems by auto
    have "map (\<lambda>i. ws_baseid ws + of_nat i) [0..<Suc (length rs)] = ws_baseid ws # map (\<lambda>i. ws_baseid ws + 1 + of_nat i) [0..<length rs]"
      unfolding map_upt_Suc by (simp add: ac_simps)
    then show ?thesis using r True rs by (intro exI [of _ "r # rs"]) (simp add: ac_simps del: upt_Suc)
  qed
qed

text \<open>Taking requests until there are none.\<close>

function take_requests :: "webserver \<Rightarrow> webrequest list" where
  "take_requests ws = (case ws_getRequest ws of (None, _) \<Rightarrow> [] | (Some r, ws1) \<Rightarrow> r # take_requests ws1)"
  by auto
termination
  by (relation "measure (\<lambda>ws. length (ws_requests ws))") (auto simp: ws_getRequest_def split: list.splits)

declare take_requests.simps [simp del]

lemma take_requests_all: "take_requests ws = ws_requests ws"
proof (induction ws rule: take_requests.induct)
  case (1 ws)
  show ?case
  proof (cases "ws_requests ws")
    case Nil
    then show ?thesis by (subst take_requests.simps) (simp add: ws_getRequest_def)
  next
    case (Cons r rs)
    then show ?thesis using 1 [of "Some r" "ws\<lparr>ws_requests := rs\<rparr>" r] by (subst take_requests.simps) (simp add: ws_getRequest_def)
  qed
qed

text \<open>
  every GET and POST request that can be decoded reaches the application, once and in the
  order of arrival, numbered one after the other, with the path and the variables of its text;
  for a POST the text is the URI followed by the whole body, however long.
\<close>

theorem web_requests_in_order:
  assumes "\<forall>s p. ev_parse lib s = Some p \<longrightarrow> fst p \<noteq> None" and "\<forall>er\<in>set ers. plain_request er"
    and "\<not> ws_stopped ws" and "ws_requests ws = []"
  shows "\<exists>ws'. ws_run lib ers ws = Inr ws' \<and> list_all2 (made_of lib) (filter (accepted lib) ers) (take_requests ws') \<and>
    map wr_id (take_requests ws') = map (\<lambda>i. ws_baseid ws + of_nat i) [0..<length (take_requests ws')]"
proof -
  obtain rs where "foldE (createRequest lib) ers ws = Inr (ws\<lparr>ws_baseid := ws_baseid ws + of_nat (length rs), ws_requests := ws_requests ws @ rs\<rparr>)"
    "list_all2 (made_of lib) (filter (accepted lib) ers) rs" "map wr_id rs = map (\<lambda>i. ws_baseid ws + of_nat i) [0..<length rs]"
    using create_all [OF assms(1,2)] by blast
  then show ?thesis using assms(3,4) by (simp add: ws_run_def take_requests_all)
qed

definition demo_evlib :: evlib where
  "demo_evlib = \<lparr>ev_decode = Some, ev_parse = (\<lambda>s. Some (Some (takeWhile (\<lambda>c. c \<noteq> CHR ''?'') s), None)), ev_query = (\<lambda>_. Some []),
     ev_find = (\<lambda>k h. map_of h k), ev_add = (\<lambda>k v h. h @ [(k, v)]), ev_remove = (\<lambda>k h. filter (\<lambda>p. fst p \<noteq> k) h)\<rparr>"

theorem web_requests_in_order_witness:
  "\<exists>ws'. ws_run demo_evlib [\<lparr>er_cmd = EVHTTP_REQ_GET, er_uri = ''/a'', er_body = [], er_headers = [], er_host = None, er_port = 1\<rparr>,
       \<lparr>er_cmd = EVHTTP_REQ_OTHER 4, er_uri = ''/b'', er_body = [], er_headers = [], er_host = None, er_port = 1\<rparr>,
       \<lparr>er_cmd = EVHTTP_REQ_POST, er_uri = ''/c'', er_body = ''x=1'', er_headers = [], er_host = None, er_port = 1\<rparr>] ws_new = Inr ws' \<and>
     map wr_id (take_requests ws') = [0, 1]"
proof -
  let ?a = "\<lparr>er_cmd = EVHTTP_REQ_GET, er_uri = ''/a'', er_body = [], er_headers = [], er_host = None, er_port = 1\<rparr>"
  let ?b = "\<lparr>er_cmd = EVHTTP_REQ_OTHER 4, er_uri = ''/b'', er_body = [], er_headers = [], er_host = None, er_port = 1\<rparr>"
  let ?c = "\<lparr>er_cmd = EVHTTP_REQ_POST, er_uri = ''/c'', er_body = ''x=1'', er_headers = [], er_host = None, er_port = 1\<rparr>"
  have acc: "filter (accepted demo_evlib) [?a, ?b, ?c] = [?a, ?c]" by (simp add: accepted_def demo_evlib_def)
  have parse: "\<forall>s p. ev_parse demo_evlib s = Some p \<longrightarrow> fst p \<noteq> None" by (auto simp: demo_evlib_def)
  obtain ws' where ws': "ws_run demo_evlib [?a, ?b, ?c] ws_new = Inr ws'"
    "list_all2 (made_of demo_evlib) [?a, ?c] (take_requests ws')"
    "map wr_id (take_requests ws') = map (\<lambda>i. ws_baseid ws_new + of_nat i) [0..<length (take_requests ws')]"
    using web_requests_in_order [OF parse, of "[?a, ?b, ?c]" ws_new] unfolding acc by (auto simp: plain_request_def ws_new_def)
  have "length (take_requests ws') = 2" using list_all2_lengthD [OF ws'(2)] by simp
  then show ?thesis using ws' by (simp add: upt_rec ws_new_def)
qed

text \<open>
  after its answer has been sent a request must not be used any more: the request of the
  library is gone, and every operation that needs it follows a null pointer, sending again
  included.
\<close>

theorem web_request_gone_after_send:
  assumes "wr_send r = Inr (r', er, out, body)"
  shows "wr_send r' = Inl NullDeref \<and> wr_cmd r' = Inl NullDeref \<and> wr_url r' = Inl NullDeref \<and> wr_header lib name r' = Inl NullDeref \<and>
    wr_addHeader lib name v r' = Inl NullDeref \<and> wr_remote_host r' = Inl NullDeref \<and> body = wr_buffer r \<and> wr_ev r = Some (er, out)"
  using assms by (auto simp: wr_send_def wr_cmd_def wr_url_def wr_header_def wr_addHeader_def wr_remote_host_def with_ev_def split: option.splits)

theorem web_request_gone_after_send_witness:
  "\<exists>r' er out body. wr_send \<lparr>wr_id = 1, wr_path = ''/a'', wr_buffer = ''hello'',
      wr_ev = Some (\<lparr>er_cmd = EVHTTP_REQ_GET, er_uri = ''/a'', er_body = [], er_headers = [], er_host = None, er_port = 1\<rparr>, []),
      wr_headers = Map.empty, wr_variables = Map.empty\<rparr> = Inr (r', er, out, body) \<and> wr_send r' = Inl NullDeref \<and> body = ''hello''"
proof -
  let ?r = "\<lparr>wr_id = 1, wr_path = ''/a'', wr_buffer = ''hello'',
      wr_ev = Some (\<lparr>er_cmd = EVHTTP_REQ_GET, er_uri = ''/a'', er_body = [], er_headers = [], er_host = None, er_port = 1\<rparr>, []),
      wr_headers = Map.empty, wr_variables = Map.empty\<rparr>"
  obtain r' er out body where s: "wr_send ?r = Inr (r', er, out, body)" by (simp add: wr_send_def with_ev_def)
  then show ?thesis using web_request_gone_after_send [OF s] by auto
qed

end
