(* ===== verification/Process_Runtime.thy ===== *)
theory Process_Runtime
  imports Registry_Config Easylog Tools_System
begin

text \<open>
  The process around a libbundle program: paths of \<^verbatim>\<open>tools/Tools.cpp\<close>, the process title, which
  is written over the arguments, \<^verbatim>\<open>Config::init\<close> with the guard process that forks the program
  again when it ends, the limits, and \<^verbatim>\<open>init_runtime_environment\<close>, which puts the configuration,
  the log and the signals together. Also the login request of \<^verbatim>\<open>decode_jscode\<close>.

  The operating system is a parameter: \<open>realpath\<close>, what a path is, what \<^verbatim>\<open>fork\<close> and \<^verbatim>\<open>waitpid\<close>
  return, whether a limit is accepted.
\<close>

section \<open>Paths\<close>

text \<open>The C library's \<^verbatim>\<open>dirname\<close> and \<^verbatim>\<open>basename\<close> of \<^verbatim>\<open>libgen.h\<close>; two leading slashes stay two.\<close>

definition strip_slashes :: "string \<Rightarrow> string" where
  "strip_slashes p = rev (dropWhile (\<lambda>c. c = CHR ''/'') (rev p))"

definition root_of :: "string \<Rightarrow> string" where
  "root_of p = (if p = ''//'' then ''//'' else ''/'')"

definition dirname :: "string \<Rightarrow> string" where
  "dirname p =
     (if p = [] then ''.''
      else if strip_slashes p = [] then root_of p
      else let d = rev (dropWhile (\<lambda>c. c \<noteq> CHR ''/'') (rev (strip_slashes p)))
           in if d = [] then ''.'' else if strip_slashes d = [] then root_of d else strip_slashes d)"

definition basename :: "string \<Rightarrow> string" where
  "basename p =
     (if p = [] then ''.''
      else if strip_slashes p = [] then ''/''
      else rev (takeWhile (\<lambda>c. c \<noteq> CHR ''/'') (rev (strip_slashes p))))"

text \<open>
  The name is copied into a static buffer of \<open>PATH_MAX\<close> bytes first; one that fills the buffer
  has no terminator there.
\<close>

definition path_buffer :: "string \<Rightarrow> string res" where
  "path_buffer p = (if length (cstring p) < PATH_MAX then Inr (cstring p) else Inl HeapOverrun)"

definition getDirectoryName :: "string \<Rightarrow> string res" where
  "getDirectoryName fullname = bindE (path_buffer fullname) (\<lambda>buf. Inr (dirname buf))"

definition getFilename :: "string \<Rightarrow> string res" where
  "getFilename fullname = bindE (path_buffer fullname) (\<lambda>buf. Inr (basename buf))"

text \<open>A null pointer from \<^verbatim>\<open>realpath\<close> is printed with \<^verbatim>\<open>%s\<close>, and the result is cut to the buffer.\<close>

definition absoluteDirectory :: "(string \<Rightarrow> string option) \<Rightarrow> string \<Rightarrow> string res" where
  "absoluteDirectory realpath fullname =
     bindE (getDirectoryName fullname) (\<lambda>dir.
       bindE (getFilename fullname) (\<lambda>file.
         case realpath dir of None \<Rightarrow> Inl NullDeref
         | Some realdir \<Rightarrow> Inr (take (PATH_MAX - 1) (realdir @ ''/'' @ file))))"

definition plain_name :: "string \<Rightarrow> bool" where
  "plain_name f \<longleftrightarrow> f \<noteq> [] \<and> CHR ''/'' \<notin> set f \<and> CHR 0x00 \<notin> set f"

lemma strip_slashes_name: "plain_name f \<Longrightarrow> strip_slashes (d @ f) = d @ f"
  unfolding plain_name_def strip_slashes_def
  by (cases f rule: rev_cases) auto

lemma name_of_path:
  assumes "plain_name f" "d = [] \<or> last d = CHR ''/''"
  shows "takeWhile (\<lambda>c. c \<noteq> CHR ''/'') (rev (d @ f)) = rev f" "dropWhile (\<lambda>c. c \<noteq> CHR ''/'') (rev (d @ f)) = rev d"
proof -
  have f: "\<And>c. c \<in> set (rev f) \<Longrightarrow> c \<noteq> CHR ''/''" using assms(1) by (auto simp: plain_name_def)
  have "takeWhile (\<lambda>c. c \<noteq> CHR ''/'') (rev d) = []" "dropWhile (\<lambda>c. c \<noteq> CHR ''/'') (rev d) = rev d"
    using assms(2) by (cases d rule: rev_cases; simp)+
  then show "takeWhile (\<lambda>c. c \<noteq> CHR ''/'') (rev (d @ f)) = rev f" "dropWhile (\<lambda>c. c \<noteq> CHR ''/'') (rev (d @ f)) = rev d"
    unfolding rev_append using takeWhile_append2 [of "rev f" "\<lambda>c. c \<noteq> CHR ''/''" "rev d", OF f] dropWhile_append2 [of "rev f" "\<lambda>c. c \<noteq> CHR ''/''" "rev d", OF f]
    by simp_all
qed

lemma basename_name: "plain_name f \<Longrightarrow> d = [] \<or> last d = CHR ''/'' \<Longrightarrow> basename (d @ f) = f"
  using name_of_path(1) [of f d] strip_slashes_name [of f d] by (simp add: basename_def) (auto simp: plain_name_def)

lemma dirname_name:
  assumes "plain_name f" "d \<noteq> []" "last d \<noteq> CHR ''/''"
  shows "dirname (d @ ''/'' @ f) = d"
proof -
  have "strip_slashes (d @ ''/'') = d" using assms(2,3) by (cases d rule: rev_cases) (auto simp: strip_slashes_def)
  then show ?thesis
    using name_of_path(2) [of f "d @ ''/''"] strip_slashes_name [of f "d @ ''/''"] assms
    by (simp add: dirname_def)
qed

lemma dirname_bare: "plain_name f \<Longrightarrow> dirname f = ''.''"
  using name_of_path(2) [of f "[]"] strip_slashes_name [of f "[]"] by (simp add: dirname_def)

lemma absoluteDirectory_file:
  assumes "plain_name f" "d \<noteq> []" "last d \<noteq> CHR ''/''" "CHR 0x00 \<notin> set d" "length d + length f + 1 < PATH_MAX"
    "realpath d = Some r" "length r + length f + 1 < PATH_MAX"
  shows "absoluteDirectory realpath (d @ ''/'' @ f) = Inr (r @ ''/'' @ f)"
proof -
  have "cstring (d @ ''/'' @ f) = d @ ''/'' @ f" using assms(1,4) by (intro cstring_id) (auto simp: plain_name_def)
  then have "path_buffer (d @ ''/'' @ f) = Inr (d @ ''/'' @ f)" using assms(5) by (simp add: path_buffer_def)
  moreover have "basename (d @ ''/'' @ f) = f" using basename_name [of f "d @ ''/''"] assms(1) by simp
  ultimately show ?thesis
    using dirname_name [OF assms(1-3)] assms(6,7) by (simp add: absoluteDirectory_def getDirectoryName_def getFilename_def)
qed

lemma absoluteDirectory_bare:
  assumes "plain_name f" "length f < PATH_MAX" "realpath ''.'' = Some r" "length r + length f + 1 < PATH_MAX"
  shows "absoluteDirectory realpath f = Inr (r @ ''/'' @ f)"
proof -
  have "path_buffer f = Inr f" using assms(1,2) by (simp add: path_buffer_def plain_name_def cstring_id)
  moreover have "basename f = f" using basename_name [of f "[]"] assms(1) by simp
  ultimately show ?thesis
    using dirname_bare [OF assms(1)] assms(3,4) by (simp add: absoluteDirectory_def getDirectoryName_def getFilename_def)
qed

section \<open>The title of the process\<close>

text \<open>
  The memory that holds the arguments and, behind them, the environment; \<open>argv\<close> are addresses in
  it. The vector \<^verbatim>\<open>__argv\<close> has the arguments as they were at the first call.
\<close>

record title_state =
  pt_mem :: string
  pt_saved :: "string list"

definition strlen_at :: "string \<Rightarrow> nat \<Rightarrow> nat res" where
  "strlen_at m a = (if CHR 0x00 \<in> set (drop a m) then Inr (length (cstring (drop a m))) else Inl HeapOverrun)"

definition strcpy_at :: "nat \<Rightarrow> string \<Rightarrow> string \<Rightarrow> string res" where
  "strcpy_at a s m = (if a + length s < length m then Inr (put_at a (s @ [CHR 0x00]) m) else Inl HeapOverrun)"

definition strcat_at :: "nat \<Rightarrow> string \<Rightarrow> string \<Rightarrow> string res" where
  "strcat_at a s m = bindE (strlen_at m a) (\<lambda>n. strcpy_at (a + n) s m)"

definition zero_arg :: "nat \<Rightarrow> string \<Rightarrow> string res" where
  "zero_arg a m = bindE (strlen_at m a) (\<lambda>n. Inr (put_at a (replicate n (CHR 0x00)) m))"

fun save_args :: "nat list \<Rightarrow> string \<Rightarrow> string list res" where
  "save_args [] m = Inr []"
| "save_args (a # argv) m =
     bindE (strlen_at m a) (\<lambda>n. bindE (save_args argv m) (\<lambda>ss. Inr (window a (a + n) m # ss)))"

definition setProcesstitle :: "nat list \<Rightarrow> string \<Rightarrow> title_state \<Rightarrow> title_state res" where
  "setProcesstitle argv title st =
     bindE (if pt_saved st = [] then save_args argv (pt_mem st) else Inr (pt_saved st)) (\<lambda>saved.
       bindE (foldE zero_arg (tl argv) (pt_mem st)) (\<lambda>m.
         case argv of [] \<Rightarrow> Inl NullDeref
         | a # _ \<Rightarrow> bindE (strcat_at a title m) (\<lambda>m1. Inr \<lparr>pt_mem = m1, pt_saved = saved\<rparr>)))"

fun restore_args :: "nat list \<Rightarrow> string list \<Rightarrow> string \<Rightarrow> string res" where
  "restore_args argv [] m = Inr m"
| "restore_args [] (s # ss) m = Inl NullDeref"
| "restore_args (a # argv) (s # ss) m = bindE (strcpy_at a s m) (restore_args argv ss)"

definition resetProcesstitle :: "nat list \<Rightarrow> title_state \<Rightarrow> title_state res" where
  "resetProcesstitle argv st =
     bindE (restore_args argv (pt_saved st) (pt_mem st)) (\<lambda>m. Inr (st\<lparr>pt_mem := m\<rparr>))"

text \<open>The layout the kernel gives the arguments: one behind the other, each with its terminator.\<close>

definition area :: "string list \<Rightarrow> string" where
  "area ss = concat (map (\<lambda>s. s @ [CHR 0x00]) ss)"

fun starts :: "nat \<Rightarrow> string list \<Rightarrow> nat list" where
  "starts p [] = []"
| "starts p (s # ss) = p # starts (p + length s + 1) ss"

definition no_nul :: "string \<Rightarrow> bool" where
  "no_nul s \<longleftrightarrow> CHR 0x00 \<notin> set s"

lemma area_simps [simp]: "area [] = []" "area (s # ss) = s @ CHR 0x00 # area ss"
  by (simp_all add: area_def)

lemma cstring_nul: "no_nul s \<Longrightarrow> cstring (s @ CHR 0x00 # m) = s"
  unfolding cstring_def no_nul_def by (induction s) auto

lemma strlen_at_string: "no_nul s \<Longrightarrow> strlen_at (pre @ s @ CHR 0x00 # m) (length pre) = Inr (length s)"
  by (simp add: strlen_at_def cstring_nul)

lemma strcpy_at_string:
  "length x = length s + 1 \<Longrightarrow> strcpy_at (length pre) s (pre @ x @ m) = Inr (pre @ s @ CHR 0x00 # m)"
  by (simp add: strcpy_at_def put_at_def)

lemma save_args_area:
  "list_all no_nul ss \<Longrightarrow> save_args (starts (length pre) ss) (pre @ area ss @ env) = Inr ss"
proof (induction ss arbitrary: pre)
  case (Cons s ss)
  then show ?case
    using Cons.IH [of "pre @ s @ [CHR 0x00]"] strlen_at_string [of s pre "area ss @ env"]
    by (simp add: window_def)
qed simp

lemma zero_args_area:
  "list_all no_nul ss \<Longrightarrow>
   foldE zero_arg (starts (length pre) ss) (pre @ area ss @ env) = Inr (pre @ replicate (length (area ss)) (CHR 0x00) @ env)"
proof (induction ss arbitrary: pre)
  case (Cons s ss)
  let ?pre = "pre @ replicate (length s) (CHR 0x00) @ [CHR 0x00]"
  have "zero_arg (length pre) (pre @ area (s # ss) @ env) = Inr (?pre @ area ss @ env)"
    using strlen_at_string [of s pre "area ss @ env"] Cons.prems by (simp add: zero_arg_def put_at_def)
  then show ?case using Cons.IH [of ?pre] Cons.prems by (simp add: replicate_add replicate_append_same)
qed simp

lemma restore_args_area:
  "length x = length (area ss) \<Longrightarrow>
   restore_args (starts (length pre) ss) ss (pre @ x @ env) = Inr (pre @ area ss @ env)"
proof (induction ss arbitrary: pre x)
  case (Cons s ss)
  obtain y z where x: "x = y @ z" "length y = length s + 1"
    using Cons.prems by (metis append_take_drop_id area_simps(2) length_append length_Cons length_take min.absorb2 le_add1 add_Suc_right Suc_eq_plus1 add_Suc)
  have "strcpy_at (length pre) s (pre @ x @ env) = Inr ((pre @ s @ [CHR 0x00]) @ z @ env)"
    using strcpy_at_string [of y s pre "z @ env"] x by simp
  then have "restore_args (starts (length pre) (s # ss)) (s # ss) (pre @ x @ env) =
      restore_args (starts (length (pre @ s @ [CHR 0x00])) ss) ss ((pre @ s @ [CHR 0x00]) @ z @ env)"
    by simp
  also have "\<dots> = Inr ((pre @ s @ [CHR 0x00]) @ area ss @ env)"
    using Cons.prems x by (intro Cons.IH) simp
  finally show ?case by simp
qed simp

text \<open>Title and restoring in general: what does not fit stays behind in the environment.\<close>

lemma title_set:
  assumes "list_all no_nul (s # ss)" "saved = [] \<or> saved = s # ss" "length title \<le> length (area ss) + length env"
  shows "setProcesstitle (starts (length pre) (s # ss)) title \<lparr>pt_mem = pre @ area (s # ss) @ env, pt_saved = saved\<rparr> =
    Inr \<lparr>pt_mem = pre @ s @ title @ CHR 0x00 # replicate (length (area ss) - length title) (CHR 0x00) @
           drop (length title - length (area ss)) env,
         pt_saved = s # ss\<rparr>"
proof -
  let ?pre = "pre @ s @ [CHR 0x00]" and ?zeros = "replicate (length (area ss)) (CHR 0x00)"
  have z: "foldE zero_arg (starts (length ?pre) ss) (?pre @ area ss @ env) = Inr (?pre @ ?zeros @ env)"
    using assms(1) by (intro zero_args_area) simp
  define rest where "rest = ?zeros @ env"
  have "strlen_at (pre @ s @ CHR 0x00 # rest) (length pre) = Inr (length s)"
    using assms(1) by (intro strlen_at_string) simp
  then have "strcat_at (length pre) title (?pre @ rest) =
      strcpy_at (length (pre @ s)) title ((pre @ s) @ (CHR 0x00 # take (length title) rest) @ drop (length title) rest)"
    by (simp add: strcat_at_def)
  also have "\<dots> = Inr ((pre @ s) @ title @ CHR 0x00 # drop (length title) rest)"
    using assms(3) by (intro strcpy_at_string) (simp add: rest_def)
  finally show ?thesis
    using z assms(2) save_args_area [OF assms(1), of pre env] by (auto simp: setProcesstitle_def rest_def)
qed

lemma title_reset:
  assumes "length title \<le> length (area ss) + length env"
  shows "resetProcesstitle (starts (length pre) (s # ss))
      \<lparr>pt_mem = pre @ s @ title @ CHR 0x00 # replicate (length (area ss) - length title) (CHR 0x00) @
           drop (length title - length (area ss)) env,
       pt_saved = s # ss\<rparr> =
    Inr \<lparr>pt_mem = pre @ area (s # ss) @ drop (Suc (length (area ss))) (title @ [CHR 0x00]) @ drop (length title - length (area ss)) env,
         pt_saved = s # ss\<rparr>"
proof -
  let ?k = "Suc (length (area ss))" and ?t = "title @ [CHR 0x00]"
  let ?z = "replicate (length (area ss) - length title) (CHR 0x00)" and ?env = "drop (length title - length (area ss)) env"
  have "drop ?k ?t = [] \<or> ?z = []" by simp arith
  then have "pre @ s @ title @ CHR 0x00 # ?z @ ?env = pre @ (s @ take ?k ?t @ ?z) @ drop ?k ?t @ ?env"
    using append_take_drop_id [of ?k ?t] by (auto simp del: append_take_drop_id drop_append take_append)
  moreover have "restore_args (starts (length pre) (s # ss)) (s # ss) (pre @ (s @ take ?k ?t @ ?z) @ drop ?k ?t @ ?env) =
      Inr (pre @ area (s # ss) @ drop ?k ?t @ ?env)"
    by (rule restore_args_area) simp
  ultimately have "restore_args (starts (length pre) (s # ss)) (s # ss) (pre @ s @ title @ CHR 0x00 # ?z @ ?env) =
      Inr (pre @ area (s # ss) @ drop ?k ?t @ ?env)"
    by (simp only:)
  then show ?thesis by (simp only: resetProcesstitle_def title_state.select_convs bindE.simps title_state.update_convs)
qed

text \<open>The arguments \<open>ss\<close> are in memory as the kernel lays them out.\<close>

definition args_laid :: "nat list \<Rightarrow> string list \<Rightarrow> title_state \<Rightarrow> bool" where
  "args_laid argv ss st \<longleftrightarrow> ss \<noteq> [] \<and> list_all no_nul ss \<and> pt_saved st \<in> {[], ss} \<and>
     (\<exists>pre env. pt_mem st = pre @ area ss @ env \<and> argv = starts (length pre) ss)"

lemma title_shown_and_undone:
  assumes "args_laid argv ss st" "no_nul title" "length title \<le> length (area (tl ss))"
  shows "\<exists>st1. setProcesstitle argv title st = Inr st1 \<and>
    cstring (drop (hd argv) (pt_mem st1)) = hd ss @ title \<and>
    resetProcesstitle argv st1 = Inr (st\<lparr>pt_saved := ss\<rparr>)"
proof -
  obtain s ss' pre env where ss: "ss = s # ss'" and st: "pt_mem st = pre @ area ss @ env" "argv = starts (length pre) ss"
    using assms(1) by (cases ss) (auto simp: args_laid_def)
  have l: "list_all no_nul (s # ss')" "pt_saved st = [] \<or> pt_saved st = s # ss'" "length title \<le> length (area ss') + length env"
    using assms ss by (auto simp: args_laid_def)
  have e: "st = \<lparr>pt_mem = pre @ area (s # ss') @ env, pt_saved = pt_saved st\<rparr>" using st ss by simp
  let ?m = "CHR 0x00 # replicate (length (area ss') - length title) (CHR 0x00) @ env"
  let ?st1 = "\<lparr>pt_mem = pre @ (s @ title) @ ?m, pt_saved = s # ss'\<rparr>"
  have "setProcesstitle argv title st = Inr ?st1"
    using title_set [OF l, of pre] assms(3) ss st(2) by (subst e) simp
  moreover have "cstring (drop (hd argv) (pt_mem ?st1)) = s @ title"
    using l(1) assms(2) ss st(2) cstring_nul [of "s @ title"] by (simp add: no_nul_def)
  moreover have "resetProcesstitle argv ?st1 = Inr (st\<lparr>pt_saved := ss\<rparr>)"
    using title_reset [OF l(3), of pre s] assms(3) ss st by (subst e) simp
  ultimately show ?thesis using ss by auto
qed

section \<open>The guard process\<close>

text \<open>
  How a child ended, and the number \<^verbatim>\<open>waitpid\<close> stores for it: an exit code is in the second byte,
  a signal in the first, with 128 added when there is a core file.
\<close>

datatype wait_status = Exited nat | Signaled nat bool

fun status_word :: "wait_status \<Rightarrow> nat" where
  "status_word (Exited code) = 256 * (code mod 256)"
| "status_word (Signaled sig core) = sig + (if core then 128 else 0)"

text \<open>
  What \<^verbatim>\<open>fork\<close> returns: an error, the child's number in the parent, which then waits for that
  child, or zero in the child. After an error there is no child to wait for, and the status
  stays zero.
\<close>

datatype fork_result = ForkFailed | Parent wait_status | Child

fun fork_status :: "fork_result \<Rightarrow> nat" where
  "fork_status (Parent w) = status_word w"
| "fork_status _ = 0"

datatype guard_end = GuardExits | GuardWaits title_state | GuardContinues title_state

fun guard_loop :: "bool \<Rightarrow> nat list \<Rightarrow> fork_result list \<Rightarrow> title_state \<Rightarrow> guard_end res" where
  "guard_loop halt argv [] st = Inr (if halt then GuardContinues st else GuardWaits st)"
| "guard_loop halt argv (f # forks) st =
     (if halt \<or> f = Child then Inr (GuardContinues st)
      else bindE (setProcesstitle argv '' guard'' st) (\<lambda>st1.
        if fork_status f = 1 then Inr GuardExits
        else bindE (resetProcesstitle argv st1) (guard_loop halt argv forks)))"

text \<open>
  \<^verbatim>\<open>Config::init\<close>: \<open>opts\<close> is what \<^verbatim>\<open>getopt\<close> returns one by one, \<open>argv\<close> the addresses as it leaves
  them, \<open>open\<close> what the XML parser makes of a file.
\<close>

datatype init_end = InitReturns bool config title_state | InitExits | InitWaits title_state

definition cf_finish :: "(string \<Rightarrow> string option) \<Rightarrow> (string \<Rightarrow> xml_node list option) \<Rightarrow> config \<Rightarrow> title_state \<Rightarrow> init_end res" where
  "cf_finish realpath open c st =
     (if cf_confile c = [] then Inr (InitReturns True c st)
      else bindE (absoluteDirectory realpath (cf_confile c)) (\<lambda>file.
        let (ok, c1) = cf_loadconf open file (c\<lparr>cf_confile := file\<rparr>) in Inr (InitReturns ok c1 st)))"

definition cf_init ::
    "(string \<Rightarrow> string option) \<Rightarrow> (string \<Rightarrow> xml_node list option) \<Rightarrow> nat list \<Rightarrow> (char \<times> string) list \<Rightarrow> fork_result list \<Rightarrow>
     config \<Rightarrow> title_state \<Rightarrow> init_end res" where
  "cf_init realpath open argv opts forks c st =
     (let (ok, c1) = cf_options opts c
      in if \<not> ok then Inr (InitReturns False c1 st)
         else if cf_runasdaemon c1 \<and> cf_guard c1 then
           bindE (guard_loop (cf_halt c1) argv forks st) (\<lambda>g.
             case g of GuardExits \<Rightarrow> Inr InitExits
             | GuardWaits st1 \<Rightarrow> Inr (InitWaits st1)
             | GuardContinues st1 \<Rightarrow> cf_finish realpath open c1 st1)
         else cf_finish realpath open c1 st)"

lemma status_word_one: "status_word w = 1 \<longleftrightarrow> w = Signaled 1 False"
  by (cases w) (auto simp: mult_eq_1_iff)

lemma args_laid_saved: "args_laid argv ss st \<Longrightarrow> args_laid argv ss (st\<lparr>pt_saved := ss\<rparr>)"
  by (auto simp: args_laid_def)

lemma guard_loop_Parent:
  assumes "args_laid argv ss st" "6 \<le> length (area (tl ss))"
  shows "guard_loop False argv (Parent w # forks) st =
    (if w = Signaled 1 False then Inr GuardExits else guard_loop False argv forks (st\<lparr>pt_saved := ss\<rparr>))"
proof -
  obtain st1 where "setProcesstitle argv '' guard'' st = Inr st1" "resetProcesstitle argv st1 = Inr (st\<lparr>pt_saved := ss\<rparr>)"
    using title_shown_and_undone [OF assms(1), of "'' guard''"] assms(2) by (auto simp: no_nul_def)
  then show ?thesis by (simp add: status_word_one [unfolded One_nat_def])
qed

lemma guard_loop_Parents:
  assumes "args_laid argv ss st" "6 \<le> length (area (tl ss))"
  shows "guard_loop False argv (map Parent ws @ forks) st =
    (if Signaled 1 False \<in> set ws then Inr GuardExits
     else guard_loop False argv forks (if ws = [] then st else st\<lparr>pt_saved := ss\<rparr>))"
  using assms(1)
proof (induction ws arbitrary: st)
  case (Cons w ws)
  then show ?case
    using guard_loop_Parent [OF Cons.prems assms(2)] Cons.IH [OF args_laid_saved [OF Cons.prems]] by simp
qed simp

section \<open>Limits\<close>

text \<open>A limit is \<open>None\<close> when \<^verbatim>\<open>getrlimit\<close> fails; \<open>accept\<close> tells whether \<^verbatim>\<open>setrlimit\<close> takes the new one.\<close>

record rlimit =
  rlim_cur :: u64
  rlim_max :: u64

definition set_limit :: "(rlimit \<Rightarrow> bool) \<Rightarrow> u32 \<Rightarrow> rlimit option \<Rightarrow> bool \<times> rlimit option" where
  "set_limit accept value limit =
     (case limit of None \<Rightarrow> (False, None)
      | Some r \<Rightarrow> let r1 = r\<lparr>rlim_cur := ucast value\<rparr> in if accept r1 then (True, Some r1) else (False, Some r))"

definition get_limit :: "rlimit option \<Rightarrow> u32" where
  "get_limit limit = (case limit of None \<Rightarrow> 0 | Some r \<Rightarrow> ucast (rlim_cur r))"

section \<open>The runtime environment\<close>

text \<open>
  What the operating system answers: paths, directories (present, created by \<^verbatim>\<open>createDirectory\<close>,
  usable as a log directory), files that can be opened, the clock, limits, the name of the
  program; and what the compiler put in: the version line and the lines on libraries. The
  entries of the registry come in the order of its hash table.
\<close>

record os =
  os_realpath :: "string \<Rightarrow> string option"
  os_xml :: "string \<Rightarrow> xml_node list option"
  os_exists :: "string \<Rightarrow> bool"
  os_created :: "string \<Rightarrow> bool"
  os_usable :: "string \<Rightarrow> bool"
  os_openable :: "string \<Rightarrow> bool"
  os_now :: nat
  os_stack_ok :: "rlimit \<Rightarrow> bool"
  os_files_ok :: "rlimit \<Rightarrow> bool"
  os_program :: string
  os_version :: string
  os_build :: string
  os_libraries :: "string list"
  os_entries :: "registry \<Rightarrow> (string \<times> string) list"

text \<open>
  The state: the configuration, the title, the log with what it has written, the two limits, the
  signals that have the handler, and the messages that passed the level of the log.
\<close>

record runtime =
  rt_config :: config
  rt_title :: title_state
  rt_log :: easylog
  rt_out :: sink
  rt_stack :: "rlimit option"
  rt_files :: "rlimit option"
  rt_handled :: "int list"
  rt_lines :: "(EasylogSeverityLevel \<times> string) list"

definition say :: "EasylogSeverityLevel \<Rightarrow> string \<Rightarrow> runtime \<Rightarrow> runtime" where
  "say l line rt = (if \<not> el_stop (rt_log rt) \<and> el_level (rt_log rt) \<le> l then rt\<lparr>rt_lines := rt_lines rt @ [(l, line)]\<rparr> else rt)"

text \<open>The level is an \<^verbatim>\<open>int\<close> of the registry; a number that is no level reads outside the table of names.\<close>

definition level_of_number :: "int \<Rightarrow> EasylogSeverityLevel option" where
  "level_of_number n = find (\<lambda>l. int (level_number l) = n) levels_in_order"

definition easylog_settings :: "registry \<Rightarrow> EasylogSeverityLevel \<Rightarrow> easylog \<Rightarrow> easylog" where
  "easylog_settings v l el =
     el_set_autosplit_hour (reg_get read_bool ''log.autosplit_hour'' False v)
       (el_set_autosplit_day (reg_get read_bool ''log.autosplit_day'' True v) (el_set_level l el))"

definition log_destination :: "os \<Rightarrow> string \<Rightarrow> easylog \<Rightarrow> easylog" where
  "log_destination os d el = snd (el_set_destination (Some d) (os_exists os d) (os_created os d) (os_usable os d) el)"

definition configure_log :: "os \<Rightarrow> runtime \<Rightarrow> runtime res" where
  "configure_log os rt =
     (let v = cf_values (rt_config rt)
      in case level_of_number (sint (reg_get read_signed ''log.level'' (0 :: u32) v)) of None \<Rightarrow> Inl HeapOverrun
         | Some l \<Rightarrow>
             bindE (absoluteDirectory (os_realpath os) (reg_get (\<lambda>s. s) ''log.dir'' ''.logs'' v)) (\<lambda>d.
               bindE (el_set_tofile (os_openable os) (os_now os) GLOBAL (os_program os)
                        (log_destination os d (easylog_settings v l (rt_log rt))) (rt_out rt)) (\<lambda>(el, out).
                 Inr (rt\<lparr>rt_log := el_set_tostdout GLOBAL (\<not> cf_runasdaemon (rt_config rt)) el, rt_out := out\<rparr>))))"

definition yes_no :: "bool \<Rightarrow> string" where
  "yes_no b = (if b then ''yes'' else ''no'')"

definition announce :: "os \<Rightarrow> runtime \<Rightarrow> runtime res" where
  "announce os rt =
     (let c = rt_config rt; el = rt_log rt;
          head = say LEVEL_TRACE (''libbundle: '' @ os_version os @ '', run as '' @ (if cf_runasdaemon c then ''daemon'' else ''console'') @
            '', '' @ (if cf_guard c then ''with guard'' else ''no guard'') @ '', '' @ os_build os) rt;
          conf = (if cf_confile c = [] then say LEVEL_ALARM ''specify config file: Unspecified'' head
                  else say LEVEL_TRACE (''specify config file: '' @ cf_confile c) head);
          dump = fold (\<lambda>(k, v). say LEVEL_TRACE (''    '' @ k @ '': '' @ v)) (os_entries os (cf_values c)) (say LEVEL_TRACE ''all registry:'' conf)
      in bindE (level_string (el_level el)) (\<lambda>name. Inr (
           say LEVEL_TRACE (''    log.dir: '' @ el_dest_dir el)
             (say LEVEL_TRACE (''    log.autosplit_day: '' @ yes_no (el_autosplit_day el) @ '', log.autosplit_hour: '' @ yes_no (el_autosplit_hour el))
               (say LEVEL_TRACE (''    log.level: '' @ name) (say LEVEL_TRACE ''Easylog:'' dump))))))"

definition apply_limits :: "os \<Rightarrow> runtime \<Rightarrow> runtime" where
  "apply_limits os rt =
     (let v = cf_values (rt_config rt); stack_size = reg_get read_unsigned ''limit.stack_size'' (0 :: u32) v;
          max_files = reg_get read_unsigned ''limit.max_files'' (0 :: u32) v;
          stack = (if 0 < stack_size then snd (set_limit (os_stack_ok os) stack_size (rt_stack rt)) else rt_stack rt);
          files = (if 0 < max_files then snd (set_limit (os_files_ok os) max_files (rt_files rt)) else rt_files rt)
      in say LEVEL_TRACE (''stack size: '' @ dec_nat (unat (get_limit stack)) @ '' (limit.stack_size), max files: '' @
           dec_nat (unat (get_limit files)) @ '' (limit.max_files)'') (rt\<lparr>rt_stack := stack, rt_files := files\<rparr>))"

definition handled_signals :: "int list" where
  "handled_signals = [1, 2, 3, 4, 5, 6, 6, 7, 8, 10, 11, 12, 13, 14, 15, 16, 18, 20, 21, 22, 23, 24, 25, 26, 27, 28, 29, 30, 31, 34]"

definition tell_shard :: "os \<Rightarrow> runtime \<Rightarrow> runtime" where
  "tell_shard os rt =
     (let shard = reg_get read_unsigned ''shard.id'' (0 :: u32) (cf_values (rt_config rt));
          rt1 = (if 0 < shard then say LEVEL_TRACE (''shard: '' @ dec_nat (unat shard)) rt
                 else say LEVEL_ALARM ''shard: Unspecified (shard.id)'' rt)
      in fold (say LEVEL_TRACE) (''all 3rd libraries:'' # os_libraries os) rt1)"

datatype runtime_end = RuntimeReturns bool runtime | RuntimeExits | RuntimeWaits title_state

definition init_runtime_environment ::
    "os \<Rightarrow> nat list \<Rightarrow> (char \<times> string) list \<Rightarrow> fork_result list \<Rightarrow> runtime \<Rightarrow> runtime_end res" where
  "init_runtime_environment os argv opts forks rt =
     bindE (cf_init (os_realpath os) (os_xml os) argv opts forks (rt_config rt) (rt_title rt)) (\<lambda>e.
       case e of InitExits \<Rightarrow> Inr RuntimeExits
       | InitWaits st \<Rightarrow> Inr (RuntimeWaits st)
       | InitReturns ok c st \<Rightarrow>
           (let rt1 = rt\<lparr>rt_config := c, rt_title := st\<rparr>
            in if \<not> ok then Inr (RuntimeReturns False rt1)
               else bindE (configure_log os rt1) (\<lambda>rt2.
                 bindE (announce os rt2) (\<lambda>rt3.
                   Inr (RuntimeReturns True (tell_shard os ((apply_limits os rt3)\<lparr>rt_handled := handled_signals\<rparr>)))))))"

text \<open>\<^verbatim>\<open>shutdown_bundle_library\<close> writes its last line and stops the log.\<close>

definition shutdown_bundle_library :: "runtime \<Rightarrow> runtime" where
  "shutdown_bundle_library rt =
     (let rt1 = say LEVEL_TRACE (''shutdown bundle library with terminate reason: '' @ dec_int (cf_terminate_reason (rt_config rt))) rt
      in rt1\<lparr>rt_log := (rt_log rt1)\<lparr>el_stop := True\<rparr>\<rparr>)"

lemma say_frame [simp]:
  "rt_config (say l t rt) = rt_config rt" "rt_title (say l t rt) = rt_title rt" "rt_log (say l t rt) = rt_log rt"
  "rt_out (say l t rt) = rt_out rt" "rt_stack (say l t rt) = rt_stack rt" "rt_files (say l t rt) = rt_files rt"
  "rt_handled (say l t rt) = rt_handled rt"
  by (simp_all add: say_def)

lemma fold_say_log:
  "rt_log (fold (\<lambda>x. say (f x) (g x)) xs rt) = rt_log rt" "rt_config (fold (\<lambda>x. say (f x) (g x)) xs rt) = rt_config rt"
  "rt_handled (fold (\<lambda>x. say (f x) (g x)) xs rt) = rt_handled rt" "rt_stack (fold (\<lambda>x. say (f x) (g x)) xs rt) = rt_stack rt"
  "rt_files (fold (\<lambda>x. say (f x) (g x)) xs rt) = rt_files rt"
  by (induction xs arbitrary: rt) simp_all

lemma tell_shard_frame [simp]:
  "rt_log (tell_shard os rt) = rt_log rt" "rt_handled (tell_shard os rt) = rt_handled rt" "rt_config (tell_shard os rt) = rt_config rt"
  using fold_say_log [of "\<lambda>x. LEVEL_TRACE" "\<lambda>x. x"] by (simp_all add: tell_shard_def Let_def)

lemma apply_limits_frame [simp]: "rt_log (apply_limits os rt) = rt_log rt" "rt_config (apply_limits os rt) = rt_config rt"
  by (simp_all add: apply_limits_def Let_def)

lemma announce_frame:
  "level_string (el_level (rt_log rt)) = Inr name \<Longrightarrow>
   \<exists>rt'. announce os rt = Inr rt' \<and> rt_log rt' = rt_log rt \<and> rt_config rt' = rt_config rt"
  using fold_say_log [of "\<lambda>x. LEVEL_TRACE" "\<lambda>(k, v). ''    '' @ k @ '': '' @ v"]
  by (simp add: announce_def Let_def split_def)

text \<open>Opening the missing files of a log whose nodes all have the same name.\<close>

lemma full_filename_put: "full_filename now (el_put l n el) f = full_filename now el f"
  by (simp add: full_filename_def el_put_def Let_def)

lemma full_filename_each: "full_filename now (el_each l g el) f = full_filename now el f"
  by (simp add: full_filename_def el_each_def Let_def)

lemma el_open_missing_all:
  assumes "f \<noteq> []" "distinct ls" "full_filename now el f = Some name"
    "\<forall>l n. l \<in> set ls \<longrightarrow> el_levels el l = Some n \<longrightarrow> ln_filename n = f \<and> ln_fs n = None"
  shows "\<exists>out'. el_open_missing openable now ls el out = Inr (el\<lparr>el_levels := \<lambda>k. if k \<in> set ls
      then map_option (\<lambda>n. n\<lparr>ln_fullname := name, ln_fs := Some (name, openable name), ln_launchtime := now\<rparr>) (el_levels el k)
      else el_levels el k\<rparr>, out')"
  using assms(2-)
proof (induction ls arbitrary: el out)
  case (Cons l ls)
  show ?case
  proof (cases "el_levels el l")
    case None
    have "(\<lambda>k. if k \<in> set (l # ls) then map_option g (el_levels el k) else el_levels el k) =
        (\<lambda>k. if k \<in> set ls then map_option g (el_levels el k) else el_levels el k)" for g
      using None by auto
    with Cons.IH [of el out] Cons.prems None show ?thesis by simp
  next
    case (Some n)
    let ?n = "n\<lparr>ln_fullname := name, ln_fs := Some (name, openable name), ln_launchtime := now\<rparr>"
    have "ln_filename n = f" "ln_fs n = None" using Cons.prems(3) Some by auto
    then obtain out1 where "el_open_missing openable now (l # ls) el out = el_open_missing openable now ls (el_put l ?n el) out1"
      using assms(1) Cons.prems(2) Some by (simp add: openfile_def)
    moreover have "\<exists>out'. el_open_missing openable now ls (el_put l ?n el) out1 = Inr ((el_put l ?n el)\<lparr>el_levels := \<lambda>k. if k \<in> set ls
      then map_option (\<lambda>n. n\<lparr>ln_fullname := name, ln_fs := Some (name, openable name), ln_launchtime := now\<rparr>) (el_levels (el_put l ?n el) k)
      else el_levels (el_put l ?n el) k\<rparr>, out')"
      using Cons.prems by (intro Cons.IH) (auto simp: full_filename_put, auto simp: el_put_def split: if_splits)
    ultimately show ?thesis
      using Some Cons.prems(1) by (auto simp: el_put_def fun_eq_iff intro!: arg_cong [of _ _ "\<lambda>f. el\<lparr>el_levels := f\<rparr>"])
  qed
qed simp

lemma configure_log_opens:
  assumes "level_of_number (sint (reg_get read_signed ''log.level'' (0 :: u32) (cf_values (rt_config rt)))) = Some l"
    "absoluteDirectory (os_realpath os) (reg_get (\<lambda>s. s) ''log.dir'' ''.logs'' (cf_values (rt_config rt))) = Inr d"
    "os_exists os d \<or> os_created os d" "os_usable os d" "os_program os \<noteq> []"
    "\<forall>k n. el_levels (rt_log rt) k = Some n \<longrightarrow> ln_fs n = None"
    "full_filename (os_now os) (log_destination os d (easylog_settings (cf_values (rt_config rt)) l (rt_log rt))) (os_program os) = Some name"
  shows "\<exists>rt'. configure_log os rt = Inr rt' \<and> rt_config rt' = rt_config rt \<and> el_level (rt_log rt') = l \<and> el_dest_dir (rt_log rt') = d \<and>
    (\<forall>k n. el_levels (rt_log rt) k = Some n \<longrightarrow> (\<exists>n'. el_levels (rt_log rt') k = Some n' \<and>
       ln_fs n' = Some (name, os_openable os name) \<and> ln_to_stdout n' = (\<not> cf_runasdaemon (rt_config rt))))"
proof -
  let ?el = "log_destination os d (easylog_settings (cf_values (rt_config rt)) l (rt_log rt))"
  have el: "el_levels ?el = el_levels (rt_log rt)" "el_level ?el = l" "el_dest_dir ?el = d"
    using assms(3,4) by (auto simp: log_destination_def el_set_destination_def easylog_settings_def el_set_autosplit_hour_def el_set_autosplit_day_def el_set_level_def)
  define el1 where "el1 = el_each GLOBAL (\<lambda>n. n\<lparr>ln_filename := os_program os\<rparr>) ?el"
  have "full_filename (os_now os) el1 (os_program os) = Some name"
    using assms(7) by (simp add: el1_def full_filename_each)
  moreover have "\<forall>k n. k \<in> set levels_in_order \<longrightarrow> el_levels el1 k = Some n \<longrightarrow> ln_filename n = os_program os \<and> ln_fs n = None"
    using assms(6) el(1) by (auto simp: el1_def el_each_def)
  ultimately obtain out' where "el_set_tofile (os_openable os) (os_now os) GLOBAL (os_program os) ?el (rt_out rt) =
      Inr (el1\<lparr>el_levels := \<lambda>k. map_option (\<lambda>n. n\<lparr>ln_fullname := name, ln_fs := Some (name, os_openable os name), ln_launchtime := os_now os\<rparr>)
             (el_levels el1 k)\<rparr>, out')"
    using el_open_missing_all [OF assms(5) levels_in_order(2), of "os_now os" el1 name "os_openable os" "rt_out rt"] levels_in_order(3)
    by (auto simp: el_set_tofile_def el1_def)
  then show ?thesis
    using assms(1,2) el by (simp add: configure_log_def el_set_tostdout_def el_each_def el1_def Let_def) auto
qed

section \<open>The login request\<close>

text \<open>
  \<^verbatim>\<open>curl_easy_perform\<close> passes the answer in parts to \<^verbatim>\<open>curlWriteCallback\<close>, which deletes its context
  each time; \<open>calls\<close> are the calls of the user's function. \<open>rc\<close> is the message of an error.
\<close>

fun deliver_parts :: "(string \<Rightarrow> json_doc) \<Rightarrow> string list \<Rightarrow> bool \<Rightarrow> (bool \<times> string \<times> string) list \<Rightarrow> (bool \<times> (bool \<times> string \<times> string) list) res" where
  "deliver_parts parse [] freed calls = Inr (freed, calls)"
| "deliver_parts parse (p # parts) freed calls =
     (if freed then Inl UseAfterFree
      else bindE (curlWriteCallback parse p) (\<lambda>c. deliver_parts parse parts True (calls @ [c])))"

definition jscode_url :: "string \<Rightarrow> string \<Rightarrow> string \<Rightarrow> string" where
  "jscode_url appid appsecret jscode =
     ''https://api.weixin.qq.com/sns/jscode2session?appid='' @ appid @ ''&secret='' @ appsecret @
     ''&js_code='' @ jscode @ ''&grant_type=authorization_code''"

definition decode_jscode ::
    "(string \<Rightarrow> json_doc) \<Rightarrow> bool \<Rightarrow> (string \<Rightarrow> string list \<times> string option) \<Rightarrow> string \<Rightarrow> string \<Rightarrow> string \<Rightarrow>
     (bool \<times> (bool \<times> string \<times> string) list) res" where
  "decode_jscode parse handle perform appid appsecret jscode =
     (if \<not> handle then Inr (False, [])
      else let (parts, rc) = perform (jscode_url appid appsecret jscode)
           in bindE (deliver_parts parse parts False []) (\<lambda>(freed, calls).
                case rc of None \<Rightarrow> Inr (True, calls)
                | Some err \<Rightarrow> if freed then Inl UseAfterFree else Inr (False, calls @ [(False, ''error'', err)])))"

lemma decode_jscode_result:
  assumes "perform (jscode_url appid appsecret jscode) = (parts, rc)"
    "decode_jscode parse True perform appid appsecret jscode = Inr (ok, calls)"
  shows "length parts + (if rc = None then 0 else 1) \<le> 1 \<and> length calls = length parts + (if rc = None then 0 else 1) \<and> ok = (rc = None)"
proof (cases parts)
  case Nil
  then show ?thesis using assms by (auto simp: decode_jscode_def split: option.splits)
next
  case (Cons p ps)
  obtain c where c: "curlWriteCallback parse p = Inr c"
    using assms Cons by (cases "curlWriteCallback parse p") (auto simp: decode_jscode_def)
  then have "ps = []" using assms Cons by (cases ps) (auto simp: decode_jscode_def)
  then show ?thesis using assms Cons c by (auto simp: decode_jscode_def split: option.splits if_splits)
qed

section \<open>URL encoding\<close>

text \<open>The function of libcurl is a parameter: \<open>None\<close> is a null pointer. An old value stays then.\<close>

definition url_encode :: "(string \<Rightarrow> string option) \<Rightarrow> string \<Rightarrow> string \<Rightarrow> bool \<times> string" where
  "url_encode escape url encoded =
     (let r = (case escape url of None \<Rightarrow> encoded | Some s \<Rightarrow> cstring s) in (r \<noteq> [], r))"

section \<open>Properties\<close>

text \<open>
  the title of a process is shown behind its name, and undoing it restores the arguments and
  everything behind them byte by byte, as long as the title is not longer than the other
  arguments with their terminators.
\<close>

theorem process_title_undone:
  assumes "args_laid argv ss st" "no_nul title" "length title \<le> length (area (tl ss))"
  shows "\<exists>st1. setProcesstitle argv title st = Inr st1 \<and>
    cstring (drop (hd argv) (pt_mem st1)) = hd ss @ title \<and>
    resetProcesstitle argv st1 = Inr (st\<lparr>pt_saved := ss\<rparr>)"
  using assms by (rule title_shown_and_undone)

theorem process_title_undone_witness:
  "\<exists>st1. setProcesstitle [0, 4, 7] '' guard'' \<lparr>pt_mem = area [''srv'', ''-d'', ''-g'', ''HOME=/''], pt_saved = []\<rparr> = Inr st1 \<and>
     cstring (pt_mem st1) = ''srv guard'' \<and>
     resetProcesstitle [0, 4, 7] st1 = Inr \<lparr>pt_mem = area [''srv'', ''-d'', ''-g'', ''HOME=/''], pt_saved = [''srv'', ''-d'', ''-g'']\<rparr>"
proof -
  let ?st = "\<lparr>pt_mem = area [''srv'', ''-d'', ''-g'', ''HOME=/''], pt_saved = []\<rparr>"
  have "args_laid [0, 4, 7] [''srv'', ''-d'', ''-g''] ?st"
    by (auto simp: args_laid_def no_nul_def intro!: exI [of _ "[]"])
  from process_title_undone [OF this, of "'' guard''"] show ?thesis by (simp add: no_nul_def)
qed

text \<open>
  a title that is longer than the other arguments runs into the environment, and what it
  wrote there stays when the title is undone.
\<close>

theorem process_title_overruns:
  assumes "list_all no_nul (s # ss)" "length (area ss) < length title" "length title \<le> length (area ss) + length env"
  shows "\<exists>st1. setProcesstitle (starts 0 (s # ss)) title \<lparr>pt_mem = area (s # ss) @ env, pt_saved = []\<rparr> = Inr st1 \<and>
    resetProcesstitle (starts 0 (s # ss)) st1 =
      Inr \<lparr>pt_mem = area (s # ss) @ drop (Suc (length (area ss))) (title @ [CHR 0x00]) @ drop (length title - length (area ss)) env,
           pt_saved = s # ss\<rparr>"
  using title_set [OF assms(1) _ assms(3), of "[]" "[]"] title_reset [OF assms(3), of "[]" s] assms(2) by simp

theorem process_title_overruns_witness:
  "\<exists>st1. setProcesstitle (starts 0 [''srv'', ''-dg'']) '' guard'' \<lparr>pt_mem = area [''srv'', ''-dg'', ''HOME=/''], pt_saved = []\<rparr> = Inr st1 \<and>
     resetProcesstitle (starts 0 [''srv'', ''-dg'']) st1 = Inr \<lparr>pt_mem = area [''srv'', ''-dg'', ''d''] @ area [''ME=/''], pt_saved = [''srv'', ''-dg'']\<rparr>"
  using process_title_overruns [of "''srv''" "[''-dg'']" "'' guard''" "area [''HOME=/'']"] by (simp add: no_nul_def)

text \<open>
  the guard starts the program again after every child, whatever its exit code, with the
  arguments as they were; only a child that was killed by the hangup signal makes it leave. In
  particular a child that ends with code one, which is meant to be the sign of a failed start,
  is started again.
\<close>

theorem guard_restarts_program:
  assumes "args_laid argv ss st" "6 \<le> length (area (tl ss))"
    "cf_options opts c = (True, c1)" "cf_runasdaemon c1" "cf_guard c1" "\<not> cf_halt c1"
  shows "cf_init realpath open argv opts (map Parent ws @ [Child]) c st =
    (if Signaled 1 False \<in> set ws then Inr InitExits
     else cf_finish realpath open c1 (if ws = [] then st else st\<lparr>pt_saved := ss\<rparr>))"
  using guard_loop_Parents [OF assms(1,2)] assms(3-) by (simp add: cf_init_def)

theorem guard_restarts_program_witness:
  "cf_init Map.empty Map.empty [0, 4, 7] [(CHR ''d'', []), (CHR ''g'', [])] (map Parent [Exited 1, Signaled 11 True, Exited 1] @ [Child])
     \<lparr>cf_halt = False, cf_runasdaemon = False, cf_reload = False, cf_terminate_reason = 0, cf_confile = [], cf_guard = False, cf_values = Map.empty\<rparr>
     \<lparr>pt_mem = area [''srv'', ''-d'', ''-g'', ''HOME=/''], pt_saved = []\<rparr> =
   Inr (InitReturns True
     \<lparr>cf_halt = False, cf_runasdaemon = True, cf_reload = False, cf_terminate_reason = 0, cf_confile = [], cf_guard = True, cf_values = Map.empty\<rparr>
     \<lparr>pt_mem = area [''srv'', ''-d'', ''-g'', ''HOME=/''], pt_saved = [''srv'', ''-d'', ''-g'']\<rparr>)"
proof -
  let ?st = "\<lparr>pt_mem = area [''srv'', ''-d'', ''-g'', ''HOME=/''], pt_saved = []\<rparr>"
  let ?c = "\<lparr>cf_halt = False, cf_runasdaemon = False, cf_reload = False, cf_terminate_reason = 0, cf_confile = [], cf_guard = False, cf_values = Map.empty\<rparr>"
  have "args_laid [0, 4, 7] [''srv'', ''-d'', ''-g''] ?st"
    by (auto simp: args_laid_def no_nul_def intro!: exI [of _ "[]"])
  from guard_restarts_program [OF this, of "[(CHR ''d'', []), (CHR ''g'', [])]" ?c _ Map.empty Map.empty "[Exited 1, Signaled 11 True, Exited 1]"]
  show ?thesis by (simp add: cf_finish_def)
qed

text \<open>
  once the program has been initialised with a configuration, the log has its level and
  directory from it, every level writes to the file that is named after the program, and to the
  console unless the program is a daemon; all signals that can be caught have the handler but
  the one for the end of a child.
\<close>

theorem runtime_initialised:
  assumes "cf_init (os_realpath os) (os_xml os) argv opts forks (rt_config rt) (rt_title rt) = Inr (InitReturns True c st)"
    "level_of_number (sint (reg_get read_signed ''log.level'' (0 :: u32) (cf_values c))) = Some l" "l \<noteq> MAX_LEVEL"
    "absoluteDirectory (os_realpath os) (reg_get (\<lambda>s. s) ''log.dir'' ''.logs'' (cf_values c)) = Inr d"
    "os_exists os d \<or> os_created os d" "os_usable os d" "os_program os \<noteq> []" "rt_log rt = el_new debug cwd"
    "full_filename (os_now os) (log_destination os d (easylog_settings (cf_values c) l (rt_log rt))) (os_program os) = Some name"
  shows "\<exists>rt'. init_runtime_environment os argv opts forks rt = Inr (RuntimeReturns True rt') \<and>
    rt_config rt' = c \<and> el_level (rt_log rt') = l \<and> el_dest_dir (rt_log rt') = d \<and>
    (\<forall>k \<in> {LEVEL_DEBUG, LEVEL_TRACE, LEVEL_ALARM, LEVEL_ERROR, LEVEL_PANIC, LEVEL_SYSTEM}.
       \<exists>n. el_levels (rt_log rt') k = Some n \<and> ln_fs n = Some (name, os_openable os name) \<and>
         ln_to_stdout n = (\<not> cf_runasdaemon c)) \<and>
    (\<forall>sig \<in> {1..31}. sig \<in> set (rt_handled rt') \<longleftrightarrow> sig \<notin> {9, 17, 19})"
proof -
  let ?rt1 = "rt\<lparr>rt_config := c, rt_title := st\<rparr>"
  have "\<forall>k n. el_levels (rt_log ?rt1) k = Some n \<longrightarrow> ln_fs n = None"
    using assms(8) by (auto simp: el_new_def ln_init_def split: if_splits)
  then obtain rt2 where rt2: "configure_log os ?rt1 = Inr rt2" "rt_config rt2 = c" "el_level (rt_log rt2) = l" "el_dest_dir (rt_log rt2) = d"
    "\<forall>k n. el_levels (rt_log rt) k = Some n \<longrightarrow> (\<exists>n'. el_levels (rt_log rt2) k = Some n' \<and>
       ln_fs n' = Some (name, os_openable os name) \<and> ln_to_stdout n' = (\<not> cf_runasdaemon c))"
    using configure_log_opens [of ?rt1 l os d name] assms(2,4-7,9) by auto
  have "\<exists>s. level_string l = Inr s" using assms(3) by (cases l) simp_all
  then obtain rt3 where rt3: "announce os rt2 = Inr rt3" "rt_log rt3 = rt_log rt2" "rt_config rt3 = rt_config rt2"
    using announce_frame [of rt2] rt2(3) by blast
  have levels: "\<forall>k \<in> {LEVEL_DEBUG, LEVEL_TRACE, LEVEL_ALARM, LEVEL_ERROR, LEVEL_PANIC, LEVEL_SYSTEM}.
      \<exists>n. el_levels (rt_log rt2) k = Some n \<and> ln_fs n = Some (name, os_openable os name) \<and> ln_to_stdout n = (\<not> cf_runasdaemon c)"
    using rt2(5) assms(8) by (auto simp: el_new_def)
  have "\<forall>sig \<in> {1..31}. sig \<in> set handled_signals \<longleftrightarrow> sig \<notin> {9, 17, 19}"
    by (simp add: handled_signals_def upto_rec1 flip: set_upto)
  with levels show ?thesis
    using assms(1) rt2(1-4) rt3 by (simp add: init_runtime_environment_def)
qed

definition demo_os :: os where
  "demo_os = \<lparr>os_realpath = (\<lambda>_. Some ''/srv''),
     os_xml = (\<lambda>_. Some [XmlNode ''config'' [] [XmlNode ''log'' [(''level'', ''3''), (''autosplit_day'', ''false'')] []]]),
     os_exists = (\<lambda>_. False), os_created = (\<lambda>_. True), os_usable = (\<lambda>_. True), os_openable = (\<lambda>_. True), os_now = 0,
     os_stack_ok = (\<lambda>_. True), os_files_ok = (\<lambda>_. True), os_program = ''game'', os_version = ''0.0.1'', os_build = ''release'',
     os_libraries = [], os_entries = (\<lambda>_. [])\<rparr>"

definition demo_config :: config where
  "demo_config = \<lparr>cf_halt = False, cf_runasdaemon = False, cf_reload = False, cf_terminate_reason = 0, cf_confile = [], cf_guard = False, cf_values = Map.empty\<rparr>"

definition demo_runtime :: runtime where
  "demo_runtime = \<lparr>rt_config = demo_config, rt_title = \<lparr>pt_mem = area [''game'', ''-c'', ''g.xml''], pt_saved = []\<rparr>,
     rt_log = el_new False ''/'', rt_out = \<lparr>out_stdout = [], out_files = Map.empty\<rparr>, rt_stack = None, rt_files = None, rt_handled = [], rt_lines = []\<rparr>"

theorem runtime_initialised_witness:
  "\<exists>rt'. init_runtime_environment demo_os [0, 5, 8] [(CHR ''c'', ''g.xml'')] [] demo_runtime = Inr (RuntimeReturns True rt') \<and>
     el_level (rt_log rt') = LEVEL_ALARM \<and>
     (\<exists>n. el_levels (rt_log rt') LEVEL_ERROR = Some n \<and> ln_fs n = Some (''/srv/.logs/game'', True) \<and> ln_to_stdout n) \<and>
     15 \<in> set (rt_handled rt')"
proof -
  let ?v = "makeRegistry True [XmlNode ''config'' [] [XmlNode ''log'' [(''level'', ''3''), (''autosplit_day'', ''false'')] []]] [] Map.empty"
  let ?c = "demo_config\<lparr>cf_confile := ''/srv/g.xml'', cf_values := ?v\<rparr>"
  have d: "absoluteDirectory (os_realpath demo_os) ''g.xml'' = Inr ''/srv/g.xml''" "absoluteDirectory (os_realpath demo_os) ''.logs'' = Inr ''/srv/.logs''"
    using absoluteDirectory_bare [of "''g.xml''" "os_realpath demo_os" "''/srv''"] absoluteDirectory_bare [of "''.logs''" "os_realpath demo_os" "''/srv''"]
    by (simp_all add: plain_name_def demo_os_def PATH_MAX_def)
  have v: "?v = [''log.level'' \<mapsto> ''3'', ''log.autosplit_day'' \<mapsto> ''false'']"
    by (simp add: set_attrs_def child_prefix_def xml_key_def snprintf_1024_def reg_set_def reg_setValue_def)
  have i: "cf_init (os_realpath demo_os) (os_xml demo_os) [0, 5, 8] [(CHR ''c'', ''g.xml'')] [] (rt_config demo_runtime) (rt_title demo_runtime) =
      Inr (InitReturns True ?c (rt_title demo_runtime))"
    using d(1) by (simp add: cf_init_def cf_finish_def cf_loadconf_def demo_runtime_def demo_config_def reg_clear_def del: makeRegistry.simps)
      (simp add: demo_os_def reg_clear_def)
  have l: "level_of_number (sint (reg_get read_signed ''log.level'' (0 :: u32) (cf_values ?c))) = Some LEVEL_ALARM"
    by (simp only: config.simps v) (simp add: reg_get_def reg_getValue_def read_signed_def strtol_def number_prefix_def isdigit_def isspace_def level_of_number_def levels_in_order_def)
  have n: "full_filename (os_now demo_os) (log_destination demo_os ''/srv/.logs'' (easylog_settings (cf_values ?c) LEVEL_ALARM (rt_log demo_runtime))) (os_program demo_os) =
      Some ''/srv/.logs/game''"
    by (simp only: config.simps v)
      (simp add: full_filename_def log_destination_def easylog_settings_def demo_os_def reg_get_def reg_getValue_def read_bool_def ascii_lower_def isupper_def
        el_set_destination_def el_set_autosplit_hour_def el_set_autosplit_day_def el_set_level_def)
  have "\<exists>rt'. init_runtime_environment demo_os [0, 5, 8] [(CHR ''c'', ''g.xml'')] [] demo_runtime = Inr (RuntimeReturns True rt') \<and>
    rt_config rt' = ?c \<and> el_level (rt_log rt') = LEVEL_ALARM \<and> el_dest_dir (rt_log rt') = ''/srv/.logs'' \<and>
    (\<forall>k \<in> {LEVEL_DEBUG, LEVEL_TRACE, LEVEL_ALARM, LEVEL_ERROR, LEVEL_PANIC, LEVEL_SYSTEM}.
       \<exists>n. el_levels (rt_log rt') k = Some n \<and> ln_fs n = Some (''/srv/.logs/game'', os_openable demo_os ''/srv/.logs/game'') \<and>
         ln_to_stdout n = (\<not> cf_runasdaemon ?c)) \<and>
    (\<forall>sig \<in> {1..31}. sig \<in> set (rt_handled rt') \<longleftrightarrow> sig \<notin> {9, 17, 19})"
    by (rule runtime_initialised [OF i l _ _ _ _ _ _ n])
      (simp_all only: config.simps v, simp_all add: reg_get_def reg_getValue_def d(2) demo_runtime_def, simp_all add: demo_os_def)
  then show ?thesis by (force simp: demo_os_def demo_config_def)
qed

text \<open>
  a login request that ends without a fault has called the user's function once, or not at all
  when the answer is empty, and always with a failure; so an answer in two parts, or an error
  after a part, ends in a fault: the context is used after it was deleted.
\<close>

theorem jscode_calls_back_once:
  assumes "perform (jscode_url appid appsecret jscode) = (parts, rc)"
    "decode_jscode parse True perform appid appsecret jscode = Inr (ok, calls)"
  shows "ok = (rc = None) \<and> length calls = length parts + (if rc = None then 0 else 1) \<and> length calls \<le> 1 \<and>
    (\<forall>c \<in> set calls. \<not> fst c)"
proof -
  have "\<not> fst c" if "c \<in> set calls" for c
  proof (cases parts)
    case Nil
    then show ?thesis using assms that by (auto simp: decode_jscode_def split: option.splits)
  next
    case (Cons p ps)
    then obtain b where b: "curlWriteCallback parse p = Inr b" "ps = []" "calls = [b]"
      using assms decode_jscode_result [OF assms]
      by (cases "curlWriteCallback parse p") (auto simp: decode_jscode_def split: option.splits if_splits)
    then show ?thesis using that callback_reports_failure [of parse p] by (cases b) auto
  qed
  then show ?thesis using decode_jscode_result [OF assms] by auto
qed

theorem jscode_calls_back_once_witness:
  "\<exists>ok calls. decode_jscode (\<lambda>_. JParseError) True (\<lambda>url. ([''<html>''], None)) ''id'' ''secret'' ''code'' = Inr (ok, calls) \<and>
     ok \<and> length calls = 1 \<and> \<not> fst (hd calls)"
proof -
  let ?p = "\<lambda>url :: string. ([''<html>''], None :: string option)"
  have r: "decode_jscode (\<lambda>_. JParseError) True ?p ''id'' ''secret'' ''code'' = Inr (True, [(False, ''ParseCallbackError'', ''<html>'')])"
    by (simp add: decode_jscode_def curlWriteCallback_def)
  have p: "?p (jscode_url ''id'' ''secret'' ''code'') = ([''<html>''], None)" by simp
  from jscode_calls_back_once [OF p r] r show ?thesis by (intro exI [of _ True] exI [of _ "[(False, ''ParseCallbackError'', ''<html>'')]"]) simp
qed

end
