(* ===== verification/Graph_Spread.thy ===== *)
theory Graph_Spread
  imports Bundle_Prelude
begin

text \<open>
  The undirected graph of \<^verbatim>\<open>tests/graph/dijkstra.cpp\<close> and \<^verbatim>\<open>dijkstra.h\<close>: a matrix of costs, and the
  time a message needs to spread from a node to the whole graph. Costs are \<^verbatim>\<open>int\<close>; an addition
  that leaves the range of 32 bits is a fault.
\<close>

section \<open>The graph\<close>

definition NODE_MIN :: int where
  "NODE_MIN = 1"

definition NODE_MAX :: int where
  "NODE_MAX = 100"

definition COST_SELF :: int where
  "COST_SELF = 0"

definition COST_UNREACHABLE :: int where
  "COST_UNREACHABLE = - 1"

text \<open>The matrix is one block: row by row, \<open>node_num\<close> entries each.\<close>

record graph =
  node_num :: nat
  cost_matrix :: "int list"
  cost_lowest :: "int list"
  flag_lowest :: "int list"

definition graph_create :: "int \<Rightarrow> graph option" where
  "graph_create n =
     (if NODE_MIN \<le> n \<and> n \<le> NODE_MAX then
        (let k = nat n in Some \<lparr>node_num = k,
           cost_matrix = concat (map (\<lambda>j. map (\<lambda>i. if i = j then COST_SELF else COST_UNREACHABLE) [0..<k]) [0..<k]),
           cost_lowest = replicate k COST_UNREACHABLE, flag_lowest = replicate k 0\<rparr>)
      else None)"

definition graph_set_edge :: "int \<Rightarrow> int \<Rightarrow> int \<Rightarrow> graph \<Rightarrow> graph" where
  "graph_set_edge from_id to_id cost g =
     (if \<not> (0 \<le> from_id \<and> from_id < int (node_num g)) then g
      else if \<not> (0 \<le> to_id \<and> to_id < int (node_num g)) then g
      else if \<not> (0 \<le> cost \<or> cost = COST_UNREACHABLE) then g
      else let a = nat from_id; b = nat to_id
           in g\<lparr>cost_matrix := (cost_matrix g)[a * node_num g + b := cost, b * node_num g + a := cost]\<rparr>)"

section \<open>Spreading a message\<close>

text \<open>The cost of the step from \<open>x\<close> to \<open>y\<close>, as the algorithm reads it.\<close>

definition step_cost :: "graph \<Rightarrow> nat \<Rightarrow> nat \<Rightarrow> int" where
  "step_cost g x y = cost_matrix g ! (y * node_num g + x)"

definition add_int :: "int \<Rightarrow> int \<Rightarrow> int res" where
  "add_int a b = (if - (2 ^ 31) \<le> a + b \<and> a + b < 2 ^ 31 then Inr (a + b) else Inl IntOverflow)"

definition reset_costs :: "nat \<Rightarrow> graph \<Rightarrow> graph" where
  "reset_costs entry g =
     g\<lparr>cost_lowest := (map (step_cost g entry) [0..<node_num g])[entry := 0],
       flag_lowest := (replicate (node_num g) 0)[entry := 1]\<rparr>"

definition lowest_node :: "graph \<Rightarrow> int \<times> int" where
  "lowest_node g =
     fold (\<lambda>i (node, cost).
       if flag_lowest g ! i \<noteq> 0 then (node, cost)
       else if cost = COST_UNREACHABLE \<or> cost_lowest g ! i \<noteq> COST_UNREACHABLE \<and> cost_lowest g ! i < cost
       then (int i, cost_lowest g ! i) else (node, cost))
     [0..<node_num g] (- 1, COST_UNREACHABLE)"

definition relax_cost :: "graph \<Rightarrow> nat \<Rightarrow> int \<Rightarrow> nat \<Rightarrow> int \<Rightarrow> int res" where
  "relax_cost g node cost i low =
     (let cost_node = step_cost g node i
      in if flag_lowest g ! i \<noteq> 0 \<or> cost_node = COST_UNREACHABLE then Inr low
         else bindE (add_int cost cost_node) (\<lambda>new.
           Inr (if new < low \<or> low = COST_UNREACHABLE then new else low)))"

definition relax :: "nat \<Rightarrow> int \<Rightarrow> graph \<Rightarrow> graph res" where
  "relax node cost g =
     foldE (\<lambda>i g. bindE (relax_cost g node cost i (cost_lowest g ! i)) (\<lambda>low. Inr (g\<lparr>cost_lowest := (cost_lowest g)[i := low]\<rparr>)))
       [0..<node_num g] (g\<lparr>flag_lowest := (flag_lowest g)[node := 1]\<rparr>)"

fun spread_loop :: "nat \<Rightarrow> graph \<Rightarrow> graph res" where
  "spread_loop 0 g = Inr g"
| "spread_loop (Suc j) g =
     (let (node, cost) = lowest_node g
      in if node \<noteq> - 1 \<and> cost \<noteq> COST_UNREACHABLE then bindE (relax (nat node) cost g) (spread_loop j)
         else Inr g)"

fun largest_cost :: "int list \<Rightarrow> int \<Rightarrow> int" where
  "largest_cost [] largest = largest"
| "largest_cost (c # cs) largest =
     (if c = COST_UNREACHABLE then - 1
      else largest_cost cs (if largest = COST_UNREACHABLE \<or> c > largest then c else largest))"

definition graph_spread_message :: "int \<Rightarrow> graph \<Rightarrow> (int \<times> graph) res" where
  "graph_spread_message entry_id g =
     (if \<not> (0 \<le> entry_id \<and> entry_id < int (node_num g)) then Inr (- 1, g)
      else bindE (spread_loop (node_num g) (reset_costs (nat entry_id) g)) (\<lambda>g1.
        Inr (largest_cost (cost_lowest g1) COST_UNREACHABLE, g1)))"

section \<open>Well-formed graphs\<close>

definition graph_ok :: "graph \<Rightarrow> bool" where
  "graph_ok g \<longleftrightarrow> length (cost_matrix g) = node_num g * node_num g \<and> length (cost_lowest g) = node_num g \<and>
     length (flag_lowest g) = node_num g \<and> (\<forall>c \<in> set (cost_matrix g). - 1 \<le> c) \<and>
     (\<forall>x < node_num g. \<forall>y < node_num g. step_cost g x y = step_cost g y x)"

lemma cell_less: "y < n \<Longrightarrow> x < n \<Longrightarrow> y * n + x < n * (n :: nat)"
proof -
  assume "y < n" "x < n"
  then have "y * n + x < y * n + n" by simp
  also have "\<dots> = Suc y * n" by simp
  also have "\<dots> \<le> n * n" using \<open>y < n\<close> by (intro mult_right_mono) simp_all
  finally show ?thesis .
qed

lemma cell_inject:
  assumes "x < n" "x' < (n :: nat)"
  shows "y * n + x = y' * n + x' \<longleftrightarrow> y = y' \<and> x = x'"
proof
  assume e: "y * n + x = y' * n + x'"
  have "(y * n + x) div n = y" "(y' * n + x') div n = y'" using assms by auto
  with e have "y = y'" by metis
  with e show "y = y' \<and> x = x'" by simp
qed simp

lemma step_cost_ge: "graph_ok g \<Longrightarrow> x < node_num g \<Longrightarrow> y < node_num g \<Longrightarrow> - 1 \<le> step_cost g x y"
  using cell_less [of y "node_num g" x] by (auto simp: graph_ok_def step_cost_def)

lemma nth_concat_square:
  "j < k \<Longrightarrow> i < n \<Longrightarrow> concat (map (\<lambda>j. map (f j) [0..<n]) [0..<k]) ! (j * n + i) = f j i"
proof (induction k)
  case (Suc k)
  let ?m = "concat (map (\<lambda>j. map (f j) [0..<n]) [0..<k])"
  have len: "length ?m = k * n" by (induction k) simp_all
  show ?case
  proof (cases "j < k")
    case True
    then have "j * n + i < k * n" using Suc.prems(2) mult_right_mono [of "Suc j" k n] by simp
    with True Suc len show ?thesis by (simp add: nth_append)
  next
    case False
    with Suc.prems len show ?thesis by (simp add: nth_append less_Suc_eq)
  qed
qed simp

lemma graph_create_ok:
  assumes "graph_create n = Some g"
  shows "graph_ok g" "node_num g = nat n" "x < node_num g \<Longrightarrow> y < node_num g \<Longrightarrow> step_cost g x y = (if x = y then 0 else - 1)"
proof -
  let ?f = "\<lambda>j i. if i = j then COST_SELF else COST_UNREACHABLE" and ?k = "nat n"
  have g: "node_num g = ?k" "cost_matrix g = concat (map (\<lambda>j. map (?f j) [0..<?k]) [0..<?k])"
    "length (cost_lowest g) = ?k" "length (flag_lowest g) = ?k"
    using assms by (auto simp: graph_create_def Let_def split: if_splits)
  have step: "step_cost g x y = ?f y x" if "x < ?k" "y < ?k" for x y
    using nth_concat_square [OF that(2,1), of ?f] g(1,2) by (simp add: step_cost_def)
  have len: "length (concat (map (\<lambda>j. map (?f j) [0..<?k]) [0..<m])) = m * ?k" for m by (induction m) simp_all
  show "graph_ok g" using g len step by (auto simp: graph_ok_def COST_SELF_def COST_UNREACHABLE_def)
  show "node_num g = nat n" using g(1) .
  show "x < node_num g \<Longrightarrow> y < node_num g \<Longrightarrow> step_cost g x y = (if x = y then 0 else - 1)"
    using g(1) step by (simp add: COST_SELF_def COST_UNREACHABLE_def)
qed

lemma graph_set_edge_step:
  assumes "graph_ok g" "a < node_num g" "b < node_num g" "0 \<le> cost \<or> cost = - 1" "x < node_num g" "y < node_num g"
  shows "step_cost (graph_set_edge (int a) (int b) cost g) x y = (if x = a \<and> y = b \<or> x = b \<and> y = a then cost else step_cost g x y)"
  using assms cell_inject [of x "node_num g" b y a] cell_inject [of x "node_num g" a y b] cell_less [of y "node_num g" x]
  by (auto simp: graph_set_edge_def step_cost_def COST_UNREACHABLE_def nth_list_update graph_ok_def)

lemma graph_set_edge_ok: "graph_ok g \<Longrightarrow> graph_ok (graph_set_edge from_id to_id cost g)"
proof (cases "0 \<le> from_id \<and> from_id < int (node_num g) \<and> 0 \<le> to_id \<and> to_id < int (node_num g) \<and> (0 \<le> cost \<or> cost = - 1)")
  case True
  assume g: "graph_ok g"
  define a b where "a = nat from_id" and "b = nat to_id"
  have ab: "from_id = int a" "to_id = int b" "a < node_num g" "b < node_num g" using True by (auto simp: a_def b_def)
  have "set (cost_matrix (graph_set_edge from_id to_id cost g)) \<subseteq> insert cost (set (cost_matrix g))"
    using True ab by (auto simp: graph_set_edge_def dest!: set_update_subset_insert [THEN subsetD])
  moreover have "node_num (graph_set_edge from_id to_id cost g) = node_num g" by (simp add: graph_set_edge_def Let_def)
  ultimately show ?thesis
    using g True graph_set_edge_step [OF g ab(3,4), of cost] ab(1,2) by (auto simp: graph_ok_def) (auto simp: graph_set_edge_def)
qed (auto simp: graph_set_edge_def COST_UNREACHABLE_def)

section \<open>Ways through the graph\<close>

text \<open>\<open>way g e d x\<close>: there is a way from \<open>e\<close> to \<open>x\<close> whose steps cost \<open>d\<close> together.\<close>

inductive way :: "graph \<Rightarrow> nat \<Rightarrow> int \<Rightarrow> nat \<Rightarrow> bool" for g e where
  here: "e < node_num g \<Longrightarrow> way g e 0 e"
| on: "way g e d x \<Longrightarrow> y < node_num g \<Longrightarrow> step_cost g x y \<noteq> - 1 \<Longrightarrow> way g e (d + step_cost g x y) y"

lemma way_node: "way g e d x \<Longrightarrow> x < node_num g"
  by (induction rule: way.induct) auto

definition shortest :: "graph \<Rightarrow> nat \<Rightarrow> nat \<Rightarrow> int \<Rightarrow> bool" where
  "shortest g e x d \<longleftrightarrow> way g e d x \<and> (\<forall>d'. way g e d' x \<longrightarrow> d \<le> d')"

text \<open>The algorithm only changes the two work arrays, on which costs of steps and ways do not depend.\<close>

definition same_net :: "graph \<Rightarrow> graph \<Rightarrow> bool" where
  "same_net g h \<longleftrightarrow> node_num h = node_num g \<and> cost_matrix h = cost_matrix g"

lemma same_net_step: "same_net g h \<Longrightarrow> step_cost h = step_cost g"
  by (simp add: same_net_def step_cost_def fun_eq_iff)

section \<open>The invariant\<close>

definition finished :: "graph \<Rightarrow> nat set" where
  "finished g = {i. i < node_num g \<and> flag_lowest g ! i \<noteq> 0}"

text \<open>
  Estimates are costs of ways and stay below \<open>M\<close> for each finished node; those of finished nodes
  are the least costs, and the steps from finished nodes have been considered.
\<close>

definition spread_inv :: "graph \<Rightarrow> nat \<Rightarrow> int \<Rightarrow> graph \<Rightarrow> bool" where
  "spread_inv g e M h \<longleftrightarrow> same_net g h \<and> length (cost_lowest h) = node_num g \<and> length (flag_lowest h) = node_num g \<and>
     e \<in> finished h \<and>
     (\<forall>i < node_num g. - 1 \<le> cost_lowest h ! i \<and> cost_lowest h ! i \<le> int (card (finished h)) * M) \<and>
     (\<forall>i < node_num g. cost_lowest h ! i \<noteq> - 1 \<longrightarrow> way g e (cost_lowest h ! i) i) \<and>
     (\<forall>x \<in> finished h. cost_lowest h ! x \<noteq> - 1 \<and> (\<forall>d. way g e d x \<longrightarrow> cost_lowest h ! x \<le> d)) \<and>
     (\<forall>x \<in> finished h. \<forall>y < node_num g. step_cost g x y \<noteq> - 1 \<longrightarrow>
        cost_lowest h ! y \<noteq> - 1 \<and> cost_lowest h ! y \<le> cost_lowest h ! x + step_cost g x y)"

lemma way_nonneg:
  assumes "graph_ok g" "way g e d x"
  shows "0 \<le> d"
  using assms(2)
proof (induction rule: way.induct)
  case (on d x y)
  then show ?case using step_cost_ge [OF assms(1) way_node [OF on.hyps(1)] on.hyps(2)] by auto
qed simp

text \<open>A way to a node that is not finished leaves the finished ones at a node with a small estimate.\<close>

lemma way_leaves:
  assumes "graph_ok g" "spread_inv g e M h" "way g e d x" "x \<notin> finished h"
  shows "\<exists>y < node_num g. y \<notin> finished h \<and> cost_lowest h ! y \<noteq> - 1 \<and> cost_lowest h ! y \<le> d"
  using assms(3,4)
proof (induction rule: way.induct)
  case here
  then show ?case using assms(2) by (simp add: spread_inv_def)
next
  case (on d x y)
  have c: "0 \<le> step_cost g x y" using step_cost_ge [OF assms(1) way_node [OF on.hyps(1)] on.hyps(2)] on.hyps(3) by simp
  show ?case
  proof (cases "x \<in> finished h")
    case True
    then have "cost_lowest h ! y \<noteq> - 1" "cost_lowest h ! y \<le> cost_lowest h ! x + step_cost g x y" "cost_lowest h ! x \<le> d"
      using assms(2) on.hyps by (auto simp: spread_inv_def)
    then show ?thesis using on.hyps(2) on.prems by (intro exI [of _ y]) auto
  next
    case False
    then show ?thesis using on.IH c by force
  qed
qed

section \<open>Choosing a node\<close>

lemma lowest_prefix:
  assumes "\<forall>i < node_num g. - 1 \<le> cost_lowest g ! i" "k \<le> node_num g"
  shows "let (node, cost) = fold (\<lambda>i (node, cost).
       if flag_lowest g ! i \<noteq> 0 then (node, cost)
       else if cost = COST_UNREACHABLE \<or> cost_lowest g ! i \<noteq> COST_UNREACHABLE \<and> cost_lowest g ! i < cost
       then (int i, cost_lowest g ! i) else (node, cost)) [0..<k] (- 1, COST_UNREACHABLE)
     in if cost = - 1 then \<forall>i < k. flag_lowest g ! i = 0 \<longrightarrow> cost_lowest g ! i = - 1
        else 0 \<le> node \<and> node < int k \<and> flag_lowest g ! nat node = 0 \<and> cost = cost_lowest g ! nat node \<and>
          (\<forall>i < k. flag_lowest g ! i = 0 \<longrightarrow> cost_lowest g ! i \<noteq> - 1 \<longrightarrow> cost \<le> cost_lowest g ! i)"
  using assms(2)
proof (induction k)
  case (Suc k)
  then show ?case
    by (auto simp: COST_UNREACHABLE_def Let_def split_def less_Suc_eq split: if_splits)
qed (simp add: COST_UNREACHABLE_def)

lemma lowest_node_spec:
  assumes "\<forall>i < node_num g. - 1 \<le> cost_lowest g ! i" "lowest_node g = (node, cost)"
  shows "cost = - 1 \<Longrightarrow> \<forall>i < node_num g. i \<notin> finished g \<longrightarrow> cost_lowest g ! i = - 1"
    and "cost \<noteq> - 1 \<Longrightarrow> \<exists>u. node = int u \<and> u < node_num g \<and> u \<notin> finished g \<and> cost = cost_lowest g ! u \<and>
      (\<forall>i < node_num g. i \<notin> finished g \<longrightarrow> cost_lowest g ! i \<noteq> - 1 \<longrightarrow> cost \<le> cost_lowest g ! i)"
proof -
  have s: "if cost = - 1 then \<forall>i < node_num g. flag_lowest g ! i = 0 \<longrightarrow> cost_lowest g ! i = - 1
        else 0 \<le> node \<and> node < int (node_num g) \<and> flag_lowest g ! nat node = 0 \<and> cost = cost_lowest g ! nat node \<and>
          (\<forall>i < node_num g. flag_lowest g ! i = 0 \<longrightarrow> cost_lowest g ! i \<noteq> - 1 \<longrightarrow> cost \<le> cost_lowest g ! i)"
    using lowest_prefix [OF assms(1), of "node_num g"] assms(2) by (simp add: lowest_node_def)
  show "cost = - 1 \<Longrightarrow> \<forall>i < node_num g. i \<notin> finished g \<longrightarrow> cost_lowest g ! i = - 1"
    using s by (auto simp: finished_def)
  show "cost \<noteq> - 1 \<Longrightarrow> \<exists>u. node = int u \<and> u < node_num g \<and> u \<notin> finished g \<and> cost = cost_lowest g ! u \<and>
      (\<forall>i < node_num g. i \<notin> finished g \<longrightarrow> cost_lowest g ! i \<noteq> - 1 \<longrightarrow> cost \<le> cost_lowest g ! i)"
    using s by (intro exI [of _ "nat node"]) (auto simp: finished_def nat_less_iff)
qed

section \<open>Passing on through a node\<close>

definition relaxed :: "graph \<Rightarrow> nat \<Rightarrow> int \<Rightarrow> nat \<Rightarrow> int" where
  "relaxed h u cost i =
     (let low = cost_lowest h ! i; c = step_cost h u i
      in if i \<in> finished h \<or> i = u \<or> c = - 1 then low else if cost + c < low \<or> low = - 1 then cost + c else low)"

lemma relax_result:
  assumes "length (cost_lowest h) = node_num h" "length (flag_lowest h) = node_num h" "u < node_num h"
    "\<forall>i < node_num h. i \<notin> finished h \<and> i \<noteq> u \<and> step_cost h u i \<noteq> - 1 \<longrightarrow> 0 \<le> cost + step_cost h u i \<and> cost + step_cost h u i < 2 ^ 31"
  shows "relax u cost h = Inr (h\<lparr>flag_lowest := (flag_lowest h)[u := 1], cost_lowest := map (relaxed h u cost) [0..<node_num h]\<rparr>)"
proof -
  let ?h = "h\<lparr>flag_lowest := (flag_lowest h)[u := 1]\<rparr>" and ?r = "relaxed h u cost"
  let ?step = "\<lambda>i g. bindE (relax_cost g u cost i (cost_lowest g ! i)) (\<lambda>low. Inr (g\<lparr>cost_lowest := (cost_lowest g)[i := low]\<rparr>))"
  have one: "relax_cost (?h\<lparr>cost_lowest := low\<rparr>) u cost i (cost_lowest h ! i) = Inr (?r i)" if "i < node_num h" for i low
    using assms that
    by (auto simp: relax_cost_def relaxed_def step_cost_def finished_def add_int_def nth_list_update COST_UNREACHABLE_def Let_def)
  have "foldE ?step [0..<k] ?h = Inr (?h\<lparr>cost_lowest := map ?r [0..<k] @ drop k (cost_lowest h)\<rparr>)" if "k \<le> node_num h" for k
    using that
  proof (induction k)
    case (Suc k)
    then have k: "k < length (cost_lowest h)" using assms(1) by simp
    then have "map ?r [0..<k] @ drop k (cost_lowest h) = map ?r [0..<k] @ cost_lowest h ! k # drop (Suc k) (cost_lowest h)"
      by (simp add: Cons_nth_drop_Suc)
    with Suc k one [of k] assms(1) show ?case by (simp add: foldE_append nth_append list_update_append)
  qed simp
  from this [of "node_num h"] show ?thesis using assms(1) by (simp add: relax_def)
qed

lemma relaxed_simps:
  "i \<in> finished h \<or> i = u \<Longrightarrow> relaxed h u cost i = cost_lowest h ! i"
  "cost_lowest h ! i \<noteq> - 1 \<Longrightarrow> relaxed h u cost i \<le> cost_lowest h ! i"
  "relaxed h u cost i = cost_lowest h ! i \<or> relaxed h u cost i = cost + step_cost h u i \<and> step_cost h u i \<noteq> - 1"
  "i \<notin> finished h \<Longrightarrow> i \<noteq> u \<Longrightarrow> step_cost h u i \<noteq> - 1 \<Longrightarrow> relaxed h u cost i \<le> cost + step_cost h u i"
  by (auto simp: relaxed_def Let_def)

lemma finished_insert:
  "length (flag_lowest h) = node_num h \<Longrightarrow> u < node_num h \<Longrightarrow>
   finished (h\<lparr>flag_lowest := (flag_lowest h)[u := 1], cost_lowest := low\<rparr>) = insert u (finished h)"
  by (auto simp: finished_def nth_list_update split: if_splits)

lemma card_finished: "card (finished h) \<le> node_num h"
proof -
  have "finished h \<subseteq> {..<node_num h}" by (auto simp: finished_def)
  then show ?thesis using card_mono [of "{..<node_num h}" "finished h"] by simp
qed

definition costs_below :: "graph \<Rightarrow> int \<Rightarrow> bool" where
  "costs_below g M \<longleftrightarrow> 0 \<le> M \<and> int (node_num g) * M < 2 ^ 31 \<and> (\<forall>c \<in> set (cost_matrix g). c \<le> M)"

lemma step_cost_below: "graph_ok g \<Longrightarrow> costs_below g M \<Longrightarrow> x < node_num g \<Longrightarrow> y < node_num g \<Longrightarrow> step_cost g x y \<le> M"
  using cell_less [of y "node_num g" x] by (auto simp: graph_ok_def costs_below_def step_cost_def)

text \<open>The situation in which a node is taken: it has the least estimate of those that are not finished.\<close>

definition picked :: "graph \<Rightarrow> nat \<Rightarrow> int \<Rightarrow> graph \<Rightarrow> nat \<Rightarrow> bool" where
  "picked g e M h u \<longleftrightarrow> graph_ok g \<and> costs_below g M \<and> spread_inv g e M h \<and> u < node_num g \<and> u \<notin> finished h \<and>
     cost_lowest h ! u \<noteq> - 1 \<and>
     (\<forall>i < node_num g. i \<notin> finished h \<longrightarrow> cost_lowest h ! i \<noteq> - 1 \<longrightarrow> cost_lowest h ! u \<le> cost_lowest h ! i)"

abbreviation passed :: "graph \<Rightarrow> nat \<Rightarrow> nat \<Rightarrow> int" where
  "passed h u \<equiv> relaxed h u (cost_lowest h ! u)"

lemma picked_net:
  assumes "picked g e M h u"
  shows "node_num h = node_num g" "step_cost h = step_cost g" "length (cost_lowest h) = node_num g"
    "length (flag_lowest h) = node_num g" "graph_ok g" "u < node_num g"
proof -
  have net: "same_net g h" using assms by (simp add: picked_def spread_inv_def)
  show "step_cost h = step_cost g" by (rule same_net_step [OF net])
  show "node_num h = node_num g" using net by (simp add: same_net_def)
qed (use assms in \<open>simp_all add: picked_def spread_inv_def\<close>)

lemma picked_bound:
  assumes "picked g e M h u"
  shows "int (card (insert u (finished h))) * M < 2 ^ 31"
    "int (card (insert u (finished h))) * M = int (card (finished h)) * M + M" "0 \<le> M"
proof -
  show M: "0 \<le> M" using assms by (simp add: picked_def costs_below_def)
  have "u \<notin> finished h" using assms by (simp add: picked_def)
  then show "int (card (insert u (finished h))) * M = int (card (finished h)) * M + M"
    by (simp add: finished_def algebra_simps)
  have "insert u (finished h) \<subseteq> {..<node_num g}" using picked_net(1,6) [OF assms] by (auto simp: finished_def)
  then have "card (insert u (finished h)) \<le> node_num g" using card_mono [of "{..<node_num g}"] by fastforce
  then have "int (card (insert u (finished h))) * M \<le> int (node_num g) * M" using M by (intro mult_right_mono) simp_all
  then show "int (card (insert u (finished h))) * M < 2 ^ 31" using assms by (simp add: picked_def costs_below_def)
qed

lemma picked_sum:
  assumes "picked g e M h u" "i < node_num g" "step_cost g u i \<noteq> - 1"
  shows "0 \<le> cost_lowest h ! u + step_cost g u i"
    "cost_lowest h ! u + step_cost g u i \<le> int (card (insert u (finished h))) * M"
    "way g e (cost_lowest h ! u + step_cost g u i) i"
proof -
  have u: "u < node_num g" "way g e (cost_lowest h ! u) u" "cost_lowest h ! u \<le> int (card (finished h)) * M" "graph_ok g" "costs_below g M"
    using assms(1) by (auto simp: picked_def spread_inv_def)
  show "way g e (cost_lowest h ! u + step_cost g u i) i" using way.on [OF u(2) assms(2,3)] .
  then show "0 \<le> cost_lowest h ! u + step_cost g u i" using way_nonneg [OF u(4)] by blast
  show "cost_lowest h ! u + step_cost g u i \<le> int (card (insert u (finished h))) * M"
    using u(3) step_cost_below [OF u(4,5,1) assms(2)] picked_bound(2) [OF assms(1)] by linarith
qed

lemma picked_run:
  assumes "picked g e M h u"
  shows "relax u (cost_lowest h ! u) h =
    Inr (h\<lparr>flag_lowest := (flag_lowest h)[u := 1], cost_lowest := map (passed h u) [0..<node_num h]\<rparr>)"
proof (rule relax_result)
  show "\<forall>i < node_num h. i \<notin> finished h \<and> i \<noteq> u \<and> step_cost h u i \<noteq> - 1 \<longrightarrow>
      0 \<le> cost_lowest h ! u + step_cost h u i \<and> cost_lowest h ! u + step_cost h u i < 2 ^ 31"
    unfolding picked_net(1,2) [OF assms] using picked_sum(1,2) [OF assms] picked_bound(1) [OF assms] by (meson order_le_less_trans)
qed (use picked_net [OF assms] in simp_all)

lemma picked_range:
  assumes "picked g e M h u" "i < node_num g"
  shows "- 1 \<le> passed h u i" "passed h u i \<le> int (card (insert u (finished h))) * M"
    "passed h u i \<noteq> - 1 \<longrightarrow> way g e (passed h u i) i"
proof -
  have "- 1 \<le> cost_lowest h ! i" "cost_lowest h ! i \<le> int (card (finished h)) * M" "cost_lowest h ! i \<noteq> - 1 \<longrightarrow> way g e (cost_lowest h ! i) i"
    using assms by (auto simp: picked_def spread_inv_def)
  then show "- 1 \<le> passed h u i" "passed h u i \<le> int (card (insert u (finished h))) * M" "passed h u i \<noteq> - 1 \<longrightarrow> way g e (passed h u i) i"
    using relaxed_simps(3) [of h u "cost_lowest h ! u" i] picked_sum [OF assms] picked_bound(2,3) [OF assms(1)] picked_net(2) [OF assms(1)]
    by auto
qed

lemma picked_precise:
  assumes "picked g e M h u" "x \<in> insert u (finished h)"
  shows "passed h u x = cost_lowest h ! x" "cost_lowest h ! x \<noteq> - 1" "way g e d x \<Longrightarrow> cost_lowest h ! x \<le> d"
proof -
  have p: "graph_ok g" "spread_inv g e M h" "u \<notin> finished h" using assms(1) by (simp_all add: picked_def)
  show "passed h u x = cost_lowest h ! x" using assms(2) by (intro relaxed_simps(1)) auto
  show "cost_lowest h ! x \<noteq> - 1" using assms by (auto simp: picked_def spread_inv_def)
  assume w: "way g e d x"
  show "cost_lowest h ! x \<le> d"
  proof (cases "x = u")
    case True
    then show ?thesis using way_leaves [OF p(1,2) _ p(3), of d] w assms(1) unfolding picked_def by (meson order_trans)
  next
    case False
    then show ?thesis using w assms by (simp add: picked_def spread_inv_def)
  qed
qed

lemma picked_steps:
  assumes "picked g e M h u" "x \<in> insert u (finished h)" "y < node_num g" "step_cost g x y \<noteq> - 1"
  shows "passed h u y \<noteq> - 1" "passed h u y \<le> passed h u x + step_cost g x y"
proof -
  note net = picked_net [OF assms(1)] and x = picked_precise [OF assms(1,2)]
  have "passed h u y \<noteq> - 1 \<and> passed h u y \<le> cost_lowest h ! x + step_cost g x y"
  proof (cases "x = u")
    case True
    then have s: "0 \<le> cost_lowest h ! u + step_cost g u y" "way g e (cost_lowest h ! u + step_cost g u y) y"
      using picked_sum [OF assms(1,3)] assms(4) by auto
    show ?thesis
    proof (cases "y \<in> insert u (finished h)")
      case y: True
      then show ?thesis using picked_precise [OF assms(1) y] s(2) True by simp
    next
      case False
      then show ?thesis
        using relaxed_simps(4) [of y h u "cost_lowest h ! u"] assms(4) True net(2) s(1) by (auto simp: relaxed_def Let_def)
    qed
  next
    case False
    then have y: "cost_lowest h ! y \<noteq> - 1" "cost_lowest h ! y \<le> cost_lowest h ! x + step_cost g x y"
      using assms by (auto simp: picked_def spread_inv_def)
    moreover have "passed h u y \<noteq> - 1"
      using relaxed_simps(3) [of h u "cost_lowest h ! u" y] picked_sum(1) [OF assms(1,3)] net(2) y(1) by auto
    ultimately show ?thesis using relaxed_simps(2) [of h y u "cost_lowest h ! u"] by simp
  qed
  then show "passed h u y \<noteq> - 1" "passed h u y \<le> passed h u x + step_cost g x y" using x(1) by simp_all
qed

lemma relax_inv:
  assumes "picked g e M h u"
  shows "\<exists>h'. relax u (cost_lowest h ! u) h = Inr h' \<and> spread_inv g e M h' \<and> finished h' = insert u (finished h)"
proof -
  let ?h = "h\<lparr>flag_lowest := (flag_lowest h)[u := 1], cost_lowest := map (passed h u) [0..<node_num h]\<rparr>"
  note net = picked_net [OF assms]
  have fin: "finished ?h = insert u (finished h)" using finished_insert net by simp
  have sub: "\<forall>x \<in> insert u (finished h). x < node_num g" using net(1,6) by (auto simp: finished_def)
  have "spread_inv g e M ?h"
    unfolding spread_inv_def fin
    using assms net picked_range [OF assms] picked_precise [OF assms] picked_steps [OF assms] sub
    by (simp add: same_net_def picked_def spread_inv_def)
  with fin picked_run [OF assms] show ?thesis by blast
qed

section \<open>The whole run\<close>

lemma reset_inv:
  assumes "graph_ok g" "costs_below g M" "e < node_num g"
  shows "spread_inv g e M (reset_costs e g)"
proof -
  let ?h = "reset_costs e g"
  have low: "cost_lowest ?h ! i = (if i = e then 0 else step_cost g e i)" if "i < node_num g" for i
    using that by (simp add: reset_costs_def nth_list_update)
  have fin: "finished ?h = {e}" using assms(3) by (auto simp: finished_def reset_costs_def nth_list_update split: if_splits)
  have "- 1 \<le> cost_lowest ?h ! i \<and> cost_lowest ?h ! i \<le> M" if "i < node_num g" for i
    using low [OF that] step_cost_ge [OF assms(1,3) that] step_cost_below [OF assms(1-3) that] assms(2) by (simp add: costs_below_def)
  moreover have "way g e (cost_lowest ?h ! i) i" if "i < node_num g" "cost_lowest ?h ! i \<noteq> - 1" for i
    using low [OF that(1)] that way.here [OF assms(3)] way.on [OF way.here [OF assms(3)] that(1)] by (auto split: if_splits)
  moreover have "cost_lowest ?h ! y \<noteq> - 1 \<and> cost_lowest ?h ! y \<le> step_cost g e y" if "y < node_num g" "step_cost g e y \<noteq> - 1" for y
    using low [OF that(1)] that step_cost_ge [OF assms(1,3) that(1)] by auto
  ultimately show ?thesis
    using low [OF assms(3)] way_nonneg [OF assms(1)] assms(3) unfolding spread_inv_def fin
    by (auto simp: same_net_def) (simp_all add: reset_costs_def)
qed

lemma spread_loop_spec:
  assumes "graph_ok g" "costs_below g M"
  shows "spread_inv g e M h \<Longrightarrow> node_num g - card (finished h) \<le> j \<Longrightarrow>
    \<exists>h'. spread_loop j h = Inr h' \<and> spread_inv g e M h' \<and> (\<forall>i < node_num g. i \<notin> finished h' \<longrightarrow> cost_lowest h' ! i = - 1)"
proof (induction j arbitrary: h)
  case 0
  have "node_num h = node_num g" using 0 by (simp add: spread_inv_def same_net_def)
  then have "finished h = {..<node_num g}" using 0 card_finished [of h] by (intro card_subset_eq) (auto simp: finished_def)
  then show ?case using 0 by auto
next
  case (Suc j)
  have net: "node_num h = node_num g" "\<forall>i < node_num h. - 1 \<le> cost_lowest h ! i"
    using Suc.prems(1) by (simp_all add: spread_inv_def same_net_def)
  obtain node cost where pick: "lowest_node h = (node, cost)" by (cases "lowest_node h")
  show ?case
  proof (cases "cost = - 1")
    case True
    then show ?thesis using Suc.prems(1) lowest_node_spec(1) [OF net(2) pick] pick net(1) by (simp add: COST_UNREACHABLE_def)
  next
    case False
    then obtain u where u: "node = int u" "u < node_num g" "u \<notin> finished h" "cost = cost_lowest h ! u"
      "\<forall>i < node_num g. i \<notin> finished h \<longrightarrow> cost_lowest h ! i \<noteq> - 1 \<longrightarrow> cost \<le> cost_lowest h ! i"
      using lowest_node_spec(2) [OF net(2) pick] net(1) by auto
    then have "picked g e M h u" using assms Suc.prems(1) False by (simp add: picked_def)
    then obtain h' where h': "relax u cost h = Inr h'" "spread_inv g e M h'" "finished h' = insert u (finished h)"
      using relax_inv u(4) by blast
    have "node_num g - card (finished h') \<le> j" using Suc.prems(2) u(3) h'(3) by (simp add: finished_def)
    then show ?thesis using Suc.IH [OF h'(2)] h'(1) pick u(1) False by (simp add: COST_UNREACHABLE_def)
  qed
qed

lemma spread_end:
  assumes "graph_ok g" "spread_inv g e M h" "\<forall>i < node_num g. i \<notin> finished h \<longrightarrow> cost_lowest h ! i = - 1" "x < node_num g"
  shows "cost_lowest h ! x = - 1 \<longleftrightarrow> (\<forall>d. \<not> way g e d x)" "cost_lowest h ! x \<noteq> - 1 \<Longrightarrow> shortest g e x (cost_lowest h ! x)"
proof -
  have way: "cost_lowest h ! x \<noteq> - 1 \<longrightarrow> way g e (cost_lowest h ! x) x" using assms(2,4) by (simp add: spread_inv_def)
  have "\<not> way g e d x" if "cost_lowest h ! x = - 1" for d
    using way_leaves [OF assms(1,2), of d x] assms(2,3) that by (auto simp: spread_inv_def)
  with way show "cost_lowest h ! x = - 1 \<longleftrightarrow> (\<forall>d. \<not> way g e d x)" by blast
  assume "cost_lowest h ! x \<noteq> - 1"
  then show "shortest g e x (cost_lowest h ! x)"
    using way assms(2-4) by (auto simp: shortest_def spread_inv_def)
qed

lemma largest_cost_spec:
  "\<forall>c \<in> set cs. - 1 \<le> c \<Longrightarrow> - 1 \<le> m \<Longrightarrow>
   largest_cost cs m = (if - 1 \<in> set cs then - 1 else if cs = [] then m else max m (Max (set cs)))"
proof (induction cs arbitrary: m)
  case (Cons c cs)
  have "(if m = COST_UNREACHABLE \<or> c > m then c else m) = max m c" if "c \<noteq> - 1"
    using Cons.prems that by (auto simp: COST_UNREACHABLE_def max_def)
  moreover have "max m (Max (set (c # cs))) = max (max m c) (Max (set cs))" if "cs \<noteq> []"
    using that by (simp add: Max_insert max.assoc)
  ultimately show ?case using Cons.IH [of "max m c"] Cons.prems by (auto simp: COST_UNREACHABLE_def)
qed simp

lemma spread_message_spec:
  assumes "graph_ok g" "costs_below g M" "e < node_num g"
  shows "\<exists>t h. graph_spread_message (int e) g = Inr (t, h) \<and> (t = - 1 \<longleftrightarrow> (\<exists>x < node_num g. \<forall>d. \<not> way g e d x)) \<and>
    (t \<noteq> - 1 \<longrightarrow> (\<exists>dist. (\<forall>x < node_num g. shortest g e x (dist x)) \<and> t = Max (dist ` {..<node_num g})))"
proof -
  obtain h where h: "spread_loop (node_num g) (reset_costs e g) = Inr h" "spread_inv g e M h"
      "\<forall>i < node_num g. i \<notin> finished h \<longrightarrow> cost_lowest h ! i = - 1"
    using spread_loop_spec [OF assms(1,2) reset_inv [OF assms], of "node_num g"] by auto
  let ?low = "cost_lowest h"
  have low: "?low \<noteq> []" "length ?low = node_num g" "\<forall>c \<in> set ?low. - 1 \<le> c"
    using h(2) assms(3) by (auto simp: spread_inv_def in_set_conv_nth)
  have ex: "- 1 \<in> set ?low \<longleftrightarrow> (\<exists>x < node_num g. \<forall>d. \<not> way g e d x)"
    using spread_end(1) [OF assms(1) h(2,3)] low(2) by (metis in_set_conv_nth)
  have img: "set ?low = (!) ?low ` {..<node_num g}" using low(2) by (auto simp: set_conv_nth)
  have max: "- 1 \<le> Max (set ?low)" using low(1,3) by (meson List.finite_set Max_in set_empty)
  have big: "Max (set ?low) \<noteq> - 1" if "- 1 \<notin> set ?low" using that low(1) by (metis List.finite_set Max_in set_empty)
  let ?t = "largest_cost ?low COST_UNREACHABLE"
  have t: "?t = (if - 1 \<in> set ?low then - 1 else Max (set ?low))"
    using largest_cost_spec [OF low(3), of "- 1"] low(1) max by (auto simp: COST_UNREACHABLE_def max_def)
  have run: "graph_spread_message (int e) g = Inr (?t, h)" using h(1) assms(3) by (simp add: graph_spread_message_def)
  have short: "\<forall>x < node_num g. shortest g e x (?low ! x)" if "- 1 \<notin> set ?low"
    using spread_end(2) [OF assms(1) h(2,3)] that low(2) by (metis nth_mem)
  have "?t = - 1 \<longleftrightarrow> - 1 \<in> set ?low" using t big by auto
  moreover have "\<exists>dist. (\<forall>x < node_num g. shortest g e x (dist x)) \<and> ?t = Max (dist ` {..<node_num g})" if "- 1 \<notin> set ?low"
    using short [OF that] t that img by (intro exI [of _ "(!) ?low"]) simp
  ultimately show ?thesis using run ex by blast
qed

text \<open>Graphs as they are built by the two functions for it.\<close>

definition build_graph :: "(int \<times> int \<times> int) list \<Rightarrow> graph \<Rightarrow> graph" where
  "build_graph edges g = fold (\<lambda>(a, b, c). graph_set_edge a b c) edges g"

lemma graph_set_edge_costs:
  "node_num (graph_set_edge a b c g) = node_num g"
  "set (cost_matrix (graph_set_edge a b c g)) \<subseteq> insert c (set (cost_matrix g))"
  by (auto simp: graph_set_edge_def Let_def dest!: set_update_subset_insert [THEN subsetD])

lemma build_graph_ok:
  "graph_ok g \<Longrightarrow> \<forall>(a, b, c) \<in> set edges. c \<le> M \<Longrightarrow> \<forall>c \<in> set (cost_matrix g). c \<le> M \<Longrightarrow>
   graph_ok (build_graph edges g) \<and> node_num (build_graph edges g) = node_num g \<and> (\<forall>c \<in> set (cost_matrix (build_graph edges g)). c \<le> M)"
proof (induction edges arbitrary: g)
  case (Cons edge edges)
  obtain a b c where edge: "edge = (a, b, c)" by (cases edge)
  then have "\<forall>k \<in> set (cost_matrix (graph_set_edge a b c g)). k \<le> M" using Cons.prems graph_set_edge_costs(2) [of a b c g] by auto
  then show ?case
    using Cons.IH [of "graph_set_edge a b c g"] graph_set_edge_ok [OF Cons.prems(1), of a b c] Cons.prems(2) edge
    by (simp add: build_graph_def graph_set_edge_costs(1))
qed (simp add: build_graph_def)

lemma create_costs: "graph_create n = Some g \<Longrightarrow> \<forall>c \<in> set (cost_matrix g). c \<le> 0"
  by (auto simp: graph_create_def COST_SELF_def COST_UNREACHABLE_def Let_def split: if_splits)

section \<open>Properties\<close>

text \<open>
  C19: on a graph of at most a hundred nodes that was created and given its edges, with costs that
  cannot overflow along a way, spreading a message from a node returns the largest of the least
  costs of ways from there to all the nodes, and minus one exactly when some node cannot be reached.
\<close>

theorem spread_takes_longest_shortest_way:
  assumes "graph_create n = Some g0" "\<forall>(a, b, c) \<in> set edges. c \<le> M" "0 \<le> M" "n * M < 2 ^ 31" "0 \<le> e" "e < n"
  shows "\<exists>t h. graph_spread_message e (build_graph edges g0) = Inr (t, h) \<and>
    (t = - 1 \<longleftrightarrow> (\<exists>x < nat n. \<forall>d. \<not> way (build_graph edges g0) (nat e) d x)) \<and>
    (t \<noteq> - 1 \<longrightarrow> (\<exists>dist. (\<forall>x < nat n. shortest (build_graph edges g0) (nat e) x (dist x)) \<and> t = Max (dist ` {..<nat n})))"
proof -
  let ?g = "build_graph edges g0"
  have "\<forall>c \<in> set (cost_matrix g0). c \<le> M" using create_costs [OF assms(1)] assms(3) by auto
  then have g: "graph_ok ?g" "node_num ?g = nat n" "\<forall>c \<in> set (cost_matrix ?g). c \<le> M"
    using build_graph_ok [OF graph_create_ok(1) [OF assms(1)] assms(2)] graph_create_ok(2) [OF assms(1)] by auto
  then have "costs_below ?g M" using assms(3-) by (simp add: costs_below_def)
  from spread_message_spec [OF g(1) this, of "nat e"] show ?thesis using g(2) assms(5,6) by simp
qed

definition demo_edges :: "(int \<times> int \<times> int) list" where
  "demo_edges = [(0, 1, 50), (0, 2, 30), (0, 3, 100), (0, 4, 10), (1, 2, 5), (1, 3, 20), (2, 3, 50), (3, 4, 10)]"

theorem spread_takes_longest_shortest_way_witness:
  "\<exists>g h dist. graph_create 5 = Some g \<and> graph_spread_message 0 (build_graph demo_edges g) = Inr (35, h) \<and>
     (\<forall>x < 5. shortest (build_graph demo_edges g) 0 x (dist x)) \<and> 35 = Max (dist ` {..<5})"
proof -
  let ?g = "the (graph_create 5)"
  have c: "graph_create 5 = Some ?g" by (simp add: graph_create_def NODE_MIN_def NODE_MAX_def)
  have r: "map_sum (\<lambda>e. e) fst (graph_spread_message 0 (build_graph demo_edges ?g)) = Inr 35" by code_simp
  have "\<exists>t h. graph_spread_message 0 (build_graph demo_edges ?g) = Inr (t, h) \<and>
    (t = - 1 \<longleftrightarrow> (\<exists>x < nat 5. \<forall>d. \<not> way (build_graph demo_edges ?g) (nat 0) d x)) \<and>
    (t \<noteq> - 1 \<longrightarrow> (\<exists>dist. (\<forall>x < nat 5. shortest (build_graph demo_edges ?g) (nat 0) x (dist x)) \<and> t = Max (dist ` {..<nat 5})))"
    by (rule spread_takes_longest_shortest_way [OF c, where M = 100]) (simp_all add: demo_edges_def)
  then obtain t h dist where "graph_spread_message 0 (build_graph demo_edges ?g) = Inr (t, h)" "t = 35"
    "\<forall>x < 5. shortest (build_graph demo_edges ?g) 0 x (dist x)" "t = Max (dist ` {..<5})"
    using r by fastforce
  then show ?thesis using c by blast
qed

text \<open>
  large costs overflow: two edges of the largest \<^verbatim>\<open>int\<close> in a row leave the range of the type.
\<close>

theorem spread_may_overflow:
  "\<exists>g. graph_create 3 = Some g \<and>
     graph_spread_message 0 (build_graph [(0, 1, 2147483647), (1, 2, 2147483647)] g) = Inl IntOverflow"
proof -
  let ?g = "the (graph_create 3)"
  have "graph_create 3 = Some ?g" by (simp add: graph_create_def NODE_MIN_def NODE_MAX_def)
  moreover have "graph_spread_message 0 (build_graph [(0, 1, 2147483647), (1, 2, 2147483647)] ?g) = Inl IntOverflow" by code_simp
  ultimately show ?thesis by blast
qed

end
