(* ===== verification/Array_Sorts.thy ===== *)
theory Array_Sorts
  imports Bundle_Prelude "HOL-Library.Multiset"
begin

text \<open>
  The sorting routines of \<^verbatim>\<open>tests/graph/sort.cpp\<close> (two of them again in \<^verbatim>\<open>bubble.cpp\<close> and
  \<^verbatim>\<open>InsertOrder.cpp\<close>). They sort an array into descending order, in place. An array is a list
  that holds \<open>len\<close> elements; an index outside of it is a fault.
\<close>

section \<open>Access to the array\<close>

definition ary_at :: "nat \<Rightarrow> 'a list \<Rightarrow> 'a res" where
  "ary_at i xs = (if i < length xs then Inr (xs ! i) else Inl HeapOverrun)"

definition exchange :: "nat \<Rightarrow> nat \<Rightarrow> 'a list \<Rightarrow> 'a list" where
  "exchange i j xs = xs[i := xs ! j, j := xs ! i]"

text \<open>Both indices are read first, and the elements change places if the first is the wanted one.\<close>

definition compare_exchange :: "('a \<Rightarrow> 'a \<Rightarrow> bool) \<Rightarrow> nat \<Rightarrow> nat \<Rightarrow> 'a list \<Rightarrow> 'a list res" where
  "compare_exchange wrong i j xs =
     bindE (ary_at i xs) (\<lambda>x. bindE (ary_at j xs) (\<lambda>y. Inr (if wrong x y then exchange i j xs else xs)))"

section \<open>The routines\<close>

text \<open>\<open>len - 1\<close> is a \<^verbatim>\<open>size_t\<close>: for an empty array it is the largest one.\<close>

definition size_pred :: "nat \<Rightarrow> nat" where
  "size_pred n = (if n = 0 then 2 ^ 64 - 1 else n - 1)"

definition bubble_pass :: "nat \<Rightarrow> 'a::linorder list \<Rightarrow> 'a list res" where
  "bubble_pass m = foldE (\<lambda>j. compare_exchange (<) j (j + 1)) [0..<m]"

definition bubble_sort :: "'a::linorder list \<Rightarrow> 'a list res" where
  "bubble_sort xs =
     foldE (\<lambda>i. bubble_pass (size_pred (length xs) - i)) [0..<size_pred (length xs)] xs"

definition insert_down :: "nat \<Rightarrow> 'a::linorder list \<Rightarrow> 'a list res" where
  "insert_down i = foldE (\<lambda>curr. compare_exchange (>) curr (curr - 1)) (rev [1..<i + 1])"

definition insert_sort :: "'a::linorder list \<Rightarrow> 'a list res" where
  "insert_sort xs = foldE insert_down [1..<length xs] xs"

definition select_max :: "nat \<Rightarrow> 'a::linorder list \<Rightarrow> nat" where
  "select_max i xs = fold (\<lambda>j max_i. if xs ! j > xs ! max_i then j else max_i) [i + 1..<length xs] i"

definition selection_sort :: "'a::linorder list \<Rightarrow> 'a list" where
  "selection_sort xs = fold (\<lambda>i ys. exchange i (select_max i ys) ys) [0..<length xs] xs"

text \<open>
  \<^verbatim>\<open>op_2\<close> and \<^verbatim>\<open>op_4\<close>: the branches of \<^verbatim>\<open>op_4\<close> without a \<^verbatim>\<open>return\<close> leave the function without a value.
\<close>

definition op_2 :: "'a::linorder list \<Rightarrow> ('a \<times> 'a) res" where
  "op_2 ary = assertE (length ary = 2) (Inr (max (ary ! 0) (ary ! 1), min (ary ! 0) (ary ! 1)))"

definition op_4 :: "'a::linorder list \<Rightarrow> ('a \<times> 'a \<times> 'a \<times> 'a) res" where
  "op_4 ary = assertE (length ary = 4)
     (let (a, b) = (if ary ! 0 \<ge> ary ! 1 then (ary ! 0, ary ! 1) else (ary ! 1, ary ! 0));
          (c, d) = (if ary ! 2 \<ge> ary ! 3 then (ary ! 2, ary ! 3) else (ary ! 3, ary ! 2))
      in if a \<ge> c then Inl UninitRead
         else if a \<ge> d then Inl UninitRead
         else Inr (c, d, a, b))"

section \<open>Bubble sort\<close>

text \<open>What a pass does, as a recursion on the list: the smallest element moves to the end.\<close>

fun bubble :: "'a::linorder \<Rightarrow> 'a list \<Rightarrow> 'a list" where
  "bubble x [] = [x]"
| "bubble x (y # ys) = (if x < y then y # bubble x ys else x # bubble y ys)"

lemma length_bubble [simp]: "length (bubble x ys) = Suc (length ys)"
  by (induction x ys rule: bubble.induct) auto

lemma mset_bubble: "mset (bubble x ys) = add_mset x (mset ys)"
  by (induction x ys rule: bubble.induct) auto

lemma last_bubble: "z \<in> set (x # ys) \<Longrightarrow> last (bubble x ys) \<le> z"
  by (induction x ys arbitrary: z rule: bubble.induct) (fastforce simp flip: length_0_conv)+

lemma compare_exchange_next:
  "compare_exchange wrong (length pre) (length pre + 1) (pre @ x # y # zs) =
     Inr (if wrong x y then pre @ y # x # zs else pre @ x # y # zs)"
  by (simp add: compare_exchange_def ary_at_def exchange_def nth_append list_update_append)

lemma bubble_steps:
  "foldE (\<lambda>j. compare_exchange (<) j (j + 1)) [length pre..<length pre + length ys] (pre @ x # ys @ zs) =
     Inr (pre @ bubble x ys @ zs)"
proof (induction ys arbitrary: pre x)
  case (Cons y ys)
  have upt: "[length pre..<length pre + length (y # ys)] = length pre # [Suc (length pre)..<Suc (length pre) + length ys]"
    by (simp add: upt_rec)
  show ?case
    using compare_exchange_next [of "(<)" pre x y "ys @ zs"] Cons.IH [of "pre @ [y]" x] Cons.IH [of "pre @ [x]" y]
    unfolding upt by simp
qed simp

lemma bubble_pass_prefix: "bubble_pass (length ys) (x # ys @ zs) = Inr (bubble x ys @ zs)"
  using bubble_steps [of "[]" ys x zs] by (simp add: bubble_pass_def)

abbreviation descending :: "'a::linorder list \<Rightarrow> bool" where
  "descending \<equiv> sorted_wrt (\<ge>)"

lemma bubble_loop:
  assumes "length ps = Suc m" "m \<le> n" "descending zs" "\<forall>p \<in> set ps. \<forall>z \<in> set zs. z \<le> p"
  shows "\<exists>ys. foldE (\<lambda>i. bubble_pass (n - i)) [n - m..<n] (ps @ zs) = Inr ys \<and> mset ys = mset (ps @ zs) \<and> descending ys"
  using assms
proof (induction m arbitrary: ps zs)
  case 0
  then obtain p where "ps = [p]" by (auto simp: length_Suc_conv)
  with 0 show ?case by simp
next
  case (Suc m)
  then obtain x ys where ps: "ps = x # ys" "length ys = Suc m" by (auto simp: length_Suc_conv)
  let ?b = "bubble x ys"
  have b: "butlast ?b @ [last ?b] = ?b" using length_bubble [of x ys] by (metis append_butlast_last_id length_0_conv nat.distinct(1))
  have set_b: "set ?b = set ps" using mset_bubble [of x ys] ps(1) by (metis mset.simps(2) mset_eq_setD)
  have "descending (last ?b # zs)" "\<forall>p \<in> set (butlast ?b). \<forall>z \<in> set (last ?b # zs). z \<le> p"
    using Suc.prems(3,4) last_bubble [of _ x ys] set_b ps(1) in_set_butlastD [of _ ?b] last_in_set [of ?b] b by fastforce+
  then obtain zs' where zs': "foldE (\<lambda>i. bubble_pass (n - i)) [n - m..<n] (butlast ?b @ last ?b # zs) = Inr zs'"
      "mset zs' = mset (butlast ?b @ last ?b # zs)" "descending zs'"
    using Suc.IH [of "butlast ?b" "last ?b # zs"] Suc.prems(2) ps(2) by auto
  have e: "butlast ?b @ last ?b # zs = ?b @ zs" using b by (metis append.assoc append_Cons append_Nil)
  have "[n - Suc m..<n] = (n - Suc m) # [n - m..<n]" using Suc.prems(2) by (metis Suc_diff_Suc Suc_le_lessD diff_less upt_conv_Cons zero_less_Suc less_le_trans)
  moreover have "bubble_pass (n - (n - Suc m)) (ps @ zs) = Inr (?b @ zs)"
    using bubble_pass_prefix [of ys x zs] ps Suc.prems(2) by simp
  ultimately show ?case using zs' ps(1) mset_bubble [of x ys] by (simp add: e)
qed

lemma bubble_sort_sorts:
  assumes "xs \<noteq> []"
  shows "\<exists>ys. bubble_sort xs = Inr ys \<and> mset ys = mset xs \<and> descending ys"
proof -
  have "length xs = Suc (size_pred (length xs))" using assms by (simp add: size_pred_def)
  then show ?thesis using bubble_loop [of xs "size_pred (length xs)" "size_pred (length xs)" "[]"] by (simp add: bubble_sort_def)
qed

section \<open>Insertion sort\<close>

text \<open>The way of an element down the sorted part, which is given in reverse.\<close>

fun sink_in :: "'a::linorder list \<Rightarrow> 'a \<Rightarrow> 'a list \<Rightarrow> 'a list" where
  "sink_in [] v zs = v # zs"
| "sink_in (y # rp) v zs = (if v > y then sink_in rp v (y # zs) else sink_in rp y (v # zs))"

lemma compare_exchange_prev:
  "compare_exchange wrong (Suc (length pre)) (length pre) (pre @ x # y # zs) =
     Inr (if wrong y x then pre @ y # x # zs else pre @ x # y # zs)"
  by (simp add: compare_exchange_def ary_at_def exchange_def nth_append list_update_append)

lemma insert_down_prefix: "insert_down (length p) (p @ v # zs) = Inr (sink_in (rev p) v zs)"
proof (induction p arbitrary: v zs rule: rev_induct)
  case (snoc y p)
  have "rev [1..<length (p @ [y]) + 1] = Suc (length p) # rev [1..<length p + 1]" by simp
  then have "insert_down (length (p @ [y])) ((p @ [y]) @ v # zs) =
      bindE (compare_exchange (>) (Suc (length p)) (length p) (p @ y # v # zs)) (insert_down (length p))"
    by (simp add: insert_down_def)
  also have "\<dots> = insert_down (length p) (if v > y then p @ v # y # zs else p @ y # v # zs)"
    by (simp only: compare_exchange_prev bindE.simps)
  finally show ?case using snoc.IH [of v "y # zs"] snoc.IH [of y "v # zs"] by simp
qed (simp add: insert_down_def)

lemma sink_in_sorts:
  "descending (rev rp) \<Longrightarrow> \<exists>ys. sink_in rp v zs = ys @ zs \<and> mset ys = add_mset v (mset rp) \<and> descending ys"
proof (induction rp arbitrary: v zs)
  case (Cons y rp)
  have y: "descending (rev rp)" "\<forall>x \<in> set rp. y \<le> x" using Cons.prems by (auto simp: sorted_wrt_append)
  show ?case
  proof (cases "v > y")
    case True
    obtain ys where ys: "sink_in rp v (y # zs) = ys @ y # zs" "mset ys = add_mset v (mset rp)" "descending ys"
      using Cons.IH [OF y(1)] by blast
    have "set ys = insert v (set rp)" using ys(2) by (metis mset.simps(2) mset_eq_setD list.simps(15))
    then have "descending (ys @ [y])" using ys(3) y(2) True by (auto simp: sorted_wrt_append)
    with True ys show ?thesis by (intro exI [of _ "ys @ [y]"]) simp
  next
    case False
    obtain ys where ys: "sink_in rp y (v # zs) = ys @ v # zs" "mset ys = add_mset y (mset rp)" "descending ys"
      using Cons.IH [OF y(1)] by blast
    have "set ys = insert y (set rp)" using ys(2) by (metis mset.simps(2) mset_eq_setD list.simps(15))
    then have "descending (ys @ [v])" using ys(3) y(2) False by (auto simp: sorted_wrt_append)
    with False ys show ?thesis by (intro exI [of _ "ys @ [v]"]) simp
  qed
qed simp

lemma insert_loop:
  "descending p \<Longrightarrow> \<exists>ys. foldE insert_down [length p..<length p + length zs] (p @ zs) = Inr ys \<and>
     mset ys = mset (p @ zs) \<and> descending ys"
proof (induction zs arbitrary: p)
  case (Cons v zs)
  obtain q where q: "sink_in (rev p) v zs = q @ zs" "mset q = add_mset v (mset p)" "descending q"
    using sink_in_sorts [of "rev p" v zs] Cons.prems by auto
  have "length q = Suc (length p)" using q(2) by (metis mset.simps(2) size_mset length_Cons)
  moreover have "[length p..<length p + length (v # zs)] = length p # [Suc (length p)..<Suc (length p) + length zs]"
    by (simp add: upt_rec)
  ultimately show ?case using Cons.IH [OF q(3)] insert_down_prefix [of p v zs] q(1,2) by simp
qed simp

lemma insert_sort_sorts: "\<exists>ys. insert_sort xs = Inr ys \<and> mset ys = mset xs \<and> descending ys"
proof (cases xs)
  case (Cons x zs)
  then show ?thesis using insert_loop [of "[x]" zs] by (simp add: insert_sort_def)
qed (simp add: insert_sort_def)

section \<open>Selection sort\<close>

lemma exchange_simps [simp]:
  "length (exchange i j xs) = length xs"
  "i < length xs \<Longrightarrow> j < length xs \<Longrightarrow> mset (exchange i j xs) = mset xs"
  by (simp_all add: exchange_def mset_swap)

lemma exchange_nth:
  "i < length xs \<Longrightarrow> j < length xs \<Longrightarrow> k < length xs \<Longrightarrow>
     exchange i j xs ! k = (if k = j then xs ! i else if k = i then xs ! j else xs ! k)"
  by (simp add: exchange_def nth_list_update)

lemma select_loop:
  fixes xs :: "'a::linorder list"
  shows "i \<le> m \<Longrightarrow> m < k \<Longrightarrow> \<forall>b. i \<le> b \<and> b < k \<longrightarrow> xs ! b \<le> xs ! m \<Longrightarrow> k + n = length xs \<Longrightarrow>
   let r = fold (\<lambda>j max_i. if xs ! j > xs ! max_i then j else max_i) [k..<k + n] m
   in i \<le> r \<and> r < length xs \<and> (\<forall>b. i \<le> b \<and> b < length xs \<longrightarrow> xs ! b \<le> xs ! r)"
proof (induction n arbitrary: k m)
  case (Suc n)
  let ?m = "if xs ! k > xs ! m then k else m"
  have upt: "[k..<k + Suc n] = k # [Suc k..<Suc k + n]" by (simp add: upt_rec)
  have "xs ! b \<le> xs ! ?m" if "i \<le> b" "b < Suc k" for b
  proof (cases "b = k")
    case False
    then have "xs ! b \<le> xs ! m" using that Suc.prems(3) by simp
    then show ?thesis using order.trans [of "xs ! b" "xs ! m" "xs ! k"] by (simp add: less_imp_le)
  qed auto
  moreover have "i \<le> ?m" "?m < Suc k" "Suc k + n = length xs" using Suc.prems by auto
  ultimately show ?case using Suc.IH [of ?m "Suc k"] unfolding upt by (simp only: fold_simps) blast
qed (simp add: Let_def)

lemma select_max_spec:
  assumes "i < length xs"
  shows "i \<le> select_max i xs" "select_max i xs < length xs" "i \<le> b \<Longrightarrow> b < length xs \<Longrightarrow> xs ! b \<le> xs ! select_max i xs"
proof -
  have "\<forall>b. i \<le> b \<and> b < i + 1 \<longrightarrow> xs ! b \<le> xs ! i" by (auto simp: less_Suc_eq)
  then show "i \<le> select_max i xs" "select_max i xs < length xs" "i \<le> b \<Longrightarrow> b < length xs \<Longrightarrow> xs ! b \<le> xs ! select_max i xs"
    using select_loop [of i i "i + 1" xs "length xs - (i + 1)"] assms by (simp_all add: select_max_def Let_def)
qed

text \<open>The first \<open>i\<close> places hold what belongs there.\<close>

definition settled :: "nat \<Rightarrow> 'a::linorder list \<Rightarrow> bool" where
  "settled i xs \<longleftrightarrow> (\<forall>a b. a < i \<and> a < b \<and> b < length xs \<longrightarrow> xs ! b \<le> xs ! a)"

lemma settled_exchange:
  assumes "i < length xs" "settled i xs"
  shows "settled (Suc i) (exchange i (select_max i xs) xs)"
  unfolding settled_def
proof (intro allI impI)
  fix a b
  assume ab: "a < Suc i \<and> a < b \<and> b < length (exchange i (select_max i xs) xs)"
  let ?m = "select_max i xs"
  have m: "i \<le> ?m" "?m < length xs" using select_max_spec [OF assms(1)] by auto
  obtain b' where b': "exchange i ?m xs ! b = xs ! b'" "b' < length xs" "b' = b \<or> i \<le> b'"
    using exchange_nth [OF assms(1) m(2), of b] ab m assms(1) by (cases "b = ?m"; cases "b = i") auto
  show "exchange i ?m xs ! b \<le> exchange i ?m xs ! a"
  proof (cases "a = i")
    case True
    have "exchange i ?m xs ! i = xs ! ?m" using exchange_nth [OF assms(1) m(2), of i] assms(1) by auto
    then show ?thesis using True b' ab select_max_spec(3) [OF assms(1), of b'] by auto
  next
    case False
    then have "exchange i ?m xs ! a = xs ! a" using exchange_nth [OF assms(1) m(2), of a] ab m assms(1) by auto
    then show ?thesis using False b' ab assms(2) by (auto simp: settled_def)
  qed
qed

lemma selection_loop:
  "k \<le> length xs \<Longrightarrow>
   let ys = fold (\<lambda>i ys. exchange i (select_max i ys) ys) [0..<k] xs
   in length ys = length xs \<and> mset ys = mset xs \<and> settled k ys"
proof (induction k)
  case 0
  then show ?case by (simp add: settled_def Let_def)
next
  case (Suc k)
  let ?ys = "fold (\<lambda>i ys. exchange i (select_max i ys) ys) [0..<k] xs"
  have ys: "length ?ys = length xs" "mset ?ys = mset xs" "settled k ?ys" using Suc by (simp_all add: Let_def)
  then have k: "k < length ?ys" using Suc.prems by simp
  show ?case using ys settled_exchange [OF k ys(3)] k select_max_spec(2) [OF k] by (simp add: Let_def)
qed

lemma selection_sort_sorts: "mset (selection_sort xs) = mset xs \<and> descending (selection_sort xs)"
  using selection_loop [of "length xs" xs]
  by (auto simp: selection_sort_def Let_def settled_def sorted_wrt_iff_nth_less)

section \<open>What a sorting routine promises\<close>

text \<open>
  The contract of the routines on arrays that are not empty: they end without a fault, permute the
  elements and leave them in descending order. This determines the result.
\<close>

locale descending_sorter =
  fixes sorter :: "'a::linorder list \<Rightarrow> 'a list res"
  assumes sorts: "xs \<noteq> [] \<Longrightarrow> \<exists>ys. sorter xs = Inr ys \<and> mset ys = mset xs \<and> descending ys"
begin

lemma sorter_result: "xs \<noteq> [] \<Longrightarrow> sorter xs = Inr (rev (sort xs))"
proof -
  assume "xs \<noteq> []"
  then obtain ys where ys: "sorter xs = Inr ys" "mset ys = mset xs" "descending ys" using sorts by blast
  then have "sorted (rev ys)" by (simp add: sorted_wrt_rev)
  with ys(2) have "sort xs = rev ys" by (intro properties_for_sort) simp_all
  with ys(1) show ?thesis by simp
qed

lemma sorter_permuted: "xs \<noteq> [] \<Longrightarrow> mset xs = mset ys \<Longrightarrow> sorter xs = sorter ys"
  using sorter_result [of xs] sorter_result [of ys] by (metis mset_zero_iff properties_for_sort sorted_sort mset_sort)

end

interpretation bubble: descending_sorter bubble_sort
  by unfold_locales (rule bubble_sort_sorts)

interpretation insertion: descending_sorter insert_sort
  by unfold_locales (rule insert_sort_sorts)

interpretation selection: descending_sorter "\<lambda>xs. Inr (selection_sort xs)"
  using selection_sort_sorts by unfold_locales blast

section \<open>Properties\<close>

lemma bubble_sort_empty: "bubble_sort ([] :: 'a::linorder list) = Inl HeapOverrun"
proof -
  have n: "[0..<2 ^ 64 - Suc 0] = 0 # [Suc 0..<2 ^ 64 - Suc 0]" by (rule upt_conv_Cons) simp
  have "compare_exchange (<) 0 (0 + 1) ([] :: 'a list) = Inl HeapOverrun" by (simp add: compare_exchange_def ary_at_def)
  then have "bubble_pass (2 ^ 64 - 1) ([] :: 'a list) = Inl HeapOverrun"
    unfolding bubble_pass_def One_nat_def n by simp
  then show ?thesis unfolding bubble_sort_def size_pred_def One_nat_def by (simp only: list.size simp_thms if_True n foldE.simps diff_zero bindE.simps)
qed

text \<open>
  C29: insertion sort and selection sort, with their loops over indices, give the elements of
  every array in descending order, and bubble sort does so for every array that is not empty; on
  an empty one it reads outside of the array, since the length minus one wraps around.
\<close>

theorem sorts_agree:
  "insert_sort xs = Inr (rev (sort xs)) \<and> selection_sort xs = rev (sort xs) \<and>
   bubble_sort xs = (if xs = [] then Inl HeapOverrun else Inr (rev (sort xs)))"
proof (cases "xs = []")
  case True
  then show ?thesis using bubble_sort_empty by (simp add: insert_sort_def selection_sort_def)
next
  case False
  then show ?thesis using bubble.sorter_result [OF False] insertion.sorter_result [OF False] selection.sorter_result [OF False] by simp
qed

text \<open>where \<^verbatim>\<open>op_4\<close> returns, it returns its four elements in descending order.\<close>

theorem op_4_descending:
  assumes "op_4 ary = Inr (w, x, y, z)"
  shows "mset [w, x, y, z] = mset ary \<and> descending [w, x, y, z]"
proof -
  have "length ary = 4" using assms by (simp add: op_4_def fault_simps)
  then obtain p q r s where "ary = [p, q, r, s]" by (auto simp: numeral_eq_Suc length_Suc_conv)
  then show ?thesis using assms by (auto simp: op_4_def Let_def not_le split: if_splits)
qed

theorem op_4_descending_witness: "op_4 [1, 2, 9, 7 :: int] = Inr (9, 7, 2, 1) \<and> descending [9, 7, 2, 1 :: int]"
proof -
  have r: "op_4 [1, 2, 9, 7 :: int] = Inr (9, 7, 2, 1)" by (simp add: op_4_def)
  with op_4_descending [OF r] show ?thesis by simp
qed

end
