(* ===== verification/Spin_Lock.thy ===== *)
theory Spin_Lock
  imports Main
begin

text \<open>
  \<^verbatim>\<open>tools/Spinlocker.h\<close>: a lock that is one atomic flag, \<open>lock\<close> a loop around \<^verbatim>\<open>test_and_set\<close>. The
  threads that share a lock are a list; a step is one atomic access of one thread.
\<close>

section \<open>The lock and its users\<close>

text \<open>A thread is outside, in the loop of \<open>lock\<close>, or between \<open>lock\<close> and \<open>unlock\<close>.\<close>

datatype spin_pc = Outside | Spinning | Holding

record spin_state =
  sl_locker :: bool
  sl_threads :: "spin_pc list"

definition test_and_set :: "bool \<Rightarrow> bool \<times> bool" where
  "test_and_set flag = (flag, True)"

text \<open>One round of the loop: the thread leaves it when the flag was clear before.\<close>

definition spin_lock :: "nat \<Rightarrow> spin_state \<Rightarrow> spin_state" where
  "spin_lock i s =
     (let (was, now) = test_and_set (sl_locker s)
      in s\<lparr>sl_locker := now, sl_threads := (sl_threads s)[i := if was then Spinning else Holding]\<rparr>)"

definition spin_unlock :: "nat \<Rightarrow> spin_state \<Rightarrow> spin_state" where
  "spin_unlock i s = s\<lparr>sl_locker := False, sl_threads := (sl_threads s)[i := Outside]\<rparr>"

definition spin_new :: "nat \<Rightarrow> spin_state" where
  "spin_new n = \<lparr>sl_locker = False, sl_threads = replicate n Outside\<rparr>"

inductive spin_step :: "spin_state \<Rightarrow> spin_state \<Rightarrow> bool" where
  call: "i < length (sl_threads s) \<Longrightarrow> sl_threads s ! i = Outside \<Longrightarrow>
    spin_step s (s\<lparr>sl_threads := (sl_threads s)[i := Spinning]\<rparr>)"
| attempt: "i < length (sl_threads s) \<Longrightarrow> sl_threads s ! i = Spinning \<Longrightarrow> spin_step s (spin_lock i s)"
| release: "i < length (sl_threads s) \<Longrightarrow> sl_threads s ! i = Holding \<Longrightarrow> spin_step s (spin_unlock i s)"

inductive_cases spin_stepE: "spin_step s s'"

section \<open>Invariant\<close>

definition holders :: "spin_state \<Rightarrow> nat set" where
  "holders s = {i. i < length (sl_threads s) \<and> sl_threads s ! i = Holding}"

text \<open>The flag is set exactly while one thread holds the lock, and there is only one.\<close>

definition spin_inv :: "spin_state \<Rightarrow> bool" where
  "spin_inv s \<longleftrightarrow> (if sl_locker s then \<exists>i. holders s = {i} else holders s = {})"

lemma holders_update:
  "i < length (sl_threads s) \<Longrightarrow>
   holders (s\<lparr>sl_locker := b, sl_threads := (sl_threads s)[i := pc]\<rparr>) = (if pc = Holding then insert i (holders s) else holders s - {i})"
  by (auto simp: holders_def nth_list_update)

lemma holders_threads:
  "i < length (sl_threads s) \<Longrightarrow>
   holders (s\<lparr>sl_threads := (sl_threads s)[i := pc]\<rparr>) = (if pc = Holding then insert i (holders s) else holders s - {i})"
  by (auto simp: holders_def nth_list_update)

lemma spin_step_inv: "spin_step s s' \<Longrightarrow> spin_inv s \<Longrightarrow> spin_inv s'"
proof (induction rule: spin_step.induct)
  case (call i s)
  then have "i \<notin> holders s" by (simp add: holders_def)
  with call show ?case by (simp add: spin_inv_def holders_threads)
next
  case (attempt i s)
  then have "i \<notin> holders s" by (simp add: holders_def)
  with attempt show ?case by (auto simp: spin_inv_def spin_lock_def test_and_set_def holders_update)
next
  case (release i s)
  then have "i \<in> holders s" by (simp add: holders_def)
  with release show ?case by (auto simp: spin_inv_def spin_unlock_def holders_update split: if_splits)
qed

lemma spin_reach_inv: "spin_step\<^sup>*\<^sup>* (spin_new n) s \<Longrightarrow> spin_inv s \<and> length (sl_threads s) = n"
proof (induction rule: rtranclp_induct)
  case base
  then show ?case by (auto simp: spin_inv_def spin_new_def holders_def)
next
  case (step s s')
  have "length (sl_threads s') = length (sl_threads s)"
    using step.hyps(2) by (auto elim!: spin_stepE simp: spin_lock_def spin_unlock_def Let_def split_def)
  with step spin_step_inv show ?case by metis
qed

section \<open>Properties\<close>

text \<open>
  C39: however users that lock before they unlock are interleaved, at most one of them holds the lock, and while nobody does,
  any thread in the loop gets it with its next attempt.
\<close>

theorem spinlock_exclusive:
  assumes "spin_step\<^sup>*\<^sup>* (spin_new n) s"
  shows "(\<forall>i j. i < n \<and> j < n \<and> sl_threads s ! i = Holding \<and> sl_threads s ! j = Holding \<longrightarrow> i = j) \<and>
    (Holding \<notin> set (sl_threads s) \<longrightarrow>
       (\<forall>i. i < n \<and> sl_threads s ! i = Spinning \<longrightarrow> spin_step s (spin_lock i s) \<and> sl_threads (spin_lock i s) ! i = Holding))"
proof -
  have inv: "spin_inv s" "length (sl_threads s) = n" using spin_reach_inv [OF assms] by auto
  have "i = j" if "i < n \<and> j < n \<and> sl_threads s ! i = Holding \<and> sl_threads s ! j = Holding" for i j
  proof -
    have "i \<in> holders s" "j \<in> holders s" using that inv(2) by (simp_all add: holders_def)
    then show ?thesis using inv(1) by (auto simp: spin_inv_def split: if_splits)
  qed
  moreover have "spin_step s (spin_lock i s) \<and> sl_threads (spin_lock i s) ! i = Holding"
    if "Holding \<notin> set (sl_threads s)" "i < n" "sl_threads s ! i = Spinning" for i
  proof -
    have "holders s = {}" using that(1) by (auto simp: holders_def) (metis nth_mem)
    then have "\<not> sl_locker s" using inv(1) by (auto simp: spin_inv_def)
    then show ?thesis using that inv(2) spin_step.attempt [of i s] by (simp add: spin_lock_def test_and_set_def)
  qed
  ultimately show ?thesis by blast
qed

theorem spinlock_exclusive_witness:
  "\<exists>s. spin_step\<^sup>*\<^sup>* (spin_new 2) s \<and> sl_threads s = [Spinning, Outside] \<and> spin_step s (spin_lock 0 s) \<and> sl_threads (spin_lock 0 s) ! 0 = Holding"
proof -
  let ?s = "\<lparr>sl_locker = False, sl_threads = [Spinning, Outside]\<rparr>"
  have "spin_step (spin_new 2) ?s"
    using spin_step.call [of 0 "spin_new 2"] by (simp add: spin_new_def numeral_2_eq_2)
  then have r: "spin_step\<^sup>*\<^sup>* (spin_new 2) ?s" by blast
  from spinlock_exclusive [OF r] r show ?thesis by (intro exI [of _ ?s]) simp
qed

end
