(* ===== verification/Tools_Files.thy ===== *)
theory Tools_Files
  imports Bundle_Prelude
begin

text \<open>
  The questions \<^verbatim>\<open>tools/Tools.cpp\<close> asks the file system: kind, presence, permissions and size of a
  file, and its content.
\<close>

section \<open>The file system\<close>

text \<open>
  What \<^verbatim>\<open>stat\<close> finds under a name: a regular file with its bytes, or a directory with the size the
  file system reports for it. \<open>fs_may\<close> is the answer on permissions for what is there.
\<close>

datatype file_entry = RegularFile string | DirectoryFile nat

datatype access_mode = R_OK | W_OK | X_OK

record file_system =
  fs_entry :: "string \<rightharpoonup> file_entry"
  fs_may :: "string \<Rightarrow> access_mode \<Rightarrow> bool"

definition isDir :: "file_system \<Rightarrow> string \<Rightarrow> bool" where
  "isDir fs file = (case fs_entry fs file of None \<Rightarrow> False | Some (RegularFile _) \<Rightarrow> False | Some (DirectoryFile _) \<Rightarrow> True)"

definition existDir :: "file_system \<Rightarrow> string \<Rightarrow> bool" where
  "existDir fs file \<longleftrightarrow> fs_entry fs file \<noteq> None"

definition readableDir :: "file_system \<Rightarrow> string \<Rightarrow> bool" where
  "readableDir fs file \<longleftrightarrow> fs_entry fs file \<noteq> None \<and> fs_may fs file R_OK"

definition writableDir :: "file_system \<Rightarrow> string \<Rightarrow> bool" where
  "writableDir fs file \<longleftrightarrow> fs_entry fs file \<noteq> None \<and> fs_may fs file W_OK"

definition accessableDir :: "file_system \<Rightarrow> string \<Rightarrow> bool" where
  "accessableDir fs file \<longleftrightarrow> fs_entry fs file \<noteq> None \<and> fs_may fs file X_OK"

definition getFileSize :: "file_system \<Rightarrow> string \<Rightarrow> u64" where
  "getFileSize fs file =
     (case fs_entry fs file of None \<Rightarrow> 0 | Some (RegularFile s) \<Rightarrow> of_nat (length s) | Some (DirectoryFile n) \<Rightarrow> of_nat n)"

text \<open>
  A stream that did not open, or that stands for a directory, delivers nothing and throws nothing:
  streams throw only where that was asked for.
\<close>

definition ifstream_content :: "file_system \<Rightarrow> string \<Rightarrow> string" where
  "ifstream_content fs file =
     (case fs_entry fs file of Some (RegularFile s) \<Rightarrow> if fs_may fs file R_OK then s else [] | _ \<Rightarrow> [])"

definition loadfile :: "file_system \<Rightarrow> string \<Rightarrow> bool \<times> string" where
  "loadfile fs filename = (True, ifstream_content fs filename)"

section \<open>Properties\<close>

text \<open>
  a file that can be read is loaded whole, with as many bytes as \<^verbatim>\<open>getFileSize\<close> tells; a file that
  is not there or cannot be read is reported as loaded, and empty.
\<close>

theorem loadfile_result:
  assumes "length s < 2 ^ 64"
  shows "(fs_entry fs f = Some (RegularFile s) \<and> readableDir fs f \<longrightarrow>
       loadfile fs f = (True, s) \<and> unat (getFileSize fs f) = length s) \<and>
    (\<not> readableDir fs f \<or> isDir fs f \<longrightarrow> loadfile fs f = (True, []))"
  using assms
  by (auto simp: loadfile_def ifstream_content_def readableDir_def getFileSize_def isDir_def unat_of_nat split: option.splits file_entry.splits)

theorem loadfile_result_witness:
  "loadfile \<lparr>fs_entry = [''a'' \<mapsto> RegularFile ''text''], fs_may = \<lambda>_ _. True\<rparr> ''a'' = (True, ''text'') \<and>
   loadfile \<lparr>fs_entry = [''a'' \<mapsto> RegularFile ''text''], fs_may = \<lambda>_ _. True\<rparr> ''b'' = (True, [])"
  using loadfile_result [of "''text''" "\<lparr>fs_entry = [''a'' \<mapsto> RegularFile ''text''], fs_may = \<lambda>_ _. True\<rparr>" "''a''"]
    loadfile_result [of "''text''" "\<lparr>fs_entry = [''a'' \<mapsto> RegularFile ''text''], fs_may = \<lambda>_ _. True\<rparr>" "''b''"]
  by (simp add: readableDir_def)

end
