(* ===== verification/Spec2Isabelle.thy ===== *)
theory Spec2Isabelle
  imports Tools_System Registry_Config Http_Parser Net_Service Web_Socket Fast_Cgi Record_Server Message_Queue Easylog Csv_Reader
    Thread_Pool Entry_Manager Record_Startup Message_Dispatch Web_Server
    Process_Runtime Graph_Spread Array_Sorts Spin_Lock Tools_Files
begin

text \<open>
  \<^bold>\<open>Verification of libbundle\<close>

  libbundle is a C++ library for network servers. Its core is a stack of socket components:
  a \<^emph>\<open>socket server\<close> or \<^emph>\<open>client\<close> owns worker threads; every worker polls its connections,
  cuts the incoming bytes into messages with a \<^emph>\<open>splitter\<close> that the protocol supplies, and
  exchanges messages with the application through queues. Protocols are built on top of the
  server: length-prefixed binary messages (\<^verbatim>\<open>NetworkService\<close>, \<^verbatim>\<open>NetworkClient\<close>), WebSocket
  (\<^verbatim>\<open>WebSocketServer\<close>) and FastCGI (\<^verbatim>\<open>CgiServer\<close>). The record server, a service on top of the
  binary messages, keeps entities in MySQL databases for record clients. Beside them stand codecs (Base64, SHA-1,
  HTTP text), a byte buffer, the configuration registry and a collection of tools.

  \<^bold>\<open>Theories and sources\<close> (paths below \<^verbatim>\<open>src/src\<close>)

  \<^item> \<^verbatim>\<open>Bundle_Prelude\<close>: machine integers, faults and their sequencing, object representations,
    text. A failed \<^verbatim>\<open>assert\<close> of the sources aborts the program and is a fault of the model;
    an access outside an allocated block, a null pointer and a deleted object are faults, too.
  \<^item> \<^verbatim>\<open>Byte_Buffer\<close>: \<^verbatim>\<open>tools/ByteBuffer.cpp\<close>, the growing buffer with a read and a write position.
    It refines a queue of bytes, and what the stream operators write they read back.
  \<^item> \<^verbatim>\<open>Base64\<close>, \<^verbatim>\<open>Sha1\<close>: \<^verbatim>\<open>base64/base64.cpp\<close>, \<^verbatim>\<open>sha/sha1.cpp\<close>, each proved equal to a
    definition that follows the standard (RFC 4648, FIPS 180).
  \<^item> \<^verbatim>\<open>Tools_Text\<close>, \<^verbatim>\<open>Tools_System\<close>: \<^verbatim>\<open>tools/Tools.cpp\<close>, text and system routines.
  \<^item> \<^verbatim>\<open>Registry_Config\<close>: \<^verbatim>\<open>tools/Registry.cpp\<close>, \<^verbatim>\<open>config/Config.cpp\<close>, \<^verbatim>\<open>xml/XmlParser.cpp\<close>.
  \<^item> \<^verbatim>\<open>Process_Runtime\<close>: the process around a program: paths, the process title over the memory of
    the arguments, \<^verbatim>\<open>Config::init\<close> with the guard process, limits, and \<^verbatim>\<open>init_runtime_environment\<close>,
    which puts configuration, log and signals together.
  \<^item> \<^verbatim>\<open>Http_Parser\<close>: \<^verbatim>\<open>tools/HttpParser.cpp\<close>, the incremental parser of requests and answers.
  \<^item> \<^verbatim>\<open>Socket_Message\<close>, \<^verbatim>\<open>Socket_Layer\<close>: \<^verbatim>\<open>socket/Helper.cpp\<close>, \<^verbatim>\<open>socket/Socket.cpp\<close>: messages and one
    connection with its buffers. The locale \<^verbatim>\<open>message_spliter\<close> is the contract between a
    connection and a protocol; the delivery theorems are proved once in it.
  \<^item> \<^verbatim>\<open>Worker_Process\<close>: \<^verbatim>\<open>socket/WorkerProcess.cpp\<close>, \<^verbatim>\<open>socket/Poll.cpp\<close>: the turn of a worker thread,
    as a function and as a step relation with an invariant over all reachable states. Every call of
    \<^verbatim>\<open>epoll_ctl\<close> may fail; the poll set follows the table but for the failures that were logged.
  \<^item> \<^verbatim>\<open>Socket_Server\<close>: \<^verbatim>\<open>socket/SocketServer.cpp\<close>, \<^verbatim>\<open>socket/SocketClient.cpp\<close>.
  \<^item> \<^verbatim>\<open>Net_Service\<close>: \<^verbatim>\<open>net/NetworkService.cpp\<close>, \<^verbatim>\<open>net/NetworkClient.cpp\<close>.
  \<^item> \<^verbatim>\<open>Web_Socket\<close>: \<^verbatim>\<open>socket/WebSocketServer.cpp\<close>.
  \<^item> \<^verbatim>\<open>Clock_Time\<close>: \<^verbatim>\<open>time/Time.cpp\<close>, \<^verbatim>\<open>Time.h\<close>, \<^verbatim>\<open>Timer.h\<close> and the time stamps of
    \<^verbatim>\<open>tools/Tools.cpp\<close>, against a calendar that is defined and proved correct here.
  \<^item> \<^verbatim>\<open>Fast_Cgi\<close>: \<^verbatim>\<open>socket/CgiServer.cpp\<close>: the records of requests and answers, parameters and input in any
    number of records, the table of requests.
  \<^item> \<^verbatim>\<open>Message_Queue\<close>: \<^verbatim>\<open>net/MessageQueueService.cpp\<close>, \<^verbatim>\<open>MessageQueueClient.cpp\<close>,
    \<^verbatim>\<open>MessageQueue.cpp\<close>, the binary messages over ZeroMQ, which is a record of functions; the
    theorems name what they rely on of it (\<open>zmq_transport\<close>), refused messages included.
  \<^item> \<^verbatim>\<open>Easylog\<close>: \<^verbatim>\<open>easylog/Easylog.cpp\<close> and \<^verbatim>\<open>LockfreeQueue.h\<close>: settings, files and console,
    and the threads that log beside the one that writes, as a step relation: order in every
    interleaving, and progress of the writer in every schedule, counted in its own steps.
  \<^item> \<^verbatim>\<open>Csv_Lines\<close>, \<^verbatim>\<open>Csv_Values\<close>, \<^verbatim>\<open>Csv_Reader\<close>: \<^verbatim>\<open>csv/CsvReader.h\<close> and \<^verbatim>\<open>csv/CsvParser.h\<close>. The reader of lines with
    its buffer of three blocks refines the list of lines of a file, with or without a line feed at its
    end and a byte order mark at its beginning; the locale \<^verbatim>\<open>line_source\<close> is
    what the table reader relies on of it. Floating point values are terms of operations, whose
    exact value is the decimal number that is read.
  \<^item> \<^verbatim>\<open>Thread_Pool\<close>: \<^verbatim>\<open>threadpool/ThreadPool.h\<close>, workers, callers and destructor as a step relation;
    every schedule of a pool with workers runs all tasks, within a bound that grows with the number of
    spurious wake-ups; the destructor can hang.
  \<^item> \<^verbatim>\<open>Spin_Lock\<close>: \<^verbatim>\<open>tools/Spinlocker.h\<close>, mutual exclusion over all interleavings.
  \<^item> \<^verbatim>\<open>Tools_Files\<close>: the questions of \<^verbatim>\<open>tools/Tools.cpp\<close> to the file system.
  \<^item> \<^verbatim>\<open>Graph_Spread\<close>, \<^verbatim>\<open>Array_Sorts\<close>: the algorithms under \<^verbatim>\<open>src/tests/graph\<close>. Spreading a message through
    a graph finds the least costs of ways, by the invariant of the shortest path algorithm; the locale
    \<^verbatim>\<open>descending_sorter\<close> is what the three sorting routines promise, and determines their result.
  \<^item> \<^verbatim>\<open>Entry_Manager\<close>: \<^verbatim>\<open>entry/Entry.h\<close>, \<^verbatim>\<open>entry/Manager.h\<close>. The locale \<^verbatim>\<open>entry_table\<close> is what users of a table
    rely on; the manager provides it for any order of its hash table (\<^verbatim>\<open>hash_order\<close>).
  \<^item> \<^verbatim>\<open>My_Sql\<close>: \<^verbatim>\<open>db/MySQL.cpp\<close>, \<^verbatim>\<open>db/MySQLStatement.cpp\<close> over the client library as a record of functions; the
    locale \<^verbatim>\<open>mysql_fetch\<close> states what is documented of fetching rows.
  \<^item> \<^verbatim>\<open>Xml_Nodes\<close>: the accessors of \<^verbatim>\<open>xml/XmlParser.cpp\<close> and \<^verbatim>\<open>entity/EntityDescriptor.cpp\<close>.
  \<^item> \<^verbatim>\<open>Message_Dispatch\<close>: the handler table of \<^verbatim>\<open>net/Netmessage.h\<close> and the gateway, central and log services
    of \<^verbatim>\<open>src/server\<close>.
  \<^item> \<^verbatim>\<open>Web_Server\<close>: \<^verbatim>\<open>socket/WebServer.cpp\<close> over libevent as a record of functions.
  \<^item> \<^verbatim>\<open>Entity_Values\<close>: \<^verbatim>\<open>entity/Entity.cpp\<close>, members whose type follows the last assignment, and their JSON text.
  \<^item> \<^verbatim>\<open>Record_Protocol\<close>: \<^verbatim>\<open>recordclient/RecordClient.cpp\<close> and \<^verbatim>\<open>src/protocol/recordserver.h\<close>: requests as
    the server reads them, and the callbacks of the client for interleaved requests and answers.
  \<^item> \<^verbatim>\<open>Record_Server\<close>: \<^verbatim>\<open>src/server/recordserver\<close>: the statements that store and load an entity,
    the slots of a shard with their caches and queues, and the service in front of them. A slot
    answers the requests it knows, one by one, and a select request never.
  \<^item> \<^verbatim>\<open>Record_Startup\<close>: how the record server opens its databases and shards and stops; a server
    that has started accepts every request for its shards.

  The three protocols interpret \<^verbatim>\<open>message_spliter\<close> on their own splitters (\<open>net\<close>, \<open>ws\<close>,
  \<open>fcgi\<close>), so that reassembly holds for each of them.

  \<^bold>\<open>Modelling\<close>. Classes are records and operations are functions on them that return the
  changed record, with faults as the left part of a sum. Threads are modelled at the
  granularity of their queues: a worker's turn, and a call of the application, each runs as
  a whole. The threads of the log are finer: every access to its queue, its flag and its
  condition variable is a step of its own. The operating system is a record of streams of answers (what a read returns, how
  many bytes a write takes, which descriptors are accepted). Times are arguments. Where the
  standard leaves the order of a container open, the order is an argument.

  \<^bold>\<open>Termination and bounds\<close>. No operation uses fuel: loops are structural or have a measure,
  and the reading loops of a connection, which end because the operating system eventually
  has nothing more to give, are partial functions with values in \<open>option\<close> whose termination
  is part of the theorems. Sizes are natural numbers; theorems about buffers assume that
  their sizes stay below \<open>2 ^ 64\<close>, and lengths that the code keeps in 32 or 16 bits are kept
  there by the model.

  \<^bold>\<open>Not modelled\<close>: see the list of components; mainly glue around libraries that are not part
  of the program (curl, rapidxml, rapidjson, protobuf), generated code, templates that only
  declare, test programs that call and print, and the main functions of the servers. What the
  model leaves out inside a component is said in its theory: wide strings, which are converted
  by the locale of the C library, random numbers beyond the values drawn, and the layouts of
  the log, which are disabled in the source.
\<close>

end
